(* ===== verification/Prelude.thy ===== *)
theory Prelude
  imports Main "HOL-Library.Word" "HOL-Library.Sublist"
begin

text \<open>
  Shared vocabulary of the development: the Go runtime types the components use (bytes,
  instants and durations of package \<open>time\<close>), the collections of simplification and
  introduction rules that the component proofs draw on, and generic list lemmas.

  An instant \<open>time.Time\<close> is the number of nanoseconds since 0001-01-01 00:00 UTC, so the zero
  value of the type, which \<open>IsZero\<close> tests for, is \<open>0\<close>; \<open>Before\<close>, \<open>After\<close>, \<open>Equal\<close> and
  \<open>Add\<close> are \<open><\<close>, \<open>>\<close>, \<open>=\<close> and \<open>+\<close> on it. A \<open>time.Duration\<close> is a signed 64-bit number of
  nanoseconds, and \<open>Sub\<close> saturates at the two ends of that range.
\<close>

named_theorems inv_intros \<open>introduction rules for the component invariants\<close>

named_theorems step_simps \<open>rewrite rules that evaluate one operation of a component\<close>

type_synonym byte = "8 word"
type_synonym gotime = int
type_synonym duration = int

definition zero_time :: gotime where
  "zero_time = 0"

definition Second :: duration where
  "Second = 1000000000"

definition Minute :: duration where
  "Minute = 60 * Second"

definition Hour :: duration where
  "Hour = 60 * Minute"

lemmas duration_defs = Second_def Minute_def Hour_def

definition min_duration :: duration where
  "min_duration = - (2 ^ 63)"

definition max_duration :: duration where
  "max_duration = 2 ^ 63 - 1"

definition time_sub :: "gotime \<Rightarrow> gotime \<Rightarrow> duration" where
  "time_sub a b = max min_duration (min max_duration (a - b))"

lemma time_sub_gt_iff:
  "min_duration \<le> d \<Longrightarrow> d < max_duration \<Longrightarrow> d < time_sub a b \<longleftrightarrow> d < a - b"
  by (auto simp: time_sub_def)

lemma time_sub_exact:
  "min_duration \<le> a - b \<Longrightarrow> a - b \<le> max_duration \<Longrightarrow> time_sub a b = a - b"
  by (simp add: time_sub_def)

lemma Hour_in_range [simp]: "min_duration \<le> Hour" "Hour < max_duration" "0 < Hour"
  by (simp_all add: duration_defs min_duration_def max_duration_def)

text \<open>Generic list facts.\<close>

lemma subseq_butlast: "subseq (butlast xs) xs"
  by (metis append_Nil2 append_butlast_last_id butlast.simps(1) list_emb_append_mono list_emb_Nil
      subseq_order.refl)

lemma subseq_appendD1: "subseq (xs @ ys) zs \<Longrightarrow> subseq xs zs"
  by (metis append_Nil2 list_emb_Nil list_emb_append_mono subseq_order.order_trans subseq_order.refl)

lemmas subseq_append_mono = list_emb_append_mono [where P = "(=)"]

lemma drop_eq_suffix: "suffix (drop k xs) xs"
  by (metis append_take_drop_id suffix_def)

lemma sum_list_nonneg_int: "(\<And>x. x \<in> set xs \<Longrightarrow> (0::int) \<le> f x) \<Longrightarrow> 0 \<le> sum_list (map f xs)"
  by (induction xs) auto

end
