(* ===== verification/FrameQueue.thy ===== *)
theory FrameQueue
  imports Prelude
begin

text \<open>
  The relay's bounded frame queue (\<open>internal/relay/server/framequeue.go\<close>) and the send pump
  that drains it (\<open>internal/relay/server/server.go\<close>, the goroutine of \<open>OpenData\<close>).

  First the sequential operations under the queue's mutex; then the interface they offer, as
  a locale whose clients learn in which order and how often a frame can be delivered; then the
  interleaving of pushers and pumps, with the one-slot \<open>notify\<close> channel, as a step relation.
\<close>

section \<open>The queue and its operations\<close>

datatype frame_direction =
  DIRECTION_UNSPECIFIED | DIRECTION_DAEMON_TO_DEVICE | DIRECTION_DEVICE_TO_DAEMON

record frame =
  WorkspaceId :: string
  SessionId :: "byte list"
  DeviceId :: string
  Direction :: frame_direction
  Sequence :: "64 word"
  Payload :: "byte list"
  Keepalive :: bool

text \<open>The channel \<open>notify\<close> has capacity 1: its state is whether it holds a token.\<close>

record frame_queue =
  fq_notify :: bool
  fq_items :: "frame list"
  fq_cap :: int
  fq_maxBytes :: int
  fq_bytes :: int
  fq_pushed :: int

definition newByteBoundedFrameQueue :: "int \<Rightarrow> int \<Rightarrow> frame_queue" where
  "newByteBoundedFrameQueue capacity maxBytes =
     \<lparr>fq_notify = False, fq_items = [], fq_cap = capacity, fq_maxBytes = maxBytes,
      fq_bytes = 0, fq_pushed = 0\<rparr>"

definition newFrameQueue :: "int \<Rightarrow> frame_queue" where
  "newFrameQueue capacity = newByteBoundedFrameQueue capacity 0"

definition frameBytes :: "frame \<Rightarrow> int" where
  "frameBytes f = int (length (Payload f))"

text \<open>The loop guard that both eviction loops share.\<close>

definition over_bound :: "frame_queue \<Rightarrow> bool" where
  "over_bound q \<longleftrightarrow> length (fq_items q) > 1 \<and>
     (int (length (fq_items q)) > fq_cap q \<or> (fq_maxBytes q > 0 \<and> fq_bytes q > fq_maxBytes q))"

function shrinkLocked :: "frame_queue \<Rightarrow> frame_queue" where
  "shrinkLocked q =
     (if over_bound q
      then shrinkLocked (q\<lparr>fq_bytes := fq_bytes q - frameBytes (hd (fq_items q)),
                           fq_items := tl (fq_items q)\<rparr>)
      else q)"
  by pat_completeness auto
termination
  by (relation "measure (\<lambda>q. length (fq_items q))") (auto simp: over_bound_def)

function shrinkNewest :: "frame_queue \<Rightarrow> frame_queue" where
  "shrinkNewest q =
     (if over_bound q
      then shrinkNewest (q\<lparr>fq_bytes := fq_bytes q - frameBytes (last (fq_items q)),
                           fq_items := butlast (fq_items q)\<rparr>)
      else q)"
  by pat_completeness auto
termination
  by (relation "measure (\<lambda>q. length (fq_items q))") (auto simp: over_bound_def)

declare shrinkLocked.simps [simp del] shrinkNewest.simps [simp del]

text \<open>
  A push is two atomic steps: the critical section, then the non-blocking send on
  \<open>notify\<close>, which leaves the channel full whether or not it was full before.
\<close>

definition push_locked :: "frame \<Rightarrow> frame_queue \<Rightarrow> frame_queue" where
  "push_locked f q =
     shrinkLocked (q\<lparr>fq_items := fq_items q @ [f], fq_pushed := fq_pushed q + 1,
                     fq_bytes := fq_bytes q + frameBytes f\<rparr>)"

definition pushFront_locked :: "frame \<Rightarrow> frame_queue \<Rightarrow> frame_queue" where
  "pushFront_locked f q =
     shrinkNewest (q\<lparr>fq_items := f # fq_items q, fq_bytes := fq_bytes q + frameBytes f\<rparr>)"

definition notify_send :: "frame_queue \<Rightarrow> frame_queue" where
  "notify_send q = q\<lparr>fq_notify := True\<rparr>"

definition push :: "frame \<Rightarrow> frame_queue \<Rightarrow> frame_queue" where
  "push f q = notify_send (push_locked f q)"

definition pushFront :: "frame \<Rightarrow> frame_queue \<Rightarrow> frame_queue" where
  "pushFront f q = notify_send (pushFront_locked f q)"

text \<open>The critical section of one iteration of \<open>pop\<close>; \<open>None\<close> when there is no frame.\<close>

definition pop_locked :: "frame_queue \<Rightarrow> (frame \<times> frame_queue) option" where
  "pop_locked q =
     (case fq_items q of
        [] \<Rightarrow> None
      | f # rest \<Rightarrow> Some (f, q\<lparr>fq_items := rest, fq_bytes := fq_bytes q - frameBytes f\<rparr>))"

definition fq_len :: "frame_queue \<Rightarrow> nat" where
  "fq_len q = length (fq_items q)"

section \<open>Well-formedness and the abstract bound\<close>

text \<open>
  The abstract bound on a buffered sequence: a single frame always fits; more frames fit when
  neither the frame count nor the payload bytes exceed their bound.
\<close>

definition fits :: "int \<Rightarrow> int \<Rightarrow> frame list \<Rightarrow> bool" where
  "fits c b xs \<longleftrightarrow> length xs \<le> 1 \<or>
     (int (length xs) \<le> c \<and> (b > 0 \<longrightarrow> sum_list (map frameBytes xs) \<le> b))"

definition fq_wf :: "frame_queue \<Rightarrow> bool" where
  "fq_wf q \<longleftrightarrow> fq_bytes q = sum_list (map frameBytes (fq_items q)) \<and>
     fits (fq_cap q) (fq_maxBytes q) (fq_items q)"

text \<open>Only the byte count half; it holds in the middle of an operation too.\<close>

definition fq_counted :: "frame_queue \<Rightarrow> bool" where
  "fq_counted q \<longleftrightarrow> fq_bytes q = sum_list (map frameBytes (fq_items q))"

lemma frameBytes_nonneg [simp]: "0 \<le> frameBytes f"
  by (simp add: frameBytes_def)

lemma over_bound_iff_not_fits:
  "fq_counted q \<Longrightarrow> over_bound q \<longleftrightarrow> \<not> fits (fq_cap q) (fq_maxBytes q) (fq_items q)"
  by (auto simp: over_bound_def fits_def fq_counted_def)

lemma fits_Nil [simp]: "fits c b []" and fits_single [simp]: "fits c b [f]"
  by (simp_all add: fits_def)

lemma fits_prefix: "fits c b (xs @ ys) \<Longrightarrow> fits c b xs"
  and fits_suffix: "fits c b (xs @ ys) \<Longrightarrow> fits c b ys"
  using sum_list_nonneg_int [of xs frameBytes] sum_list_nonneg_int [of ys frameBytes]
  by (auto simp: fits_def)

lemma fits_tl: "fits c b (x # xs) \<Longrightarrow> fits c b xs"
  using fits_suffix [of c b "[x]" xs] by simp

text \<open>
  What the eviction loops compute: the loop from the front keeps the longest fitting suffix,
  the loop from the back the longest fitting prefix, and neither touches anything else.
\<close>

fun evict_front :: "int \<Rightarrow> int \<Rightarrow> frame list \<Rightarrow> frame list" where
  "evict_front c b [] = []"
| "evict_front c b (x # xs) = (if fits c b (x # xs) then x # xs else evict_front c b xs)"

lemma evict_front_suffix: "suffix (evict_front c b xs) xs"
  by (induction xs) (auto simp: suffix_ConsI)

lemma evict_front_fits: "fits c b (evict_front c b xs)"
  by (induction xs) auto

lemma evict_front_longest: "suffix ys xs \<Longrightarrow> fits c b ys \<Longrightarrow> suffix ys (evict_front c b xs)"
  by (induction xs) (auto simp: suffix_Cons)

lemma evict_front_last: "xs \<noteq> [] \<Longrightarrow> evict_front c b xs \<noteq> [] \<and> last (evict_front c b xs) = last xs"
proof (induction xs)
  case (Cons x xs)
  then show ?case by (cases xs) auto
qed simp

lemma evict_front_id: "fits c b xs \<Longrightarrow> evict_front c b xs = xs"
  by (cases xs) auto

lemma shrinkLocked_eq:
  "fq_counted q \<Longrightarrow>
   shrinkLocked q = q\<lparr>fq_items := evict_front (fq_cap q) (fq_maxBytes q) (fq_items q),
     fq_bytes := sum_list (map frameBytes (evict_front (fq_cap q) (fq_maxBytes q) (fq_items q)))\<rparr>"
proof (induction q rule: shrinkLocked.induct)
  case (1 q)
  show ?case
  proof (cases "over_bound q")
    case True
    then obtain x xs where items: "fq_items q = x # xs"
      by (cases "fq_items q") (auto simp: over_bound_def)
    let ?q = "q\<lparr>fq_bytes := fq_bytes q - frameBytes (hd (fq_items q)), fq_items := tl (fq_items q)\<rparr>"
    have counted: "fq_counted ?q"
      using "1.prems" items by (simp add: fq_counted_def)
    have "\<not> fits (fq_cap q) (fq_maxBytes q) (x # xs)"
      using True over_bound_iff_not_fits [OF "1.prems"] items by simp
    then show ?thesis
      using True "1.IH" [OF True counted] items by (simp add: shrinkLocked.simps [of q])
  next
    case False
    then have "fits (fq_cap q) (fq_maxBytes q) (fq_items q)"
      using over_bound_iff_not_fits [OF "1.prems"] by simp
    then show ?thesis
      using False "1.prems" by (simp add: shrinkLocked.simps [of q] evict_front_id fq_counted_def)
  qed
qed

lemma shrinkNewest_items:
  "fq_counted q \<Longrightarrow> fq_items q \<noteq> [] \<Longrightarrow>
   \<exists>xs. shrinkNewest q = q\<lparr>fq_items := xs, fq_bytes := sum_list (map frameBytes xs)\<rparr> \<and>
     prefix xs (fq_items q) \<and> xs \<noteq> [] \<and> fits (fq_cap q) (fq_maxBytes q) xs \<and>
     (\<forall>ys. prefix ys (fq_items q) \<longrightarrow> fits (fq_cap q) (fq_maxBytes q) ys \<longrightarrow> prefix ys xs)"
proof (induction q rule: shrinkNewest.induct)
  case (1 q)
  show ?case
  proof (cases "over_bound q")
    case True
    let ?q = "q\<lparr>fq_bytes := fq_bytes q - frameBytes (last (fq_items q)), fq_items := butlast (fq_items q)\<rparr>"
    obtain ys y where items: "fq_items q = ys @ [y]"
      using "1.prems"(2) by (metis append_butlast_last_id)
    have counted: "fq_counted ?q"
      using "1.prems"(1) items by (simp add: fq_counted_def)
    have ne: "fq_items ?q \<noteq> []"
      using True items by (auto simp: over_bound_def)
    have "\<not> fits (fq_cap q) (fq_maxBytes q) (ys @ [y])"
      using True over_bound_iff_not_fits [OF "1.prems"(1)] items by simp
    then have "prefix zs ys" if "prefix zs (ys @ [y])" "fits (fq_cap q) (fq_maxBytes q) zs" for zs
      using that by (auto simp: prefix_snoc)
    then show ?thesis
      using True "1.IH" [OF True counted ne] items
      by (auto simp: shrinkNewest.simps [of q] prefix_snoc)
  next
    case False
    have "q = q\<lparr>fq_items := fq_items q, fq_bytes := sum_list (map frameBytes (fq_items q))\<rparr>"
      using "1.prems"(1) by (cases q) (simp add: fq_counted_def)
    then show ?thesis
      using False "1.prems" over_bound_iff_not_fits [OF "1.prems"(1)]
      by (intro exI [of _ "fq_items q"]) (simp add: shrinkNewest.simps [of q])
  qed
qed

section \<open>What each operation does to the queue\<close>

lemma fq_wf_new [simp, inv_intros]: "fq_wf (newByteBoundedFrameQueue c b)"
  by (simp add: fq_wf_def newByteBoundedFrameQueue_def)

lemma fq_wf_counted: "fq_wf q \<Longrightarrow> fq_counted q"
  by (simp add: fq_wf_def fq_counted_def)

lemma push_items [step_simps]:
  "fq_wf q \<Longrightarrow>
   fq_items (push f q) = evict_front (fq_cap q) (fq_maxBytes q) (fq_items q @ [f])"
  by (subst push_def, subst push_locked_def, subst shrinkLocked_eq)
    (auto simp: notify_send_def fq_counted_def fq_wf_def)

lemma push_wf [inv_intros]: "fq_wf q \<Longrightarrow> fq_wf (push f q)"
  unfolding push_def push_locked_def
  by (subst shrinkLocked_eq) (auto simp: notify_send_def fq_counted_def fq_wf_def evict_front_fits)

lemma push_config [simp]:
  assumes "fq_wf q"
  shows "fq_cap (push f q) = fq_cap q" "fq_maxBytes (push f q) = fq_maxBytes q"
    "fq_notify (push f q)" "fq_pushed (push f q) = fq_pushed q + 1"
proof -
  have "fq_counted (q\<lparr>fq_items := fq_items q @ [f], fq_pushed := fq_pushed q + 1,
                      fq_bytes := fq_bytes q + frameBytes f\<rparr>)"
    using assms by (simp add: fq_wf_def fq_counted_def)
  then show "fq_cap (push f q) = fq_cap q" "fq_maxBytes (push f q) = fq_maxBytes q"
    "fq_notify (push f q)" "fq_pushed (push f q) = fq_pushed q + 1"
    by (simp_all add: push_def push_locked_def notify_send_def shrinkLocked_eq)
qed

lemma pushFront_obtain:
  assumes "fq_wf q"
  obtains xs where
    "pushFront f q = q\<lparr>fq_items := f # xs, fq_bytes := sum_list (map frameBytes (f # xs)),
       fq_notify := True\<rparr>"
    "prefix xs (fq_items q)" "fits (fq_cap q) (fq_maxBytes q) (f # xs)"
    "\<And>ys. prefix ys (f # fq_items q) \<Longrightarrow> fits (fq_cap q) (fq_maxBytes q) ys \<Longrightarrow> prefix ys (f # xs)"
proof -
  let ?q = "q\<lparr>fq_items := f # fq_items q, fq_bytes := fq_bytes q + frameBytes f\<rparr>"
  have "fq_counted ?q" using assms by (simp add: fq_wf_def fq_counted_def)
  from shrinkNewest_items [OF this] obtain zs where zs:
    "shrinkNewest ?q = ?q\<lparr>fq_items := zs, fq_bytes := sum_list (map frameBytes zs)\<rparr>"
    "prefix zs (f # fq_items q)" "zs \<noteq> []" "fits (fq_cap q) (fq_maxBytes q) zs"
    "\<forall>ys. prefix ys (f # fq_items q) \<longrightarrow> fits (fq_cap q) (fq_maxBytes q) ys \<longrightarrow> prefix ys zs"
    by auto
  then obtain xs where "zs = f # xs" "prefix xs (fq_items q)"
    by (cases zs) auto
  with zs show thesis
    by (intro that [of xs]) (auto simp: pushFront_def pushFront_locked_def notify_send_def)
qed

lemma pushFront_config [simp]:
  "fq_wf q \<Longrightarrow> fq_cap (pushFront f q) = fq_cap q \<and> fq_maxBytes (pushFront f q) = fq_maxBytes q"
  by (erule pushFront_obtain [of _ f]) simp

lemma pushFront_wf [inv_intros]: "fq_wf q \<Longrightarrow> fq_wf (pushFront f q)"
  by (erule pushFront_obtain [of _ f]) (simp add: fq_wf_def)

lemma pushFront_items:
  "fq_wf q \<Longrightarrow> \<exists>xs. fq_items (pushFront f q) = f # xs \<and> prefix xs (fq_items q)"
  by (erule pushFront_obtain [of _ f]) auto

lemma pushFront_all:
  assumes "fq_wf q" and "fits (fq_cap q) (fq_maxBytes q) (f # fq_items q)"
  shows "fq_items (pushFront f q) = f # fq_items q"
proof -
  from assms(1) obtain xs where xs: "fq_items (pushFront f q) = f # xs" "prefix xs (fq_items q)"
    and longest: "prefix ys (f # fq_items q) \<Longrightarrow> fits (fq_cap q) (fq_maxBytes q) ys \<Longrightarrow> prefix ys (f # xs)" for ys
    by (rule pushFront_obtain [of _ f]) auto
  have "prefix (fq_items q) xs"
    using longest [of "f # fq_items q"] assms(2) by simp
  with xs(2) have "xs = fq_items q" by (simp add: prefix_order.antisym)
  with xs(1) show ?thesis by simp
qed

lemma pop_items [step_simps]:
  "pop_locked q = Some (f, q') \<longleftrightarrow>
   (\<exists>rest. fq_items q = f # rest \<and> q' = q\<lparr>fq_items := rest, fq_bytes := fq_bytes q - frameBytes f\<rparr>)"
  by (auto simp: pop_locked_def split: list.splits)

lemma pop_None [step_simps]: "pop_locked q = None \<longleftrightarrow> fq_items q = []"
  by (simp add: pop_locked_def split: list.splits)

lemma pop_wf [inv_intros]: "fq_wf q \<Longrightarrow> pop_locked q = Some (f, q') \<Longrightarrow> fq_wf q'"
  by (auto simp: pop_locked_def fq_wf_def fits_tl split: list.splits)

section \<open>The queue as an interface, and its client the send pump\<close>

text \<open>
  The events of one side of a route: \<open>Forward\<close> is the relay pushing a frame for that side
  (\<open>Server.forward\<close>); the other three are the send pump of \<open>OpenData\<close>: it pops a frame, and
  then either sends it or, when its context is cancelled or the send fails, re-queues it at
  the front.
\<close>

datatype 'f pump_event = Forward 'f | PumpPop | PumpSend | PumpRequeue

record ('f, 'q) pump =
  pm_queue :: 'q
  pm_inflight :: "'f option"
  pm_sent :: "'f list"

fun pump_step :: "('f \<Rightarrow> 'q \<Rightarrow> 'q) \<Rightarrow> ('f \<Rightarrow> 'q \<Rightarrow> 'q) \<Rightarrow> ('q \<Rightarrow> ('f \<times> 'q) option) \<Rightarrow>
    'f pump_event \<Rightarrow> ('f, 'q) pump \<Rightarrow> ('f, 'q) pump" where
  "pump_step psh pshf pp (Forward f) s = s\<lparr>pm_queue := psh f (pm_queue s)\<rparr>"
| "pump_step psh pshf pp PumpPop s =
     (case pm_inflight s of
        Some _ \<Rightarrow> s
      | None \<Rightarrow>
          (case pp (pm_queue s) of
             None \<Rightarrow> s
           | Some (f, q) \<Rightarrow> s\<lparr>pm_queue := q, pm_inflight := Some f\<rparr>))"
| "pump_step psh pshf pp PumpSend s =
     (case pm_inflight s of
        None \<Rightarrow> s
      | Some f \<Rightarrow> s\<lparr>pm_inflight := None, pm_sent := pm_sent s @ [f]\<rparr>)"
| "pump_step psh pshf pp PumpRequeue s =
     (case pm_inflight s of
        None \<Rightarrow> s
      | Some f \<Rightarrow> s\<lparr>pm_inflight := None, pm_queue := pshf f (pm_queue s)\<rparr>)"

definition pump_run :: "('f \<Rightarrow> 'q \<Rightarrow> 'q) \<Rightarrow> ('f \<Rightarrow> 'q \<Rightarrow> 'q) \<Rightarrow> ('q \<Rightarrow> ('f \<times> 'q) option) \<Rightarrow>
    'f pump_event list \<Rightarrow> ('f, 'q) pump \<Rightarrow> ('f, 'q) pump" where
  "pump_run psh pshf pp evs s = fold (pump_step psh pshf pp) evs s"

fun forwarded :: "'f pump_event list \<Rightarrow> 'f list" where
  "forwarded [] = []"
| "forwarded (Forward f # evs) = f # forwarded evs"
| "forwarded (_ # evs) = forwarded evs"

lemma forwarded_append [simp]: "forwarded (xs @ ys) = forwarded xs @ forwarded ys"
  by (induction xs rule: forwarded.induct) auto

definition pump_init :: "'q \<Rightarrow> ('f, 'q) pump" where
  "pump_init q = \<lparr>pm_queue = q, pm_inflight = None, pm_sent = []\<rparr>"

locale frame_buffer =
  fixes contents :: "'q \<Rightarrow> 'f list"
    and psh pshf :: "'f \<Rightarrow> 'q \<Rightarrow> 'q"
    and pp :: "'q \<Rightarrow> ('f \<times> 'q) option"
    and fit :: "'q \<Rightarrow> 'f list \<Rightarrow> bool"
    and wf :: "'q \<Rightarrow> bool"
  assumes psh_suffix: "wf q \<Longrightarrow> suffix (contents (psh f q)) (contents q @ [f])"
    and pshf_prefix: "wf q \<Longrightarrow> prefix (contents (pshf f q)) (f # contents q)"
    and pp_Some: "wf q \<Longrightarrow> pp q = Some (f, q') \<Longrightarrow> contents q = f # contents q'"
    and psh_fit: "wf q \<Longrightarrow> fit q (contents q @ [f]) \<Longrightarrow> contents (psh f q) = contents q @ [f]"
    and pshf_fit: "wf q \<Longrightarrow> fit q (f # contents q) \<Longrightarrow> contents (pshf f q) = f # contents q"
    and fit_infix: "fit q (xs @ ys @ zs) \<Longrightarrow> fit q ys"
    and fit_psh: "wf q \<Longrightarrow> fit (psh f q) = fit q"
    and fit_pshf: "wf q \<Longrightarrow> fit (pshf f q) = fit q"
    and fit_pp: "wf q \<Longrightarrow> pp q = Some (f, q') \<Longrightarrow> fit q' = fit q"
    and wf_psh: "wf q \<Longrightarrow> wf (psh f q)"
    and wf_pshf: "wf q \<Longrightarrow> wf (pshf f q)"
    and wf_pp: "wf q \<Longrightarrow> pp q = Some (f, q') \<Longrightarrow> wf q'"
begin

text \<open>The frames a pump accounts for: sent, in flight, still buffered.\<close>

definition accounted :: "('f, 'q) pump \<Rightarrow> 'f list" where
  "accounted s = pm_sent s @ (case pm_inflight s of None \<Rightarrow> [] | Some f \<Rightarrow> [f]) @ contents (pm_queue s)"

lemma step_wf: "wf (pm_queue s) \<Longrightarrow> wf (pm_queue (pump_step psh pshf pp e s))"
  by (cases e) (auto split: option.splits intro: wf_psh wf_pshf wf_pp)

lemma step_accounted:
  assumes "wf (pm_queue s)"
  shows "subseq (accounted (pump_step psh pshf pp e s)) (accounted s @ forwarded [e])"
proof (cases e)
  case (Forward f)
  have "subseq (contents (psh f (pm_queue s))) (contents (pm_queue s) @ [f])"
    using psh_suffix [OF assms] by (rule suffix_imp_subseq)
  then show ?thesis
    using Forward by (auto simp: accounted_def intro!: subseq_append_mono)
next
  case PumpPop
  then show ?thesis
    using pp_Some [OF assms] by (auto simp: accounted_def split: option.splits)
next
  case PumpSend
  then show ?thesis by (auto simp: accounted_def split: option.splits)
next
  case PumpRequeue
  show ?thesis
  proof (cases "pm_inflight s")
    case (Some f)
    have "subseq (contents (pshf f (pm_queue s))) (f # contents (pm_queue s))"
      using pshf_prefix [OF assms] by (rule prefix_imp_subseq)
    then show ?thesis
      using PumpRequeue Some by (auto simp: accounted_def intro!: subseq_append_mono)
  qed (simp add: PumpRequeue accounted_def)
qed

lemma run_accounted:
  "wf (pm_queue s) \<Longrightarrow>
   subseq (accounted (pump_run psh pshf pp evs s)) (accounted s @ forwarded evs)"
proof (induction evs arbitrary: s)
  case (Cons e evs)
  have "subseq (accounted (pump_run psh pshf pp evs (pump_step psh pshf pp e s)))
      (accounted (pump_step psh pshf pp e s) @ forwarded evs)"
    using Cons by (blast intro: step_wf)
  moreover have "subseq (accounted (pump_step psh pshf pp e s) @ forwarded evs)
      ((accounted s @ forwarded [e]) @ forwarded evs)"
    using step_accounted [OF Cons.prems] by (intro subseq_append_mono) auto
  moreover have "forwarded (e # evs) = forwarded [e] @ forwarded evs"
    using forwarded_append [of "[e]" evs] by simp
  ultimately show ?case
    by (metis append.assoc fold_simps(2) pump_run_def subseq_order.order_trans)
qed (simp add: pump_run_def)

lemma step_fit:
  "wf (pm_queue s) \<Longrightarrow> fit (pm_queue (pump_step psh pshf pp e s)) = fit (pm_queue s)"
  by (cases e) (auto split: option.splits intro: fit_psh fit_pshf fit_pp)

lemma step_lossless:
  assumes "wf (pm_queue s)" and "fit (pm_queue s) (accounted s @ forwarded [e])"
  shows "accounted (pump_step psh pshf pp e s) = accounted s @ forwarded [e]"
proof (cases e)
  case (Forward f)
  let ?pre = "pm_sent s @ (case pm_inflight s of None \<Rightarrow> [] | Some f \<Rightarrow> [f])"
  have "fit (pm_queue s) (?pre @ (contents (pm_queue s) @ [f]) @ [])"
    using assms(2) Forward by (simp add: accounted_def)
  then have "contents (psh f (pm_queue s)) = contents (pm_queue s) @ [f]"
    using assms(1) by (blast intro: psh_fit fit_infix)
  then show ?thesis using Forward by (simp add: accounted_def)
next
  case PumpRequeue
  show ?thesis
  proof (cases "pm_inflight s")
    case (Some f)
    have "fit (pm_queue s) (pm_sent s @ (f # contents (pm_queue s)) @ [])"
      using assms(2) PumpRequeue Some by (simp add: accounted_def)
    then have "contents (pshf f (pm_queue s)) = f # contents (pm_queue s)"
      using assms(1) by (blast intro: pshf_fit fit_infix)
    then show ?thesis using PumpRequeue Some by (simp add: accounted_def)
  qed (simp add: PumpRequeue accounted_def)
qed (use pp_Some [OF assms(1)] in \<open>auto simp: accounted_def split: option.splits\<close>)

lemma run_lossless:
  "wf (pm_queue s) \<Longrightarrow> fit (pm_queue s) (accounted s @ forwarded evs) \<Longrightarrow>
   accounted (pump_run psh pshf pp evs s) = accounted s @ forwarded evs"
proof (induction evs arbitrary: s)
  case (Cons e evs)
  have split: "forwarded (e # evs) = forwarded [e] @ forwarded evs"
    using forwarded_append [of "[e]" evs] by simp
  have "fit (pm_queue s) (accounted s @ forwarded [e])"
    using Cons.prems(2) fit_infix [of _ "[]" "accounted s @ forwarded [e]" "forwarded evs"]
    by (simp add: split)
  then have step: "accounted (pump_step psh pshf pp e s) = accounted s @ forwarded [e]"
    using Cons.prems(1) by (rule step_lossless [rotated])
  have "accounted (pump_run psh pshf pp evs (pump_step psh pshf pp e s))
      = accounted (pump_step psh pshf pp e s) @ forwarded evs"
    using Cons.prems by (intro Cons.IH) (auto simp: step step_fit split intro: step_wf)
  then show ?case by (simp add: pump_run_def step split)
qed (simp add: pump_run_def)

lemma sent_subseq:
  "wf q \<Longrightarrow> contents q = [] \<Longrightarrow> subseq (pm_sent (pump_run psh pshf pp evs (pump_init q))) (forwarded evs)"
  using run_accounted [of "pump_init q" evs]
  by (auto simp: accounted_def pump_init_def dest: subseq_appendD1)

end

interpretation fq: frame_buffer fq_items push pushFront pop_locked
    "\<lambda>q. fits (fq_cap q) (fq_maxBytes q)" fq_wf
proof (unfold_locales, goal_cases)
  case (1 q f)
  then show ?case by (simp only: push_items evict_front_suffix)
next
  case (2 q f)
  then obtain xs where "fq_items (pushFront f q) = f # xs" "prefix xs (fq_items q)"
    using pushFront_items by blast
  then show ?case by simp
next
  case (3 q f q')
  then show ?case by (auto simp: pop_items)
next
  case (4 q f)
  then show ?case by (simp add: push_items evict_front_id)
next
  case (5 q f)
  then show ?case by (rule pushFront_all)
next
  case (6 q xs ys zs)
  show ?case by (rule fits_prefix [OF fits_suffix [OF 6]])
next
  case (7 q f)
  then show ?case by simp
next
  case (8 q f)
  then show ?case by simp
next
  case (9 q f q')
  then show ?case by (auto simp: pop_locked_def split: list.splits)
next
  case (10 q f)
  then show ?case by (rule push_wf)
next
  case (11 q f)
  then show ?case by (rule pushFront_wf)
next
  case (12 q f q')
  then show ?case by (rule pop_wf)
qed

section \<open>Pushers and pumps interleaved\<close>

text \<open>
  The queue is shared by the pushers of the other side and by the pumps of this side: when a
  stream reconnects, \<open>attachRoute\<close> cancels the old attachment's context and starts a new pump,
  and the old pump may still be inside \<open>pop\<close>. A pump inside \<open>pop\<close> is before the first
  \<open>select\<close> (\<open>AtDone\<close>), about to enter the critical section (\<open>AtLock\<close>), in the blocking
  \<open>select\<close> (\<open>AtSelect\<close>), or has returned a frame or an error. \<open>ps_pending\<close> counts the pushers
  that left the critical section and have not sent on \<open>notify\<close> yet.
\<close>

datatype pump_pc = AtDone | AtLock | AtSelect | Returned frame | Failed

record pump_sys =
  ps_queue :: frame_queue
  ps_pending :: nat
  ps_pc :: "nat \<Rightarrow> pump_pc"
  ps_done :: "nat \<Rightarrow> bool"

inductive pump_sys_step :: "pump_sys \<Rightarrow> pump_sys \<Rightarrow> bool" where
  sys_push: "pump_sys_step s (s\<lparr>ps_queue := push_locked f (ps_queue s), ps_pending := Suc (ps_pending s)\<rparr>)"
| sys_notify: "ps_pending s = Suc n \<Longrightarrow>
    pump_sys_step s (s\<lparr>ps_queue := notify_send (ps_queue s), ps_pending := n\<rparr>)"
| sys_cancel: "pump_sys_step s (s\<lparr>ps_done := (ps_done s)(i := True)\<rparr>)"
| pop_done: "ps_pc s i = AtDone \<Longrightarrow> ps_done s i \<Longrightarrow> pump_sys_step s (s\<lparr>ps_pc := (ps_pc s)(i := Failed)\<rparr>)"
| pop_live: "ps_pc s i = AtDone \<Longrightarrow> \<not> ps_done s i \<Longrightarrow> pump_sys_step s (s\<lparr>ps_pc := (ps_pc s)(i := AtLock)\<rparr>)"
| pop_take: "ps_pc s i = AtLock \<Longrightarrow> pop_locked (ps_queue s) = Some (f, q) \<Longrightarrow>
    pump_sys_step s (s\<lparr>ps_queue := q, ps_pc := (ps_pc s)(i := Returned f)\<rparr>)"
| pop_empty: "ps_pc s i = AtLock \<Longrightarrow> pop_locked (ps_queue s) = None \<Longrightarrow>
    pump_sys_step s (s\<lparr>ps_pc := (ps_pc s)(i := AtSelect)\<rparr>)"
| select_done: "ps_pc s i = AtSelect \<Longrightarrow> ps_done s i \<Longrightarrow>
    pump_sys_step s (s\<lparr>ps_pc := (ps_pc s)(i := Failed)\<rparr>)"
| select_notify: "ps_pc s i = AtSelect \<Longrightarrow> fq_notify (ps_queue s) \<Longrightarrow>
    pump_sys_step s (s\<lparr>ps_queue := (ps_queue s)\<lparr>fq_notify := False\<rparr>, ps_pc := (ps_pc s)(i := AtDone)\<rparr>)"
| pump_again: "ps_pc s i = Returned f \<Longrightarrow> pump_sys_step s (s\<lparr>ps_pc := (ps_pc s)(i := AtDone)\<rparr>)"
| pump_requeue: "ps_pc s i = Returned f \<Longrightarrow>
    pump_sys_step s (s\<lparr>ps_queue := pushFront_locked f (ps_queue s), ps_pending := Suc (ps_pending s),
      ps_pc := (ps_pc s)(i := Failed)\<rparr>)"

text \<open>\<open>n\<close> pumps start on an empty queue.\<close>

definition pump_sys_init :: "int \<Rightarrow> int \<Rightarrow> nat \<Rightarrow> pump_sys" where
  "pump_sys_init c b n = \<lparr>ps_queue = newByteBoundedFrameQueue c b, ps_pending = 0,
     ps_pc = (\<lambda>i. if i < n then AtDone else Failed), ps_done = (\<lambda>_. False)\<rparr>"

inductive pump_reach :: "int \<Rightarrow> int \<Rightarrow> nat \<Rightarrow> pump_sys \<Rightarrow> bool" for c b n where
  reach_init: "pump_reach c b n (pump_sys_init c b n)"
| reach_step: "pump_reach c b n s \<Longrightarrow> pump_sys_step s t \<Longrightarrow> pump_reach c b n t"

text \<open>
  A pump is asleep for good when it waits in the blocking \<open>select\<close> with its context live,
  frames are buffered, the channel is empty and no pusher is about to fill it: only a later
  push can wake it.
\<close>

definition stranded :: "pump_sys \<Rightarrow> nat \<Rightarrow> bool" where
  "stranded s i \<longleftrightarrow> ps_pc s i = AtSelect \<and> \<not> ps_done s i \<and> fq_items (ps_queue s) \<noteq> [] \<and>
     \<not> fq_notify (ps_queue s) \<and> ps_pending s = 0"

lemma push_locked_keeps_notify [simp]: "fq_notify (shrinkLocked q) = fq_notify q"
  by (induction q rule: shrinkLocked.induct) (simp add: shrinkLocked.simps)

lemma shrinkNewest_keeps_notify [simp]: "fq_notify (shrinkNewest q) = fq_notify q"
  by (induction q rule: shrinkNewest.induct) (simp add: shrinkNewest.simps)

text \<open>With one pump, a waiting pump and a buffered frame imply a token or a pending send.\<close>

definition wake_inv :: "pump_sys \<Rightarrow> bool" where
  "wake_inv s \<longleftrightarrow> (\<forall>i. i \<noteq> 0 \<longrightarrow> ps_pc s i = Failed) \<and>
     (ps_pc s 0 = AtSelect \<longrightarrow> fq_items (ps_queue s) \<noteq> [] \<longrightarrow>
        fq_notify (ps_queue s) \<or> 0 < ps_pending s)"

lemma wake_inv_step: "pump_sys_step s t \<Longrightarrow> wake_inv s \<Longrightarrow> wake_inv t"
  by (induction rule: pump_sys_step.induct)
    (auto simp: wake_inv_def push_locked_def pushFront_locked_def notify_send_def pop_None
      split: if_splits)

lemma pump_reach_wake_inv: "pump_reach c b (Suc 0) s \<Longrightarrow> wake_inv s"
proof (induction rule: pump_reach.induct)
  case reach_init
  show ?case by (simp add: wake_inv_def pump_sys_init_def newByteBoundedFrameQueue_def)
next
  case (reach_step s t)
  then show ?case by (blast intro: wake_inv_step)
qed

section \<open>Properties\<close>

text \<open>
  C12. A push keeps the newest frame and drops only the oldest ones, and only as many as the
  bounds demand: the buffer afterwards is the longest suffix of old content plus new frame that
  fits the frame and byte bounds, and the byte counter is again exact.
\<close>

theorem push_keeps_longest_fitting_suffix:
  assumes "fq_wf q"
  shows "suffix (fq_items (push f q)) (fq_items q @ [f]) \<and> last (fq_items (push f q)) = f \<and>
    (\<forall>ys. suffix ys (fq_items q @ [f]) \<longrightarrow> fits (fq_cap q) (fq_maxBytes q) ys \<longrightarrow>
       suffix ys (fq_items (push f q))) \<and>
    fq_wf (push f q)"
proof (intro conjI allI impI)
  show "suffix (fq_items (push f q)) (fq_items q @ [f])"
    using assms by (simp only: push_items evict_front_suffix)
  show "last (fq_items (push f q)) = f"
    using assms evict_front_last [of "fq_items q @ [f]"] by (simp add: push_items)
  show "suffix ys (fq_items (push f q))"
    if "suffix ys (fq_items q @ [f])" "fits (fq_cap q) (fq_maxBytes q) ys" for ys
    using assms evict_front_longest [OF that] by (simp only: push_items)
  show "fq_wf (push f q)"
    using assms by (rule push_wf)
qed

definition demo_frame :: "nat \<Rightarrow> frame" where
  "demo_frame n = \<lparr>WorkspaceId = ''ws'', SessionId = [], DeviceId = ''d'',
     Direction = DIRECTION_DAEMON_TO_DEVICE, Sequence = of_nat n, Payload = replicate n 0,
     Keepalive = False\<rparr>"

theorem push_keeps_longest_fitting_suffix_witness:
  "last (fq_items (push (demo_frame 2) (push (demo_frame 3) (newByteBoundedFrameQueue 1 0)))) = demo_frame 2"
  using push_keeps_longest_fitting_suffix
    [of "push (demo_frame 3) (newByteBoundedFrameQueue 1 0)" "demo_frame 2"]
  by (simp add: push_wf)

text \<open>
  Re-queueing is the inverse of popping: a frame that a pump popped and puts back at the
  front leaves the buffer exactly as it was, whatever the bounds, as long as nothing was pushed
  in between.
\<close>

theorem pushFront_undoes_pop:
  assumes "fq_wf q" and "pop_locked q = Some (f, q')"
  shows "fq_items (pushFront f q') = fq_items q \<and> fq_bytes (pushFront f q') = fq_bytes q"
proof -
  have q': "fq_items q = f # fq_items q'" "fq_cap q' = fq_cap q" "fq_maxBytes q' = fq_maxBytes q"
    using assms(2) by (auto simp: pop_locked_def split: list.splits)
  have wf': "fq_wf q'" using assms by (rule pop_wf)
  have "fits (fq_cap q') (fq_maxBytes q') (f # fq_items q')"
    using assms(1) q' by (simp add: fq_wf_def)
  then have "fq_items (pushFront f q') = fq_items q"
    using wf' q' by (simp add: pushFront_all)
  moreover have "fq_wf (pushFront f q')" using wf' by (rule pushFront_wf)
  ultimately show ?thesis using assms(1) by (simp add: fq_wf_def)
qed

text \<open>
  One pump at a time delivers in order and at most once: whatever the interleaving of
  forwarded frames, pops, sends and re-queues, and whatever is evicted, the frames sent are a
  subsequence of the frames forwarded.
\<close>

theorem pump_sends_subsequence:
  "subseq (pm_sent (pump_run push pushFront pop_locked evs (pump_init (newByteBoundedFrameQueue c b))))
     (forwarded evs)"
  by (rule fq.sent_subseq) (simp_all add: newByteBoundedFrameQueue_def fq_wf_def)

text \<open>
  Nothing is lost while the bounds suffice: if all frames forwarded fit the bounds together,
  the frames sent, the frame in flight and the frames still buffered are, in this order, exactly
  the frames forwarded.
\<close>

theorem pump_loses_nothing_within_bounds:
  assumes "fits c b (forwarded evs)"
  defines "s \<equiv> pump_run push pushFront pop_locked evs (pump_init (newByteBoundedFrameQueue c b))"
  shows "pm_sent s @ (case pm_inflight s of None \<Rightarrow> [] | Some f \<Rightarrow> [f]) @ fq_items (pm_queue s)
    = forwarded evs"
  using fq.run_lossless [of "pump_init (newByteBoundedFrameQueue c b)" evs] assms
  by (simp add: fq.accounted_def pump_init_def newByteBoundedFrameQueue_def fq_wf_def)

text \<open>
  C32. No lost wake-up with a single pump: in no reachable interleaving of pushers and one pump is
  the pump stranded, that is asleep with frames buffered, an empty \<open>notify\<close> channel and no
  pusher about to fill it.
\<close>

theorem single_pump_never_stranded:
  assumes "pump_reach c b 1 s"
  shows "\<not> stranded s i"
  using pump_reach_wake_inv [of c b s] assms
  by (cases "i = 0") (auto simp: wake_inv_def stranded_def)

theorem single_pump_never_stranded_witness:
  "\<not> stranded (pump_sys_init 4 0 1) 0"
  by (rule single_pump_never_stranded [OF pump_reach.reach_init])

text \<open>
  C34. With two pumps on one queue, as during a reconnect, a wake-up can be lost: there is a
  reachable state in which the cancelled pump has consumed the token and returned its context
  error, and the live pump sleeps although a frame is buffered. The frame is delivered only when
  another frame is pushed.
\<close>

theorem two_pumps_can_strand_a_frame:
  "\<exists>s. pump_reach c b 2 s \<and> stranded s 1 \<and> ps_pc s 0 = Failed \<and> ps_done s 0"
proof -
  define s0 where "s0 = pump_sys_init c b 2"
  define s1 where "s1 = s0\<lparr>ps_pc := (ps_pc s0)(0 := AtLock)\<rparr>"
  define s2 where "s2 = s1\<lparr>ps_pc := (ps_pc s1)(0 := AtSelect)\<rparr>"
  define s3 where "s3 = s2\<lparr>ps_pc := (ps_pc s2)(1 := AtLock)\<rparr>"
  define s4 where "s4 = s3\<lparr>ps_pc := (ps_pc s3)(1 := AtSelect)\<rparr>"
  define s5 where "s5 = s4\<lparr>ps_done := (ps_done s4)(0 := True)\<rparr>"
  define s6 where "s6 = s5\<lparr>ps_queue := push_locked (demo_frame 1) (ps_queue s5), ps_pending := Suc (ps_pending s5)\<rparr>"
  define s7 where "s7 = s6\<lparr>ps_queue := notify_send (ps_queue s6), ps_pending := 0\<rparr>"
  define s8 where "s8 = s7\<lparr>ps_queue := (ps_queue s7)\<lparr>fq_notify := False\<rparr>, ps_pc := (ps_pc s7)(0 := AtDone)\<rparr>"
  define s9 where "s9 = s8\<lparr>ps_pc := (ps_pc s8)(0 := Failed)\<rparr>"
  note defs = s0_def s1_def s2_def s3_def s4_def s5_def s6_def s7_def s8_def s9_def
    pump_sys_init_def newByteBoundedFrameQueue_def
  have r0: "pump_reach c b 2 s0" unfolding s0_def by (rule reach_init)
  have "pump_sys_step s0 s1" unfolding s1_def by (rule pop_live) (simp_all add: defs)
  with r0 have r1: "pump_reach c b 2 s1" by (rule reach_step)
  have "pump_sys_step s1 s2" unfolding s2_def by (rule pop_empty) (simp_all add: defs pop_None)
  with r1 have r2: "pump_reach c b 2 s2" by (rule reach_step)
  have "pump_sys_step s2 s3" unfolding s3_def by (rule pop_live) (simp_all add: defs)
  with r2 have r3: "pump_reach c b 2 s3" by (rule reach_step)
  have "pump_sys_step s3 s4" unfolding s4_def by (rule pop_empty) (simp_all add: defs pop_None)
  with r3 have r4: "pump_reach c b 2 s4" by (rule reach_step)
  have "pump_sys_step s4 s5" unfolding s5_def by (rule sys_cancel)
  with r4 have r5: "pump_reach c b 2 s5" by (rule reach_step)
  have "pump_sys_step s5 s6" unfolding s6_def by (rule sys_push)
  with r5 have r6: "pump_reach c b 2 s6" by (rule reach_step)
  have "pump_sys_step s6 s7" unfolding s7_def by (rule sys_notify) (simp add: defs)
  with r6 have r7: "pump_reach c b 2 s7" by (rule reach_step)
  have "pump_sys_step s7 s8" unfolding s8_def
    by (rule select_notify) (simp_all add: defs notify_send_def)
  with r7 have r8: "pump_reach c b 2 s8" by (rule reach_step)
  have "pump_sys_step s8 s9" unfolding s9_def by (rule pop_done) (simp_all add: defs)
  with r8 have r9: "pump_reach c b 2 s9" by (rule reach_step)
  have "fq_items (ps_queue s9) = [demo_frame 1]"
    by (simp add: defs push_locked_def notify_send_def shrinkLocked.simps over_bound_def)
  with r9 show ?thesis
    by (intro exI [of _ s9]) (simp add: stranded_def defs)
qed

end
