(* ===== verification/Calendar.thy ===== *)
theory Calendar
  imports Prelude
begin

text \<open>
  The calendar of Go's package \<open>time\<close> in UTC: the proleptic Gregorian calendar over instants
  counted in nanoseconds from 0001-01-01. \<open>Date\<close> normalises out-of-range months, days, hours and
  minutes as the package documents; \<open>Year\<close>, \<open>Month\<close>, \<open>Day\<close>, \<open>Weekday\<close>, \<open>Hour\<close> and \<open>Minute\<close> read an
  instant back. The central lemmas: \<open>Date\<close> and the readers are inverse, and the readers are
  constant on a month, a day, an hour and a minute.
\<close>

definition DayLen :: duration where
  "DayLen = 24 * Hour"

lemmas clock_defs = duration_defs DayLen_def

definition is_leap :: "int \<Rightarrow> bool" where
  "is_leap y \<longleftrightarrow> y mod 4 = 0 \<and> (y mod 100 \<noteq> 0 \<or> y mod 400 = 0)"

text \<open>Days from 0001-01-01 to the first of January of year \<open>y\<close>.\<close>

definition days_before_year :: "int \<Rightarrow> int" where
  "days_before_year y = 365 * (y - 1) + (y - 1) div 4 - (y - 1) div 100 + (y - 1) div 400"

definition days_in_month :: "int \<Rightarrow> int \<Rightarrow> int" where
  "days_in_month y m =
     (if m = 2 then (if is_leap y then 29 else 28)
      else if m = 4 \<or> m = 6 \<or> m = 9 \<or> m = 11 then 30 else 31)"

text \<open>Days of year \<open>y\<close> before month \<open>m\<close>, for \<open>m\<close> from 1 to 13.\<close>

definition days_before_month :: "int \<Rightarrow> int \<Rightarrow> int" where
  "days_before_month y m =
     (let leap = (if is_leap y then 1 else 0) in
      if m \<le> 1 then 0 else if m = 2 then 31 else if m = 3 then 59 + leap else if m = 4 then 90 + leap
      else if m = 5 then 120 + leap else if m = 6 then 151 + leap else if m = 7 then 181 + leap
      else if m = 8 then 212 + leap else if m = 9 then 243 + leap else if m = 10 then 273 + leap
      else if m = 11 then 304 + leap else if m = 12 then 334 + leap else 365 + leap)"

text \<open>The day number of a date whose month may be out of range.\<close>

definition day_number :: "int \<Rightarrow> int \<Rightarrow> int \<Rightarrow> int" where
  "day_number y m d =
     (let y' = y + (m - 1) div 12; m' = (m - 1) mod 12 + 1
      in days_before_year y' + days_before_month y' m' + (d - 1))"

definition Date :: "int \<Rightarrow> int \<Rightarrow> int \<Rightarrow> int \<Rightarrow> int \<Rightarrow> gotime" where
  "Date y m d h mi = day_number y m d * DayLen + h * Hour + mi * Minute"

text \<open>The year of a day number: the search starts at a lower bound and never passes the year.\<close>

lemma div_succ_at:
  fixes q r k :: int
  assumes "0 \<le> r" "r < k"
  shows "(k * q + r + 1) div k = (k * q + r) div k + (if (k * q + r + 1) mod k = 0 then 1 else 0)"
proof (cases "r + 1 = k")
  case True
  then have "k * q + r + 1 = k * (q + 1)" by (simp add: algebra_simps)
  then show ?thesis using assms by simp
next
  case False
  then have "(r + 1) div k = 0" "(r + 1) mod k = r + 1" using assms by auto
  then show ?thesis using assms by (simp add: add.assoc)
qed

lemma div_succ: "(z + 1) div k = z div k + (if (z + 1) mod k = 0 then 1 else 0)" if "0 < k" for z k :: int
  using div_succ_at [of "z mod k" k "z div k"] that by simp

lemma mod_succ: "(z + 1) mod k = (if z mod k = k - 1 then 0 else z mod k + 1)" if "0 < k" for z k :: int
proof -
  have "(z + 1) mod k = (z mod k + 1) mod k" by (simp add: mod_add_left_eq)
  moreover have "0 \<le> z mod k" "z mod k < k" using that by simp_all
  ultimately show ?thesis by (auto simp: mod_pos_pos_trivial)
qed

lemma days_before_year_Suc:
  "days_before_year (y + 1) = days_before_year y + (if is_leap y then 366 else 365)"
proof -
  define a b c where "a = (y - 1) div 4" and "b = (y - 1) div 100" and "c = (y - 1) div 400"
  have k: "y div k = (y - 1) div k + (if y mod k = 0 then 1 else 0)" if "0 < k" for k
    using div_succ [OF that, of "y - 1"] by simp
  have divs: "y div 4 = a + (if y mod 4 = 0 then 1 else 0)" "y div 100 = b + (if y mod 100 = 0 then 1 else 0)"
    "y div 400 = c + (if y mod 400 = 0 then 1 else 0)"
    unfolding a_def b_def c_def by (rule k, simp)+
  have "(4::int) dvd 100" "(100::int) dvd 400" by simp_all
  then have dvd: "y mod 100 = 0 \<Longrightarrow> y mod 4 = 0" "y mod 400 = 0 \<Longrightarrow> y mod 100 = 0"
    by (meson dvd_imp_mod_0 dvd_trans mod_0_imp_dvd)+
  have "days_before_year y = 365 * (y - 1) + a - b + c"
    by (simp only: days_before_year_def a_def b_def c_def)
  moreover have "days_before_year (y + 1) = 365 * y + y div 4 - y div 100 + y div 400"
    by (simp only: days_before_year_def add_diff_cancel_right')
  ultimately show ?thesis
    unfolding divs is_leap_def using dvd by (cases "y mod 4 = 0"; cases "y mod 100 = 0"; cases "y mod 400 = 0") simp_all
qed

lemma days_before_year_step: "days_before_year y + 365 \<le> days_before_year (y + 1)"
  and days_before_year_step_le: "days_before_year (y + 1) \<le> days_before_year y + 366"
  by (simp_all add: days_before_year_Suc)

function year_search :: "int \<Rightarrow> int \<Rightarrow> int" where
  "year_search n y = (if days_before_year (y + 1) \<le> n then year_search n (y + 1) else y)"
  by pat_completeness auto
termination
proof (relation "measure (\<lambda>(n, y). nat (n - days_before_year y))", goal_cases)
  case (2 n y)
  then show ?case using days_before_year_step [of y] by auto
qed simp

declare year_search.simps [simp del]

definition year_of_day :: "int \<Rightarrow> int" where
  "year_of_day n = year_search n (if n < 0 then n div 365 else n div 366 + 1)"

fun month_search :: "int \<Rightarrow> int \<Rightarrow> nat \<Rightarrow> int" where
  "month_search y doy 0 = 1"
| "month_search y doy (Suc k) =
     (if days_before_month y (int (Suc k)) \<le> doy then int (Suc k) else month_search y doy k)"

definition Year :: "gotime \<Rightarrow> int" where
  "Year t = year_of_day (t div DayLen)"

definition Month :: "gotime \<Rightarrow> int" where
  "Month t = (let n = t div DayLen; y = year_of_day n in month_search y (n - days_before_year y) 12)"

definition Day :: "gotime \<Rightarrow> int" where
  "Day t = (let n = t div DayLen; y = year_of_day n; doy = n - days_before_year y
     in doy - days_before_month y (month_search y doy 12) + 1)"

text \<open>0001-01-01 was a Monday; Sunday is 0.\<close>

definition Weekday :: "gotime \<Rightarrow> int" where
  "Weekday t = (t div DayLen + 1) mod 7"

definition HourOf :: "gotime \<Rightarrow> int" where
  "HourOf t = t mod DayLen div Hour"

definition MinuteOf :: "gotime \<Rightarrow> int" where
  "MinuteOf t = t mod Hour div Minute"

definition TruncateMinute :: "gotime \<Rightarrow> gotime" where
  "TruncateMinute t = t - t mod Minute"

text \<open>\<open>AddDate\<close> with years only, for an instant at a full minute.\<close>

definition AddYears :: "gotime \<Rightarrow> int \<Rightarrow> gotime" where
  "AddYears t k = Date (Year t + k) (Month t) (Day t) (HourOf t) (MinuteOf t)"

section \<open>Years\<close>

lemma days_before_year_mono: "y \<le> z \<Longrightarrow> days_before_year y \<le> days_before_year z"
proof (induction z rule: int_ge_induct)
  case (step i)
  then show ?case using days_before_year_step [of i] by simp
qed simp

lemma days_before_year_le: "1 \<le> y \<Longrightarrow> days_before_year y \<le> 366 * (y - 1)"
proof (induction y rule: int_ge_induct)
  case base
  show ?case by (simp add: days_before_year_def)
next
  case (step i)
  then show ?case using days_before_year_step_le [of i] by simp
qed

lemma days_before_year_neg: "y \<le> 1 \<Longrightarrow> days_before_year y \<le> 365 * (y - 1)"
proof (induction y rule: int_le_induct)
  case base
  show ?case by (simp add: days_before_year_def)
next
  case (step i)
  then show ?case using days_before_year_step [of "i - 1"] by simp
qed

lemma year_start: "days_before_year (if n < 0 then n div 365 else n div 366 + 1) \<le> n"
proof (cases "n < 0")
  case True
  then have "n div 365 \<le> 1" by (simp add: div_neg_pos_less0 less_imp_le order.trans [of _ 0])
  from days_before_year_neg [OF this] have "days_before_year (n div 365) \<le> 365 * (n div 365 - 1)" .
  also have "\<dots> \<le> n" by simp
  finally show ?thesis using True by simp
next
  case False
  then have "1 \<le> n div 366 + 1" by (simp add: pos_imp_zdiv_nonneg_iff)
  from days_before_year_le [OF this] have "days_before_year (n div 366 + 1) \<le> 366 * (n div 366)" by simp
  also have "\<dots> \<le> n" by simp
  finally show ?thesis using False by simp
qed

lemma year_search_spec:
  "days_before_year y \<le> n \<Longrightarrow>
   days_before_year (year_search n y) \<le> n \<and> n < days_before_year (year_search n y + 1)"
proof (induction n y rule: year_search.induct)
  case (1 n y)
  then show ?case by (cases "days_before_year (y + 1) \<le> n") (auto simp: year_search.simps [of n y])
qed

lemma year_of_day_spec:
  "days_before_year (year_of_day n) \<le> n" "n < days_before_year (year_of_day n + 1)"
  unfolding year_of_day_def using year_search_spec [OF year_start] by auto

lemma year_of_day_unique:
  assumes "days_before_year y \<le> n" and "n < days_before_year (y + 1)"
  shows "year_of_day n = y"
proof (rule ccontr)
  assume "year_of_day n \<noteq> y"
  then consider "year_of_day n + 1 \<le> y" | "y + 1 \<le> year_of_day n" by linarith
  then show False
  proof cases
    case 1
    then show ?thesis using days_before_year_mono [OF 1] year_of_day_spec(2) [of n] assms(1) by linarith
  next
    case 2
    then show ?thesis using days_before_year_mono [OF 2] year_of_day_spec(1) [of n] assms(2) by linarith
  qed
qed

section \<open>Months\<close>

lemma days_before_month_Suc:
  "1 \<le> m \<Longrightarrow> m \<le> 12 \<Longrightarrow> days_before_month y (m + 1) = days_before_month y m + days_in_month y m"
proof -
  assume "1 \<le> m" "m \<le> 12"
  then have "m \<in> set [1..12::int]" by simp
  also have "[1..12::int] = [1, 2, 3, 4, 5, 6, 7, 8, 9, 10, 11, 12::int]" by (simp add: upto.simps)
  finally show ?thesis
    by (auto simp: days_before_month_def days_in_month_def)
qed

lemma days_in_month_bounds: "28 \<le> days_in_month y m" "days_in_month y m \<le> 31"
  by (auto simp: days_in_month_def)

lemma days_before_month_13: "days_before_year (y + 1) = days_before_year y + days_before_month y 13"
  by (simp add: days_before_year_Suc days_before_month_def)

lemma days_before_month_1 [simp]: "days_before_month y 1 = 0"
  by (simp add: days_before_month_def)

lemma days_before_month_mono:
  "m \<le> m' \<Longrightarrow> 1 \<le> m \<Longrightarrow> m' \<le> 13 \<Longrightarrow> days_before_month y m \<le> days_before_month y m'"
proof (induction m' rule: int_ge_induct)
  case (step i)
  then show ?case
    using days_before_month_Suc [of i y] days_in_month_bounds(1) [of y i] by simp
qed simp

lemma month_search_spec:
  "0 \<le> doy \<Longrightarrow> doy < days_before_month y (int k + 1) \<Longrightarrow> 1 \<le> k \<Longrightarrow>
   1 \<le> month_search y doy k \<and> month_search y doy k \<le> int k \<and>
   days_before_month y (month_search y doy k) \<le> doy \<and> doy < days_before_month y (month_search y doy k + 1)"
proof (induction k)
  case (Suc k)
  show ?case
  proof (cases "days_before_month y (int (Suc k)) \<le> doy")
    case True
    then show ?thesis using Suc.prems by (simp add: add.commute)
  next
    case False
    then have "1 \<le> k" using Suc.prems(1) by (cases k) auto
    then show ?thesis using Suc.IH Suc.prems(1) False by (simp add: add.commute)
  qed
qed simp

text \<open>The bounds of the month that an instant lies in.\<close>

lemma month_bounds:
  defines "n t \<equiv> t div DayLen"
  shows "1 \<le> Month t" "Month t \<le> 12"
    "days_before_year (Year t) + days_before_month (Year t) (Month t) \<le> n t"
    "n t < days_before_year (Year t) + days_before_month (Year t) (Month t + 1)"
proof -
  let ?y = "Year t" and ?doy = "n t - days_before_year (Year t)"
  have "0 \<le> ?doy" "?doy < days_before_month ?y (int 12 + 1)"
    using year_of_day_spec [of "n t"] days_before_month_13 [of ?y] by (auto simp: Year_def n_def)
  from month_search_spec [OF this] show "1 \<le> Month t" "Month t \<le> 12"
    "days_before_year (Year t) + days_before_month (Year t) (Month t) \<le> n t"
    "n t < days_before_year (Year t) + days_before_month (Year t) (Month t + 1)"
    by (auto simp: Month_def Year_def n_def Let_def)
qed

lemma Day_eq: "Day t = t div DayLen - days_before_year (Year t) - days_before_month (Year t) (Month t) + 1"
  by (simp add: Day_def Year_def Month_def Let_def)

lemma month_unique:
  assumes "1 \<le> m" "m \<le> 12" "days_before_year y + days_before_month y m \<le> t div DayLen"
    and "t div DayLen < days_before_year y + days_before_month y (m + 1)"
  shows "Year t = y" "Month t = m"
proof -
  have "0 \<le> days_before_month y m" "days_before_month y (m + 1) \<le> days_before_month y 13"
    using days_before_month_mono [of 1 m y] days_before_month_mono [of "m + 1" 13 y] assms(1,2) by auto
  then have "days_before_year y \<le> t div DayLen" "t div DayLen < days_before_year (y + 1)"
    using assms(3,4) days_before_month_13 [of y] by linarith+
  then show y: "Year t = y" by (simp add: Year_def year_of_day_unique)
  show "Month t = m"
  proof (rule ccontr)
    assume "Month t \<noteq> m"
    then consider "Month t + 1 \<le> m" | "m + 1 \<le> Month t" by linarith
    then show False
    proof cases
      case 1
      then show ?thesis
        using month_bounds [of t] days_before_month_mono [OF 1, of y] assms y by auto
    next
      case 2
      then show ?thesis
        using month_bounds [of t] days_before_month_mono [OF 2, of y] assms y by auto
    qed
  qed
qed

section \<open>Reading and building dates\<close>

lemma slot_upper: "t < (t div k + 1) * k" if "0 < k" for t k :: int
  using pos_mod_bound [OF that, of t] div_mult_mod_eq [of t k] by (simp only: distrib_right mult_1)

lemma slot_div: "v div k < b" if "0 < k" "v < b * k" for v k b :: int
proof (rule ccontr)
  assume "\<not> v div k < b"
  then have "b * k \<le> v div k * k" using that(1) by (intro mult_right_mono) auto
  also have "\<dots> \<le> v" using that(1) pos_mod_sign [OF that(1), of v] div_mult_mod_eq [of v k] by linarith
  finally show False using that(2) by simp
qed

text \<open>Up to the end of its slot of length \<open>k\<close>, an instant stays in the slot.\<close>

lemma slot_same: "v div k = t div k" if "0 < k" "t \<le> v" "v < (t div k + 1) * k" for t v k :: int
  using slot_div [OF that(1,3)] zdiv_mono1 [OF that(2,1)] by simp

lemma DayLen_pos [simp]: "0 < DayLen" "0 < Hour" "0 < Minute"
  by (simp_all add: clock_defs)

lemma day_number_normal:
  "1 \<le> m \<Longrightarrow> m \<le> 12 \<Longrightarrow> day_number y m d = days_before_year y + days_before_month y m + (d - 1)"
  by (simp add: day_number_def Let_def)

lemma day_number_read: "day_number (Year t) (Month t) (Day t + k) = t div DayLen + k"
  using month_bounds(1,2) [of t] by (simp add: day_number_normal Day_eq)

lemma Date_next_day: "Date (Year t) (Month t) (Day t + 1) 0 0 = (t div DayLen + 1) * DayLen"
  by (simp add: Date_def day_number_read)

lemma hours_of_day: "t mod DayLen div Hour = t div Hour mod 24" "t div DayLen = t div Hour div 24"
proof -
  have "t mod DayLen = Hour * (t div Hour mod 24) + t mod Hour"
    unfolding DayLen_def by (subst mult.commute) (rule zmod_zmult2_eq, simp)
  moreover have "t mod Hour div Hour = 0" "Hour \<noteq> 0" by (simp_all add: div_pos_pos_trivial clock_defs)
  ultimately show "t mod DayLen div Hour = t div Hour mod 24" by (simp add: div_mult_self4 [of Hour])
  show "t div DayLen = t div Hour div 24"
    unfolding DayLen_def by (subst mult.commute) (rule zdiv_zmult2_eq, simp)
qed

lemma minutes_of_hour: "t mod Hour div Minute = t div Minute mod 60" "t div Hour = t div Minute div 60"
proof -
  have "t mod Hour = Minute * (t div Minute mod 60) + t mod Minute"
    unfolding Hour_def by (subst mult.commute) (rule zmod_zmult2_eq, simp)
  moreover have "t mod Minute div Minute = 0" "Minute \<noteq> 0" by (simp_all add: div_pos_pos_trivial clock_defs)
  ultimately show "t mod Hour div Minute = t div Minute mod 60" by (simp add: div_mult_self4 [of Minute])
  show "t div Hour = t div Minute div 60"
    unfolding Hour_def by (subst mult.commute) (rule zdiv_zmult2_eq, simp)
qed

lemma Date_next_hour: "Date (Year t) (Month t) (Day t) (HourOf t + 1) 0 = (t div Hour + 1) * Hour"
proof -
  let ?q = "t div Hour"
  have "Date (Year t) (Month t) (Day t) (HourOf t + 1) 0 = ?q div 24 * DayLen + (?q mod 24 + 1) * Hour"
    using day_number_read [of t 0] hours_of_day [of t] by (simp add: Date_def HourOf_def)
  also have "\<dots> = (?q div 24 * 24 + ?q mod 24 + 1) * Hour"
    unfolding DayLen_def by (simp only: distrib_right mult.assoc)
  finally show ?thesis by (simp only: div_mult_mod_eq)
qed

text \<open>The clock readings in terms of the minute count.\<close>

lemma HourOf_minutes: "HourOf t = t div Minute div 60 mod 24"
  and MinuteOf_minutes: "MinuteOf t = t div Minute mod 60"
  and day_minutes: "t div DayLen = t div Minute div 60 div 24"
  by (simp_all only: HourOf_def MinuteOf_def hours_of_day minutes_of_hour(1) flip: minutes_of_hour(2))

lemma Day_bounds: "1 \<le> Day t" "Day t \<le> 31"
  using month_bounds [of t] days_before_month_Suc [of "Month t" "Year t"] days_in_month_bounds(2) [of "Year t" "Month t"]
  by (simp_all add: Day_eq)

lemma reader_bounds:
  "0 \<le> HourOf t" "HourOf t < 24" "0 \<le> MinuteOf t" "MinuteOf t < 60" "0 \<le> Weekday t" "Weekday t < 7"
  by (simp_all add: HourOf_minutes MinuteOf_minutes Weekday_def)

text \<open>Every date is a full minute.\<close>

lemma Date_minutes: "Date y m d h mi = (day_number y m d * 1440 + h * 60 + mi) * Minute"
  by (simp add: Date_def DayLen_def Hour_def algebra_simps)

lemma Date_aligned: "Date y m d h mi mod Minute = 0"
  by (simp add: Date_minutes)

lemma day_number_next_month:
  "day_number (Year t) (Month t + 1) 1 = days_before_year (Year t) + days_before_month (Year t) (Month t + 1)"
proof (cases "Month t = 12")
  case True
  then show ?thesis by (simp add: day_number_def Let_def days_before_month_13)
next
  case False
  then show ?thesis using month_bounds(1,2) [of t] by (simp add: day_number_normal)
qed

text \<open>The first instant of the next month, and what holds up to it.\<close>

lemma Date_next_month:
  "t < Date (Year t) (Month t + 1) 1 0 0"
  "t \<le> v \<Longrightarrow> v < Date (Year t) (Month t + 1) 1 0 0 \<Longrightarrow> Month v = Month t \<and> Year v = Year t"
proof -
  let ?n = "days_before_year (Year t) + days_before_month (Year t) (Month t + 1)"
  have D: "Date (Year t) (Month t + 1) 1 0 0 = ?n * DayLen"
    by (simp add: Date_def day_number_next_month)
  have "t < (t div DayLen + 1) * DayLen" by (rule slot_upper) simp
  also have "\<dots> \<le> ?n * DayLen" using month_bounds(4) [of t] by (intro mult_right_mono) (auto simp: less_imp_le)
  finally show "t < Date (Year t) (Month t + 1) 1 0 0" by (simp add: D)
  assume v: "t \<le> v" "v < Date (Year t) (Month t + 1) 1 0 0"
  have "t div DayLen \<le> v div DayLen" using v(1) by (simp add: zdiv_mono1)
  moreover have "v div DayLen < ?n"
    using v(2) slot_div [of DayLen v ?n] by (simp add: D)
  ultimately show "Month v = Month t \<and> Year v = Year t"
    using month_bounds(1-3) [of t] month_unique [of "Month t" "Year t" v] by auto
qed

lemma readers_same_day:
  "v div DayLen = t div DayLen \<Longrightarrow> Year v = Year t \<and> Month v = Month t \<and> Day v = Day t \<and> Weekday v = Weekday t"
  by (simp add: Year_def Month_def Day_def Weekday_def Let_def)

end
