(* ===== verification/GoStrings.thy ===== *)
theory GoStrings
  imports Prelude
begin

text \<open>
  The part of Go's packages \<open>strings\<close> and \<open>strconv\<close> that the modelled code calls. A Go string is
  its sequence of bytes, one \<open>char\<close> per byte; an index is a byte offset, and a search that
  returns \<open>-1\<close> in Go returns \<open>None\<close> here.

  White space is what \<open>unicode.IsSpace\<close> accepts, in its UTF-8 encoding. Working byte by byte is
  exact: every encoding starts with an ASCII byte or a lead byte, which is never a
  continuation byte, so no encoding is found inside another rune.
\<close>

definition HasPrefix :: "string \<Rightarrow> string \<Rightarrow> bool" where
  "HasPrefix s p \<longleftrightarrow> take (length p) s = p"

definition HasSuffix :: "string \<Rightarrow> string \<Rightarrow> bool" where
  "HasSuffix s p \<longleftrightarrow> HasPrefix (rev s) (rev p)"

definition TrimPrefix :: "string \<Rightarrow> string \<Rightarrow> string" where
  "TrimPrefix s p = (if HasPrefix s p then drop (length p) s else s)"

fun IndexByte :: "string \<Rightarrow> char \<Rightarrow> nat option" where
  "IndexByte [] c = None"
| "IndexByte (x # xs) c = (if x = c then Some 0 else map_option Suc (IndexByte xs c))"

fun LastIndexByte :: "string \<Rightarrow> char \<Rightarrow> nat option" where
  "LastIndexByte [] c = None"
| "LastIndexByte (x # xs) c =
     (case LastIndexByte xs c of
        Some i \<Rightarrow> Some (Suc i)
      | None \<Rightarrow> if x = c then Some 0 else None)"

fun Index :: "string \<Rightarrow> string \<Rightarrow> nat option" where
  "Index [] p = (if p = [] then Some 0 else None)"
| "Index (x # xs) p = (if HasPrefix (x # xs) p then Some 0 else map_option Suc (Index xs p))"

definition Contains :: "string \<Rightarrow> string \<Rightarrow> bool" where
  "Contains s p \<longleftrightarrow> Index s p \<noteq> None"

definition ContainsAny :: "string \<Rightarrow> string \<Rightarrow> bool" where
  "ContainsAny s cs \<longleftrightarrow> list_ex (\<lambda>c. c \<in> set cs) s"

text \<open>\<open>Cut\<close> around a one-byte separator; the flag is whether it was found.\<close>

definition CutByte :: "string \<Rightarrow> char \<Rightarrow> string \<times> string \<times> bool" where
  "CutByte s c =
     (case IndexByte s c of
        None \<Rightarrow> (s, [], False)
      | Some i \<Rightarrow> (take i s, drop (Suc i) s, True))"

text \<open>\<open>Split\<close> at a one-byte separator: always at least one part.\<close>

fun SplitByte :: "string \<Rightarrow> char \<Rightarrow> string list" where
  "SplitByte [] c = [[]]"
| "SplitByte (x # xs) c =
     (if x = c then [] # SplitByte xs c
      else (case SplitByte xs c of
              [] \<Rightarrow> [[x]]
            | p # ps \<Rightarrow> (x # p) # ps))"

definition TrimLeft :: "string \<Rightarrow> string \<Rightarrow> string" where
  "TrimLeft s cutset = dropWhile (\<lambda>c. c \<in> set cutset) s"

definition byte_str :: "nat list \<Rightarrow> string" where
  "byte_str ns = map (char_of :: nat \<Rightarrow> char) ns"

text \<open>The UTF-8 encodings of the code points \<open>unicode.IsSpace\<close> accepts.\<close>

definition space_encodings :: "string list" where
  "space_encodings = map byte_str
     [[9], [10], [11], [12], [13], [32], [0xC2, 0x85], [0xC2, 0xA0], [0xE1, 0x9A, 0x80],
      [0xE2, 0x80, 0x80], [0xE2, 0x80, 0x81], [0xE2, 0x80, 0x82], [0xE2, 0x80, 0x83],
      [0xE2, 0x80, 0x84], [0xE2, 0x80, 0x85], [0xE2, 0x80, 0x86], [0xE2, 0x80, 0x87],
      [0xE2, 0x80, 0x88], [0xE2, 0x80, 0x89], [0xE2, 0x80, 0x8A], [0xE2, 0x80, 0xA8],
      [0xE2, 0x80, 0xA9], [0xE2, 0x80, 0xAF], [0xE2, 0x81, 0x9F], [0xE3, 0x80, 0x80]]"

lemma space_encodings_literal [code]:
  "space_encodings =
     [[CHR 0x09], [CHR 0x0A], [CHR 0x0B], [CHR 0x0C], [CHR 0x0D], [CHR 0x20], [CHR 0xC2, CHR 0x85], [CHR
      0xC2, CHR 0xA0], [CHR 0xE1, CHR 0x9A, CHR 0x80], [CHR 0xE2, CHR 0x80, CHR 0x80], [CHR 0xE2, CHR
      0x80, CHR 0x81], [CHR 0xE2, CHR 0x80, CHR 0x82], [CHR 0xE2, CHR 0x80, CHR 0x83], [CHR 0xE2, CHR
      0x80, CHR 0x84], [CHR 0xE2, CHR 0x80, CHR 0x85], [CHR 0xE2, CHR 0x80, CHR 0x86], [CHR 0xE2, CHR
      0x80, CHR 0x87], [CHR 0xE2, CHR 0x80, CHR 0x88], [CHR 0xE2, CHR 0x80, CHR 0x89], [CHR 0xE2, CHR
      0x80, CHR 0x8A], [CHR 0xE2, CHR 0x80, CHR 0xA8], [CHR 0xE2, CHR 0x80, CHR 0xA9], [CHR 0xE2, CHR
      0x80, CHR 0xAF], [CHR 0xE2, CHR 0x81, CHR 0x9F], [CHR 0xE3, CHR 0x80, CHR 0x80]]"
  by code_simp

text \<open>The length of the white space code point \<open>s\<close> starts with, 0 if it starts with none.\<close>

definition space_len :: "string list \<Rightarrow> string \<Rightarrow> nat" where
  "space_len encs s = (case find (HasPrefix s) encs of None \<Rightarrow> 0 | Some e \<Rightarrow> length e)"

function trim_spaces :: "string list \<Rightarrow> string \<Rightarrow> string" where
  "trim_spaces encs s =
     (if s \<noteq> [] \<and> 0 < space_len encs s then trim_spaces encs (drop (space_len encs s) s) else s)"
  by pat_completeness auto
termination
  by (relation "measure (\<lambda>(encs, s). length s)") auto

declare trim_spaces.simps [simp del]

definition TrimSpace :: "string \<Rightarrow> string" where
  "TrimSpace s =
     rev (trim_spaces (map rev space_encodings) (rev (trim_spaces space_encodings s)))"

text \<open>
  \<open>Fields\<close> splits around runs of white space: \<open>acc\<close> is the field being read, in reverse.
\<close>

function fields_from :: "string \<Rightarrow> string \<Rightarrow> string list" where
  "fields_from acc s =
     (case s of
        [] \<Rightarrow> (if acc = [] then [] else [rev acc])
      | c # cs \<Rightarrow>
          (if 0 < space_len space_encodings s
           then (if acc = [] then [] else [rev acc]) @ fields_from [] (drop (space_len space_encodings s) s)
           else fields_from (c # acc) cs))"
  by pat_completeness auto
termination
  by (relation "measure (\<lambda>(acc, s). length s)") auto

declare fields_from.simps [simp del]

definition Fields :: "string \<Rightarrow> string list" where
  "Fields s = fields_from [] s"

fun Join :: "string list \<Rightarrow> string \<Rightarrow> string" where
  "Join [] sep = []"
| "Join [x] sep = x"
| "Join (x # y # ys) sep = x @ sep @ Join (y # ys) sep"

text \<open>
  \<open>ToLower\<close> on the code points whose lower case is an ASCII letter: \<open>A\<close> to \<open>Z\<close>, the Kelvin
  sign and the dotted capital I. Every other code point is left as it is: the modelled code
  only compares the result with ASCII text or tests it for ASCII letters and digits.
\<close>

definition lower_byte :: "char \<Rightarrow> char" where
  "lower_byte c = (let n = of_char c :: nat in if 65 \<le> n \<and> n \<le> 90 then char_of (n + 32) else c)"

function ToLower :: "string \<Rightarrow> string" where
  "ToLower s =
     (case s of
        [] \<Rightarrow> []
      | c # cs \<Rightarrow>
          (if HasPrefix s (byte_str [0xC4, 0xB0]) then CHR ''i'' # ToLower (drop 2 s)
           else if HasPrefix s (byte_str [0xE2, 0x84, 0xAA]) then CHR ''k'' # ToLower (drop 3 s)
           else lower_byte c # ToLower cs))"
  by pat_completeness auto
termination
  by (relation "measure length") (auto simp: HasPrefix_def)

declare ToLower.simps [simp del]

definition is_digit_char :: "char \<Rightarrow> bool" where
  "is_digit_char c \<longleftrightarrow> 48 \<le> (of_char c :: nat) \<and> (of_char c :: nat) \<le> 57"

definition digit_value :: "char \<Rightarrow> int" where
  "digit_value c = of_char c - 48"

fun digits_value :: "int \<Rightarrow> string \<Rightarrow> int" where
  "digits_value acc [] = acc"
| "digits_value acc (c # cs) = digits_value (10 * acc + digit_value c) cs"

text \<open>
  \<open>strconv.Atoi\<close>: an optional sign, at least one decimal digit and nothing else, and a value in
  the range of a 64-bit \<open>int\<close>.
\<close>

definition Atoi :: "string \<Rightarrow> int option" where
  "Atoi s =
     (let neg = HasPrefix s ''-'';
          ds = (if neg \<or> HasPrefix s ''+'' then drop 1 s else s);
          v = digits_value 0 ds;
          n = (if neg then - v else v)
      in if ds \<noteq> [] \<and> list_all is_digit_char ds \<and> - (2 ^ 63) \<le> n \<and> n < 2 ^ 63
         then Some n else None)"

text \<open>\<open>strconv.Itoa\<close> on a number that is not negative.\<close>

fun Itoa :: "nat \<Rightarrow> string" where
  "Itoa n = (if n < 10 then [char_of (48 + n)] else Itoa (n div 10) @ [char_of (48 + n mod 10)])"

declare Itoa.simps [simp del]

definition TrimSuffix :: "string \<Rightarrow> string \<Rightarrow> string" where
  "TrimSuffix s p = (if HasSuffix s p then take (length s - length p) s else s)"

text \<open>\<open>utf8.ValidString\<close>: the well-formed byte sequences of the Unicode standard.\<close>

definition byte_in :: "nat \<Rightarrow> nat \<Rightarrow> char \<Rightarrow> bool" where
  "byte_in lo hi c = (let n = of_char c :: nat in lo \<le> n \<and> n \<le> hi)"

fun utf8_rune_len :: "string \<Rightarrow> nat" where
  "utf8_rune_len [] = 0"
| "utf8_rune_len (a # s) =
     (if byte_in 0 0x7F a then 1
      else if byte_in 0xC2 0xDF a \<and> length s \<ge> 1 \<and> byte_in 0x80 0xBF (s ! 0) then 2
      else if length s \<ge> 2 \<and> byte_in 0x80 0xBF (s ! 1)
        \<and> (byte_in 0xE0 0xE0 a \<and> byte_in 0xA0 0xBF (s ! 0) \<or> byte_in 0xED 0xED a \<and> byte_in 0x80 0x9F (s ! 0)
          \<or> (byte_in 0xE1 0xEC a \<or> byte_in 0xEE 0xEF a) \<and> byte_in 0x80 0xBF (s ! 0)) then 3
      else if length s \<ge> 3 \<and> byte_in 0x80 0xBF (s ! 1) \<and> byte_in 0x80 0xBF (s ! 2)
        \<and> (byte_in 0xF0 0xF0 a \<and> byte_in 0x90 0xBF (s ! 0) \<or> byte_in 0xF4 0xF4 a \<and> byte_in 0x80 0x8F (s ! 0)
          \<or> byte_in 0xF1 0xF3 a \<and> byte_in 0x80 0xBF (s ! 0)) then 4
      else 0)"

function utf8_valid :: "string \<Rightarrow> bool" where
  "utf8_valid s =
     (if s = [] then True else if utf8_rune_len s = 0 then False else utf8_valid (drop (utf8_rune_len s) s))"
  by pat_completeness auto
termination by (relation "measure length") auto

declare utf8_valid.simps [simp del]

section \<open>Lemmas\<close>

lemma HasPrefix_iff_prefix: "HasPrefix s p \<longleftrightarrow> prefix p s"
  by (metis HasPrefix_def append_eq_conv_conj append_take_drop_id prefix_def)

lemma HasPrefix_Nil [simp]: "HasPrefix s []"
  by (simp add: HasPrefix_def)

lemma HasSuffix_iff_suffix: "HasSuffix s p \<longleftrightarrow> suffix p s"
  by (simp add: HasSuffix_def HasPrefix_iff_prefix suffix_to_prefix)

lemma IndexByte_Some: "IndexByte s c = Some i \<Longrightarrow> i < length s \<and> s ! i = c \<and> c \<notin> set (take i s)"
  by (induction s arbitrary: i) (auto split: if_splits)

lemma IndexByte_None [simp]: "IndexByte s c = None \<longleftrightarrow> c \<notin> set s"
  by (induction s) auto

lemma Index_Some: "Index s p = Some i \<Longrightarrow> i + length p \<le> length s \<and> take (length p) (drop i s) = p"
proof (induction s arbitrary: i)
  case (Cons x xs)
  then show ?case by (fastforce simp: HasPrefix_def split: if_splits dest: arg_cong [where f = length])
qed (auto split: if_splits)

lemma Contains_iff_sublist: "Contains s p \<longleftrightarrow> sublist p s"
proof (induction s)
  case (Cons x xs)
  then show ?case by (auto simp: Contains_def HasPrefix_iff_prefix sublist_Cons_right)
qed (simp add: Contains_def)

lemma space_len_le: "space_len encs s \<le> length s"
  by (auto simp: space_len_def find_Some_iff HasPrefix_def split: option.splits
      dest: arg_cong [where f = length])

lemma trim_spaces_suffix: "suffix (trim_spaces encs s) s"
proof (induction encs s rule: trim_spaces.induct)
  case (1 encs s)
  show ?case
  proof (cases "s \<noteq> [] \<and> 0 < space_len encs s")
    case True
    then have "suffix (trim_spaces encs s) (drop (space_len encs s) s)"
      using "1" by (simp add: trim_spaces.simps [of encs s])
    then show ?thesis using drop_eq_suffix suffix_order.order_trans by blast
  qed (auto simp: trim_spaces.simps [of encs s])
qed

lemma length_trim_spaces: "length (trim_spaces encs s) \<le> length s"
  using trim_spaces_suffix suffix_length_le by blast

lemma length_TrimSpace: "length (TrimSpace s) \<le> length s"
  by (metis TrimSpace_def length_rev length_trim_spaces order_trans)

end
