(* ===== verification/GoTime.thy ===== *)
theory GoTime
  imports Calendar GoStrings
begin

text \<open>
  What the code prints of numbers and instants: \<open>fmt\<close>'s \<open>%d\<close> and the layouts \<open>15:04\<close> and
  \<open>time.RFC3339\<close> of package \<open>time\<close>. A location is its offset from UTC in seconds at each instant.
\<close>

type_synonym location = "gotime \<Rightarrow> int"

definition UTC :: location where
  "UTC t = 0"

definition wall_clock :: "location \<Rightarrow> gotime \<Rightarrow> gotime" where
  "wall_clock loc t = t + loc t * Second"

definition fmt_d :: "int \<Rightarrow> string" where
  "fmt_d n = (if n < 0 then ''-'' else []) @ Itoa (nat \<bar>n\<bar>)"

definition pad_zeros :: "nat \<Rightarrow> int \<Rightarrow> string" where
  "pad_zeros w n = (let ds = Itoa (nat \<bar>n\<bar>) in (if n < 0 then ''-'' else []) @ replicate (w - length ds) CHR ''0'' @ ds)"

definition SecondOf :: "gotime \<Rightarrow> int" where
  "SecondOf t = t mod Minute div Second"

definition FormatClock :: "location \<Rightarrow> gotime \<Rightarrow> string" where
  "FormatClock loc t = (let w = wall_clock loc t in pad_zeros 2 (HourOf w) @ '':'' @ pad_zeros 2 (MinuteOf w))"

definition FormatRFC3339 :: "gotime \<Rightarrow> string" where
  "FormatRFC3339 t =
     pad_zeros 4 (Year t) @ ''-'' @ pad_zeros 2 (Month t) @ ''-'' @ pad_zeros 2 (Day t) @ ''T''
       @ pad_zeros 2 (HourOf t) @ '':'' @ pad_zeros 2 (MinuteOf t) @ '':'' @ pad_zeros 2 (SecondOf t) @ ''Z''"

lemma Itoa_not_Nil [simp]: "Itoa n \<noteq> []"
  by (subst Itoa.simps) simp

lemma Itoa_two_digits: "n < 100 \<Longrightarrow> length (Itoa n) \<le> 2"
  by (simp add: Itoa.simps [of n] Itoa.simps [of "n div 10"]) linarith

lemma length_pad_two: "0 \<le> n \<Longrightarrow> n < 100 \<Longrightarrow> length (pad_zeros 2 n) = 2"
  using Itoa_two_digits [of "nat n"] by (auto simp: pad_zeros_def Let_def)

lemma length_FormatClock: "length (FormatClock loc t) = 5"
proof -
  have "0 \<le> HourOf w" "HourOf w < 100" "0 \<le> MinuteOf w" "MinuteOf w < 100" for w
    using reader_bounds [of w] by auto
  then show ?thesis by (simp add: FormatClock_def Let_def length_pad_two)
qed

end
