(* ===== verification/Failure.thy ===== *)
theory Failure
  imports GoTime
begin

text \<open>
  The vocabulary of run failures (\<open>internal/runs/failure/classify.go\<close>, \<open>kinds.go\<close>) and the next step the
  daemon offers for each kind (\<open>action.go\<close>): the action, the guidance text and the exit code.
\<close>

section \<open>Kinds\<close>

definition KindPlanWindowExhausted :: string where "KindPlanWindowExhausted = ''plan_window_exhausted''"
definition KindTransient429 :: string where "KindTransient429 = ''transient_429''"
definition KindAuthExpired :: string where "KindAuthExpired = ''auth_expired''"
definition KindModelNotInPlan :: string where "KindModelNotInPlan = ''model_not_in_plan''"
definition KindRateLimited :: string where "KindRateLimited = ''rate_limited''"
definition KindCLIExited :: string where "KindCLIExited = ''cli_exited''"

lemmas kind_defs = KindPlanWindowExhausted_def KindTransient429_def KindAuthExpired_def
  KindModelNotInPlan_def KindRateLimited_def KindCLIExited_def

definition IsPlanLimit :: "string \<Rightarrow> bool" where
  "IsPlanLimit kind \<longleftrightarrow> kind = KindPlanWindowExhausted \<or> kind = KindRateLimited"

definition IsLimitKind :: "string \<Rightarrow> bool" where
  "IsLimitKind kind \<longleftrightarrow> IsPlanLimit kind \<or> kind = KindTransient429"

definition IsHumanFix :: "string \<Rightarrow> bool" where
  "IsHumanFix kind \<longleftrightarrow> kind = KindAuthExpired \<or> kind = KindModelNotInPlan"

definition IsKnown :: "string \<Rightarrow> bool" where
  "IsKnown kind \<longleftrightarrow> IsLimitKind kind \<or> IsHumanFix kind \<or> kind = KindCLIExited"

section \<open>Actions\<close>

definition ActionSignIn :: string where "ActionSignIn = ''sign_in''"
definition ActionWaitUntil :: string where "ActionWaitUntil = ''wait_until''"
definition ActionSwitchProfile :: string where "ActionSwitchProfile = ''switch_profile''"
definition ActionPickModel :: string where "ActionPickModel = ''pick_model''"
definition ActionAutoRetry :: string where "ActionAutoRetry = ''auto_retry''"
definition ActionRetryNow :: string where "ActionRetryNow = ''retry_now''"
definition ActionContinue :: string where "ActionContinue = ''continue''"
definition ActionClearCooldown :: string where "ActionClearCooldown = ''clear_cooldown''"
definition ActionPickProvider :: string where "ActionPickProvider = ''pick_provider''"

lemmas action_defs = ActionSignIn_def ActionWaitUntil_def ActionSwitchProfile_def ActionPickModel_def
  ActionAutoRetry_def ActionRetryNow_def ActionContinue_def ActionClearCooldown_def ActionPickProvider_def

record fail_action =
  fa_Kind :: string
  fa_Target :: string
  fa_Label :: string
  fa_Models :: "string list"
  fa_Attempt :: int
  fa_Max :: int
  fa_NextAt :: "gotime option"

definition plain_action :: "string \<Rightarrow> string \<Rightarrow> string \<Rightarrow> fail_action" where
  "plain_action kind target label = \<lparr>fa_Kind = kind, fa_Target = target, fa_Label = label, fa_Models = [],
     fa_Attempt = 0, fa_Max = 0, fa_NextAt = None\<rparr>"

text \<open>\<open>ac_Loc\<close> is the location of \<open>Now\<close>.\<close>

record action_context =
  ac_Provider :: string
  ac_ProviderLabel :: string
  ac_Model :: string
  ac_AllowedModels :: "string list"
  ac_Window :: string
  ac_ResetAt :: "gotime option"
  ac_FallbackProfileID :: int
  ac_FallbackProfileName :: string
  ac_Attempt :: int
  ac_Max :: int
  ac_NextAt :: "gotime option"
  ac_Now :: gotime
  ac_Loc :: location

definition who :: "action_context \<Rightarrow> string" where
  "who c = (if ac_ProviderLabel c \<noteq> [] then ac_ProviderLabel c
            else if ac_Provider c \<noteq> [] then ac_Provider c
            else ''this provider'')"

definition future_reset :: "action_context \<Rightarrow> gotime option" where
  "future_reset c = (case ac_ResetAt c of Some t \<Rightarrow> if ac_Now c < t then Some t else None | None \<Rightarrow> None)"

definition wait_text :: "action_context \<Rightarrow> string" where
  "wait_text c =
     (case future_reset c of
        None \<Rightarrow> []
      | Some t \<Rightarrow> (if ac_Window c \<noteq> [] then ac_Window c @ '' window '' else []) @ ''resets '' @ FormatClock (ac_Loc c) t)"

definition planAction :: "string \<Rightarrow> action_context \<Rightarrow> fail_action" where
  "planAction kind c =
     (let wait = wait_text c in
      if ac_FallbackProfileID c \<noteq> 0 then
        let label = (if ac_FallbackProfileName c \<noteq> [] then ''Switch to '' @ ac_FallbackProfileName c
                     else ''Switch to the fallback profile'');
            label = (if wait \<noteq> [] then label @ '' or wait ('' @ wait @ '')'' else label)
        in plain_action ActionSwitchProfile (''profile:'' @ fmt_d (ac_FallbackProfileID c)) label
      else case future_reset c of
        Some t \<Rightarrow> plain_action ActionWaitUntil (FormatRFC3339 t) (''Wait: '' @ wait)
      | None \<Rightarrow>
          if kind = KindRateLimited then plain_action ActionRetryNow [] ''Retry''
          else plain_action ActionRetryNow [] ''Reset time unknown: retry later'')"

definition NextAction :: "string \<Rightarrow> action_context \<Rightarrow> fail_action option" where
  "NextAction kind c =
     (if kind = KindAuthExpired then
        Some (plain_action ActionSignIn
          (''settings:providers'' @ (if ac_Provider c \<noteq> [] then ''?provider='' @ ac_Provider c else []))
          (''Sign in again to '' @ who c))
      else if kind = KindModelNotInPlan then
        let model = (if ac_Model c \<noteq> [] then ac_Model c else ''the chosen model'');
            label = (if ac_AllowedModels c \<noteq> []
                     then ''Pick another model ('' @ model @ '' is not in this plan): '' @ Join (ac_AllowedModels c) '', ''
                     else ''Pick another model: '' @ model @ '' is not in this plan'')
        in Some ((plain_action ActionPickModel [] label)\<lparr>fa_Models := ac_AllowedModels c\<rparr>)
      else if kind = KindTransient429 then
        if ac_NextAt c \<noteq> None \<and> 0 < ac_Attempt c \<and> 0 < ac_Max c then
          Some \<lparr>fa_Kind = ActionAutoRetry, fa_Target = [],
            fa_Label = ''Retrying automatically ('' @ fmt_d (ac_Attempt c) @ '' of '' @ fmt_d (ac_Max c) @ '')'',
            fa_Models = [], fa_Attempt = ac_Attempt c, fa_Max = ac_Max c, fa_NextAt = ac_NextAt c\<rparr>
        else Some (plain_action ActionRetryNow [] (who c @ '' throttled briefly: retry''))
      else if kind = KindPlanWindowExhausted \<or> kind = KindRateLimited then Some (planAction kind c)
      else if kind = KindCLIExited then Some (plain_action ActionContinue [] ''Continue the run'')
      else None)"

definition Guidance :: "string \<Rightarrow> string" where
  "Guidance kind =
     (if kind = KindAuthExpired then ''A human must sign in again (the action names where). Do not retry and do not fall back: neither can work until the login is fixed.''
      else if kind = KindModelNotInPlan then ''The account's plan does not include the model. Re-send with a different model (the action may list the allowed ones). Do not retry the same model and do not fall back to another account.''
      else if kind = KindPlanWindowExhausted then ''The plan's usage window is used up. Wait until resetAt, or start the work on the fallbackProfileId profile if there is one. Do not retry immediately.''
      else if kind = KindTransient429 then ''A short throttle, not a plan limit. A profile or orchestrator run is retried by the daemon on its own (twice, 30 s then 2 min); otherwise retry after a short wait. Do not switch profile and do not treat it as exhausted quota.''
      else if kind = KindRateLimited then ''A rate limit of unknown kind (no window, no reset time). Retry after a short wait. Do not assume the plan is exhausted.''
      else if kind = KindCLIExited then ''The agent CLI ended without a result; its session is stored. Send a follow-up prompt such as '' @ [CHR 0x22] @ ''continue'' @ [CHR 0x22] @ ''.''
      else [])"

definition ExitCode :: "string \<Rightarrow> int" where
  "ExitCode kind = (if IsLimitKind kind then 6 else if IsHumanFix kind then 7 else 1)"

section \<open>The kinds are covered\<close>

lemma kinds_distinct:
  "distinct [KindPlanWindowExhausted, KindTransient429, KindAuthExpired, KindModelNotInPlan, KindRateLimited, KindCLIExited]"
  by (simp add: kind_defs)

lemma known_cases:
  "IsKnown kind \<longleftrightarrow> kind \<in> {KindPlanWindowExhausted, KindTransient429, KindAuthExpired, KindModelNotInPlan, KindRateLimited, KindCLIExited}"
  by (auto simp: IsKnown_def IsLimitKind_def IsHumanFix_def IsPlanLimit_def)

lemma NextAction_Some_iff: "NextAction kind c \<noteq> None \<longleftrightarrow> IsKnown kind"
  by (simp add: NextAction_def known_cases Let_def)

lemma planAction_kind:
  "fa_Kind (planAction kind c) =
     (if ac_FallbackProfileID c \<noteq> 0 then ActionSwitchProfile
      else if future_reset c \<noteq> None then ActionWaitUntil else ActionRetryNow)"
  by (auto simp: planAction_def plain_action_def Let_def split: option.splits)

lemma human_fix_action:
  assumes "IsHumanFix kind" "NextAction kind c = Some a"
  shows "fa_Kind a \<in> {ActionSignIn, ActionPickModel}"
  using assms kinds_distinct by (auto simp: IsHumanFix_def NextAction_def plain_action_def Let_def split: if_splits)

text \<open>
  The daemon answers exactly the failures it knows: a kind has a next action exactly when it has a
  guidance text and exactly when it is one of the six kinds, and the exit code is 6 for the rate
  limits, 7 for what a person has to fix and 1 for the rest. What a person has to fix is never
  answered by a retry, a wait or a switch of profile, and a wait is only offered for a reset that is
  still ahead.
\<close>

theorem every_failure_kind_is_answered:
  "(NextAction kind c \<noteq> None \<longleftrightarrow> IsKnown kind) \<and> (Guidance kind \<noteq> [] \<longleftrightarrow> IsKnown kind)
   \<and> (ExitCode kind = 7 \<longleftrightarrow> IsHumanFix kind) \<and> (ExitCode kind = 6 \<longleftrightarrow> IsLimitKind kind)
   \<and> (IsHumanFix kind \<longrightarrow> fa_Kind (the (NextAction kind c)) \<in> {ActionSignIn, ActionPickModel})
   \<and> (IsKnown kind \<longrightarrow> fa_Kind (the (NextAction kind c)) = ActionWaitUntil \<longrightarrow>
        IsPlanLimit kind \<and> (\<exists>t. ac_ResetAt c = Some t \<and> ac_Now c < t \<and> fa_Target (the (NextAction kind c)) = FormatRFC3339 t))"
proof (intro conjI)
  show "NextAction kind c \<noteq> None \<longleftrightarrow> IsKnown kind" by (rule NextAction_Some_iff)
  show "Guidance kind \<noteq> [] \<longleftrightarrow> IsKnown kind" by (simp add: Guidance_def known_cases)
  show "ExitCode kind = 7 \<longleftrightarrow> IsHumanFix kind"
    by (auto simp: ExitCode_def IsLimitKind_def IsPlanLimit_def IsHumanFix_def kind_defs)
  show "ExitCode kind = 6 \<longleftrightarrow> IsLimitKind kind" by (simp add: ExitCode_def)
  show "IsHumanFix kind \<longrightarrow> fa_Kind (the (NextAction kind c)) \<in> {ActionSignIn, ActionPickModel}"
    using human_fix_action [of kind c] NextAction_Some_iff [of kind c] by (auto simp: IsKnown_def)
  show "IsKnown kind \<longrightarrow> fa_Kind (the (NextAction kind c)) = ActionWaitUntil \<longrightarrow>
        IsPlanLimit kind \<and> (\<exists>t. ac_ResetAt c = Some t \<and> ac_Now c < t \<and> fa_Target (the (NextAction kind c)) = FormatRFC3339 t)"
  proof (intro impI)
    assume k: "IsKnown kind" and w: "fa_Kind (the (NextAction kind c)) = ActionWaitUntil"
    have p: "IsPlanLimit kind"
      using k w by (auto simp: known_cases NextAction_def plain_action_def Let_def action_defs IsPlanLimit_def kind_defs split: if_splits)
    then have a: "NextAction kind c = Some (planAction kind c)"
      by (auto simp: IsPlanLimit_def NextAction_def kind_defs)
    have "ac_FallbackProfileID c = 0" "future_reset c \<noteq> None"
      using w by (auto simp: a planAction_kind action_defs split: if_splits)
    then show "IsPlanLimit kind \<and> (\<exists>t. ac_ResetAt c = Some t \<and> ac_Now c < t \<and> fa_Target (the (NextAction kind c)) = FormatRFC3339 t)"
      using p by (auto simp: a planAction_def plain_action_def Let_def future_reset_def split: option.splits if_splits)
  qed
qed

definition demo_context :: action_context where
  "demo_context = \<lparr>ac_Provider = ''glm'', ac_ProviderLabel = [], ac_Model = [], ac_AllowedModels = [], ac_Window = ''5h'',
     ac_ResetAt = Some (Hour), ac_FallbackProfileID = 0, ac_FallbackProfileName = [], ac_Attempt = 0, ac_Max = 0,
     ac_NextAt = None, ac_Now = 0, ac_Loc = UTC\<rparr>"

end
