(* ===== verification/Quota.thy ===== *)
theory Quota
  imports GoStrings Complex_Main "HOL-Library.Char_ord"
begin

text \<open>
  The usage report and the read-only view of the quota poller that routing consults
  (\<open>internal/quota/report.go\<close>, \<open>reader.go\<close>, \<open>passive_types.go\<close>). A percentage is a finite
  \<open>float64\<close>; the code only compares it, so it is a rational here. The poller behind the view
  is a parameter: a record of its three read functions.
\<close>

datatype report_status = StatusAvailable | StatusUnavailable | StatusError

datatype scope_kind = ScopeAccount | ScopeModel | ScopeSurface | ScopeFeature

record scope =
  sc_Kind :: scope_kind
  sc_ID :: string
  sc_Name :: string

record window =
  w_ID :: string
  w_Scope :: "scope option"
  w_UsedPct :: "rat option"
  w_RemainingPct :: "rat option"
  w_ResetsAt :: "gotime option"

record report =
  rp_Status :: report_status
  rp_Windows :: "window list"
  rp_OverageEnabled :: "bool option"
  rp_FetchedAt :: gotime

record poll_result =
  pr_AccountID :: int
  pr_Enabled :: bool
  pr_Report :: "report option"

datatype cooldown_scope = CooldownAccount | CooldownModel

datatype cooldown_reason = ReasonRejected | ReasonFallback | ReasonBackoff

record cooldown =
  cd_Until :: gotime
  cd_Scope :: cooldown_scope
  cd_Model :: string
  cd_Reason :: cooldown_reason

definition Transient :: "cooldown \<Rightarrow> bool" where
  "Transient c \<longleftrightarrow> cd_Reason c = ReasonBackoff"

record quota_reader =
  Peek :: "int \<Rightarrow> poll_result"
  TTL :: duration
  Cooldown :: "int \<Rightarrow> string \<Rightarrow> gotime \<Rightarrow> cooldown option"

definition is_alnum_lower :: "char \<Rightarrow> bool" where
  "is_alnum_lower c \<longleftrightarrow> (CHR ''a'' \<le> c \<and> c \<le> CHR ''z'') \<or> (CHR ''0'' \<le> c \<and> c \<le> CHR ''9'')"

text \<open>The loop of \<open>normalizeToken\<close>; \<open>out\<close> is the builder's content.\<close>

fun normalize_loop :: "bool \<Rightarrow> string \<Rightarrow> string \<Rightarrow> string" where
  "normalize_loop sep out [] = out"
| "normalize_loop sep out (r # rs) =
     (if is_alnum_lower r
      then normalize_loop False (out @ (if sep \<and> out \<noteq> [] then ''-'' else []) @ [r]) rs
      else normalize_loop True out rs)"

definition normalizeToken :: "string \<Rightarrow> string" where
  "normalizeToken s = normalize_loop False [] (ToLower s)"

definition AppliesTo :: "window \<Rightarrow> string \<Rightarrow> bool" where
  "AppliesTo w model =
     (case w_Scope w of
        None \<Rightarrow> True
      | Some sc \<Rightarrow>
          (if sc_Kind sc \<noteq> ScopeModel \<or> model = [] then False
           else let token = normalizeToken (sc_Name sc)
                in if token = [] then False else Contains (normalizeToken model) token))"

end
