(* ===== verification/Routing.thy ===== *)
theory Routing
  imports Quota
begin

text \<open>
  The account router (\<open>internal/routing/router.go\<close>): session affinity over stored routing
  decisions, the \<open>hard\<close> and \<open>pool\<close> policies, and the exhaustion verdict that combines the
  passive cooldown with the cached usage windows. The decision table is the list of rows in id
  order (\<open>internal/store/routing_decisions.go\<close>); whether the database answers is part of the
  environment of a call, as are the clock readings.
\<close>

section \<open>Data\<close>

record routing_decision =
  rd_ID :: int
  rd_SessionKey :: string
  rd_AccountID :: int
  rd_Policy :: string
  rd_DecidedAt :: gotime
  rd_ExpiresAt :: gotime

record router =
  rt_routingTTL :: duration
  rt_usageRouting :: bool
  rt_thresholdPct :: int

definition defaultRoutingTTL :: duration where
  "defaultRoutingTTL = 24 * Hour"

definition PolicyHard :: string where "PolicyHard = ''hard''"
definition PolicyPool :: string where "PolicyPool = ''pool''"

datatype router_option = WithRoutingTTL duration | WithUsageRouting bool | WithExhaustThresholdPct int

fun apply_option :: "router_option \<Rightarrow> router \<Rightarrow> router" where
  "apply_option (WithRoutingTTL ttl) r = r\<lparr>rt_routingTTL := ttl\<rparr>"
| "apply_option (WithUsageRouting enabled) r = r\<lparr>rt_usageRouting := enabled\<rparr>"
| "apply_option (WithExhaustThresholdPct pct) r =
     (if pct \<ge> 1 \<and> pct \<le> 100 then r\<lparr>rt_thresholdPct := pct\<rparr> else r)"

definition NewRouter :: "router_option list \<Rightarrow> router" where
  "NewRouter opts = fold apply_option opts
     \<lparr>rt_routingTTL = defaultRoutingTTL, rt_usageRouting = True, rt_thresholdPct = 100\<rparr>"

record verdict =
  v_Exhausted :: bool
  v_TransientOnly :: bool
  v_Until :: gotime

datatype route_error =
    LatestDecisionFailed string
  | HardNeedsOne nat
  | HardExhausted int gotime
  | PoolNoCandidates
  | PoolAllExhausted nat gotime
  | UnknownPolicy string
  | PersistFailed string
  | RegistryFailed int

text \<open>
  What one call of \<open>Route\<close> reads from outside: whether the two database accesses succeed, the
  two readings of \<open>time.Now\<close> and the two readings of the router's clock.
\<close>

record route_env =
  env_list_ok :: bool
  env_create_ok :: bool
  env_now_check :: gotime
  env_now_decide :: gotime
  env_clock_check :: gotime
  env_clock_select :: gotime

section \<open>Exhaustion\<close>

definition window_full :: "router \<Rightarrow> window \<Rightarrow> bool" where
  "window_full r w \<longleftrightarrow>
     (case w_UsedPct w of Some u \<Rightarrow> u \<ge> of_int (rt_thresholdPct r) | None \<Rightarrow> False) \<or>
     (case w_RemainingPct w of Some p \<Rightarrow> p \<le> 0 | None \<Rightarrow> False)"

text \<open>When a full window ends: its own reset, or twice the cache TTL after the fetch; \<open>None\<close>
  when that has passed.\<close>

definition window_reset :: "quota_reader \<Rightarrow> report \<Rightarrow> window \<Rightarrow> gotime \<Rightarrow> gotime option" where
  "window_reset rd rep w now =
     (case w_ResetsAt w of
        Some reset \<Rightarrow> if \<not> now < reset then None else Some reset
      | None \<Rightarrow> (let reset = rp_FetchedAt rep + 2 * TTL rd in if now > reset then None else Some reset))"

fun window_loop :: "router \<Rightarrow> quota_reader \<Rightarrow> report \<Rightarrow> string \<Rightarrow> gotime \<Rightarrow> window list \<Rightarrow>
    bool \<times> gotime \<Rightarrow> bool \<times> gotime" where
  "window_loop r rd rep model now [] acc = acc"
| "window_loop r rd rep model now (w # ws) (exhausted, until) =
     (if \<not> AppliesTo w model then window_loop r rd rep model now ws (exhausted, until)
      else if \<not> window_full r w then window_loop r rd rep model now ws (exhausted, until)
      else case window_reset rd rep w now of
             None \<Rightarrow> window_loop r rd rep model now ws (exhausted, until)
           | Some reset \<Rightarrow>
               window_loop r rd rep model now ws (True, if reset > until then reset else until))"

definition windowExhaustion :: "router \<Rightarrow> quota_reader \<Rightarrow> int \<Rightarrow> string \<Rightarrow> gotime \<Rightarrow> bool \<times> gotime" where
  "windowExhaustion r rd accountID model now =
     (let res = Peek rd accountID in
      case pr_Report res of
        None \<Rightarrow> (False, zero_time)
      | Some rep \<Rightarrow>
          (if \<not> pr_Enabled res \<or> rp_Status rep \<noteq> StatusAvailable then (False, zero_time)
           else if rp_OverageEnabled rep = Some True then (False, zero_time)
           else window_loop r rd rep model now (rp_Windows rep) (False, zero_time)))"

definition exhaustionDetail :: "router \<Rightarrow> quota_reader \<Rightarrow> int \<Rightarrow> string \<Rightarrow> gotime \<Rightarrow> bool \<times> bool \<times> gotime" where
  "exhaustionDetail r rd accountID model now =
     (if \<not> rt_usageRouting r then (False, False, zero_time)
      else
        let (exhausted, transientOnly, until) =
              (case Cooldown rd accountID model now of
                 Some cd \<Rightarrow> if cd_Until cd > now then (True, Transient cd, cd_Until cd)
                            else (False, False, zero_time)
               | None \<Rightarrow> (False, False, zero_time));
            (fetched, reset) = windowExhaustion r rd accountID model now
        in if fetched then (True, False, if reset > until then reset else until)
           else (exhausted, transientOnly, until))"

definition exhaustion :: "router \<Rightarrow> quota_reader \<Rightarrow> int \<Rightarrow> string \<Rightarrow> gotime \<Rightarrow> bool \<times> gotime" where
  "exhaustion r rd accountID model now =
     (case exhaustionDetail r rd accountID model now of (exhausted, _, until) \<Rightarrow> (exhausted, until))"

definition Exhaustion :: "router \<Rightarrow> quota_reader \<Rightarrow> int \<Rightarrow> string \<Rightarrow> gotime \<Rightarrow> verdict" where
  "Exhaustion r rd accountID model now =
     (case exhaustionDetail r rd accountID model now of
        (exhausted, transientOnly, until) \<Rightarrow>
          \<lparr>v_Exhausted = exhausted, v_TransientOnly = transientOnly, v_Until = until\<rparr>)"

section \<open>Selecting an account\<close>

text \<open>The loop of the pool policy: the first usable candidate, else the earliest reset seen.\<close>

fun pool_loop :: "router \<Rightarrow> quota_reader \<Rightarrow> string \<Rightarrow> gotime \<Rightarrow> gotime \<Rightarrow> int list \<Rightarrow> gotime + int" where
  "pool_loop r rd model now earliest [] = Inl earliest"
| "pool_loop r rd model now earliest (a # as) =
     (case exhaustion r rd a model now of
        (exhausted, until) \<Rightarrow>
          if \<not> exhausted then Inr a
          else pool_loop r rd model now
                 (if earliest = zero_time \<or> until < earliest then until else earliest) as)"

definition selectAccount :: "router \<Rightarrow> quota_reader \<Rightarrow> gotime \<Rightarrow> string \<Rightarrow> int list \<Rightarrow> string \<Rightarrow>
    route_error + int" where
  "selectAccount r rd now policy candidates model =
     (if policy = PolicyHard then
        (case candidates of
           [a] \<Rightarrow> (case exhaustion r rd a model now of
                     (exhausted, until) \<Rightarrow> if exhausted then Inl (HardExhausted a until) else Inr a)
         | _ \<Rightarrow> Inl (HardNeedsOne (length candidates)))
      else if policy = PolicyPool then
        (case pool_loop r rd model now zero_time candidates of
           Inr a \<Rightarrow> Inr a
         | Inl earliest \<Rightarrow>
             if candidates = [] then Inl PoolNoCandidates
             else Inl (PoolAllExhausted (length candidates) earliest))
      else Inl (UnknownPolicy policy))"

section \<open>Routing decisions\<close>

fun latest_loop :: "string \<Rightarrow> routing_decision list \<Rightarrow> routing_decision option \<Rightarrow> routing_decision option" where
  "latest_loop key [] latest = latest"
| "latest_loop key (d # ds) latest =
     (if rd_SessionKey d \<noteq> key then latest_loop key ds latest
      else case latest of
             None \<Rightarrow> latest_loop key ds (Some d)
           | Some l \<Rightarrow>
               latest_loop key ds (if \<not> rd_DecidedAt d < rd_DecidedAt l then Some d else Some l))"

definition latestDecision :: "string \<Rightarrow> routing_decision list \<Rightarrow> routing_decision option" where
  "latestDecision key ds = latest_loop key ds None"

text \<open>\<open>CreateRoutingDecision\<close> appends a row with the next id, so the list stays in id order.\<close>

definition CreateRoutingDecision :: "routing_decision \<Rightarrow> routing_decision list \<Rightarrow> routing_decision list" where
  "CreateRoutingDecision d ds = ds @ [d\<lparr>rd_ID := 1 + Max (insert 0 (rd_ID ` set ds))\<rparr>]"

definition pin_holds :: "route_env \<Rightarrow> int list \<Rightarrow> routing_decision \<Rightarrow> bool" where
  "pin_holds env candidates d \<longleftrightarrow>
     env_now_check env < rd_ExpiresAt d \<and> rd_AccountID d \<in> set candidates"

definition lookup_account :: "(int \<Rightarrow> 'acct option) \<Rightarrow> int \<Rightarrow> route_error + 'acct" where
  "lookup_account get a = (case get a of Some acct \<Rightarrow> Inr acct | None \<Rightarrow> Inl (RegistryFailed a))"

text \<open>
  The part of \<open>Route\<close> after the affinity check: select, persist, look the account up.
  \<open>get\<close> is \<open>accounts.Registry.Get\<close>. The result carries the decision table afterwards.
\<close>

definition route_new :: "router \<Rightarrow> quota_reader \<Rightarrow> (int \<Rightarrow> 'acct option) \<Rightarrow> route_env \<Rightarrow>
    string \<Rightarrow> string \<Rightarrow> int list \<Rightarrow> string \<Rightarrow> routing_decision list \<Rightarrow>
    (route_error + 'acct) \<times> routing_decision list" where
  "route_new r rd get env key policy candidates model ds =
     (case selectAccount r rd (env_clock_select env) policy candidates model of
        Inl e \<Rightarrow> (Inl e, ds)
      | Inr a \<Rightarrow>
          (if \<not> env_create_ok env then (Inl (PersistFailed key), ds)
           else
             let ds' = CreateRoutingDecision
                   \<lparr>rd_ID = 0, rd_SessionKey = key, rd_AccountID = a, rd_Policy = policy,
                    rd_DecidedAt = env_now_decide env,
                    rd_ExpiresAt = env_now_decide env + rt_routingTTL r\<rparr> ds
             in (lookup_account get a, ds')))"

definition Route :: "router \<Rightarrow> quota_reader \<Rightarrow> (int \<Rightarrow> 'acct option) \<Rightarrow> route_env \<Rightarrow>
    string \<Rightarrow> string \<Rightarrow> int list \<Rightarrow> string \<Rightarrow> routing_decision list \<Rightarrow>
    (route_error + 'acct) \<times> routing_decision list" where
  "Route r rd get env key policy candidates model ds =
     (if \<not> env_list_ok env then (Inl (LatestDecisionFailed key), ds)
      else
        let fresh = route_new r rd get env key policy candidates model ds in
        case latestDecision key ds of
          None \<Rightarrow> fresh
        | Some d \<Rightarrow>
            (if pin_holds env candidates d then
               (case exhaustionDetail r rd (rd_AccountID d) model (env_clock_check env) of
                  (exhausted, transientOnly, _) \<Rightarrow>
                    if \<not> exhausted then (lookup_account get (rd_AccountID d), ds)
                    else if transientOnly then
                      (lookup_account get
                         (case selectAccount r rd (env_clock_select env) policy candidates model of
                            Inl _ \<Rightarrow> rd_AccountID d
                          | Inr a \<Rightarrow> a), ds)
                    else fresh)
             else fresh))"

section \<open>Lemmas: the exhaustion verdict\<close>

text \<open>The windows that block a request now, with the time each one ends.\<close>

definition blocking_resets :: "router \<Rightarrow> quota_reader \<Rightarrow> report \<Rightarrow> string \<Rightarrow> gotime \<Rightarrow> window list \<Rightarrow> gotime list" where
  "blocking_resets r rd rep model now ws =
     List.map_filter (\<lambda>w. if AppliesTo w model \<and> window_full r w then window_reset rd rep w now else None) ws"

definition window_blocks :: "router \<Rightarrow> quota_reader \<Rightarrow> report \<Rightarrow> string \<Rightarrow> gotime \<Rightarrow> window \<Rightarrow> gotime \<Rightarrow> bool" where
  "window_blocks r rd rep model now w t \<longleftrightarrow> AppliesTo w model \<and> window_full r w \<and>
     (case w_ResetsAt w of
        Some x \<Rightarrow> t = x \<and> now < x
      | None \<Rightarrow> t = rp_FetchedAt rep + 2 * TTL rd \<and> now \<le> t)"

lemma blocking_resets_simps [simp]:
  "blocking_resets r rd rep model now [] = []"
  "blocking_resets r rd rep model now (w # ws) =
     (if AppliesTo w model \<and> window_full r w
      then (case window_reset rd rep w now of
              None \<Rightarrow> blocking_resets r rd rep model now ws
            | Some t \<Rightarrow> t # blocking_resets r rd rep model now ws)
      else blocking_resets r rd rep model now ws)"
  by (simp_all add: blocking_resets_def map_filter_simps split: option.splits)

lemma window_loop_eq:
  "window_loop r rd rep model now ws (e, u) =
     (e \<or> blocking_resets r rd rep model now ws \<noteq> [], fold max (blocking_resets r rd rep model now ws) u)"
  by (induction r rd rep model now ws "(e, u)" arbitrary: e u rule: window_loop.induct)
    (auto simp: max_def split: option.splits)

lemma window_reset_ge: "window_reset rd rep w now = Some t \<Longrightarrow> now \<le> t"
  by (auto simp: window_reset_def Let_def split: option.splits if_splits)

lemma blocking_resets_ge: "t \<in> set (blocking_resets r rd rep model now ws) \<Longrightarrow> now \<le> t"
  by (induction ws) (auto split: if_splits option.splits dest: window_reset_ge)

lemma fold_max_ge: "(u::int) \<le> fold max xs u" and fold_max_mem: "x \<in> set xs \<Longrightarrow> (x::int) \<le> fold max xs u"
proof (induction xs arbitrary: u)
  case (Cons y ys)
  { case 1 show ?case using Cons(1) [of "max y u"] by simp }
  { case 2 then show ?case using Cons(1) [of "max y u"] Cons(2) [of "max y u"] by auto }
qed simp_all

lemma windowExhaustion_until: "windowExhaustion r rd a model now = (True, t) \<Longrightarrow> now \<le> t"
proof -
  assume "windowExhaustion r rd a model now = (True, t)"
  then obtain rep ws where ne: "blocking_resets r rd rep model now ws \<noteq> []"
    and t: "t = fold max (blocking_resets r rd rep model now ws) zero_time"
    by (auto simp: windowExhaustion_def Let_def window_loop_eq split: option.splits if_splits)
  from ne have x: "hd (blocking_resets r rd rep model now ws) \<in> set (blocking_resets r rd rep model now ws)"
    (is "?x \<in> _") by simp
  from x have "now \<le> ?x" by (rule blocking_resets_ge)
  also have "?x \<le> t" using fold_max_mem [OF x] t by simp
  finally show ?thesis .
qed

lemma windowExhaustion_not: "windowExhaustion r rd a model now = (False, t) \<Longrightarrow> t = zero_time"
  by (auto simp: windowExhaustion_def Let_def window_loop_eq split: option.splits if_splits)

lemma exhaustionDetail_until:
  "exhaustionDetail r rd a model now = (True, tr, t) \<Longrightarrow> now \<le> t"
  by (auto simp: exhaustionDetail_def Let_def split: if_splits option.splits prod.splits
      dest: windowExhaustion_until)

lemma exhaustionDetail_not:
  "exhaustionDetail r rd a model now = (False, tr, t) \<Longrightarrow> \<not> tr \<and> t = zero_time"
  by (auto simp: exhaustionDetail_def Let_def split: if_splits option.splits prod.splits)

text \<open>The verdict interface the picker gate reads (\<open>gate.WindowReader\<close>), and its laws.\<close>

locale window_reader =
  fixes verdict_of :: "int \<Rightarrow> string \<Rightarrow> gotime \<Rightarrow> verdict"
  assumes until_not_past: "v_Exhausted (verdict_of a model now) \<Longrightarrow> now \<le> v_Until (verdict_of a model now)"
    and usable_is_zero: "\<not> v_Exhausted (verdict_of a model now) \<Longrightarrow>
      \<not> v_TransientOnly (verdict_of a model now) \<and> v_Until (verdict_of a model now) = zero_time"
begin

lemma blocked_until_future: "0 < now \<Longrightarrow> v_Exhausted (verdict_of a model now) \<Longrightarrow> v_Until (verdict_of a model now) \<noteq> zero_time"
  using until_not_past [of a model now] by (simp add: zero_time_def)

end

interpretation router: window_reader "Exhaustion r rd" for r rd
  by unfold_locales
    (auto simp: Exhaustion_def split: prod.splits dest: exhaustionDetail_until exhaustionDetail_not)

section \<open>Lemmas: selection and decisions\<close>

lemma exhaustion_iff: "fst (exhaustion r rd a model now) \<longleftrightarrow> v_Exhausted (Exhaustion r rd a model now)"
  by (simp add: exhaustion_def Exhaustion_def split: prod.splits)

lemma pool_loop_Inr:
  "pool_loop r rd model now e as = Inr a \<longleftrightarrow>
   find (\<lambda>b. \<not> v_Exhausted (Exhaustion r rd b model now)) as = Some a"
proof (induction as arbitrary: e)
  case (Cons b as)
  then show ?case using exhaustion_iff [of r rd b model now] by (auto split: prod.splits)
qed simp

lemma pool_loop_Inl:
  "(\<exists>e'. pool_loop r rd model now e as = Inl e') \<longleftrightarrow> (\<forall>b \<in> set as. v_Exhausted (Exhaustion r rd b model now))"
proof (induction as arbitrary: e)
  case (Cons b as)
  then show ?case using exhaustion_iff [of r rd b model now] by (auto split: prod.splits)
qed simp

lemma selectAccount_mem: "selectAccount r rd now policy cs model = Inr a \<Longrightarrow> a \<in> set cs"
  by (auto simp: selectAccount_def pool_loop_Inr find_Some_iff
      split: if_splits list.splits prod.splits sum.splits)

lemma selectAccount_usable:
  "selectAccount r rd now policy cs model = Inr a \<Longrightarrow> \<not> v_Exhausted (Exhaustion r rd a model now)"
  using exhaustion_iff [of r rd a model now]
  by (auto simp: selectAccount_def pool_loop_Inr find_Some_iff
      split: if_splits list.splits prod.splits sum.splits)

lemma latest_loop_append:
  "latest_loop key (xs @ ys) l = latest_loop key ys (latest_loop key xs l)"
  by (induction key xs l rule: latest_loop.induct) (auto split: option.splits)

lemma latest_loop_Some:
  "latest_loop key ds l = Some d \<Longrightarrow>
   (l = Some d \<or> (d \<in> set ds \<and> rd_SessionKey d = key)) \<and>
   (\<forall>x. (x \<in> set ds \<and> rd_SessionKey x = key) \<or> l = Some x \<longrightarrow> rd_DecidedAt x \<le> rd_DecidedAt d)"
  by (induction key ds l rule: latest_loop.induct) (fastforce split: if_splits option.splits)+

lemma latestDecision_Some:
  "latestDecision key ds = Some d \<Longrightarrow> d \<in> set ds \<and> rd_SessionKey d = key \<and>
   (\<forall>x \<in> set ds. rd_SessionKey x = key \<longrightarrow> rd_DecidedAt x \<le> rd_DecidedAt d)"
  unfolding latestDecision_def using latest_loop_Some [of key ds None d] by auto

lemma latestDecision_Create:
  assumes "\<And>x. x \<in> set ds \<Longrightarrow> rd_SessionKey x = rd_SessionKey d \<Longrightarrow> rd_DecidedAt x \<le> rd_DecidedAt d"
  shows "\<exists>i. latestDecision (rd_SessionKey d) (CreateRoutingDecision d ds) = Some (d\<lparr>rd_ID := i\<rparr>)"
proof (cases "latest_loop (rd_SessionKey d) ds None")
  case None
  then show ?thesis
    by (auto simp: latestDecision_def CreateRoutingDecision_def latest_loop_append)
next
  case (Some l)
  then have "rd_DecidedAt l \<le> rd_DecidedAt d"
    using latest_loop_Some [OF Some] assms by auto
  with Some show ?thesis
    by (auto simp: latestDecision_def CreateRoutingDecision_def latest_loop_append)
qed

lemma pool_loop_earliest:
  assumes "0 < now" and "0 \<le> e"
  shows "pool_loop r rd model now e as = Inl e' \<Longrightarrow>
    e' = (if as = [] then e
          else let m = Min (v_Until ` (\<lambda>b. Exhaustion r rd b model now) ` set as) in
               if e = 0 then m else min e m)"
  using assms(2)
proof (induction as arbitrary: e)
  case (Cons b as)
  obtain tr u where b: "exhaustionDetail r rd b model now = (True, tr, u)"
    using Cons.prems(1) by (cases "exhaustionDetail r rd b model now") (auto simp: exhaustion_def split: if_splits)
  have u: "0 < u" using exhaustionDetail_until [OF b] assms(1) by simp
  let ?e = "if e = zero_time \<or> u < e then u else e"
  have rest: "pool_loop r rd model now ?e as = Inl e'"
    using Cons.prems(1) b by (simp add: exhaustion_def)
  have ub: "v_Until (Exhaustion r rd b model now) = u" using b by (simp add: Exhaustion_def)
  have "0 \<le> ?e" using u Cons.prems(2) by simp
  from Cons.IH [OF rest this] show ?case
    using u ub Cons.prems(2) by (cases "as = []") (auto simp: zero_time_def Let_def min_def)
qed simp

lemma Route_cases:
  "Route r rd get env key policy cs model ds \<in>
     {(Inl (LatestDecisionFailed key), ds), route_new r rd get env key policy cs model ds} \<union>
     {(lookup_account get a, ds) | a. a \<in> set cs}"
  by (auto simp: Route_def Let_def pin_holds_def split: option.splits prod.splits if_splits sum.splits
      dest: selectAccount_mem)

lemma lookup_account_Inr [simp]:
  "lookup_account get a = Inr x \<longleftrightarrow> get a = Some x"
  "Inr x = lookup_account get a \<longleftrightarrow> get a = Some x"
  by (auto simp: lookup_account_def split: option.splits)

lemma route_new_cases:
  "route_new r rd get env key policy cs model ds = (res, ds') \<Longrightarrow>
   (ds' = ds \<and> (\<exists>e. res = Inl e)) \<or>
   (\<exists>a \<in> set cs. res = lookup_account get a \<and> \<not> v_Exhausted (Exhaustion r rd a model (env_clock_select env)) \<and>
      ds' = CreateRoutingDecision \<lparr>rd_ID = 0, rd_SessionKey = key, rd_AccountID = a, rd_Policy = policy,
        rd_DecidedAt = env_now_decide env, rd_ExpiresAt = env_now_decide env + rt_routingTTL r\<rparr> ds)"
  by (auto simp: route_new_def Let_def split: sum.splits if_splits
      dest: selectAccount_mem selectAccount_usable)

section \<open>Properties\<close>

text \<open>
  C13. Candidate safety: an account that \<open>Route\<close> returns is one of the candidates of this very
  request, whatever the stored decisions say, and the decision table is either unchanged or
  extended by one decision for this session that pins a candidate which was not exhausted.
\<close>

theorem Route_stays_within_candidates:
  assumes "Route r rd get env key policy cs model ds = (Inr acct, ds')"
  shows "(\<exists>a \<in> set cs. get a = Some acct) \<and>
    (ds' = ds \<or>
     (\<exists>d. ds' = ds @ [d] \<and> rd_SessionKey d = key \<and> get (rd_AccountID d) = Some acct \<and>
        rd_AccountID d \<in> set cs \<and>
        \<not> v_Exhausted (Exhaustion r rd (rd_AccountID d) model (env_clock_select env))))"
proof -
  consider a where "a \<in> set cs" "get a = Some acct" "ds' = ds"
    | "route_new r rd get env key policy cs model ds = (Inr acct, ds')"
    using Route_cases [of r rd get env key policy cs model ds] assms by auto
  then show ?thesis
  proof cases
    case 1
    then show ?thesis by blast
  next
    case 2
    then show ?thesis
      using route_new_cases [OF 2] by (auto simp: CreateRoutingDecision_def)
  qed
qed

definition demo_reader :: quota_reader where
  "demo_reader = \<lparr>Peek = (\<lambda>a. \<lparr>pr_AccountID = a, pr_Enabled = True, pr_Report =
       Some \<lparr>rp_Status = StatusAvailable, rp_Windows =
         (if a = 1 then [\<lparr>w_ID = ''weekly'', w_Scope = None, w_UsedPct = Some 100, w_RemainingPct = Some 0,
            w_ResetsAt = Some 5000\<rparr>] else []),
         rp_OverageEnabled = None, rp_FetchedAt = 1000\<rparr>\<rparr>),
     TTL = 300, Cooldown = (\<lambda>_ _ _. None)\<rparr>"

definition demo_env :: "gotime \<Rightarrow> route_env" where
  "demo_env now = \<lparr>env_list_ok = True, env_create_ok = True, env_now_check = now, env_now_decide = now,
     env_clock_check = now, env_clock_select = now\<rparr>"

lemmas demo_routing_simps = demo_reader_def demo_env_def NewRouter_def Route_def route_new_def
  latestDecision_def selectAccount_def exhaustion_def exhaustionDetail_def windowExhaustion_def
  window_full_def window_reset_def AppliesTo_def PolicyHard_def PolicyPool_def lookup_account_def
  CreateRoutingDecision_def pin_holds_def zero_time_def Let_def

lemma demo_route:
  "Route (NewRouter []) demo_reader Some (demo_env 2000) ''s'' PolicyPool [1, 2] [] [] =
     (Inr 2, [\<lparr>rd_ID = 1, rd_SessionKey = ''s'', rd_AccountID = 2, rd_Policy = PolicyPool,
        rd_DecidedAt = 2000, rd_ExpiresAt = 2000 + defaultRoutingTTL\<rparr>])"
  by (simp add: demo_routing_simps)

theorem Route_stays_within_candidates_witness:
  "\<exists>a \<in> set [1, 2]. Some a = Some (2 :: int)"
  using Route_stays_within_candidates [OF demo_route] by blast

text \<open>
  Affinity: while the latest decision of the session is unexpired and its account is a
  candidate that is not exhausted, \<open>Route\<close> answers with that account; while the account is only
  in a transient back-off it is routed around, falling back to the pinned account itself, never
  to an error of the selection. In both cases the decision table is left alone.
\<close>

theorem Route_affinity:
  assumes "env_list_ok env" and "latestDecision key ds = Some d" and "pin_holds env cs d"
    and "exhaustionDetail r rd (rd_AccountID d) model (env_clock_check env) = (ex, tr, u)"
    and "\<not> ex \<or> tr"
  shows "snd (Route r rd get env key policy cs model ds) = ds \<and>
    (\<not> ex \<longrightarrow> fst (Route r rd get env key policy cs model ds) = lookup_account get (rd_AccountID d)) \<and>
    (ex \<longrightarrow> fst (Route r rd get env key policy cs model ds) =
       lookup_account get (case selectAccount r rd (env_clock_select env) policy cs model of
         Inl _ \<Rightarrow> rd_AccountID d | Inr a \<Rightarrow> a))"
  using assms by (auto simp: Route_def Let_def)

text \<open>
  Stickiness: once \<open>Route\<close> has persisted a decision, the next request of the session that
  still has the account among its candidates, before the TTL is over and while the account is not
  exhausted, gets the same account and adds no decision. (Hypothesis: the clock that stamps
  decisions has not gone back behind the session's earlier stamps.)
\<close>

theorem Route_sticky:
  assumes first: "Route r rd get env key policy cs model ds = (Inr acct, ds')" "ds' \<noteq> ds"
    and clock: "\<And>x. x \<in> set ds \<Longrightarrow> rd_SessionKey x = key \<Longrightarrow> rd_DecidedAt x \<le> env_now_decide env"
    and later: "env_list_ok env'" "env_now_check env' < env_now_decide env + rt_routingTTL r"
    and still: "rd_AccountID (last ds') \<in> set cs'"
      "\<not> v_Exhausted (Exhaustion r rd' (rd_AccountID (last ds')) model' (env_clock_check env'))"
  shows "Route r rd' get env' key policy' cs' model' ds' = (Inr acct, ds')"
proof -
  have "route_new r rd get env key policy cs model ds = (Inr acct, ds')"
    using Route_cases [of r rd get env key policy cs model ds] first by auto
  from route_new_cases [OF this] first(2) obtain a where a: "get a = Some acct"
    and ds': "ds' = CreateRoutingDecision \<lparr>rd_ID = 0, rd_SessionKey = key, rd_AccountID = a,
      rd_Policy = policy, rd_DecidedAt = env_now_decide env,
      rd_ExpiresAt = env_now_decide env + rt_routingTTL r\<rparr> ds" (is "_ = CreateRoutingDecision ?d ds")
    by (auto simp: eq_commute [of "Inr acct"])
  have last: "rd_AccountID (last ds') = a" by (simp add: ds' CreateRoutingDecision_def)
  obtain i where i: "latestDecision key ds' = Some (?d\<lparr>rd_ID := i\<rparr>)"
    using latestDecision_Create [of ds ?d] clock by (auto simp: ds')
  obtain ex tr u where det: "exhaustionDetail r rd' a model' (env_clock_check env') = (ex, tr, u)"
    by (rule prod_cases3)
  have "\<not> ex" using still(2) last det by (simp add: Exhaustion_def)
  moreover have "pin_holds env' cs' (?d\<lparr>rd_ID := i\<rparr>)" using later still(1) last by (simp add: pin_holds_def)
  ultimately show ?thesis using i det later(1) a by (simp add: Route_def Let_def)
qed

text \<open>
  The pool policy takes the first candidate in order that is not exhausted; it fails exactly
  when every candidate is exhausted, and then names the earliest time at which one recovers.
\<close>

theorem pool_selects_first_usable:
  assumes "0 < now"
  shows "selectAccount r rd now PolicyPool cs model =
    (case find (\<lambda>a. \<not> v_Exhausted (Exhaustion r rd a model now)) cs of
       Some a \<Rightarrow> Inr a
     | None \<Rightarrow> Inl (if cs = [] then PoolNoCandidates
                  else PoolAllExhausted (length cs) (Min ((\<lambda>a. v_Until (Exhaustion r rd a model now)) ` set cs))))"
proof (cases "pool_loop r rd model now zero_time cs")
  case (Inr a)
  then show ?thesis
    using pool_loop_Inr [of r rd model now zero_time cs a]
    by (simp add: selectAccount_def PolicyHard_def PolicyPool_def)
next
  case (Inl e)
  then have "find (\<lambda>a. \<not> v_Exhausted (Exhaustion r rd a model now)) cs = None"
    using pool_loop_Inl [of r rd model now zero_time cs] by (auto simp: find_None_iff)
  moreover have "cs \<noteq> [] \<Longrightarrow> e = Min ((\<lambda>a. v_Until (Exhaustion r rd a model now)) ` set cs)"
    using pool_loop_earliest [OF assms _ Inl] by (simp add: zero_time_def image_image)
  ultimately show ?thesis
    using Inl by (simp add: selectAccount_def PolicyHard_def PolicyPool_def)
qed

text \<open>
  The verdict on the cached report: an account with a live report and no extra usage is
  exhausted exactly when some window applies to the model, is full and has not rolled over, and
  the verdict lasts until the last such window ends.
\<close>

theorem windowExhaustion_iff_blocking_window:
  fixes rep :: report
  assumes "0 < now" and "pr_Report (Peek rd a) = Some rep" and "pr_Enabled (Peek rd a)"
    and "rp_Status rep = StatusAvailable" and "rp_OverageEnabled rep \<noteq> Some True"
  shows "case windowExhaustion r rd a model now of (exhausted, until) \<Rightarrow>
    (exhausted \<longleftrightarrow> (\<exists>w \<in> set (rp_Windows rep). \<exists>t. window_blocks r rd rep model now w t)) \<and>
    (\<forall>w \<in> set (rp_Windows rep). \<forall>t. window_blocks r rd rep model now w t \<longrightarrow> t \<le> until) \<and>
    (exhausted \<longrightarrow> (\<exists>w \<in> set (rp_Windows rep). window_blocks r rd rep model now w until))"
proof -
  let ?blocks = "window_blocks r rd rep model now"
  let ?R = "blocking_resets r rd rep model now (rp_Windows rep)"
  have "set (blocking_resets r rd rep model now ws) = {t. \<exists>w \<in> set ws. ?blocks w t}" for ws
    by (induction ws) (auto simp: window_blocks_def window_reset_def Let_def split: option.splits if_splits)
  then have R: "t \<in> set ?R \<longleftrightarrow> (\<exists>w \<in> set (rp_Windows rep). ?blocks w t)" for t by simp
  have ne: "?R \<noteq> [] \<longleftrightarrow> (\<exists>w \<in> set (rp_Windows rep). \<exists>t. ?blocks w t)"
    using R by (metis list.set_intros(1) neq_Nil_conv empty_iff list.set(1))
  have "fold max xs u \<in> insert u (set xs)" for xs and u :: int
    by (induction xs arbitrary: u) (fastforce simp: max_def split: if_splits)+
  moreover have "0 < t" if "t \<in> set ?R" for t using blocking_resets_ge [OF that] assms(1) by simp
  ultimately have "fold max ?R 0 \<in> set ?R" if "?R \<noteq> []"
    using that fold_max_mem [of "hd ?R" ?R 0] by (metis hd_in_set insertE leD)
  then show ?thesis
    using assms(2-5) R ne
    by (auto simp: windowExhaustion_def window_loop_eq Let_def zero_time_def intro: fold_max_mem)
qed

end
