(* ===== verification/Gate.thy ===== *)
theory Gate
  imports Failure Routing
begin

text \<open>
  The picker gate (\<open>internal/gate\<close>): why a provider, or one of its models, cannot run right now. \<open>Derive\<close>
  reads the catalog entry, the accounts and their window verdicts (\<open>Routing.Exhaustion\<close>), the plan
  window and cooldown of the provider, and the marks that recent failures left. The marks are set and
  dropped by \<open>onFailure\<close> and \<open>credentialChanged\<close> of \<open>internal/wsapi/provider_gate.go\<close>.

  A hard gate is enforced against callers that are not human; an advisory gate only warns.
\<close>

section \<open>Reasons\<close>

definition ReasonNotSignedIn :: string where "ReasonNotSignedIn = ''not_signed_in''"
definition ReasonOutOfPlan :: string where "ReasonOutOfPlan = ''out_of_plan''"
definition ReasonCoolingDown :: string where "ReasonCoolingDown = ''cooling_down''"
definition ReasonUnsupportedByHarness :: string where "ReasonUnsupportedByHarness = ''unsupported_by_harness''"
definition ReasonModelNotInPlan :: string where "ReasonModelNotInPlan = ''model_not_in_plan''"

lemmas reason_defs = ReasonNotSignedIn_def ReasonOutOfPlan_def ReasonCoolingDown_def
  ReasonUnsupportedByHarness_def ReasonModelNotInPlan_def

record gate =
  g_Reason :: string
  g_Until :: "gotime option"
  g_Action :: "fail_action option"
  g_AccountID :: int
  g_Advisory :: bool

definition Hard :: "gate option \<Rightarrow> bool" where
  "Hard g = (case g of None \<Rightarrow> False | Some g \<Rightarrow> \<not> g_Advisory g)"

definition twins :: "string \<Rightarrow> string option" where
  "twins = [ReasonNotSignedIn \<mapsto> KindAuthExpired, ReasonOutOfPlan \<mapsto> KindPlanWindowExhausted,
     ReasonCoolingDown \<mapsto> KindPlanWindowExhausted, ReasonModelNotInPlan \<mapsto> KindModelNotInPlan]"

definition TwinOf :: "string \<Rightarrow> string option" where
  "TwinOf reason = twins reason"

definition ReasonFor :: "string \<Rightarrow> string option" where
  "ReasonFor cls =
     (if cls = KindAuthExpired then Some ReasonNotSignedIn
      else if cls = KindPlanWindowExhausted then Some ReasonOutOfPlan
      else if cls = KindModelNotInPlan then Some ReasonModelNotInPlan
      else None)"

section \<open>Marks of recent failures\<close>

definition RecentTTL :: duration where "RecentTTL = Hour"

record recent_entry =
  re_reason :: string
  re_accountID :: int
  re_at :: gotime

type_synonym recent = "string \<times> string \<Rightarrow> recent_entry option"

definition NewRecent :: recent where
  "NewRecent = (\<lambda>k. None)"

definition Mark :: "string \<Rightarrow> string \<Rightarrow> string \<Rightarrow> int \<Rightarrow> gotime \<Rightarrow> recent \<Rightarrow> recent" where
  "Mark provider model reason accountID now r =
     r((provider, model) \<mapsto> \<lparr>re_reason = reason, re_accountID = accountID, re_at = now\<rparr>)"

definition Clear :: "string \<Rightarrow> recent \<Rightarrow> recent" where
  "Clear provider r = (\<lambda>k. if fst k = provider then None else r k)"

definition ClearAll :: "recent \<Rightarrow> recent" where
  "ClearAll r = (\<lambda>k. None)"

text \<open>\<open>get\<close> on a receiver that may be nil.\<close>

definition recent_get :: "recent option \<Rightarrow> string \<Rightarrow> string \<Rightarrow> string \<Rightarrow> gotime \<Rightarrow> recent_entry option" where
  "recent_get r provider model reason now =
     (case r of
        None \<Rightarrow> None
      | Some r \<Rightarrow>
          (case r (provider, model) of
             None \<Rightarrow> None
           | Some e \<Rightarrow> if re_reason e \<noteq> reason \<or> RecentTTL < time_sub now (re_at e) then None else Some e))"

definition onFailure :: "string \<Rightarrow> string \<Rightarrow> string \<Rightarrow> gotime \<Rightarrow> recent \<Rightarrow> recent" where
  "onFailure provider model kind now r =
     (if kind = KindAuthExpired then Mark provider [] ReasonNotSignedIn 0 now r
      else if kind = KindModelNotInPlan then
        if model \<noteq> [] then Mark provider model ReasonModelNotInPlan 0 now r else r
      else r)"

definition credentialChanged :: "recent \<Rightarrow> recent" where
  "credentialChanged r = ClearAll r"

section \<open>Derivation\<close>

record gate_provider =
  gp_ID :: string
  gp_Label :: string
  gp_Harness :: string
  gp_EndpointKind :: string
  gp_AccountProvider :: string
  gp_UnsetSecrets :: "string list"

record gate_account =
  ga_ID :: int
  ga_Label :: string

record gate_inputs =
  in_Provider :: "(string \<Rightarrow> gate_provider option) option"
  in_Accounts :: "(string \<Rightarrow> gate_account list) option"
  in_Windows :: "(int \<Rightarrow> string \<Rightarrow> gotime \<Rightarrow> verdict) option"
  in_ProviderWindow :: "(string \<Rightarrow> gotime \<Rightarrow> gotime option) option"
  in_Cooldown :: "(string \<Rightarrow> gotime \<Rightarrow> gotime option) option"
  in_Recent :: "recent option"

definition after_now :: "gotime \<Rightarrow> gotime option \<Rightarrow> gotime option" where
  "after_now now u = (case u of Some t \<Rightarrow> if now < t then Some t else None | None \<Rightarrow> None)"

definition providerWindow :: "gate_inputs \<Rightarrow> string \<Rightarrow> gotime \<Rightarrow> gotime option" where
  "providerWindow inp provider now =
     (case in_ProviderWindow inp of None \<Rightarrow> None | Some f \<Rightarrow> after_now now (f provider now))"

definition cooldown_end :: "gate_inputs \<Rightarrow> string \<Rightarrow> gotime \<Rightarrow> gotime option" where
  "cooldown_end inp provider now =
     (case in_Cooldown inp of None \<Rightarrow> None | Some f \<Rightarrow> after_now now (f provider now))"

text \<open>The loop over the accounts; \<open>first\<close> is the test \<open>i == 0\<close>.\<close>

fun exhausted_loop :: "(int \<Rightarrow> string \<Rightarrow> gotime \<Rightarrow> verdict) \<Rightarrow> string \<Rightarrow> gotime \<Rightarrow> bool \<Rightarrow> int \<times> gotime \<Rightarrow>
    gate_account list \<Rightarrow> (int \<times> gotime) option" where
  "exhausted_loop win model now first (accountID, until) [] = Some (accountID, until)"
| "exhausted_loop win model now first (accountID, until) (a # as) =
     (let v = win (ga_ID a) model now in
      if \<not> v_Exhausted v \<or> v_TransientOnly v then None
      else exhausted_loop win model now False
        (if first \<or> v_Until v \<noteq> zero_time \<and> (until = zero_time \<or> v_Until v < until)
         then (ga_ID a, v_Until v) else (accountID, until)) as)"

definition accountsExhausted :: "gate_inputs \<Rightarrow> gate_provider \<Rightarrow> string \<Rightarrow> gotime \<Rightarrow> (int \<times> gotime) option" where
  "accountsExhausted inp p model now =
     (case (in_Accounts inp, in_Windows inp) of
        (Some accts, Some win) \<Rightarrow>
          if gp_AccountProvider p = [] then None
          else if accts (gp_AccountProvider p) = [] then None
          else exhausted_loop win model now True (0, zero_time) (accts (gp_AccountProvider p))
      | _ \<Rightarrow> None)"

definition planGate :: "action_context \<Rightarrow> gotime \<Rightarrow> int \<Rightarrow> bool \<Rightarrow> gate" where
  "planGate ctx until accountID advisory =
     (let ctx' = (if until \<noteq> zero_time then ctx\<lparr>ac_ResetAt := Some until\<rparr> else ctx) in
      \<lparr>g_Reason = ReasonOutOfPlan, g_Until = (if until \<noteq> zero_time then Some until else None),
       g_Action = NextAction KindPlanWindowExhausted ctx', g_AccountID = accountID, g_Advisory = advisory\<rparr>)"

definition gate_context :: "gate_provider \<Rightarrow> string \<Rightarrow> string \<Rightarrow> gotime \<Rightarrow> location \<Rightarrow> action_context" where
  "gate_context p label model now loc = \<lparr>ac_Provider = gp_ID p, ac_ProviderLabel = label, ac_Model = model, ac_AllowedModels = [],
     ac_Window = [], ac_ResetAt = None, ac_FallbackProfileID = 0, ac_FallbackProfileName = [], ac_Attempt = 0, ac_Max = 0,
     ac_NextAt = None, ac_Now = now, ac_Loc = loc\<rparr>"

definition Derive :: "gate_inputs \<Rightarrow> location \<Rightarrow> string \<Rightarrow> string \<Rightarrow> gotime \<Rightarrow> gate option" where
  "Derive inp loc provider model now =
     (case Option.bind (in_Provider inp) (\<lambda>f. f provider) of
        None \<Rightarrow> None
      | Some p \<Rightarrow>
          let label = (if gp_Label p = [] then gp_ID p else gp_Label p);
              ctx = gate_context p label model now loc
          in
          if gp_Harness p = ''codex-app-server'' \<and> gp_EndpointKind p \<noteq> [] \<and> gp_EndpointKind p \<noteq> ''openai-responses'' then
            Some \<lparr>g_Reason = ReasonUnsupportedByHarness, g_Until = None,
              g_Action = Some (plain_action ActionPickProvider [] (label @
                '' cannot run through the Codex harness (its endpoint is not a Responses API): pick another provider'')),
              g_AccountID = 0, g_Advisory = False\<rparr>
          else if gp_UnsetSecrets p \<noteq> [] then
            Some \<lparr>g_Reason = ReasonNotSignedIn, g_Until = None,
              g_Action = Some (plain_action ActionSignIn (''settings:providers?provider='' @ gp_ID p) (''Add the API key for '' @ label)),
              g_AccountID = 0, g_Advisory = False\<rparr>
          else case recent_get (in_Recent inp) (gp_ID p) [] ReasonNotSignedIn now of
            Some e \<Rightarrow> Some \<lparr>g_Reason = ReasonNotSignedIn, g_Until = None, g_Action = NextAction KindAuthExpired ctx,
                         g_AccountID = re_accountID e, g_Advisory = True\<rparr>
          | None \<Rightarrow>
          if model \<noteq> [] \<and> recent_get (in_Recent inp) (gp_ID p) model ReasonModelNotInPlan now \<noteq> None then
            Some \<lparr>g_Reason = ReasonModelNotInPlan, g_Until = None, g_Action = NextAction KindModelNotInPlan ctx,
              g_AccountID = 0, g_Advisory = True\<rparr>
          else case providerWindow inp (gp_ID p) now of
            Some u \<Rightarrow>
              let u' = (case cooldown_end inp (gp_ID p) now of Some cd \<Rightarrow> if u < cd then cd else u | None \<Rightarrow> u)
              in Some (planGate ctx u' 0 False)
          | None \<Rightarrow>
          case accountsExhausted inp p model now of
            Some (acct, u) \<Rightarrow> Some (planGate ctx u acct True)
          | None \<Rightarrow>
          case cooldown_end inp (gp_ID p) now of
            Some cd \<Rightarrow> Some \<lparr>g_Reason = ReasonCoolingDown, g_Until = Some cd,
              g_Action = Some (plain_action ActionClearCooldown (gp_ID p)
                (''Cooling down until '' @ FormatClock loc cd @ '': clear it if you reset the quota'')),
              g_AccountID = 0, g_Advisory = False\<rparr>
          | None \<Rightarrow> None)"

definition ModelGates :: "gate_inputs \<Rightarrow> location \<Rightarrow> string \<Rightarrow> string list \<Rightarrow> gotime \<Rightarrow> string \<Rightarrow> gate option" where
  "ModelGates inp loc provider models now =
     (let pg = Derive inp loc provider [] now in
      foldl (\<lambda>out m. case Derive inp loc provider m now of
                None \<Rightarrow> out
              | Some g \<Rightarrow> if (case pg of Some p \<Rightarrow> g_Reason p = g_Reason g | None \<Rightarrow> False) then out else out(m \<mapsto> g))
        (\<lambda>m. None) models)"

section \<open>The accounts of a provider\<close>

text \<open>What the loop keeps: the account seen with the earliest end that is known.\<close>

definition earliest_end :: "(gate_account \<Rightarrow> gotime) \<Rightarrow> gate_account set \<Rightarrow> int \<times> gotime \<Rightarrow> bool" where
  "earliest_end e A best \<longleftrightarrow>
     (\<exists>a\<in>A. best = (ga_ID a, e a)) \<and> (\<forall>a\<in>A. e a \<noteq> zero_time \<longrightarrow> snd best \<noteq> zero_time \<and> snd best \<le> e a)"

lemma earliest_end_step:
  assumes "earliest_end e A (i, u)"
  shows "earliest_end e (insert a A)
    (if e a \<noteq> zero_time \<and> (u = zero_time \<or> e a < u) then (ga_ID a, e a) else (i, u))"
  using assms by (auto simp: earliest_end_def intro: order.trans less_imp_le)

lemma exhausted_loop_started:
  assumes "earliest_end (\<lambda>a. v_Until (win (ga_ID a) model now)) A best"
  shows "(exhausted_loop win model now False best as \<noteq> None \<longleftrightarrow>
            (\<forall>a\<in>set as. v_Exhausted (win (ga_ID a) model now) \<and> \<not> v_TransientOnly (win (ga_ID a) model now)))
     \<and> (\<forall>r. exhausted_loop win model now False best as = Some r \<longrightarrow>
            earliest_end (\<lambda>a. v_Until (win (ga_ID a) model now)) (A \<union> set as) r)"
  using assms
proof (induction as arbitrary: A best)
  case Nil
  then show ?case by (cases best) simp
next
  case (Cons a as)
  obtain i u where best: "best = (i, u)" by (cases best)
  let ?e = "\<lambda>a. v_Until (win (ga_ID a) model now)"
  let ?b = "if ?e a \<noteq> zero_time \<and> (u = zero_time \<or> ?e a < u) then (ga_ID a, ?e a) else (i, u)"
  have "earliest_end ?e (insert a A) ?b"
    using Cons.prems best earliest_end_step [of ?e A i u a] by simp
  from Cons.IH [OF this] show ?case by (simp add: best Let_def)
qed

lemma exhausted_loop_spec:
  assumes "as \<noteq> []"
  shows "(exhausted_loop win model now True best as \<noteq> None \<longleftrightarrow>
            (\<forall>a\<in>set as. v_Exhausted (win (ga_ID a) model now) \<and> \<not> v_TransientOnly (win (ga_ID a) model now)))
     \<and> (\<forall>r. exhausted_loop win model now True best as = Some r \<longrightarrow>
            earliest_end (\<lambda>a. v_Until (win (ga_ID a) model now)) (set as) r)"
proof -
  obtain a as' where as: "as = a # as'" using assms by (cases as) auto
  obtain i u where best: "best = (i, u)" by (cases best)
  have "earliest_end (\<lambda>a. v_Until (win (ga_ID a) model now)) {a} (ga_ID a, v_Until (win (ga_ID a) model now))"
    by (simp add: earliest_end_def)
  from exhausted_loop_started [of win model now "{a}", OF this, of as'] show ?thesis by (simp add: as best Let_def)
qed

text \<open>The catalog entry lets the later rules decide: nothing is wrong with its harness or secrets.\<close>

definition launchable :: "gate_provider \<Rightarrow> bool" where
  "launchable p \<longleftrightarrow> \<not> (gp_Harness p = ''codex-app-server'' \<and> gp_EndpointKind p \<noteq> [] \<and> gp_EndpointKind p \<noteq> ''openai-responses'')
     \<and> gp_UnsetSecrets p = []"

definition unmarked :: "gate_inputs \<Rightarrow> gate_provider \<Rightarrow> string \<Rightarrow> gotime \<Rightarrow> bool" where
  "unmarked inp p model now \<longleftrightarrow> recent_get (in_Recent inp) (gp_ID p) [] ReasonNotSignedIn now = None
     \<and> (model = [] \<or> recent_get (in_Recent inp) (gp_ID p) model ReasonModelNotInPlan now = None)"

lemma Derive_after_marks:
  assumes "in_Provider inp = Some cat" "cat provider = Some p" "launchable p" "unmarked inp p model now"
    "providerWindow inp (gp_ID p) now = None"
  shows "Derive inp loc provider model now =
     (let label = (if gp_Label p = [] then gp_ID p else gp_Label p); ctx = gate_context p label model now loc in
      case accountsExhausted inp p model now of
        Some (acct, u) \<Rightarrow> Some (planGate ctx u acct True)
      | None \<Rightarrow>
          (case cooldown_end inp (gp_ID p) now of
             Some cd \<Rightarrow> Some \<lparr>g_Reason = ReasonCoolingDown, g_Until = Some cd,
               g_Action = Some (plain_action ActionClearCooldown (gp_ID p)
                 (''Cooling down until '' @ FormatClock loc cd @ '': clear it if you reset the quota'')),
               g_AccountID = 0, g_Advisory = False\<rparr>
           | None \<Rightarrow> None))"
  using assms by (auto simp: Derive_def launchable_def unmarked_def Let_def split: option.splits)

text \<open>
  Over the router's verdicts, a provider with nothing else against it is out of plan, as a warning,
  exactly when it has accounts and every one of them has used up a plan window; a bare back-off of one
  account or one usable account is enough to lift it. The gate names an account of the provider whose
  window ends first among the ends that are known, and that end.
\<close>

theorem accounts_gate_iff_all_exhausted:
  assumes cat: "in_Provider inp = Some cat" "cat provider = Some p" "launchable p" "unmarked inp p model now"
    and pw: "providerWindow inp (gp_ID p) now = None"
    and ac: "in_Accounts inp = Some accts" "gp_AccountProvider p \<noteq> []"
    and win: "in_Windows inp = Some (Exhaustion r rd)"
  defines "A \<equiv> set (accts (gp_AccountProvider p))" and "V \<equiv> \<lambda>a. Exhaustion r rd (ga_ID a) model now"
  shows "((\<exists>g. Derive inp loc provider model now = Some g \<and> g_Reason g = ReasonOutOfPlan \<and> g_Advisory g)
            \<longleftrightarrow> A \<noteq> {} \<and> (\<forall>a\<in>A. v_Exhausted (V a) \<and> \<not> v_TransientOnly (V a)))
     \<and> (\<forall>g. Derive inp loc provider model now = Some g \<longrightarrow> g_Advisory g \<longrightarrow>
          (\<exists>a\<in>A. g_AccountID g = ga_ID a \<and> g_Until g = (if v_Until (V a) = zero_time then None else Some (v_Until (V a)))
             \<and> (\<forall>b\<in>A. v_Until (V b) \<noteq> zero_time \<longrightarrow> v_Until (V a) \<noteq> zero_time \<and> v_Until (V a) \<le> v_Until (V b))))"
proof -
  let ?as = "accts (gp_AccountProvider p)"
  note D = Derive_after_marks [OF cat pw, of loc]
  have ae: "accountsExhausted inp p model now =
      (if ?as = [] then None else exhausted_loop (Exhaustion r rd) model now True (0, zero_time) ?as)"
    using ac win by (simp add: accountsExhausted_def)
  have spec: "accountsExhausted inp p model now \<noteq> None \<longleftrightarrow> A \<noteq> {} \<and> (\<forall>a\<in>A. v_Exhausted (V a) \<and> \<not> v_TransientOnly (V a))"
    "\<And>b. accountsExhausted inp p model now = Some b \<Longrightarrow> earliest_end (\<lambda>a. v_Until (V a)) A b"
    using exhausted_loop_spec [of ?as "Exhaustion r rd" model now "(0, zero_time)"] by (auto simp: ae A_def V_def split: if_splits)
  show ?thesis
  proof (cases "accountsExhausted inp p model now")
    case None
    then show ?thesis using spec(1) D by (auto simp: reason_defs split: option.splits)
  next
    case (Some b)
    obtain i u where b: "b = (i, u)" by (cases b)
    have "earliest_end (\<lambda>a. v_Until (V a)) A (i, u)" using spec(2) Some b by simp
    then obtain a where "a \<in> A" "i = ga_ID a" "u = v_Until (V a)"
      "\<forall>c\<in>A. v_Until (V c) \<noteq> zero_time \<longrightarrow> u \<noteq> zero_time \<and> u \<le> v_Until (V c)"
      by (auto simp: earliest_end_def)
    then show ?thesis using spec(1) D Some b by (auto simp: planGate_def Let_def)
  qed
qed

definition demo_provider :: gate_provider where
  "demo_provider = \<lparr>gp_ID = ''claude'', gp_Label = [], gp_Harness = ''claude-code'', gp_EndpointKind = [],
     gp_AccountProvider = ''anthropic'', gp_UnsetSecrets = []\<rparr>"

definition demo_inputs :: "recent \<Rightarrow> gate_inputs" where
  "demo_inputs r = \<lparr>in_Provider = Some (\<lambda>i. if i = ''claude'' then Some demo_provider else None),
     in_Accounts = Some (\<lambda>a. [\<lparr>ga_ID = 1, ga_Label = []\<rparr>]), in_Windows = Some (Exhaustion (NewRouter []) demo_reader),
     in_ProviderWindow = None, in_Cooldown = None, in_Recent = Some r\<rparr>"

section \<open>A failed run gates its row\<close>

lemma Mark_get:
  assumes "t0 \<le> now" "now \<le> t0 + RecentTTL"
  shows "recent_get (Some (Mark provider model reason acct t0 r)) provider model reason now =
     Some \<lparr>re_reason = reason, re_accountID = acct, re_at = t0\<rparr>"
  using assms by (simp add: recent_get_def Mark_def time_sub_def RecentTTL_def min_duration_def max_duration_def duration_defs)

lemma Mark_expired:
  assumes "t0 + RecentTTL < now"
  shows "recent_get (Some (Mark provider model reason acct t0 r)) provider model reason now = None"
  using assms by (simp add: recent_get_def Mark_def time_sub_def RecentTTL_def min_duration_def max_duration_def duration_defs)

lemma Mark_other [simp]:
  "(provider', model') \<noteq> (provider, model) \<Longrightarrow>
     recent_get (Some (Mark provider model reason acct t0 r)) provider' model' reason' now = recent_get (Some r) provider' model' reason' now"
  by (auto simp: recent_get_def Mark_def)

lemma human_fix_reason:
  "IsHumanFix kind \<Longrightarrow> ReasonFor kind = Some (if kind = KindAuthExpired then ReasonNotSignedIn else ReasonModelNotInPlan)"
  by (auto simp: IsHumanFix_def ReasonFor_def kind_defs)

lemma gate_context_fields: "ac_Provider (gate_context p label model now loc) = gp_ID p" "ac_Model (gate_context p label model now loc) = model"
  by (simp_all add: gate_context_def)

lemma Derive_signed_out:
  assumes "in_Provider inp = Some cat" "cat provider = Some p" "launchable p"
    "recent_get (in_Recent inp) (gp_ID p) [] ReasonNotSignedIn now = Some e"
  shows "\<exists>label. Derive inp loc provider model now = Some \<lparr>g_Reason = ReasonNotSignedIn, g_Until = None,
     g_Action = NextAction KindAuthExpired (gate_context p label model now loc), g_AccountID = re_accountID e, g_Advisory = True\<rparr>"
  using assms by (auto simp: Derive_def launchable_def Let_def)

lemma Derive_model_mark:
  assumes "in_Provider inp = Some cat" "cat provider = Some p" "launchable p"
    "recent_get (in_Recent inp) (gp_ID p) [] ReasonNotSignedIn now = None"
    "recent_get (in_Recent inp) (gp_ID p) model ReasonModelNotInPlan now \<noteq> None" "model \<noteq> []"
  shows "\<exists>label. Derive inp loc provider model now = Some \<lparr>g_Reason = ReasonModelNotInPlan, g_Until = None,
     g_Action = NextAction KindModelNotInPlan (gate_context p label model now loc), g_AccountID = 0, g_Advisory = True\<rparr>"
  using assms by (auto simp: Derive_def launchable_def Let_def)

text \<open>
  A run that fails with a class a person has to fix gates its row at once: for the next hour the row
  carries, as a warning, the reason that is the twin of the failure, with the action of that failure;
  after the hour, or after a credential changed, the mark is gone.
\<close>

theorem failed_run_gates_its_row:
  assumes cat: "in_Provider inp = Some cat" "cat provider = Some p" "gp_ID p = provider" "launchable p"
    and kind: "IsHumanFix kind" "model \<noteq> []"
    and fresh: "r (provider, []) = None" "r (provider, model) = None"
    and rec: "in_Recent inp = Some (onFailure provider model kind t0 r)"
  shows "(t0 \<le> now \<longrightarrow> now \<le> t0 + RecentTTL \<longrightarrow>
           (\<exists>g. Derive inp loc provider model now = Some g \<and> g_Advisory g \<and> ReasonFor kind = Some (g_Reason g)
              \<and> TwinOf (g_Reason g) = Some kind
              \<and> (\<exists>c. ac_Provider c = provider \<and> ac_Model c = model \<and> g_Action g = NextAction kind c)))
     \<and> (t0 + RecentTTL < now \<longrightarrow> unmarked inp p model now)
     \<and> unmarked (inp\<lparr>in_Recent := Some (credentialChanged (onFailure provider model kind t0 r))\<rparr>) p model now"
proof (intro conjI impI)
  have no: "recent_get (Some r) provider [] ReasonNotSignedIn now = None" "recent_get (Some r) provider model ReasonModelNotInPlan now = None"
    using fresh by (simp_all add: recent_get_def)
  show "unmarked (inp\<lparr>in_Recent := Some (credentialChanged (onFailure provider model kind t0 r))\<rparr>) p model now"
    by (simp add: unmarked_def credentialChanged_def ClearAll_def recent_get_def)
  have k: "kind = KindAuthExpired \<or> kind \<noteq> KindAuthExpired \<and> kind = KindModelNotInPlan" using kind(1) by (auto simp: IsHumanFix_def)
  show "unmarked inp p model now" if "t0 + RecentTTL < now"
    using k
  proof (elim disjE conjE)
    assume "kind = KindAuthExpired"
    then show ?thesis using Mark_expired [OF that] rec no kind(2) cat(3) by (simp add: unmarked_def onFailure_def)
  next
    assume "kind \<noteq> KindAuthExpired" "kind = KindModelNotInPlan"
    then show ?thesis using Mark_expired [OF that] rec no kind(2) cat(3) by (simp add: unmarked_def onFailure_def)
  qed
  show "\<exists>g. Derive inp loc provider model now = Some g \<and> g_Advisory g \<and> ReasonFor kind = Some (g_Reason g)
      \<and> TwinOf (g_Reason g) = Some kind \<and> (\<exists>c. ac_Provider c = provider \<and> ac_Model c = model \<and> g_Action g = NextAction kind c)"
    if t: "t0 \<le> now" "now \<le> t0 + RecentTTL"
    using k
  proof (elim disjE conjE)
    assume a: "kind = KindAuthExpired"
    then obtain e where "recent_get (in_Recent inp) (gp_ID p) [] ReasonNotSignedIn now = Some e"
      using Mark_get [OF t] rec cat(3) by (simp add: onFailure_def)
    from Derive_signed_out [OF cat(1,2,4) this] obtain label where
      "Derive inp loc provider model now = Some \<lparr>g_Reason = ReasonNotSignedIn, g_Until = None,
         g_Action = NextAction KindAuthExpired (gate_context p label model now loc), g_AccountID = re_accountID e, g_Advisory = True\<rparr>" by blast
    then show ?thesis using a cat(3) gate_context_fields [of p label model now loc]
      by (intro exI [of _ "the (Derive inp loc provider model now)"]) (auto simp: ReasonFor_def TwinOf_def twins_def reason_defs)
  next
    assume a: "kind \<noteq> KindAuthExpired" "kind = KindModelNotInPlan"
    then have "recent_get (in_Recent inp) (gp_ID p) [] ReasonNotSignedIn now = None"
      "recent_get (in_Recent inp) (gp_ID p) model ReasonModelNotInPlan now \<noteq> None"
      using Mark_get [OF t] rec no kind(2) cat(3) by (simp_all add: onFailure_def)
    from Derive_model_mark [OF cat(1,2,4) this kind(2)] obtain label where
      "Derive inp loc provider model now = Some \<lparr>g_Reason = ReasonModelNotInPlan, g_Until = None,
         g_Action = NextAction KindModelNotInPlan (gate_context p label model now loc), g_AccountID = 0, g_Advisory = True\<rparr>" by blast
    then show ?thesis using a cat(3) gate_context_fields [of p label model now loc]
      by (intro exI [of _ "the (Derive inp loc provider model now)"]) (auto simp: ReasonFor_def TwinOf_def twins_def reason_defs kind_defs)
  qed
qed

end
