(* ===== verification/Cooldown.thy ===== *)
theory Cooldown
  imports Gate
begin

text \<open>
  Provider cooldowns: the table of \<open>internal/store/provider_cooldowns.go\<close>, the registry's view of it
  merged with the cached plan windows (\<open>internal/runs/cooldown.go\<close>, \<open>cooldown_window.go\<close>), the rule by
  which a failed run sets one (\<open>finish\<close> in \<open>registry.go\<close>), and the guard that \<open>StartWhenBusy\<close>
  (\<open>queue.go\<close>) puts before a send.

  The table maps a provider to its row; every statement may fail, which the argument \<open>ok\<close> says, and an
  instant is read from the clock by the caller and passed in. The gate is wired as in
  \<open>internal/wsapi/provider_gate.go\<close>.
\<close>

section \<open>The table\<close>

definition MaxProviderCooldown :: duration where "MaxProviderCooldown = 6 * Hour"

record cooldown_row =
  cr_reset_at :: gotime
  cr_run_id :: string
  cr_created_at :: gotime

type_synonym cooldown_table = "string \<Rightarrow> cooldown_row option"

definition SetProviderCooldown :: "bool \<Rightarrow> string \<Rightarrow> gotime \<Rightarrow> string \<Rightarrow> gotime \<Rightarrow> cooldown_table \<Rightarrow> bool \<times> cooldown_table" where
  "SetProviderCooldown ok provider resetAt runID now tbl =
     (let resetAt = (if now + MaxProviderCooldown < resetAt then now + MaxProviderCooldown else resetAt) in
      if \<not> ok then (False, tbl)
      else (True,
        case tbl provider of
          None \<Rightarrow> tbl(provider \<mapsto> \<lparr>cr_reset_at = resetAt, cr_run_id = runID, cr_created_at = now\<rparr>)
        | Some row \<Rightarrow>
            if cr_reset_at row < resetAt then tbl(provider \<mapsto> row\<lparr>cr_reset_at := resetAt, cr_run_id := runID\<rparr>)
            else tbl))"

text \<open>\<open>None\<close> is an error, \<open>Some None\<close> no active row.\<close>

definition GetProviderCooldown :: "bool \<Rightarrow> string \<Rightarrow> gotime \<Rightarrow> cooldown_table \<Rightarrow> gotime option option" where
  "GetProviderCooldown ok provider now tbl =
     (if \<not> ok then None
      else Some (case tbl provider of Some row \<Rightarrow> if now < cr_reset_at row then Some (cr_reset_at row) else None | None \<Rightarrow> None))"

definition ListProviderCooldowns :: "bool \<Rightarrow> gotime \<Rightarrow> cooldown_table \<Rightarrow> (string \<Rightarrow> gotime option) option" where
  "ListProviderCooldowns ok now tbl =
     (if \<not> ok then None
      else Some (\<lambda>p. case tbl p of Some row \<Rightarrow> if now < cr_reset_at row then Some (cr_reset_at row) else None | None \<Rightarrow> None))"

definition ClearProviderCooldown_store :: "bool \<Rightarrow> string \<Rightarrow> cooldown_table \<Rightarrow> bool option \<times> cooldown_table" where
  "ClearProviderCooldown_store ok provider tbl =
     (if \<not> ok then (None, tbl) else (Some (tbl provider \<noteq> None), tbl(provider := None)))"

definition PurgeExpiredProviderCooldowns :: "bool \<Rightarrow> gotime \<Rightarrow> cooldown_table \<Rightarrow> bool \<times> cooldown_table" where
  "PurgeExpiredProviderCooldowns ok now tbl =
     (if \<not> ok then (False, tbl)
      else (True, \<lambda>p. case tbl p of Some row \<Rightarrow> if cr_reset_at row \<le> now then None else Some row | None \<Rightarrow> None))"

section \<open>The registry's view\<close>

record provider_quota =
  ExhaustedUntil :: "string \<Rightarrow> gotime \<Rightarrow> gotime option"
  ExhaustedProviders :: "gotime \<Rightarrow> string \<Rightarrow> gotime option"

definition capCooldown :: "gotime \<Rightarrow> gotime \<Rightarrow> gotime" where
  "capCooldown until now = (if now + MaxProviderCooldown < until then now + MaxProviderCooldown else until)"

definition activeProviderCooldown :: "bool \<Rightarrow> provider_quota option \<Rightarrow> cooldown_table \<Rightarrow> string \<Rightarrow> gotime \<Rightarrow> gotime option" where
  "activeProviderCooldown ok quota tbl provider now =
     (let stored = (case GetProviderCooldown ok provider now tbl of Some (Some u) \<Rightarrow> Some u | _ \<Rightarrow> None) in
      case quota of
        None \<Rightarrow> stored
      | Some q \<Rightarrow>
          (case ExhaustedUntil q provider now of
             None \<Rightarrow> stored
           | Some w \<Rightarrow>
               if now < w then
                 let w' = capCooldown w now
                 in case stored of None \<Rightarrow> Some w' | Some u \<Rightarrow> if u < w' then Some w' else Some u
               else stored))"

text \<open>The loop over the exhausted providers touches every key once, so it is given per provider.\<close>

definition ProviderCooldowns :: "bool \<Rightarrow> provider_quota option \<Rightarrow> cooldown_table \<Rightarrow> gotime \<Rightarrow> string \<Rightarrow> gotime option" where
  "ProviderCooldowns ok quota tbl now =
     (let m = (case ListProviderCooldowns ok now tbl of Some m \<Rightarrow> m | None \<Rightarrow> (\<lambda>p. None)) in
      case quota of
        None \<Rightarrow> m
      | Some q \<Rightarrow>
          (\<lambda>p. case ExhaustedProviders q now p of
                 None \<Rightarrow> m p
               | Some w \<Rightarrow>
                   if \<not> now < w then m p
                   else let w' = capCooldown w now
                        in if (case m p of Some u \<Rightarrow> u | None \<Rightarrow> zero_time) < w' then Some w' else m p))"

definition ProviderCooldownAt :: "bool \<Rightarrow> provider_quota option \<Rightarrow> cooldown_table \<Rightarrow> string \<Rightarrow> gotime \<Rightarrow> gotime \<Rightarrow> gotime option" where
  "ProviderCooldownAt ok quota tbl provider clock now = after_now now (activeProviderCooldown ok quota tbl provider clock)"

definition ProviderWindowEnd :: "provider_quota option \<Rightarrow> string \<Rightarrow> gotime \<Rightarrow> gotime option" where
  "ProviderWindowEnd quota provider now =
     (case quota of None \<Rightarrow> None | Some q \<Rightarrow> after_now now (ExhaustedUntil q provider now))"

definition windowBlocksProvider :: "string \<Rightarrow> bool" where
  "windowBlocksProvider window \<longleftrightarrow> \<not> HasPrefix window ''weekly-''"

text \<open>The part of \<open>finish\<close> that puts a provider on cooldown after an error run.\<close>

record fail_result =
  fr_Kind :: string
  fr_Window :: string
  fr_ResetAt :: "gotime option"
  fr_ResetInferred :: bool
  fr_ResetZone :: string
  fr_RetryAfter :: duration

definition cooldown_on_failure :: "bool \<Rightarrow> fail_result \<Rightarrow> string \<Rightarrow> string \<Rightarrow> string \<Rightarrow> gotime \<Rightarrow> cooldown_table \<Rightarrow> cooldown_table" where
  "cooldown_on_failure ok fail provider purpose runID now tbl =
     (case fr_ResetAt fail of
        None \<Rightarrow> tbl
      | Some t \<Rightarrow>
          if IsPlanLimit (fr_Kind fail) \<and> now < t \<and> purpose = [] \<and> windowBlocksProvider (fr_Window fail)
          then snd (SetProviderCooldown ok provider t runID now tbl) else tbl)"

section \<open>The guard before a send\<close>

definition ChatQueueSourceHuman :: string where "ChatQueueSourceHuman = ''human''"

definition nonHumanSend :: "string \<Rightarrow> int \<Rightarrow> bool" where
  "nonHumanSend source fromTaskID \<longleftrightarrow> source \<noteq> ChatQueueSourceHuman \<or> fromTaskID \<noteq> 0"

datatype send_error =
    GatedError string gate
  | ProviderCooldownError string gotime "gate option"

definition gateFor :: "(string \<Rightarrow> gotime \<Rightarrow> gate option) option \<Rightarrow> string \<Rightarrow> gotime \<Rightarrow> gate option" where
  "gateFor gateFn provider now = (case gateFn of None \<Rightarrow> None | Some f \<Rightarrow> f provider now)"

text \<open>The three clock readings of the guard: for the gate, for the cooldown, for the error's gate.\<close>

definition send_guard :: "(string \<Rightarrow> gotime \<Rightarrow> gate option) option \<Rightarrow> (string \<Rightarrow> gotime \<Rightarrow> gotime option) \<Rightarrow>
    string \<Rightarrow> int \<Rightarrow> string \<Rightarrow> gotime \<times> gotime \<times> gotime \<Rightarrow> send_error + gotime option" where
  "send_guard gateFn cooldown source fromTaskID provider clock =
     (case clock of (t1, t2, t3) \<Rightarrow>
      let g = gateFor gateFn provider t1 in
      if nonHumanSend source fromTaskID \<and> Hard g \<and> g_Reason (the g) \<noteq> ReasonOutOfPlan \<and> g_Reason (the g) \<noteq> ReasonCoolingDown
      then Inl (GatedError provider (the g))
      else case cooldown provider t2 of
        Some until \<Rightarrow>
          if nonHumanSend source fromTaskID then Inl (ProviderCooldownError provider until (gateFor gateFn provider t3))
          else Inr (Some until)
      | None \<Rightarrow> Inr None)"

text \<open>The inputs of a derivation, as the daemon wires them.\<close>

record daemon_account =
  da_ID :: int
  da_Label :: string
  da_Provider :: string

definition lazy_windows :: "(int \<Rightarrow> string \<Rightarrow> gotime \<Rightarrow> verdict) option \<Rightarrow> int \<Rightarrow> string \<Rightarrow> gotime \<Rightarrow> verdict" where
  "lazy_windows w accountID model now =
     (case w of Some f \<Rightarrow> f accountID model now
      | None \<Rightarrow> \<lparr>v_Exhausted = False, v_TransientOnly = False, v_Until = zero_time\<rparr>)"

definition daemon_inputs :: "(string \<Rightarrow> gate_provider option) \<Rightarrow> daemon_account list \<Rightarrow>
    (int \<Rightarrow> string \<Rightarrow> gotime \<Rightarrow> verdict) option \<Rightarrow> bool \<Rightarrow> provider_quota option \<Rightarrow> cooldown_table \<Rightarrow> gotime \<Rightarrow> recent \<Rightarrow> gate_inputs" where
  "daemon_inputs catalog accts windows ok quota tbl clock r =
     \<lparr>in_Provider = Some catalog,
      in_Accounts = Some (\<lambda>ap. map (\<lambda>a. \<lparr>ga_ID = da_ID a, ga_Label = da_Label a\<rparr>) (filter (\<lambda>a. da_Provider a = ap) accts)),
      in_Windows = Some (lazy_windows windows),
      in_ProviderWindow = Some (ProviderWindowEnd quota),
      in_Cooldown = Some (\<lambda>p now. ProviderCooldownAt ok quota tbl p clock now),
      in_Recent = Some r\<rparr>"

section \<open>Histories of the table\<close>

datatype cooldown_event =
    SetEvent bool string gotime string gotime
  | FailEvent bool fail_result string string string gotime
  | ClearEvent bool string
  | PurgeEvent bool gotime

fun cooldown_apply :: "cooldown_event \<Rightarrow> cooldown_table \<Rightarrow> cooldown_table" where
  "cooldown_apply (SetEvent ok provider resetAt runID now) tbl = snd (SetProviderCooldown ok provider resetAt runID now tbl)"
| "cooldown_apply (FailEvent ok fail provider purpose runID now) tbl = cooldown_on_failure ok fail provider purpose runID now tbl"
| "cooldown_apply (ClearEvent ok provider) tbl = snd (ClearProviderCooldown_store ok provider tbl)"
| "cooldown_apply (PurgeEvent ok now) tbl = snd (PurgeExpiredProviderCooldowns ok now tbl)"

fun event_by :: "gotime \<Rightarrow> cooldown_event \<Rightarrow> bool" where
  "event_by t (SetEvent ok provider resetAt runID now) \<longleftrightarrow> now \<le> t"
| "event_by t (FailEvent ok fail provider purpose runID now) \<longleftrightarrow> now \<le> t"
| "event_by t _ \<longleftrightarrow> True"

text \<open>No row ends more than the maximum after the latest write.\<close>

definition cooldown_wf :: "gotime \<Rightarrow> cooldown_table \<Rightarrow> bool" where
  "cooldown_wf t tbl \<longleftrightarrow> (\<forall>p row. tbl p = Some row \<longrightarrow> cr_reset_at row \<le> t + MaxProviderCooldown)"

lemma SetProviderCooldown_wf [inv_intros]:
  "cooldown_wf t tbl \<Longrightarrow> now \<le> t \<Longrightarrow> cooldown_wf t (snd (SetProviderCooldown ok provider resetAt runID now tbl))"
  by (fastforce simp: cooldown_wf_def SetProviderCooldown_def Let_def split: option.splits if_splits)

lemma cooldown_apply_wf [inv_intros]:
  assumes "cooldown_wf t tbl" "event_by t e"
  shows "cooldown_wf t (cooldown_apply e tbl)"
proof (cases e)
  case (SetEvent ok provider resetAt runID now)
  then show ?thesis using assms by (auto intro: inv_intros)
next
  case (FailEvent ok fail provider purpose runID now)
  then show ?thesis using assms by (auto simp: cooldown_on_failure_def intro: inv_intros split: option.splits)
next
  case (ClearEvent ok provider)
  then show ?thesis using assms by (auto simp: ClearProviderCooldown_store_def cooldown_wf_def)
next
  case (PurgeEvent ok now)
  then show ?thesis using assms by (auto simp: PurgeExpiredProviderCooldowns_def cooldown_wf_def split: option.splits)
qed

lemma cooldown_history_wf: "cooldown_wf t tbl \<Longrightarrow> \<forall>e\<in>set es. event_by t e \<Longrightarrow> cooldown_wf t (fold cooldown_apply es tbl)"
  by (induction es arbitrary: tbl) (auto intro: inv_intros)

lemma capCooldown_bounds: "now < w \<Longrightarrow> now < capCooldown w now \<and> capCooldown w now \<le> now + MaxProviderCooldown"
  by (simp add: capCooldown_def MaxProviderCooldown_def)

lemma SetProviderCooldown_reset:
  "cr_reset_at (the (snd (SetProviderCooldown True provider resetAt runID now tbl) provider)) =
     (let r = capCooldown resetAt now in case tbl provider of Some row \<Rightarrow> max (cr_reset_at row) r | None \<Rightarrow> r)"
  by (auto simp: SetProviderCooldown_def capCooldown_def Let_def max_def split: option.splits)

text \<open>
  C25. Whatever a misparsed or absurd reset time a failure reported, and whatever the quota cache says: after
  any history of writes, clears and purges up to now, a provider that counts as cooling down is released
  at most six hours from now, and its release lies ahead.
\<close>

theorem cooldown_ends_within_six_hours:
  assumes "\<forall>e\<in>set es. event_by now e"
    and "activeProviderCooldown ok quota (fold cooldown_apply es (\<lambda>p. None)) provider now = Some until"
  shows "now < until \<and> until \<le> now + 6 * Hour"
proof -
  let ?tbl = "fold cooldown_apply es (\<lambda>p. None)"
  have wf: "cooldown_wf now ?tbl" by (rule cooldown_history_wf [OF _ assms(1)]) (simp add: cooldown_wf_def)
  have stored: "now < u \<and> u \<le> now + MaxProviderCooldown"
    if "(case GetProviderCooldown ok provider now ?tbl of Some (Some u) \<Rightarrow> Some u | _ \<Rightarrow> None) = Some u" for u
    using that wf by (auto simp: GetProviderCooldown_def cooldown_wf_def split: option.splits if_splits)
  have "now < until \<and> until \<le> now + MaxProviderCooldown"
    using assms(2) stored capCooldown_bounds [of now]
    unfolding activeProviderCooldown_def Let_def by (simp split: option.splits if_splits) blast+
  then show ?thesis by (simp add: MaxProviderCooldown_def)
qed

theorem cooldown_ends_within_six_hours_witness:
  "activeProviderCooldown True None (fold cooldown_apply [SetEvent True ''glm'' Hour ''r'' 0] (\<lambda>p. None)) ''glm'' 5 = Some Hour
   \<and> 5 < Hour \<and> Hour \<le> 5 + 6 * Hour"
proof -
  have active: "activeProviderCooldown True None (fold cooldown_apply [SetEvent True ''glm'' Hour ''r'' 0] (\<lambda>p. None)) ''glm'' 5 = Some Hour"
    by (simp add: activeProviderCooldown_def GetProviderCooldown_def SetProviderCooldown_def MaxProviderCooldown_def duration_defs)
  then show ?thesis by (simp add: cooldown_ends_within_six_hours [OF _ active])
qed

text \<open>A write never shortens a cooldown, and the list shown agrees with the guard.\<close>

lemma SetProviderCooldown_keeps_later:
  assumes "tbl provider = Some row"
  shows "\<exists>row'. snd (SetProviderCooldown ok p resetAt runID now tbl) provider = Some row' \<and> cr_reset_at row \<le> cr_reset_at row'"
  using assms by (auto simp: SetProviderCooldown_def Let_def split: option.splits)

lemma ProviderCooldowns_agree:
  assumes "zero_time \<le> now" "\<And>q p. quota = Some q \<Longrightarrow> ExhaustedProviders q now p = ExhaustedUntil q p now"
  shows "ProviderCooldowns ok quota tbl now provider = activeProviderCooldown ok quota tbl provider now"
proof -
  have m: "(case ListProviderCooldowns ok now tbl of Some m \<Rightarrow> m | None \<Rightarrow> (\<lambda>p. None)) provider
      = (case GetProviderCooldown ok provider now tbl of Some (Some u) \<Rightarrow> Some u | _ \<Rightarrow> None)"
    by (simp add: ListProviderCooldowns_def GetProviderCooldown_def split: option.splits)
  have "zero_time < capCooldown w now" if "now < w" for w
    using capCooldown_bounds [OF that] assms(1) by simp
  then show ?thesis using m assms(2)
    by (auto simp: ProviderCooldowns_def activeProviderCooldown_def Let_def split: option.splits)
qed

section \<open>Who is refused\<close>

lemma Derive_hard_reason:
  assumes "in_Provider inp = Some cat" "cat provider = Some p"
  shows "Hard (Derive inp loc provider model now) \<and> g_Reason (the (Derive inp loc provider model now)) \<noteq> ReasonOutOfPlan
       \<and> g_Reason (the (Derive inp loc provider model now)) \<noteq> ReasonCoolingDown
     \<longleftrightarrow> \<not> launchable p"
proof (cases "launchable p")
  case True
  then show ?thesis using assms
    by (auto simp: Derive_def Hard_def launchable_def planGate_def Let_def split: option.splits if_splits)
next
  case False
  then show ?thesis using assms
    by (auto simp: Derive_def Hard_def launchable_def Let_def reason_defs)
qed

text \<open>
  C18. The guard in front of a send, with the gate and the cooldowns wired as in the daemon, refuses exactly
  the sends that do not come from a human and go to a provider that cannot be launched (wrong harness
  or a missing secret) or is cooling down. Evidence that is only a warning, a used-up account or a
  recent failure, never refuses one, and a human is never refused.
\<close>

theorem send_refused_iff:
  assumes "catalog provider = Some p"
  shows "isl (send_guard (Some (\<lambda>pr now. Derive (daemon_inputs catalog accts windows ok quota tbl clock r) loc pr [] now))
       (\<lambda>pr t. activeProviderCooldown ok quota tbl pr t) source fromTaskID provider (t1, t2, t3))
     \<longleftrightarrow> nonHumanSend source fromTaskID \<and> (\<not> launchable p \<or> activeProviderCooldown ok quota tbl provider t2 \<noteq> None)"
proof -
  let ?inp = "daemon_inputs catalog accts windows ok quota tbl clock r"
  have "in_Provider ?inp = Some catalog" by (simp add: daemon_inputs_def)
  from Derive_hard_reason [OF this assms, of loc "[]" t1] show ?thesis
    by (auto simp: send_guard_def gateFor_def Let_def split: option.splits)
qed

theorem send_refused_iff_witness:
  "isl (send_guard (Some (\<lambda>pr now. Derive (daemon_inputs (\<lambda>i. Some demo_provider) [] None True None (\<lambda>p. None) 0 NewRecent) UTC pr [] now))
     (\<lambda>pr t. activeProviderCooldown True None (\<lambda>p. None) pr t) ''agent'' 0 ''claude'' (1, 2, 3)) = False"
  using send_refused_iff [of "\<lambda>i. Some demo_provider" "''claude''" demo_provider "[]" None True None "\<lambda>p. None" 0 NewRecent UTC "''agent''" 0 1 2 3]
  by (simp add: launchable_def demo_provider_def activeProviderCooldown_def GetProviderCooldown_def)

end
