(* ===== verification/Forest.thy ===== *)
theory Forest
  imports Prelude
begin

text \<open>
  The memoised depth-first fold over parent links that the stall detector and the task tree share.
  A task is folded once: its own value first, then the values of its children in order, then a
  closing step. A task that is being folded higher up (a cycle of corrupt parent links)
  contributes nothing. \<open>path\<close> is the set of tasks being folded: the code marks a task on entry and
  clears the mark on exit, so the marked tasks are the ancestors of the call.

  For links without a cycle the fold is shown to compute the recursive value \<open>level\<close>, and the
  descendants of a task to be the disjoint union of the descendants of its children.
\<close>

record ('i, 'n, 'a) fold_spec =
  ids :: "'i list"
  kids :: "'i \<Rightarrow> 'n list"
  key :: "'n \<Rightarrow> 'i"
  init :: "'i \<Rightarrow> 'a"
  merge :: "'a \<Rightarrow> 'n \<Rightarrow> 'a \<Rightarrow> 'a"
  close :: "'i \<Rightarrow> 'a \<Rightarrow> 'a"
  grey :: "'a option"

abbreviation kid_ids :: "('i, 'n, 'a) fold_spec \<Rightarrow> 'i \<Rightarrow> 'i list" where
  "kid_ids F p \<equiv> map (key F) (kids F p)"

function (sequential) memo_fold :: "('i, 'n, 'a) fold_spec \<Rightarrow> 'i list \<Rightarrow> 'i \<Rightarrow> ('i \<Rightarrow> 'a option) \<Rightarrow> 'a option \<times> ('i \<Rightarrow> 'a option)"
  and memo_fold_kids :: "('i, 'n, 'a) fold_spec \<Rightarrow> 'i list \<Rightarrow> 'n list \<Rightarrow> 'a \<Rightarrow> ('i \<Rightarrow> 'a option) \<Rightarrow> 'a \<times> ('i \<Rightarrow> 'a option)"
where
  "memo_fold F path i memo =
     (case memo i of
        Some a \<Rightarrow> (Some a, memo)
      | None \<Rightarrow>
          if i \<in> set path \<or> i \<notin> set (ids F) then (grey F, memo)
          else (case memo_fold_kids F (i # path) (kids F i) (init F i) memo of
                  (a, memo') \<Rightarrow> (Some (close F i a), memo'(i \<mapsto> close F i a))))"
| "memo_fold_kids F path [] a memo = (a, memo)"
| "memo_fold_kids F path (c # cs) a memo =
     (case memo_fold F path (key F c) memo of
        (None, memo') \<Rightarrow> memo_fold_kids F path cs a memo'
      | (Some ca, memo') \<Rightarrow> memo_fold_kids F path cs (merge F a c ca) memo')"
  by pat_completeness auto
termination
proof (relation "measures [\<lambda>x. case x of Inl (F, path, i, memo) \<Rightarrow> card (set (ids F) - set path) | Inr (F, path, cs, a, memo) \<Rightarrow> card (set (ids F) - set path),
    \<lambda>x. case x of Inl (F, path, i, memo) \<Rightarrow> 0 | Inr (F, path, cs, a, memo) \<Rightarrow> Suc (length cs)]", goal_cases)
  case (2 F path i memo)
  then have "card (set (ids F) - set (i # path)) < card (set (ids F) - set path)"
    by (intro psubset_card_mono) auto
  then show ?case by simp
qed auto

declare memo_fold.simps [simp del] memo_fold_kids.simps [simp del]

text \<open>The fold over all tasks in their given order, which leaves the memo behind.\<close>

definition fold_all :: "('i, 'n, 'a) fold_spec \<Rightarrow> 'i \<Rightarrow> 'a option" where
  "fold_all F = foldl (\<lambda>memo i. snd (memo_fold F [] i memo)) (\<lambda>i. None) (ids F)"

section \<open>Links without a cycle\<close>

definition links :: "('i, 'n, 'a) fold_spec \<Rightarrow> ('i \<times> 'i) set" where
  "links F = {(c, p). p \<in> set (ids F) \<and> c \<in> set (kid_ids F p)}"

definition descendants :: "('i, 'n, 'a) fold_spec \<Rightarrow> 'i \<Rightarrow> 'i set" where
  "descendants F p = {x. (x, p) \<in> (links F)\<^sup>*}"

text \<open>A forest: children are tasks, every task has one parent at most, and no task is its own ancestor.\<close>

definition forest :: "('i, 'n, 'a) fold_spec \<Rightarrow> bool" where
  "forest F \<longleftrightarrow> (\<forall>p. set (kid_ids F p) \<subseteq> set (ids F)) \<and> (\<forall>p. distinct (kid_ids F p))
     \<and> (\<forall>c p q. (c, p) \<in> links F \<longrightarrow> (c, q) \<in> links F \<longrightarrow> p = q) \<and> acyclic (links F)"

definition rank :: "('i, 'n, 'a) fold_spec \<Rightarrow> 'i \<Rightarrow> nat" where
  "rank F p = card {x. (x, p) \<in> (links F)\<^sup>+}"

lemma finite_links: "finite (links F)"
proof -
  have "links F \<subseteq> (\<Union>p\<in>set (ids F). set (kid_ids F p)) \<times> set (ids F)" by (auto simp: links_def)
  then show ?thesis by (rule finite_subset) auto
qed

lemma rank_less:
  assumes "acyclic (links F)" "(c, p) \<in> links F"
  shows "rank F c < rank F p"
proof -
  have "finite ((links F)\<^sup>+)" by (simp add: finite_links finite_trancl)
  then have "finite (fst ` (links F)\<^sup>+)" by blast
  moreover have "{x. (x, p) \<in> (links F)\<^sup>+} \<subseteq> fst ` (links F)\<^sup>+" by force
  ultimately have "finite {x. (x, p) \<in> (links F)\<^sup>+}" by (rule finite_subset [rotated])
  moreover have "{x. (x, c) \<in> (links F)\<^sup>+} \<subset> {x. (x, p) \<in> (links F)\<^sup>+}"
    using assms by (auto simp: acyclic_def intro: trancl_into_trancl)
  ultimately show ?thesis unfolding rank_def by (rule psubset_card_mono)
qed

primrec level :: "('i, 'n, 'a) fold_spec \<Rightarrow> nat \<Rightarrow> 'i \<Rightarrow> 'a" where
  "level F 0 i = close F i (init F i)"
| "level F (Suc n) i = close F i (foldl (\<lambda>a c. merge F a c (level F n (key F c))) (init F i) (kids F i))"

definition fold_value :: "('i, 'n, 'a) fold_spec \<Rightarrow> 'i \<Rightarrow> 'a" where
  "fold_value F i = level F (Suc (rank F i)) i"

lemma foldl_cong_set: "(\<And>a x. x \<in> set xs \<Longrightarrow> f a x = g a x) \<Longrightarrow> foldl f a xs = foldl g a xs"
  by (induction xs arbitrary: a) auto


lemma forest_kids:
  assumes "forest F" "p \<in> set (ids F)" "c \<in> set (kid_ids F p)"
  shows "c \<in> set (ids F)" "(c, p) \<in> links F" "rank F c < rank F p"
proof -
  show l: "(c, p) \<in> links F" using assms(2,3) by (simp add: links_def)
  show "c \<in> set (ids F)" using assms(1,3) unfolding forest_def by blast
  show "rank F c < rank F p" using assms(1) l by (intro rank_less) (simp_all add: forest_def)
qed

lemma level_stable:
  assumes "forest F"
  shows "i \<in> set (ids F) \<Longrightarrow> rank F i < n \<Longrightarrow> rank F i < m \<Longrightarrow> level F n i = level F m i"
proof (induction n arbitrary: i m)
  case (Suc n)
  obtain k where m: "m = Suc k" using Suc.prems(3) by (cases m) auto
  have "level F n c = level F k c" if "c \<in> set (kid_ids F i)" for c
    using Suc.IH [of c k] forest_kids [OF assms Suc.prems(1) that] Suc.prems(2,3) m by auto
  then show ?case using foldl_cong_set [of "kids F i" "\<lambda>a c. merge F a c (level F n (key F c))" "\<lambda>a c. merge F a c (level F k (key F c))"]
    by (simp add: m)
qed simp

lemma fold_value_rec:
  assumes "forest F" "i \<in> set (ids F)"
  shows "fold_value F i = close F i (foldl (\<lambda>a c. merge F a c (fold_value F (key F c))) (init F i) (kids F i))"
proof -
  have "level F (rank F i) c = fold_value F c" if "c \<in> set (kid_ids F i)" for c
    using level_stable [OF assms(1), of c "rank F i" "Suc (rank F c)"] forest_kids [OF assms that] by (simp add: fold_value_def)
  then show ?thesis
    using foldl_cong_set [of "kids F i" "\<lambda>a c. merge F a c (level F (rank F i) (key F c))" "\<lambda>a c. merge F a c (fold_value F (key F c))"]
    by (simp add: fold_value_def [of F i])
qed

section \<open>The memoised fold computes the recursive value\<close>

definition memo_ok :: "('i, 'n, 'a) fold_spec \<Rightarrow> ('i \<Rightarrow> 'a option) \<Rightarrow> bool" where
  "memo_ok F memo \<longleftrightarrow> (\<forall>i a. memo i = Some a \<longrightarrow> i \<in> set (ids F) \<and> a = fold_value F i)"

lemma memo_fold_value:
  assumes "forest F"
  shows "i \<in> set (ids F) \<Longrightarrow> memo_ok F memo \<Longrightarrow> \<forall>q\<in>set path. rank F i < rank F q \<Longrightarrow>
      fst (memo_fold F path i memo) = Some (fold_value F i) \<and> memo_ok F (snd (memo_fold F path i memo))
        \<and> dom memo \<subseteq> dom (snd (memo_fold F path i memo)) \<and> i \<in> dom (snd (memo_fold F path i memo))"
    and "key F ` set cs \<subseteq> set (ids F) \<Longrightarrow> memo_ok F memo \<Longrightarrow> \<forall>c\<in>key F ` set cs. \<forall>q\<in>set path. rank F c < rank F q \<Longrightarrow>
      fst (memo_fold_kids F path cs a memo) = foldl (\<lambda>a c. merge F a c (fold_value F (key F c))) a cs
        \<and> memo_ok F (snd (memo_fold_kids F path cs a memo)) \<and> dom memo \<subseteq> dom (snd (memo_fold_kids F path cs a memo))"
  using assms
proof (induction F path i memo and F path cs a memo rule: memo_fold_memo_fold_kids.induct)
  case (1 F path i memo)
  show ?case
  proof (cases "memo i")
    case (Some a)
    then show ?thesis using "1.prems"(2) by (auto simp: memo_fold.simps [of F path i] memo_ok_def)
  next
    case None
    have np: "i \<notin> set path" using "1.prems"(3) by auto
    obtain a memo' where k: "memo_fold_kids F (i # path) (kids F i) (init F i) memo = (a, memo')" by fastforce
    have "\<forall>c\<in>set (kid_ids F i). \<forall>q\<in>set (i # path). rank F c < rank F q"
    proof (intro ballI)
      fix c q assume c: "c \<in> set (kid_ids F i)" and q: "q \<in> set (i # path)"
      have "rank F c < rank F i" using forest_kids(3) [OF "1.prems"(4,1) c] .
      moreover have "rank F i \<le> rank F q" using q "1.prems"(3) by auto
      ultimately show "rank F c < rank F q" by simp
    qed
    moreover have "set (kid_ids F i) \<subseteq> set (ids F)" using "1.prems"(4) by (simp add: forest_def)
    ultimately have K: "a = foldl (\<lambda>a c. merge F a c (fold_value F (key F c))) (init F i) (kids F i)" "memo_ok F memo'" "dom memo \<subseteq> dom memo'"
      using "1.IH" [OF None _ _ "1.prems"(2)] np "1.prems"(1,4) k by auto
    have v: "close F i a = fold_value F i" using fold_value_rec [OF "1.prems"(4,1)] K(1) by simp
    have m: "memo_fold F path i memo = (Some (fold_value F i), memo'(i \<mapsto> fold_value F i))"
      using None np "1.prems"(1) k v by (simp add: memo_fold.simps [of F path i])
    define M where "M = memo'(i \<mapsto> fold_value F i)"
    have "memo_ok F M" "i \<in> dom M" "dom memo \<subseteq> dom M"
      using K(2,3) "1.prems"(1) by (auto simp: memo_ok_def M_def)
    then show ?thesis using m by (simp flip: M_def)
  qed
next
  case (2 F path a memo)
  then show ?case by (simp add: memo_fold_kids.simps)
next
  case (3 F path c cs a memo)
  obtain r memo' where f: "memo_fold F path (key F c) memo = (r, memo')" by fastforce
  have H: "r = Some (fold_value F (key F c))" "memo_ok F memo'" "dom memo \<subseteq> dom memo'"
    using "3.IH"(1) "3.prems" f by auto
  have "fst (memo_fold_kids F path cs (merge F a c (fold_value F (key F c))) memo') = foldl (\<lambda>a c. merge F a c (fold_value F (key F c))) (merge F a c (fold_value F (key F c))) cs
        \<and> memo_ok F (snd (memo_fold_kids F path cs (merge F a c (fold_value F (key F c))) memo'))
        \<and> dom memo' \<subseteq> dom (snd (memo_fold_kids F path cs (merge F a c (fold_value F (key F c))) memo'))"
    using "3.IH"(3) [OF f [symmetric]] H "3.prems" by auto
  then show ?case using f H by (simp add: memo_fold_kids.simps(2)) blast
qed

lemma fold_all_value:
  assumes "forest F"
  shows "fold_all F i = (if i \<in> set (ids F) then Some (fold_value F i) else None)"
proof -
  have "memo_ok F (foldl (\<lambda>memo i. snd (memo_fold F [] i memo)) memo xs)
      \<and> set xs \<union> dom memo \<subseteq> dom (foldl (\<lambda>memo i. snd (memo_fold F [] i memo)) memo xs)"
    if "set xs \<subseteq> set (ids F)" "memo_ok F memo" for xs memo
    using that
  proof (induction xs arbitrary: memo)
    case (Cons x xs)
    have "memo_ok F (snd (memo_fold F [] x memo))" "dom memo \<subseteq> dom (snd (memo_fold F [] x memo))" "x \<in> dom (snd (memo_fold F [] x memo))"
      using memo_fold_value(1) [OF assms, of x memo "[]"] Cons.prems by auto
    then show ?case using Cons.IH [of "snd (memo_fold F [] x memo)"] Cons.prems by (simp add: subset_iff)
  qed simp
  from this [of "ids F" "\<lambda>i. None"] have *: "memo_ok F (fold_all F)" "set (ids F) \<subseteq> dom (fold_all F)"
    by (auto simp: fold_all_def memo_ok_def)
  show ?thesis
  proof (cases "fold_all F i")
    case (Some a)
    then show ?thesis using *(1) by (auto simp: memo_ok_def)
  qed (use *(2) in auto)
qed

section \<open>Values over the descendants\<close>

lemma descendants_rec:
  assumes "p \<in> set (ids F)"
  shows "descendants F p = insert p (\<Union>c\<in>set (kid_ids F p). descendants F c)"
proof (rule set_eqI)
  fix x
  show "x \<in> descendants F p \<longleftrightarrow> x \<in> insert p (\<Union>c\<in>set (kid_ids F p). descendants F c)"
  proof
    assume "x \<in> descendants F p"
    then have "(x, p) \<in> (links F)\<^sup>*" by (simp add: descendants_def)
    then show "x \<in> insert p (\<Union>c\<in>set (kid_ids F p). descendants F c)"
      by (cases rule: rtranclE) (auto simp: descendants_def links_def)
  next
    assume "x \<in> insert p (\<Union>c\<in>set (kid_ids F p). descendants F c)"
    then show "x \<in> descendants F p"
      using assms by (auto simp: descendants_def links_def intro: rtrancl_into_rtrancl)
  qed
qed

lemma descendants_self: "p \<in> descendants F p"
  by (simp add: descendants_def)

lemma finite_descendants: "finite (descendants F p)"
proof -
  have "descendants F p \<subseteq> insert p (fst ` (links F)\<^sup>+)" by (force simp: descendants_def rtrancl_eq_or_trancl)
  then show ?thesis by (rule finite_subset) (simp add: finite_links finite_trancl)
qed

lemma descendants_not_parent:
  assumes "forest F" "(c, p) \<in> links F"
  shows "p \<notin> descendants F c"
  using assms by (auto simp: descendants_def forest_def acyclic_def dest: rtrancl_into_trancl1)

lemma siblings_disjoint:
  assumes "forest F" "(c, p) \<in> links F" "(d, p) \<in> links F" "c \<noteq> d"
  shows "descendants F c \<inter> descendants F d = {}"
proof (rule ccontr)
  assume "descendants F c \<inter> descendants F d \<noteq> {}"
  then obtain x where x: "(x, c) \<in> (links F)\<^sup>*" "(x, d) \<in> (links F)\<^sup>*" by (auto simp: descendants_def)
  have sv: "single_valued (links F)" using assms(1) by (auto simp: forest_def single_valued_def)
  have "(c, d) \<in> (links F)\<^sup>* \<or> (d, c) \<in> (links F)\<^sup>*" using single_valued_confluent [OF sv x] .
  moreover have "\<not> (a, b) \<in> (links F)\<^sup>*" if "(a, p) \<in> links F" "(b, p) \<in> links F" "a \<noteq> b" for a b
  proof (rule notI)
    assume "(a, b) \<in> (links F)\<^sup>*"
    with \<open>a \<noteq> b\<close> obtain q where "(a, q) \<in> links F" "(q, b) \<in> (links F)\<^sup>*" by (metis converse_rtranclE)
    then have "(p, b) \<in> (links F)\<^sup>*" using sv that(1) by (auto simp: single_valued_def)
    then have "(p, p) \<in> (links F)\<^sup>+" using that(2) by (rule rtrancl_into_trancl1)
    then show False using assms(1) by (simp add: forest_def acyclic_def)
  qed
  ultimately show False using assms(2-4) by blast
qed

text \<open>An induction over a forest from the leaves up.\<close>

lemma forest_induct [consumes 2]:
  assumes "forest F" "i \<in> set (ids F)"
    and "\<And>i. i \<in> set (ids F) \<Longrightarrow> (\<And>c. c \<in> set (kid_ids F i) \<Longrightarrow> P c) \<Longrightarrow> P i"
  shows "P i"
  using assms(2)
proof (induction "rank F i" arbitrary: i rule: less_induct)
  case less
  show ?case using assms(3) [OF less.prems] less.hyps forest_kids [OF assms(1) less.prems] by blast
qed

lemma forest_sum:
  fixes g :: "'i \<Rightarrow> 'b::comm_monoid_add"
  assumes "forest F" "i \<in> set (ids F)"
    and V: "\<And>i. i \<in> set (ids F) \<Longrightarrow> V i = g i + sum V (set (kid_ids F i))"
  shows "V i = sum g (descendants F i)"
  using assms(1,2)
proof (induction rule: forest_induct)
  case (1 i)
  have k: "(c, i) \<in> links F" if "c \<in> set (kid_ids F i)" for c using forest_kids(2) [OF assms(1) 1(1) that] .
  have "sum g (descendants F i) = g i + sum g (\<Union>c\<in>set (kid_ids F i). descendants F c)"
    unfolding descendants_rec [OF 1(1)]
    using descendants_not_parent [OF assms(1) k] by (intro sum.insert) (auto simp: finite_descendants)
  also have "sum g (\<Union>c\<in>set (kid_ids F i). descendants F c) = (\<Sum>c\<in>set (kid_ids F i). sum g (descendants F c))"
    using siblings_disjoint [OF assms(1) k k] by (intro sum.UNION_disjoint) (auto simp: finite_descendants)
  also have "\<dots> = sum V (set (kid_ids F i))" by (intro sum.cong) (auto simp: 1(2))
  finally show ?case by (simp add: V [OF 1(1)])
qed

lemma forest_ex:
  assumes "forest F" "i \<in> set (ids F)" and R: "\<And>i. i \<in> set (ids F) \<Longrightarrow> R i \<longleftrightarrow> r i \<or> (\<exists>c\<in>set (kid_ids F i). R c)"
  shows "R i \<longleftrightarrow> (\<exists>x\<in>descendants F i. r x)"
  using assms(1,2)
proof (induction rule: forest_induct)
  case (1 i)
  then show ?case by (auto simp: R descendants_rec [OF 1(1)])
qed

lemma forest_Max:
  fixes m :: "'i \<Rightarrow> 'b::linorder"
  assumes "forest F" "i \<in> set (ids F)" and M: "\<And>i. i \<in> set (ids F) \<Longrightarrow> M i = Max (insert (m i) (M ` set (kid_ids F i)))"
  shows "M i = Max (m ` descendants F i)"
  using assms(1,2)
proof (induction rule: forest_induct)
  case (1 i)
  have "m ` descendants F i = insert (m i) (\<Union>c\<in>set (kid_ids F i). m ` descendants F c)"
    by (auto simp: descendants_rec [OF 1(1)])
  moreover have "Max (insert (m i) (\<Union>c\<in>set (kid_ids F i). m ` descendants F c)) = Max (insert (m i) (M ` set (kid_ids F i)))"
  proof (rule Max_eq_if)
    show "finite (insert (m i) (\<Union>c\<in>set (kid_ids F i). m ` descendants F c))" by (simp add: finite_descendants)
    show "\<forall>a\<in>insert (m i) (\<Union>c\<in>set (kid_ids F i). m ` descendants F c). \<exists>b\<in>insert (m i) (M ` set (kid_ids F i)). a \<le> b"
    proof (intro ballI)
      fix a assume "a \<in> insert (m i) (\<Union>c\<in>set (kid_ids F i). m ` descendants F c)"
      then consider "a = m i" | c where "c \<in> set (kid_ids F i)" "a \<in> m ` descendants F c" by auto
      then show "\<exists>b\<in>insert (m i) (M ` set (kid_ids F i)). a \<le> b"
      proof cases
        case 2
        then have "a \<le> M c" by (simp add: 1(2) finite_descendants)
        then show ?thesis using 2(1) by blast
      qed auto
    qed
    show "\<forall>b\<in>insert (m i) (M ` set (kid_ids F i)). \<exists>a\<in>insert (m i) (\<Union>c\<in>set (kid_ids F i). m ` descendants F c). b \<le> a"
    proof
      fix b assume "b \<in> insert (m i) (M ` set (kid_ids F i))"
      then consider "b = m i" | c where "c \<in> set (kid_ids F i)" "b = Max (m ` descendants F c)" using 1(2) by auto
      then show "\<exists>a\<in>insert (m i) (\<Union>c\<in>set (kid_ids F i). m ` descendants F c). b \<le> a"
      proof cases
        case 2
        have "Max (m ` descendants F c) \<in> m ` descendants F c"
          using descendants_self [of c F] by (intro Max_in) (auto simp: finite_descendants)
        then show ?thesis using 2 by blast
      qed auto
    qed
  qed simp
  ultimately show ?case using M [OF 1(1)] by simp
qed

end
