(* ===== verification/Stall.thy ===== *)
theory Stall
  imports Failure Forest "HOL-Library.Multiset"
begin

text \<open>
  The stalled-tree detector (\<open>internal/stall/detector.go\<close>) and the part of the store it reads and
  writes (\<open>internal/store/stall.go\<close>).

  \<open>Detect\<close> reports the seats, tasks with live children or an orchestrating profile, whose subtree has
  neither run nor queued anything for long enough. The tables of the store are a record, \<open>StallSnapshot\<close>
  assembles the rows from the results of its four queries, and \<open>Tick\<close> runs one pass over a store given
  by its operations, which the locale \<open>stall_store\<close> describes.
\<close>

section \<open>Rows and episodes\<close>

record stall_row =
  sr_TaskID :: int
  sr_ParentID :: "int option"
  sr_Title :: string
  sr_CreatedAt :: gotime
  sr_Running :: bool
  sr_LastActivity :: gotime
  sr_HasQueued :: bool
  sr_QueuedHold :: "gotime option"
  sr_HasRun :: bool
  sr_LatestStatus :: string
  sr_LatestStopReason :: string
  sr_LatestFailureKind :: string
  sr_LatestFailureResetAt :: "gotime option"
  sr_ProfileOnRateLimit :: string
  sr_ProfileOrchestration :: bool
  sr_AncestorArchived :: bool
  sr_StallAlertedSince :: "gotime option"

record episode =
  ep_TaskID :: int
  ep_Title :: string
  ep_Since :: gotime
  ep_AlreadyAlerted :: bool
  ep_Covered :: bool

record stall_agg =
  ag_running :: bool
  ag_activity :: gotime

definition truncate_second :: "gotime \<Rightarrow> gotime" where
  "truncate_second t = t - t mod Second"

section \<open>Detect\<close>

text \<open>The index by id: a later row with the same id replaces an earlier one.\<close>

definition row_of :: "stall_row list \<Rightarrow> int \<Rightarrow> stall_row option" where
  "row_of rows i = find (\<lambda>r. sr_TaskID r = i) (rev rows)"

lemma row_of_in: "row_of rows i = Some r \<Longrightarrow> r \<in> set rows \<and> sr_TaskID r = i"
  unfolding row_of_def find_Some_iff by (metis nth_mem set_rev)

definition stall_children :: "stall_row list \<Rightarrow> int \<Rightarrow> int list" where
  "stall_children rows p = [sr_TaskID r. r \<leftarrow> rows, sr_ParentID r = Some p, row_of rows p \<noteq> None]"

definition own_agg :: "stall_row \<Rightarrow> stall_agg" where
  "own_agg r = \<lparr>ag_running = sr_Running r,
     ag_activity = (case sr_QueuedHold r of
                      Some h \<Rightarrow> if sr_LastActivity r < h then h else sr_LastActivity r
                    | None \<Rightarrow> sr_LastActivity r)\<rparr>"

definition merge_agg :: "stall_agg \<Rightarrow> stall_agg \<Rightarrow> stall_agg" where
  "merge_agg a ca = \<lparr>ag_running = (ag_running a \<or> ag_running ca),
     ag_activity = (if ag_activity a < ag_activity ca then ag_activity ca else ag_activity a)\<rparr>"

definition zero_agg :: stall_agg where
  "zero_agg = \<lparr>ag_running = False, ag_activity = zero_time\<rparr>"

definition stall_walk :: "stall_row list \<Rightarrow> (int, int, stall_agg) fold_spec" where
  "stall_walk rows = \<lparr>ids = map sr_TaskID rows, kids = stall_children rows, key = (\<lambda>c. c),
     init = (\<lambda>i. case row_of rows i of Some r \<Rightarrow> own_agg r | None \<Rightarrow> zero_agg),
     merge = (\<lambda>a c ca. merge_agg a ca), close = (\<lambda>i a. a), grey = Some zero_agg\<rparr>"

definition memo_agg :: "(int \<Rightarrow> stall_agg option) \<Rightarrow> int \<Rightarrow> stall_agg" where
  "memo_agg memo i = (case memo i of Some a \<Rightarrow> a | None \<Rightarrow> zero_agg)"

definition hold_reset :: "stall_row \<Rightarrow> gotime \<Rightarrow> gotime" where
  "hold_reset r a =
     (case sr_LatestFailureResetAt r of
        Some t \<Rightarrow> if IsPlanLimit (sr_LatestFailureKind r) \<and> sr_ProfileOnRateLimit r = ''wait'' \<and> a < t then t else a
      | None \<Rightarrow> a)"

definition seat_episode :: "stall_row list \<Rightarrow> (int \<Rightarrow> stall_agg option) \<Rightarrow> gotime \<Rightarrow> duration \<Rightarrow> stall_row \<Rightarrow> episode list" where
  "seat_episode rows memo now n r =
     (if sr_AncestorArchived r then []
      else if stall_children rows (sr_TaskID r) = [] \<and> \<not> sr_ProfileOrchestration r then []
      else if ag_running (memo_agg memo (sr_TaskID r)) then []
      else let a = hold_reset r (ag_activity (memo_agg memo (sr_TaskID r))) in
        if time_sub now a < n then []
        else let since = truncate_second a in
          [\<lparr>ep_TaskID = sr_TaskID r, ep_Title = sr_Title r, ep_Since = since,
            ep_AlreadyAlerted = (case sr_StallAlertedSince r of Some s \<Rightarrow> truncate_second s = since | None \<Rightarrow> False),
            ep_Covered = False\<rparr>])"

text \<open>The walk over the ancestors ends at a task that is not live or was seen before.\<close>

function covered_walk :: "stall_row list \<Rightarrow> int set \<Rightarrow> int set \<Rightarrow> int option \<Rightarrow> bool" where
  "covered_walk rows stalled seen None = False"
| "covered_walk rows stalled seen (Some p) =
     (case row_of rows p of
        None \<Rightarrow> False
      | Some r \<Rightarrow>
          if p \<in> seen then False
          else if p \<in> stalled then True
          else covered_walk rows stalled (insert p seen) (sr_ParentID r))"
  by pat_completeness auto
termination
proof (relation "measure (\<lambda>(rows, stalled, seen, p). card (set (map sr_TaskID rows) - seen))", goal_cases)
  case (2 rows stalled seen p r)
  then have "p \<in> set (map sr_TaskID rows)" using row_of_in [of rows p r] by auto
  then have "card (set (map sr_TaskID rows) - insert p seen) < card (set (map sr_TaskID rows) - seen)"
    using 2 by (intro psubset_card_mono) auto
  then show ?case by simp
qed simp

definition cover :: "stall_row list \<Rightarrow> int set \<Rightarrow> episode \<Rightarrow> episode" where
  "cover rows stalled e =
     e\<lparr>ep_Covered := covered_walk rows stalled {ep_TaskID e} (Option.bind (row_of rows (ep_TaskID e)) sr_ParentID)\<rparr>"

definition Detect :: "stall_row list \<Rightarrow> gotime \<Rightarrow> duration \<Rightarrow> episode list" where
  "Detect rows now n =
     (if n \<le> 0 \<or> rows = [] then []
      else let memo = fold_all (stall_walk rows);
               out = sort_key ep_TaskID (concat (map (seat_episode rows memo now n) rows));
               stalled = set (map ep_TaskID out)
           in map (cover rows stalled) out)"

section \<open>What the detector reports\<close>

text \<open>The specification: the links between live tasks and the subtree of a task as sets.\<close>

definition parent_link :: "stall_row list \<Rightarrow> (int \<times> int) set" where
  "parent_link rows = {(sr_TaskID r, p) | r p. r \<in> set rows \<and> sr_ParentID r = Some p \<and> p \<in> sr_TaskID ` set rows}"

definition forest_rows :: "stall_row list \<Rightarrow> bool" where
  "forest_rows rows \<longleftrightarrow> distinct (map sr_TaskID rows) \<and> acyclic (parent_link rows)"

definition subtree_rows :: "stall_row list \<Rightarrow> stall_row \<Rightarrow> stall_row set" where
  "subtree_rows rows r = {x \<in> set rows. (sr_TaskID x, sr_TaskID r) \<in> (parent_link rows)\<^sup>*}"

definition silent_since :: "stall_row list \<Rightarrow> stall_row \<Rightarrow> gotime" where
  "silent_since rows r = hold_reset r (Max ((\<lambda>x. ag_activity (own_agg x)) ` subtree_rows rows r))"

definition stalled_seat :: "stall_row list \<Rightarrow> gotime \<Rightarrow> duration \<Rightarrow> stall_row \<Rightarrow> bool" where
  "stalled_seat rows now n r \<longleftrightarrow> \<not> sr_AncestorArchived r
     \<and> (sr_ProfileOrchestration r \<or> (\<exists>c\<in>set rows. sr_ParentID c = Some (sr_TaskID r)))
     \<and> (\<forall>x\<in>subtree_rows rows r. \<not> sr_Running x) \<and> n \<le> time_sub now (silent_since rows r)"

lemma row_of_None: "row_of rows i = None \<longleftrightarrow> i \<notin> sr_TaskID ` set rows"
  by (auto simp: row_of_def find_None_iff)

lemma row_of_unique:
  assumes "distinct (map sr_TaskID rows)" "r \<in> set rows"
  shows "row_of rows (sr_TaskID r) = Some r"
proof (cases "row_of rows (sr_TaskID r)")
  case None
  then show ?thesis using assms(2) by (auto simp: row_of_None)
next
  case (Some q)
  then show ?thesis using row_of_in [OF Some] assms by (auto simp: distinct_map dest: inj_onD)
qed

lemma set_stall_children:
  "set (stall_children rows p) = {c. (c, p) \<in> parent_link rows}"
  by (auto simp: stall_children_def parent_link_def row_of_None)

lemma links_stall_walk: "links (stall_walk rows) = parent_link rows"
  by (auto simp: links_def stall_walk_def set_stall_children parent_link_def)

lemma distinct_stall_children:
  assumes "distinct (map sr_TaskID rows)"
  shows "distinct (stall_children rows p)"
proof -
  have e: "stall_children rows p = map sr_TaskID (filter (\<lambda>r. sr_ParentID r = Some p \<and> row_of rows p \<noteq> None) rows)"
  proof -
    have "concat (map (\<lambda>r. if sr_ParentID r = Some p then if row_of rows p \<noteq> None then [sr_TaskID r] else [] else []) xs)
        = map sr_TaskID (filter (\<lambda>r. sr_ParentID r = Some p \<and> row_of rows p \<noteq> None) xs)" for xs
      by (induction xs) auto
    then show ?thesis by (simp add: stall_children_def)
  qed
  show ?thesis unfolding e using assms by (simp add: distinct_map_filter)
qed

lemma forest_stall_walk:
  assumes "forest_rows rows"
  shows "forest (stall_walk rows)"
proof -
  have d: "distinct (map sr_TaskID rows)" using assms by (simp add: forest_rows_def)
  have "p = q" if cp: "(c, p) \<in> parent_link rows" and cq: "(c, q) \<in> parent_link rows" for c p q
  proof -
    obtain r s where "r \<in> set rows" "s \<in> set rows" "sr_TaskID r = c" "sr_TaskID s = c" "sr_ParentID r = Some p" "sr_ParentID s = Some q"
      using cp cq by (auto simp: parent_link_def)
    then show ?thesis using row_of_unique [OF d, of r] row_of_unique [OF d, of s] by simp
  qed
  moreover have "c \<in> sr_TaskID ` set rows" if "(c, p) \<in> parent_link rows" for c p
    using that by (auto simp: parent_link_def)
  ultimately show ?thesis
    using assms distinct_stall_children [OF d] unfolding forest_def links_stall_walk
    by (auto simp: stall_walk_def set_stall_children forest_rows_def image_def)
qed

lemma stall_walk_simps [simp]:
  "ids (stall_walk rows) = map sr_TaskID rows" "kids (stall_walk rows) = stall_children rows" "key (stall_walk rows) = (\<lambda>c. c)"
  "init (stall_walk rows) i = (case row_of rows i of Some r \<Rightarrow> own_agg r | None \<Rightarrow> zero_agg)"
  "merge (stall_walk rows) a c ca = merge_agg a ca" "close (stall_walk rows) i a = a"
  by (simp_all add: stall_walk_def)

lemma merge_agg_simps [simp]:
  "ag_running (merge_agg a ca) \<longleftrightarrow> ag_running a \<or> ag_running ca"
  "ag_activity (merge_agg a ca) = max (ag_activity a) (ag_activity ca)"
  by (simp_all add: merge_agg_def max_def)

lemma foldl_merge_running:
  "ag_running (foldl (\<lambda>a c. merge_agg a (V c)) a cs) \<longleftrightarrow> ag_running a \<or> (\<exists>c\<in>set cs. ag_running (V c))"
  by (induction cs arbitrary: a) auto

lemma Max_insert_max: "finite S \<Longrightarrow> Max (insert (max x y) S) = Max (insert x (insert y S))" for x :: "'a::linorder"
  by (cases "S = {}") (simp_all add: max.assoc)

lemma foldl_merge_activity:
  "ag_activity (foldl (\<lambda>a c. merge_agg a (V c)) a cs) = Max (insert (ag_activity a) ((\<lambda>c. ag_activity (V c)) ` set cs))"
  by (induction cs arbitrary: a) (simp_all add: Max_insert_max del: Max_insert)

lemma descendants_subtree:
  assumes "distinct (map sr_TaskID rows)" "r \<in> set rows"
  shows "descendants (stall_walk rows) (sr_TaskID r) = sr_TaskID ` subtree_rows rows r"
proof -
  have "x \<in> sr_TaskID ` set rows" if "(x, sr_TaskID r) \<in> (parent_link rows)\<^sup>*" for x
    using that assms(2) by (cases rule: converse_rtranclE) (auto simp: parent_link_def)
  then show ?thesis by (auto simp: descendants_def links_stall_walk subtree_rows_def image_iff)
qed

lemma walk_aggregate:
  assumes "forest_rows rows" "r \<in> set rows"
  shows "memo_agg (fold_all (stall_walk rows)) (sr_TaskID r) =
    \<lparr>ag_running = (\<exists>x\<in>subtree_rows rows r. sr_Running x),
     ag_activity = Max ((\<lambda>x. ag_activity (own_agg x)) ` subtree_rows rows r)\<rparr>"
proof -
  let ?F = "stall_walk rows"
  have d: "distinct (map sr_TaskID rows)" using assms(1) by (simp add: forest_rows_def)
  note F = forest_stall_walk [OF assms(1)]
  have i: "sr_TaskID r \<in> set (ids ?F)" using assms(2) by simp
  note rec = fold_value_rec [OF F]
  have own: "init ?F (sr_TaskID x) = own_agg x" if "x \<in> set rows" for x
    using row_of_unique [OF d that] by simp
  have run: "ag_running (fold_value ?F (sr_TaskID r)) \<longleftrightarrow> (\<exists>x\<in>descendants ?F (sr_TaskID r). ag_running (init ?F x))"
    by (rule forest_ex [OF F i]) (subst rec, simp_all add: foldl_merge_running)
  have act: "ag_activity (fold_value ?F (sr_TaskID r)) = Max ((\<lambda>x. ag_activity (init ?F x)) ` descendants ?F (sr_TaskID r))"
    by (rule forest_Max [OF F i]) (subst rec, simp_all add: foldl_merge_activity image_image del: Max_insert)
  have sub: "x \<in> subtree_rows rows r \<Longrightarrow> x \<in> set rows" for x by (simp add: subtree_rows_def)
  have "(\<exists>x\<in>sr_TaskID ` subtree_rows rows r. ag_running (init ?F x)) \<longleftrightarrow> (\<exists>x\<in>subtree_rows rows r. sr_Running x)"
    using own sub by (auto simp: own_agg_def)
  moreover have "(\<lambda>x. ag_activity (init ?F x)) ` sr_TaskID ` subtree_rows rows r = (\<lambda>x. ag_activity (own_agg x)) ` subtree_rows rows r"
    using own sub by (auto simp: image_image intro!: image_cong)
  ultimately show ?thesis using run act fold_all_value [OF F, of "sr_TaskID r"] i
    unfolding descendants_subtree [OF d assms(2)] by (simp add: memo_agg_def)
qed

lemma seat_episode_spec:
  assumes "forest_rows rows" "r \<in> set rows"
  shows "seat_episode rows (fold_all (stall_walk rows)) now n r =
    (if stalled_seat rows now n r then
       [\<lparr>ep_TaskID = sr_TaskID r, ep_Title = sr_Title r, ep_Since = truncate_second (silent_since rows r),
         ep_AlreadyAlerted = (case sr_StallAlertedSince r of Some s \<Rightarrow> truncate_second s = truncate_second (silent_since rows r) | None \<Rightarrow> False),
         ep_Covered = False\<rparr>]
     else [])"
proof -
  have "stall_children rows (sr_TaskID r) = [] \<longleftrightarrow> \<not> (\<exists>c\<in>set rows. sr_ParentID c = Some (sr_TaskID r))"
    using assms(2) set_stall_children [of rows "sr_TaskID r"] by (auto simp: parent_link_def simp flip: set_empty2)
  moreover have "hold_reset r (ag_activity (memo_agg (fold_all (stall_walk rows)) (sr_TaskID r))) = silent_since rows r"
    by (simp add: walk_aggregate [OF assms] silent_since_def)
  moreover have "ag_running (memo_agg (fold_all (stall_walk rows)) (sr_TaskID r)) \<longleftrightarrow> (\<exists>x\<in>subtree_rows rows r. sr_Running x)"
    by (simp add: walk_aggregate [OF assms])
  ultimately show ?thesis
    by (auto simp: seat_episode_def stalled_seat_def Let_def not_less)
qed

lemma rtrancl_first_step: "(p, q) \<in> R\<^sup>* \<longleftrightarrow> q = p \<or> (\<exists>a. (p, a) \<in> R \<and> (a, q) \<in> R\<^sup>*)"
  by (metis converse_rtranclE converse_rtrancl_into_rtrancl rtrancl.rtrancl_refl)

lemma parent_link_up:
  assumes "distinct (map sr_TaskID rows)" "row_of rows p = Some r"
  shows "(p, q) \<in> parent_link rows \<longleftrightarrow> sr_ParentID r = Some q \<and> q \<in> sr_TaskID ` set rows"
proof -
  have "x = r" if "x \<in> set rows" "sr_TaskID x = p" for x
    using row_of_unique [OF assms(1) that(1)] assms(2) that(2) by simp
  then show ?thesis using row_of_in [OF assms(2)] unfolding parent_link_def by blast
qed

text \<open>The links above \<open>p\<close>, and that a walk from \<open>p\<close> has seen none of them.\<close>

definition ancestors_from :: "stall_row list \<Rightarrow> int option \<Rightarrow> int set" where
  "ancestors_from rows p = {q. \<exists>a. p = Some a \<and> a \<in> sr_TaskID ` set rows \<and> (a, q) \<in> (parent_link rows)\<^sup>*}"

lemma ancestors_from_None [simp]: "ancestors_from rows None = {}"
  by (simp add: ancestors_from_def)

lemma ancestors_from_dead: "row_of rows p = None \<Longrightarrow> ancestors_from rows (Some p) = {}"
  by (simp add: ancestors_from_def row_of_None)

lemma ancestors_from_step:
  assumes "distinct (map sr_TaskID rows)" "row_of rows p = Some r"
  shows "ancestors_from rows (Some p) = insert p (ancestors_from rows (sr_ParentID r))"
proof -
  have p: "p \<in> sr_TaskID ` set rows" using row_of_in [OF assms(2)] by auto
  have "(p, q) \<in> (parent_link rows)\<^sup>* \<longleftrightarrow> q = p \<or> q \<in> ancestors_from rows (sr_ParentID r)" for q
    unfolding rtrancl_first_step [of p q] parent_link_up [OF assms] ancestors_from_def by blast
  moreover have "ancestors_from rows (Some p) = {q. (p, q) \<in> (parent_link rows)\<^sup>*}"
    using p by (simp add: ancestors_from_def)
  ultimately show ?thesis by blast
qed

lemma ancestors_from_acyclic:
  assumes "distinct (map sr_TaskID rows)" "acyclic (parent_link rows)" "row_of rows p = Some r"
  shows "p \<notin> ancestors_from rows (sr_ParentID r)"
proof
  assume "p \<in> ancestors_from rows (sr_ParentID r)"
  then obtain a where "sr_ParentID r = Some a" "a \<in> sr_TaskID ` set rows" "(a, p) \<in> (parent_link rows)\<^sup>*"
    unfolding ancestors_from_def by blast
  then have "(p, a) \<in> parent_link rows" "(a, p) \<in> (parent_link rows)\<^sup>*" using parent_link_up [OF assms(1,3)] by blast+
  then have "(p, p) \<in> (parent_link rows)\<^sup>+" by (rule rtrancl_into_trancl2)
  then show False using assms(2) by (simp add: acyclic_def)
qed

lemma covered_walk_ancestor:
  assumes "distinct (map sr_TaskID rows)" "acyclic (parent_link rows)"
  shows "ancestors_from rows p \<inter> seen = {} \<Longrightarrow> covered_walk rows stalled seen p \<longleftrightarrow> ancestors_from rows p \<inter> stalled \<noteq> {}"
  using assms
proof (induction rows stalled seen p rule: covered_walk.induct)
  case (2 rows stalled seen p)
  show ?case
  proof (cases "row_of rows p")
    case None
    then show ?thesis by (simp add: ancestors_from_dead)
  next
    case (Some r)
    note st = ancestors_from_step [OF "2.prems"(2) Some]
    have np: "p \<notin> seen" using "2.prems"(1) unfolding st by blast
    show ?thesis
    proof (cases "p \<in> stalled")
      case True
      then show ?thesis using Some np unfolding st by simp
    next
      case False
      have "ancestors_from rows (sr_ParentID r) \<inter> insert p seen = {}"
        using "2.prems"(1) ancestors_from_acyclic [OF "2.prems"(2,3) Some] unfolding st by blast
      from "2.IH" [OF Some np False this "2.prems"(2,3)] show ?thesis using Some np False unfolding st by simp
    qed
  qed
qed simp

definition stalled_rows :: "stall_row list \<Rightarrow> gotime \<Rightarrow> duration \<Rightarrow> stall_row set" where
  "stalled_rows rows now n = {r \<in> set rows. stalled_seat rows now n r}"

text \<open>The episode the specification asks for a stalled seat.\<close>

definition spec_episode :: "stall_row list \<Rightarrow> gotime \<Rightarrow> duration \<Rightarrow> stall_row \<Rightarrow> episode" where
  "spec_episode rows now n r =
     \<lparr>ep_TaskID = sr_TaskID r, ep_Title = sr_Title r, ep_Since = truncate_second (silent_since rows r),
      ep_AlreadyAlerted = (case sr_StallAlertedSince r of Some s \<Rightarrow> truncate_second s = truncate_second (silent_since rows r) | None \<Rightarrow> False),
      ep_Covered = (\<exists>a\<in>stalled_rows rows now n. (sr_TaskID r, sr_TaskID a) \<in> (parent_link rows)\<^sup>+)\<rparr>"

lemma trancl_parent_ancestors:
  assumes "distinct (map sr_TaskID rows)" "r \<in> set rows"
  shows "(sr_TaskID r, q) \<in> (parent_link rows)\<^sup>+ \<longleftrightarrow> q \<in> ancestors_from rows (sr_ParentID r)"
proof -
  have "(sr_TaskID r, q) \<in> (parent_link rows)\<^sup>+ \<longleftrightarrow> (\<exists>a. (sr_TaskID r, a) \<in> parent_link rows \<and> (a, q) \<in> (parent_link rows)\<^sup>*)"
    by (meson rtrancl_into_trancl2 tranclD)
  then show ?thesis unfolding parent_link_up [OF assms(1) row_of_unique [OF assms]] ancestors_from_def by blast
qed

lemma concat_map_if: "concat (map (\<lambda>x. if P x then [f x] else []) xs) = map f (filter P xs)"
  by (induction xs) auto

lemma Detect_spec_set:
  assumes "forest_rows rows" "0 < n"
  shows "set (Detect rows now n) = spec_episode rows now n ` stalled_rows rows now n"
    and "map ep_TaskID (Detect rows now n) = sorted_list_of_set (sr_TaskID ` stalled_rows rows now n)"
proof -
  let ?memo = "fold_all (stall_walk rows)" and ?S = "stalled_rows rows now n"
  let ?mk = "\<lambda>r. (spec_episode rows now n r)\<lparr>ep_Covered := False\<rparr>"
  have d: "distinct (map sr_TaskID rows)" and ac: "acyclic (parent_link rows)" using assms(1) by (auto simp: forest_rows_def)
  have "map (seat_episode rows ?memo now n) rows = map (\<lambda>r. if stalled_seat rows now n r then [?mk r] else []) rows"
    using seat_episode_spec [OF assms(1)] by (intro map_cong) (auto simp: spec_episode_def)
  then have out: "concat (map (seat_episode rows ?memo now n) rows) = map ?mk (filter (stalled_seat rows now n) rows)"
    by (simp only: concat_map_if)
  define out where "out = sort_key ep_TaskID (map ?mk (filter (stalled_seat rows now n) rows))"
  have so: "set out = ?mk ` ?S" by (auto simp: out_def stalled_rows_def)
  have ids: "set (map ep_TaskID out) = sr_TaskID ` ?S" by (auto simp: so spec_episode_def image_iff)
  have D: "Detect rows now n = map (cover rows (sr_TaskID ` ?S)) out"
  proof (cases "rows = []")
    case False
    have "Detect rows now n = map (cover rows (set (map ep_TaskID out))) out"
      using False assms(2) unfolding Detect_def Let_def out by (simp flip: out_def)
    then show ?thesis using ids by simp
  qed (simp add: Detect_def out_def)
  have cov: "cover rows (sr_TaskID ` ?S) (?mk r) = spec_episode rows now n r" if "r \<in> ?S" for r
  proof -
    have r: "r \<in> set rows" using that by (simp add: stalled_rows_def)
    note ro = row_of_unique [OF d r]
    have "covered_walk rows (sr_TaskID ` ?S) {sr_TaskID r} (sr_ParentID r) \<longleftrightarrow> ancestors_from rows (sr_ParentID r) \<inter> sr_TaskID ` ?S \<noteq> {}"
      using ancestors_from_acyclic [OF d ac ro] by (intro covered_walk_ancestor [OF d ac]) blast
    also have "\<dots> \<longleftrightarrow> (\<exists>a\<in>?S. (sr_TaskID r, sr_TaskID a) \<in> (parent_link rows)\<^sup>+)"
      unfolding trancl_parent_ancestors [OF d r] by blast
    finally show ?thesis using ro by (simp add: cover_def spec_episode_def)
  qed
  show "set (Detect rows now n) = spec_episode rows now n ` ?S"
    unfolding D using so cov by (auto simp: image_iff)
  have tid: "map ep_TaskID (Detect rows now n) = map ep_TaskID out" by (simp add: D cover_def)
  have "distinct (map ep_TaskID out)"
  proof -
    have "mset (map ep_TaskID out) = mset (map sr_TaskID (filter (stalled_seat rows now n) rows))"
      by (simp add: out_def spec_episode_def multiset.map_comp comp_def)
    then show ?thesis using d by (metis distinct_map_filter mset_eq_imp_distinct_iff)
  qed
  then show "map ep_TaskID (Detect rows now n) = sorted_list_of_set (sr_TaskID ` ?S)"
    unfolding tid using ids by (metis out_def sorted_list_of_set.idem_if_sorted_distinct sorted_sort_key)
qed

text \<open>
  C15. For parent links without a cycle the detector reports exactly the stalled seats, once each and in
  the order of their ids: the tasks, in no closed tree, that have a live child or an orchestrating
  profile, with no task of their subtree running, and whose subtree has been silent for the given time.
  An episode begins at the last activity of the subtree, and it is covered exactly when some live
  ancestor is stalled too.
\<close>

theorem Detect_reports_stalled_seats:
  assumes "forest_rows rows" "0 < n"
  shows "map ep_TaskID (Detect rows now n) = sorted_list_of_set (sr_TaskID ` stalled_rows rows now n)
     \<and> set (Detect rows now n) = spec_episode rows now n ` stalled_rows rows now n"
  using Detect_spec_set [OF assms] by simp

definition demo_row :: "int \<Rightarrow> int option \<Rightarrow> gotime \<Rightarrow> stall_row" where
  "demo_row i p t = \<lparr>sr_TaskID = i, sr_ParentID = p, sr_Title = [], sr_CreatedAt = 0, sr_Running = False, sr_LastActivity = t,
     sr_HasQueued = False, sr_QueuedHold = None, sr_HasRun = False, sr_LatestStatus = [], sr_LatestStopReason = [],
     sr_LatestFailureKind = [], sr_LatestFailureResetAt = None, sr_ProfileOnRateLimit = [], sr_ProfileOrchestration = False,
     sr_AncestorArchived = False, sr_StallAlertedSince = None\<rparr>"

lemma demo_rows_forest: "forest_rows [demo_row 1 None 0, demo_row 2 (Some 1) Second]"
proof -
  have "parent_link [demo_row 1 None 0, demo_row 2 (Some 1) Second] \<subseteq> {(2, 1)}"
    by (auto simp: parent_link_def demo_row_def)
  moreover have "acyclic {(2::int, 1::int)}" by (simp add: acyclic_insert wf_acyclic)
  ultimately have "acyclic (parent_link [demo_row 1 None 0, demo_row 2 (Some 1) Second])" by (rule acyclic_subset [rotated])
  then show ?thesis by (simp add: forest_rows_def demo_row_def)
qed

lemma demo_detect: "map ep_TaskID (Detect [demo_row 1 None 0, demo_row 2 (Some 1) Second] Hour Minute) = [1]"
  by code_simp

theorem Detect_reports_stalled_seats_witness:
  "sorted_list_of_set (sr_TaskID ` stalled_rows [demo_row 1 None 0, demo_row 2 (Some 1) Second] Hour Minute) = [1]"
  using Detect_reports_stalled_seats [OF demo_rows_forest, of Minute Hour] demo_detect by (simp add: Minute_def Second_def)

end
