(* ===== verification/StallTick.thy ===== *)
theory StallTick
  imports Stall
begin

text \<open>
  One pass of the stalled-tree detector (\<open>Detector\<close> in \<open>internal/stall/detector.go\<close>) over the store
  (\<open>internal/store/stall.go\<close>).

  The store holds the tasks and the results of the two join queries, in the order the queries give
  them; \<open>StallSnapshot\<close> assembles the rows and \<open>MarkStallAlerted\<close> records an alerted episode. A
  statement that the database refuses is an error, which the arguments \<open>ok\<close> say. \<open>Tick\<close> returns the
  alerts it sent. The locale \<open>stall_store\<close> is what a pass relies on; the store provides it.
\<close>

section \<open>The store\<close>

record task_rec =
  tr_id :: int
  tr_parent :: "int option"
  tr_title :: string
  tr_created :: gotime
  tr_alerted :: "gotime option"
  tr_archived :: bool
  tr_kind :: string

record run_rec =
  rr_task_id :: int
  rr_status :: string
  rr_started :: gotime
  rr_finished :: "gotime option"
  rr_stop_reason :: string
  rr_failure_kind :: string
  rr_failure_reset_at :: "gotime option"
  rr_on_rate_limit :: string
  rr_orchestration :: int

record queue_rec =
  qr_task_id :: int
  qr_status :: string
  qr_not_before :: "gotime option"
  qr_created :: gotime
  qr_updated :: gotime

record stall_db =
  db_tasks :: "task_rec list"
  db_runs :: "run_rec list"
  db_queue :: "queue_rec list"

definition maxTime :: "gotime \<Rightarrow> gotime \<Rightarrow> gotime" where
  "maxTime a b = (if a < b then b else a)"

definition live_task :: "task_rec \<Rightarrow> bool" where
  "live_task t \<longleftrightarrow> \<not> tr_archived t \<and> tr_kind t = ''task''"

definition task_row :: "task_rec \<Rightarrow> stall_row" where
  "task_row t = \<lparr>sr_TaskID = tr_id t, sr_ParentID = tr_parent t, sr_Title = tr_title t, sr_CreatedAt = tr_created t,
     sr_Running = False, sr_LastActivity = tr_created t, sr_HasQueued = False, sr_QueuedHold = None, sr_HasRun = False,
     sr_LatestStatus = [], sr_LatestStopReason = [], sr_LatestFailureKind = [], sr_LatestFailureResetAt = None,
     sr_ProfileOnRateLimit = [], sr_ProfileOrchestration = False, sr_AncestorArchived = False, sr_StallAlertedSince = tr_alerted t\<rparr>"

text \<open>The walk to an archived ancestor over all tasks of kind \<open>task\<close>, archived ones included.\<close>

definition node_of :: "task_rec list \<Rightarrow> int \<Rightarrow> task_rec option" where
  "node_of tasks i = find (\<lambda>t. tr_kind t = ''task'' \<and> tr_id t = i) (rev tasks)"

lemma node_of_in: "node_of tasks i = Some t \<Longrightarrow> t \<in> set tasks \<and> tr_id t = i"
  unfolding node_of_def find_Some_iff by (metis nth_mem set_rev)

function archived_walk :: "task_rec list \<Rightarrow> int set \<Rightarrow> int option \<Rightarrow> bool" where
  "archived_walk tasks seen None = False"
| "archived_walk tasks seen (Some p) =
     (if p \<in> seen then False
      else case node_of tasks p of
        None \<Rightarrow> False
      | Some t \<Rightarrow> if tr_archived t then True else archived_walk tasks (insert p seen) (tr_parent t))"
  by pat_completeness auto
termination
proof (relation "measure (\<lambda>(tasks, seen, p). card (set (map tr_id tasks) - seen))", goal_cases)
  case (2 tasks seen p t)
  then have "p \<in> set (map tr_id tasks)" using node_of_in [of tasks p t] by auto
  then have "card (set (map tr_id tasks) - insert p seen) < card (set (map tr_id tasks) - seen)"
    using 2 by (intro psubset_card_mono) auto
  then show ?case by simp
qed simp

definition markArchivedAncestors :: "task_rec list \<Rightarrow> stall_row list \<Rightarrow> stall_row list" where
  "markArchivedAncestors tasks rows =
     map (\<lambda>r. if archived_walk tasks {sr_TaskID r} (sr_ParentID r) then r\<lparr>sr_AncestorArchived := True\<rparr> else r) rows"

definition add_run :: "run_rec \<Rightarrow> stall_row \<Rightarrow> stall_row" where
  "add_run x r =
     (let act = maxTime (sr_LastActivity r) (rr_started x);
          act = (case rr_finished x of Some f \<Rightarrow> maxTime act f | None \<Rightarrow> act)
      in r\<lparr>sr_Running := (rr_status x = ''running'' \<or> sr_Running r), sr_LastActivity := act, sr_HasRun := True,
           sr_LatestStatus := rr_status x, sr_LatestStopReason := rr_stop_reason x, sr_LatestFailureKind := rr_failure_kind x,
           sr_LatestFailureResetAt := rr_failure_reset_at x, sr_ProfileOnRateLimit := rr_on_rate_limit x,
           sr_ProfileOrchestration := (rr_orchestration x \<noteq> 0)\<rparr>)"

definition ChatQueueStatusQueued :: string where "ChatQueueStatusQueued = ''queued''"

definition add_queue :: "queue_rec \<Rightarrow> stall_row \<Rightarrow> stall_row" where
  "add_queue x r =
     (let r = r\<lparr>sr_LastActivity := maxTime (sr_LastActivity r) (maxTime (qr_created x) (qr_updated x))\<rparr> in
      if qr_status x \<noteq> ChatQueueStatusQueued then r
      else let r = r\<lparr>sr_HasQueued := True\<rparr> in
        case qr_not_before x of
          None \<Rightarrow> r
        | Some nb \<Rightarrow>
            (case sr_QueuedHold r of
               None \<Rightarrow> r\<lparr>sr_QueuedHold := Some nb\<rparr>
             | Some h \<Rightarrow> if h < nb then r\<lparr>sr_QueuedHold := Some nb\<rparr> else r))"

definition update_task :: "int \<Rightarrow> (stall_row \<Rightarrow> stall_row) \<Rightarrow> stall_row list \<Rightarrow> stall_row list" where
  "update_task i f rows = map (\<lambda>r. if sr_TaskID r = i then f r else r) rows"

text \<open>The four queries: the live tasks, the ancestors, the runs and the queue items.\<close>

definition StallSnapshot :: "bool \<times> bool \<times> bool \<times> bool \<Rightarrow> stall_db \<Rightarrow> stall_row list option" where
  "StallSnapshot ok db =
     (case ok of (ok_tasks, ok_ancestors, ok_runs, ok_queue) \<Rightarrow>
      if \<not> ok_tasks then None
      else let out = map task_row (filter live_task (db_tasks db)) in
      if \<not> ok_ancestors then None
      else let out = markArchivedAncestors (db_tasks db) out in
      if \<not> ok_runs then None
      else let out = foldl (\<lambda>out x. update_task (rr_task_id x) (add_run x) out) out (db_runs db) in
      if \<not> ok_queue then None
      else Some (foldl (\<lambda>out x. update_task (qr_task_id x) (add_queue x) out) out (db_queue db)))"

definition MarkStallAlerted :: "bool \<Rightarrow> int \<Rightarrow> gotime \<Rightarrow> stall_db \<Rightarrow> bool \<times> stall_db" where
  "MarkStallAlerted ok taskID since db =
     (if \<not> ok then (False, db)
      else (\<exists>t\<in>set (db_tasks db). tr_id t = taskID,
        db\<lparr>db_tasks := map (\<lambda>t. if tr_id t = taskID then t\<lparr>tr_alerted := Some since\<rparr> else t) (db_tasks db)\<rparr>))"

section \<open>A pass\<close>

text \<open>\<open>time.Duration(m) * time.Minute\<close> wraps at 64 bits.\<close>

definition minutes_duration :: "int \<Rightarrow> duration" where
  "minutes_duration m = sint (word_of_int (m * Minute) :: 64 word)"

definition episodes :: "('w \<Rightarrow> stall_row list option) \<Rightarrow> gotime \<Rightarrow> int \<Rightarrow> 'w \<Rightarrow> episode list" where
  "episodes snapshot now m w =
     (if m \<le> 0 then []
      else case snapshot w of None \<Rightarrow> [] | Some rows \<Rightarrow> Detect rows now (minutes_duration m))"

fun tick_loop :: "(int \<Rightarrow> gotime \<Rightarrow> 'w \<Rightarrow> bool \<times> 'w) \<Rightarrow> episode list \<Rightarrow> 'w \<Rightarrow> episode list \<times> 'w" where
  "tick_loop mark [] w = ([], w)"
| "tick_loop mark (e # es) w =
     (if ep_AlreadyAlerted e \<or> ep_Covered e then tick_loop mark es w
      else case mark (ep_TaskID e) (ep_Since e) w of
        (False, w') \<Rightarrow> tick_loop mark es w'
      | (True, w') \<Rightarrow> (case tick_loop mark es w' of (alerts, w'') \<Rightarrow> (e # alerts, w'')))"

definition Tick :: "('w \<Rightarrow> stall_row list option) \<Rightarrow> (int \<Rightarrow> gotime \<Rightarrow> 'w \<Rightarrow> bool \<times> 'w) \<Rightarrow> gotime \<Rightarrow> int \<Rightarrow> 'w \<Rightarrow> episode list \<times> 'w" where
  "Tick snapshot mark now m w = tick_loop mark (episodes snapshot now m w) w"

definition Current :: "('w \<Rightarrow> stall_row list option) \<Rightarrow> gotime \<Rightarrow> int \<Rightarrow> 'w \<Rightarrow> int \<Rightarrow> gotime option" where
  "Current snapshot now m w = foldl (\<lambda>out e. out(ep_TaskID e \<mapsto> ep_Since e)) (\<lambda>i. None) (episodes snapshot now m w)"

section \<open>Markers do not change what is detected\<close>

definition put_marker :: "int \<Rightarrow> gotime \<Rightarrow> stall_row \<Rightarrow> stall_row" where
  "put_marker i s r = (if sr_TaskID r = i then r\<lparr>sr_StallAlertedSince := Some s\<rparr> else r)"

definition set_marker :: "int \<Rightarrow> gotime \<Rightarrow> stall_row list \<Rightarrow> stall_row list" where
  "set_marker i s rows = map (put_marker i s) rows"

lemma put_marker_simps [simp]:
  "sr_TaskID (put_marker i s r) = sr_TaskID r" "sr_ParentID (put_marker i s r) = sr_ParentID r"
  "sr_Title (put_marker i s r) = sr_Title r" "sr_AncestorArchived (put_marker i s r) = sr_AncestorArchived r"
  "sr_ProfileOrchestration (put_marker i s r) = sr_ProfileOrchestration r"
  "own_agg (put_marker i s r) = own_agg r" "hold_reset (put_marker i s r) a = hold_reset r a"
  "sr_StallAlertedSince (put_marker i s r) = (if sr_TaskID r = i then Some s else sr_StallAlertedSince r)"
  by (simp_all add: put_marker_def own_agg_def hold_reset_def split: option.splits)

definition remark :: "int \<Rightarrow> gotime \<Rightarrow> episode \<Rightarrow> episode" where
  "remark i s e = (if ep_TaskID e = i then e\<lparr>ep_AlreadyAlerted := (truncate_second s = ep_Since e)\<rparr> else e)"

lemma find_map: "find P (map f xs) = map_option f (find (P \<circ> f) xs)"
  by (induction xs) auto

lemma row_of_set_marker: "row_of (set_marker i s rows) j = map_option (put_marker i s) (row_of rows j)"
  by (simp add: row_of_def set_marker_def rev_map find_map comp_def)

lemma stall_children_set_marker [simp]: "stall_children (set_marker i s rows) = stall_children rows"
proof
  fix p
  have "row_of (set_marker i s rows) p = None \<longleftrightarrow> row_of rows p = None" by (simp add: row_of_set_marker)
  then show "stall_children (set_marker i s rows) p = stall_children rows p"
    by (simp add: stall_children_def set_marker_def comp_def cong: if_cong)
qed

lemma stall_walk_set_marker [simp]: "stall_walk (set_marker i s rows) = stall_walk rows"
proof -
  have "map sr_TaskID (set_marker i s rows) = map sr_TaskID rows" by (simp add: set_marker_def)
  moreover have "(case row_of (set_marker i s rows) j of Some r \<Rightarrow> own_agg r | None \<Rightarrow> zero_agg)
      = (case row_of rows j of Some r \<Rightarrow> own_agg r | None \<Rightarrow> zero_agg)" for j
    by (simp add: row_of_set_marker split: option.splits)
  ultimately show ?thesis by (simp add: stall_walk_def)
qed

lemma covered_walk_set_marker [simp]: "covered_walk (set_marker i s rows) S seen p = covered_walk rows S seen p"
  by (induction rows S seen p rule: covered_walk.induct) (auto simp: row_of_set_marker split: option.splits)

lemma seat_episode_set_marker:
  "seat_episode (set_marker i s rows) memo now n (put_marker i s r) = map (remark i s) (seat_episode rows memo now n r)"
  by (simp add: seat_episode_def remark_def Let_def)

lemma sort_key_map: "(\<And>x. f (g x) = f x) \<Longrightarrow> sort_key f (map g xs) = map g (sort_key f xs)"
proof -
  assume fg: "\<And>x. f (g x) = f x"
  have "insort_key f (g x) (map g ys) = map g (insort_key f x ys)" for x ys
    by (induction ys) (auto simp: fg)
  then show ?thesis by (induction xs) simp_all
qed

lemma remark_simps [simp]:
  "ep_TaskID (remark i s e) = ep_TaskID e" "ep_Covered (remark i s e) = ep_Covered e" "ep_Since (remark i s e) = ep_Since e"
  "ep_AlreadyAlerted (remark i s e) = (if ep_TaskID e = i then truncate_second s = ep_Since e else ep_AlreadyAlerted e)"
  by (simp_all add: remark_def)

lemma cover_set_marker: "cover (set_marker i s rows) S (remark i s e) = remark i s (cover rows S e)"
proof -
  have "Option.bind (row_of (set_marker i s rows) j) sr_ParentID = Option.bind (row_of rows j) sr_ParentID" for j
    by (cases "row_of rows j") (simp_all add: row_of_set_marker)
  then show ?thesis by (simp add: cover_def remark_def)
qed

lemma Detect_set_marker: "Detect (set_marker i s rows) now n = map (remark i s) (Detect rows now n)"
proof (cases "n \<le> 0 \<or> rows = []")
  case True
  then show ?thesis by (auto simp: Detect_def set_marker_def)
next
  case False
  then have n: "(n \<le> 0) = False" "(rows = []) = False" by auto
  let ?memo = "fold_all (stall_walk rows)"
  have rows: "set_marker i s rows \<noteq> []" using False by (simp add: set_marker_def)
  have "map (seat_episode (set_marker i s rows) ?memo now n) (set_marker i s rows)
      = map (\<lambda>r. map (remark i s) (seat_episode rows ?memo now n r)) rows"
    using seat_episode_set_marker [of i s rows ?memo now n] by (simp add: set_marker_def)
  then have C: "concat (map (seat_episode (set_marker i s rows) ?memo now n) (set_marker i s rows))
      = map (remark i s) (concat (map (seat_episode rows ?memo now n) rows))"
    by (simp add: map_concat comp_def)
  define C where "C = concat (map (seat_episode rows ?memo now n) rows)"
  have "Detect (set_marker i s rows) now n =
      map (cover (set_marker i s rows) (set (map ep_TaskID (sort_key ep_TaskID (map (remark i s) C))))) (sort_key ep_TaskID (map (remark i s) C))"
    using n rows by (simp only: Detect_def Let_def stall_walk_set_marker C C_def if_False simp_thms)
  moreover have "Detect rows now n = map (cover rows (set (map ep_TaskID (sort_key ep_TaskID C)))) (sort_key ep_TaskID C)"
    using n by (simp only: Detect_def Let_def C_def if_False simp_thms)
  ultimately show ?thesis by (simp add: sort_key_map cover_set_marker image_image)
qed

lemma truncate_second_idem: "truncate_second (truncate_second t) = truncate_second t"
proof -
  have "(t - t mod Second) mod Second = 0" by (metis minus_mod_self2 mod_0 mod_diff_left_eq mod_mod_trivial diff_self minus_mod_eq_mult_div mod_mult_self1_is_0)
  then show ?thesis by (simp add: truncate_second_def)
qed

definition seat_time :: "stall_row list \<Rightarrow> stall_row \<Rightarrow> gotime" where
  "seat_time rows r = truncate_second (hold_reset r (ag_activity (memo_agg (fold_all (stall_walk rows)) (sr_TaskID r))))"

lemma Detect_member:
  assumes "e \<in> set (Detect rows now n)"
  shows "\<exists>r\<in>set rows. ep_TaskID e = sr_TaskID r \<and> ep_Since e = seat_time rows r"
  using assms by (auto simp: Detect_def Let_def cover_def seat_episode_def seat_time_def split: if_splits)

lemma Detect_truncated: "e \<in> set (Detect rows now n) \<Longrightarrow> truncate_second (ep_Since e) = ep_Since e"
  using Detect_member [of e rows now n] by (auto simp: seat_time_def truncate_second_idem)

lemma Detect_since_unique:
  assumes "distinct (map sr_TaskID rows)" "e \<in> set (Detect rows now n)" "a \<in> set (Detect rows now' n')" "ep_TaskID e = ep_TaskID a"
  shows "ep_Since a = ep_Since e"
proof -
  obtain r q where "r \<in> set rows" "q \<in> set rows" "ep_TaskID e = sr_TaskID r" "ep_TaskID a = sr_TaskID q"
    "ep_Since e = seat_time rows r" "ep_Since a = seat_time rows q" using Detect_member assms(2,3) by meson
  moreover have "r = q" using calculation assms(1,4) by (auto simp: distinct_map dest: inj_onD)
  ultimately show ?thesis by simp
qed

lemma Detect_distinct:
  assumes "distinct (map sr_TaskID rows)"
  shows "distinct (map ep_TaskID (Detect rows now n))"
proof -
  let ?s = "seat_episode rows (fold_all (stall_walk rows)) now n"
  have "map ep_TaskID (concat (map ?s xs)) = map sr_TaskID (filter (\<lambda>r. ?s r \<noteq> []) xs)" for xs
    by (induction xs) (auto simp: seat_episode_def Let_def)
  then have "distinct (map ep_TaskID (concat (map ?s rows)))" using assms by (simp add: distinct_map_filter)
  then have d: "distinct (map ep_TaskID (sort_key ep_TaskID (concat (map ?s rows))))" by (metis mset_eq_imp_distinct_iff mset_map mset_sort)
  have "map ep_TaskID (map (cover rows S) out) = map ep_TaskID out" for S out by (simp add: cover_def)
  then show ?thesis using d unfolding Detect_def Let_def by (auto simp del: map_map)
qed

section \<open>An episode is alerted once\<close>

text \<open>
  What a pass relies on: a mark that succeeds sets the marker of that task and changes nothing else of
  the snapshot, and a mark that fails changes nothing.
\<close>

text \<open>The change of markers that a list of alerts makes to the episodes detected.\<close>

definition marked_by :: "episode list \<Rightarrow> (episode \<Rightarrow> episode) \<Rightarrow> bool" where
  "marked_by alerts f \<longleftrightarrow> (\<forall>e. ep_TaskID (f e) = ep_TaskID e \<and> ep_Since (f e) = ep_Since e
     \<and> (ep_TaskID e \<notin> ep_TaskID ` set alerts \<longrightarrow> ep_AlreadyAlerted (f e) = ep_AlreadyAlerted e)
     \<and> (\<forall>a\<in>set alerts. ep_TaskID e = ep_TaskID a \<longrightarrow> ep_AlreadyAlerted (f e) = (ep_Since a = ep_Since e)))"

lemma marked_by_Nil: "marked_by [] (\<lambda>e. e)"
  by (simp add: marked_by_def)

lemma marked_by_Cons:
  assumes "marked_by as f" "ep_TaskID e \<notin> ep_TaskID ` set as" "truncate_second (ep_Since e) = ep_Since e"
  shows "marked_by (e # as) (f \<circ> remark (ep_TaskID e) (ep_Since e))"
  using assms by (auto simp: marked_by_def)

locale stall_store =
  fixes snapshot :: "'w \<Rightarrow> stall_row list option" and mark :: "int \<Rightarrow> gotime \<Rightarrow> 'w \<Rightarrow> bool \<times> 'w"
  assumes mark_ok: "mark i s w = (True, w') \<Longrightarrow> snapshot w' = map_option (set_marker i s) (snapshot w)"
    and mark_fail: "mark i s w = (False, w') \<Longrightarrow> snapshot w' = snapshot w"
begin

lemma episodes_mark:
  "mark i s w = (True, w') \<Longrightarrow> episodes snapshot now m w' = map (remark i s) (episodes snapshot now m w)"
  by (simp add: episodes_def mark_ok Detect_set_marker split: option.splits)

lemma episodes_fail: "mark i s w = (False, w') \<Longrightarrow> episodes snapshot now m w' = episodes snapshot now m w"
  by (simp add: episodes_def mark_fail)

text \<open>A pass keeps what is detected but for the markers, and marks every episode it alerts.\<close>

lemma tick_loop_marks:
  assumes "tick_loop mark es w = (alerts, w')" "\<forall>e\<in>set es. truncate_second (ep_Since e) = ep_Since e" "distinct (map ep_TaskID es)"
  shows "set alerts \<subseteq> set es \<and> (\<exists>f. episodes snapshot now m w' = map f (episodes snapshot now m w) \<and> marked_by alerts f)"
  using assms
proof (induction es arbitrary: w alerts)
  case Nil
  then show ?case using marked_by_Nil by (auto intro!: exI [of _ "\<lambda>e. e"])
next
  case (Cons e es)
  have es: "\<forall>e\<in>set es. truncate_second (ep_Since e) = ep_Since e" "distinct (map ep_TaskID es)" using Cons.prems(2,3) by auto
  show ?case
  proof (cases "ep_AlreadyAlerted e \<or> ep_Covered e")
    case True
    then have "tick_loop mark es w = (alerts, w')" using Cons.prems(1) by auto
    from Cons.IH [OF this es] show ?thesis by auto
  next
    case False
    obtain ok w1 where mk: "mark (ep_TaskID e) (ep_Since e) w = (ok, w1)" by fastforce
    show ?thesis
    proof (cases ok)
      case no: False
      then have tl: "tick_loop mark es w1 = (alerts, w')" using Cons.prems(1) False mk by simp
      have "episodes snapshot now m w1 = episodes snapshot now m w" using episodes_fail mk no by simp
      then show ?thesis using Cons.IH [OF tl es] by auto
    next
      case yes: True
      obtain as where tl: "tick_loop mark es w1 = (as, w')" and al: "alerts = e # as"
        using Cons.prems(1) False mk yes by (auto split: prod.splits)
      from Cons.IH [OF tl es] obtain f where sub: "set as \<subseteq> set es"
        and f: "episodes snapshot now m w' = map f (episodes snapshot now m w1)" "marked_by as f" by blast
      have "ep_TaskID e \<notin> ep_TaskID ` set as" using sub Cons.prems(3) by auto
      then have "marked_by alerts (f \<circ> remark (ep_TaskID e) (ep_Since e))"
        using marked_by_Cons [OF f(2)] Cons.prems(2) by (simp add: al)
      moreover have "episodes snapshot now m w' = map (f \<circ> remark (ep_TaskID e) (ep_Since e)) (episodes snapshot now m w)"
        using f(1) episodes_mark mk yes by simp
      ultimately show ?thesis using sub al by (intro conjI exI [of _ "f \<circ> remark (ep_TaskID e) (ep_Since e)"]) (auto simp: comp_def)
    qed
  qed
qed

lemma tick_loop_alerts: "tick_loop mark es w = (alerts, w') \<Longrightarrow> set alerts \<subseteq> {e \<in> set es. \<not> ep_AlreadyAlerted e \<and> \<not> ep_Covered e}"
  by (induction es arbitrary: w alerts) (fastforce split: if_splits prod.splits bool.splits)+

text \<open>A later pass, at any time and with any threshold, does not repeat an alert.\<close>

lemma Tick_later:
  assumes first: "Tick snapshot mark now m w = (alerts, w1)" and second: "Tick snapshot mark now' m' w1 = (again, w2)"
    and dist: "\<And>rows. snapshot w = Some rows \<Longrightarrow> distinct (map sr_TaskID rows)"
  shows "ep_TaskID ` set alerts \<inter> ep_TaskID ` set again = {}"
proof -
  have D: "e \<in> set (episodes snapshot t k w) \<Longrightarrow> \<exists>rows. snapshot w = Some rows \<and> e \<in> set (Detect rows t (minutes_duration k))" for t k e
    by (cases "snapshot w") (auto simp: episodes_def split: if_splits)
  have trunc: "\<forall>e\<in>set (episodes snapshot now m w). truncate_second (ep_Since e) = ep_Since e"
    using D Detect_truncated by blast
  have "distinct (map ep_TaskID (episodes snapshot now m w))"
    using dist Detect_distinct by (auto simp: episodes_def split: option.splits)
  from tick_loop_marks [OF first [unfolded Tick_def] trunc this] obtain f where
    sub: "set alerts \<subseteq> set (episodes snapshot now m w)"
    and f: "episodes snapshot now' m' w1 = map f (episodes snapshot now' m' w)" "marked_by alerts f" by blast
  have "ep_AlreadyAlerted x" if a: "a \<in> set alerts" and x: "x \<in> set (episodes snapshot now' m' w1)" "ep_TaskID x = ep_TaskID a" for a x
  proof -
    obtain e where e: "e \<in> set (episodes snapshot now' m' w)" "x = f e" using x(1) f(1) by auto
    then have id: "ep_TaskID e = ep_TaskID a" using f(2) x(2) by (simp add: marked_by_def)
    obtain rows where "snapshot w = Some rows" "e \<in> set (Detect rows now' (minutes_duration m'))" "a \<in> set (Detect rows now (minutes_duration m))"
      using D [OF e(1)] D [of a now m] a sub by auto
    then have "ep_Since a = ep_Since e" using Detect_since_unique dist id by metis
    then show ?thesis using f(2) a e(2) id by (auto simp: marked_by_def)
  qed
  moreover have "set again \<subseteq> {e \<in> set (episodes snapshot now' m' w1). \<not> ep_AlreadyAlerted e \<and> \<not> ep_Covered e}"
    using tick_loop_alerts second by (simp add: Tick_def)
  ultimately show ?thesis by fastforce
qed

end

section \<open>The store provides it\<close>

definition alert_task :: "int \<Rightarrow> gotime \<Rightarrow> task_rec \<Rightarrow> task_rec" where
  "alert_task i s t = (if tr_id t = i then t\<lparr>tr_alerted := Some s\<rparr> else t)"

definition alerted_tasks :: "int \<Rightarrow> gotime \<Rightarrow> task_rec list \<Rightarrow> task_rec list" where
  "alerted_tasks i s = map (alert_task i s)"

lemma alert_task_simps [simp]:
  "tr_id (alert_task i s t) = tr_id t" "tr_parent (alert_task i s t) = tr_parent t" "tr_kind (alert_task i s t) = tr_kind t"
  "tr_archived (alert_task i s t) = tr_archived t" "live_task (alert_task i s t) = live_task t"
  "task_row (alert_task i s t) = put_marker i s (task_row t)"
  by (simp_all add: alert_task_def live_task_def task_row_def put_marker_def)

lemma node_of_alerted: "node_of (alerted_tasks i s tasks) p = map_option (alert_task i s) (node_of tasks p)"
  by (simp add: node_of_def alerted_tasks_def rev_map find_map comp_def)

lemma archived_walk_alerted [simp]: "archived_walk (alerted_tasks i s tasks) seen p = archived_walk tasks seen p"
  by (induction tasks seen p rule: archived_walk.induct) (auto simp: node_of_alerted split: option.splits)

lemma add_run_marker: "add_run x (put_marker i s r) = put_marker i s (add_run x r)"
  by (simp add: add_run_def put_marker_def Let_def split: option.splits)

lemma add_queue_marker: "add_queue x (put_marker i s r) = put_marker i s (add_queue x r)"
  by (simp add: add_queue_def put_marker_def Let_def split: option.splits)

lemma update_task_marker:
  assumes "\<And>r. f (put_marker i s r) = put_marker i s (f r)"
  shows "update_task j f (set_marker i s rows) = set_marker i s (update_task j f rows)"
  using assms by (simp add: update_task_def set_marker_def)

lemma foldl_update_marker:
  assumes "\<And>x r. f x (put_marker i s r) = put_marker i s (f x r)"
  shows "foldl (\<lambda>out x. update_task (k x) (f x) out) (set_marker i s rows) xs
    = set_marker i s (foldl (\<lambda>out x. update_task (k x) (f x) out) rows xs)"
  using assms by (induction xs arbitrary: rows) (simp_all add: update_task_marker)

lemma StallSnapshot_alerted:
  "StallSnapshot ok (db\<lparr>db_tasks := alerted_tasks i s (db_tasks db)\<rparr>) = map_option (set_marker i s) (StallSnapshot ok db)"
proof -
  have live: "filter live_task (alerted_tasks i s ts) = alerted_tasks i s (filter live_task ts)" for ts
    by (induction ts) (auto simp: alerted_tasks_def)
  have rows: "map task_row (alerted_tasks i s ts) = set_marker i s (map task_row ts)" for ts
    by (simp add: alerted_tasks_def set_marker_def comp_def)
  have anc: "markArchivedAncestors (alerted_tasks i s ts) (set_marker i s rows) = set_marker i s (markArchivedAncestors ts rows)" for ts rows
    by (simp add: markArchivedAncestors_def set_marker_def comp_def) (auto simp: put_marker_def)
  show ?thesis
    by (simp add: StallSnapshot_def Let_def live rows anc foldl_update_marker add_run_marker add_queue_marker split: prod.splits)
qed

lemma MarkStallAlerted_eq:
  "MarkStallAlerted ok i s db = (if ok then (\<exists>t\<in>set (db_tasks db). tr_id t = i, db\<lparr>db_tasks := alerted_tasks i s (db_tasks db)\<rparr>) else (False, db))"
  by (simp add: MarkStallAlerted_def alerted_tasks_def alert_task_def)

lemma alerted_tasks_absent: "\<forall>t\<in>set ts. tr_id t \<noteq> i \<Longrightarrow> alerted_tasks i s ts = ts"
  by (simp add: alerted_tasks_def alert_task_def map_idI)

interpretation db: stall_store "StallSnapshot ok" "MarkStallAlerted ok'"
proof
  show "StallSnapshot ok w' = map_option (set_marker i s) (StallSnapshot ok w)" if "MarkStallAlerted ok' i s w = (True, w')" for i s w w'
    using that StallSnapshot_alerted [where ok = ok and db = w and i = i and s = s] by (auto simp: MarkStallAlerted_eq split: if_splits)
  show "StallSnapshot ok w' = StallSnapshot ok w" if "MarkStallAlerted ok' i s w = (False, w')" for i s w w'
    using that alerted_tasks_absent [of "db_tasks w" i s] by (auto simp: MarkStallAlerted_eq split: if_splits)
qed

lemma snapshot_ids:
  assumes "StallSnapshot ok db = Some rows"
  shows "map sr_TaskID rows = map tr_id (filter live_task (db_tasks db))"
proof -
  have upd: "map sr_TaskID (update_task j f rows) = map sr_TaskID rows" if "\<And>r. sr_TaskID (f r) = sr_TaskID r" for j f and rows :: "stall_row list"
    using that by (simp add: update_task_def)
  have fold: "map sr_TaskID (foldl (\<lambda>out x. update_task (k x) (f x) out) rows xs) = map sr_TaskID rows"
    if "\<And>x r. sr_TaskID (f x r) = sr_TaskID r" for k f xs and rows :: "stall_row list"
    using that by (induction xs arbitrary: rows) (simp_all add: upd)
  have "sr_TaskID (add_run x r) = sr_TaskID r" "sr_TaskID (add_queue y r) = sr_TaskID r" for x y r
    by (simp_all add: add_run_def add_queue_def Let_def split: option.splits)
  then show ?thesis using assms
    by (auto simp: StallSnapshot_def Let_def fold markArchivedAncestors_def task_row_def comp_def split: prod.splits if_splits)
qed

text \<open>
  C26. An episode is alerted at most once: after a pass that alerted a task, no later pass over the same
  facts, at any time and with any threshold, alerts that task again. A mark that the database refuses
  leaves the episode for the next pass, which is why the alert is sent only after the mark.
\<close>

theorem episode_is_alerted_once:
  assumes "distinct (map tr_id (db_tasks db))"
    and "Tick (StallSnapshot ok) (MarkStallAlerted ok') now m db = (alerts, db1)"
    and "Tick (StallSnapshot ok) (MarkStallAlerted ok') now' m' db1 = (again, db2)"
  shows "ep_TaskID ` set alerts \<inter> ep_TaskID ` set again = {}"
proof (rule db.Tick_later [OF assms(2,3)])
  show "distinct (map sr_TaskID rows)" if "StallSnapshot ok db = Some rows" for rows
    using snapshot_ids [OF that] assms(1) by (simp add: distinct_map_filter)
qed

definition demo_db :: stall_db where
  "demo_db = \<lparr>db_tasks = [\<lparr>tr_id = 1, tr_parent = None, tr_title = ''lead'', tr_created = 0, tr_alerted = None, tr_archived = False, tr_kind = ''task''\<rparr>,
       \<lparr>tr_id = 2, tr_parent = Some 1, tr_title = ''work'', tr_created = Second, tr_alerted = None, tr_archived = False, tr_kind = ''task''\<rparr>],
     db_runs = [], db_queue = []\<rparr>"

lemma demo_tick: "map ep_TaskID (fst (Tick (StallSnapshot (True, True, True, True)) (MarkStallAlerted True) Hour 5 demo_db)) = [1]"
  by code_simp

theorem episode_is_alerted_once_witness:
  "(1::int) \<notin> ep_TaskID ` set (fst (Tick (StallSnapshot (True, True, True, True)) (MarkStallAlerted True) (2 * Hour) 5
     (snd (Tick (StallSnapshot (True, True, True, True)) (MarkStallAlerted True) Hour 5 demo_db))))"
proof -
  have "distinct (map tr_id (db_tasks demo_db))" by (simp add: demo_db_def)
  from episode_is_alerted_once [OF this prod.collapse [symmetric] prod.collapse [symmetric]] demo_tick
  show ?thesis by (metis disjoint_iff list.set_intros(1) list.set_map)
qed

end
