(* ===== verification/ChatQueue.thy ===== *)
theory ChatQueue
  imports Cooldown StallTick "HOL-Library.Product_Lexorder"
begin

text \<open>
  The queue of prompts that wait for their chat to be free: \<open>internal/store/chat_queue.go\<close> and the
  transaction of \<open>internal/store/child_event.go\<close>. The table is the list of its rows in id order with
  the counter of its AUTOINCREMENT key; a statement is a function on it, and a \<open>bool\<close> argument says
  whether the database executed it. The JSON text of the column \<open>run_config\<close> is held as the record it
  encodes, \<open>None\<close> when it does not parse; the column \<open>parent_notified_at\<close> of the table of runs is the
  map \<open>qd_notified\<close>, undefined for an unknown run.
\<close>

section \<open>Rows\<close>

definition ChatQueueStatusDelivered :: string where "ChatQueueStatusDelivered = ''delivered''"
definition ChatQueueStatusCancelled :: string where "ChatQueueStatusCancelled = ''cancelled''"
definition ChatQueueSourceOrchestrator :: string where "ChatQueueSourceOrchestrator = ''orchestrator''"
definition ChatQueueSourceAgent :: string where "ChatQueueSourceAgent = ''agent''"
definition ChatQueueSourceRemote :: string where "ChatQueueSourceRemote = ''remote''"
definition ChatQueueSourceChildEvent :: string where "ChatQueueSourceChildEvent = ''child_event''"
definition ChatQueueSourcePluginPrefix :: string where "ChatQueueSourcePluginPrefix = ''plugin:''"
definition ChatQueueCancelUser :: string where "ChatQueueCancelUser = ''user''"
definition ChatQueueCancelAuto :: string where "ChatQueueCancelAuto = ''auto''"

lemmas status_defs = ChatQueueStatusQueued_def ChatQueueStatusDelivered_def ChatQueueStatusCancelled_def

lemmas source_defs = ChatQueueSourceHuman_def ChatQueueSourceOrchestrator_def ChatQueueSourceAgent_def ChatQueueSourceRemote_def
  ChatQueueSourceChildEvent_def ChatQueueSourcePluginPrefix_def

definition PluginSource :: "string \<Rightarrow> string" where
  "PluginSource i = ChatQueueSourcePluginPrefix @ i"

definition PluginSourceID :: "string \<Rightarrow> string option" where
  "PluginSourceID source = (let i = TrimPrefix source ChatQueueSourcePluginPrefix in
     if HasPrefix source ChatQueueSourcePluginPrefix \<and> i \<noteq> [] then Some i else None)"

definition chatQueueBound :: nat where "chatQueueBound = 20"

record run_config =
  rc_Provider :: string
  rc_PermissionMode :: string
  rc_AutoAccept :: bool
  rc_ThinkingLevel :: string
  rc_Model :: string
  rc_ReplyChatID :: int
  rc_ProfileID :: int
  rc_FailoverOf :: string
  rc_RetryTransient :: bool

record queue_item =
  qi_ID :: int
  qi_ChatID :: int
  qi_Prompt :: string
  qi_RunConfig :: "run_config option"
  qi_Source :: string
  qi_FromTaskID :: "int option"
  qi_FromChatID :: "int option"
  qi_Priority :: int
  qi_Status :: string
  qi_RunID :: "string option"
  qi_CancelReason :: string
  qi_CancelKind :: string
  qi_Attachments :: string
  qi_NotBefore :: "gotime option"
  qi_CreatedAt :: gotime
  qi_UpdatedAt :: gotime

record queue_db =
  qd_rows :: "queue_item list"
  qd_seq :: int
  qd_notified :: "string \<Rightarrow> gotime option option"

datatype queue_error = StoreFailed | QueueFull | NotQueued | NoRow | AlreadyNotified

definition queued :: "queue_item \<Rightarrow> bool" where
  "queued i \<longleftrightarrow> qi_Status i = ChatQueueStatusQueued"

definition queued_in :: "int \<Rightarrow> queue_db \<Rightarrow> queue_item list" where
  "queued_in chatID db = filter (\<lambda>i. qi_ChatID i = chatID \<and> queued i) (qd_rows db)"

text \<open>An UPDATE with a WHERE clause, and the number of rows it affected.\<close>

definition update_where :: "(queue_item \<Rightarrow> bool) \<Rightarrow> (queue_item \<Rightarrow> queue_item) \<Rightarrow> queue_db \<Rightarrow> nat \<times> queue_db" where
  "update_where P f db = (length (filter P (qd_rows db)), db\<lparr>qd_rows := map (\<lambda>i. if P i then f i else i) (qd_rows db)\<rparr>)"

section \<open>Enqueueing\<close>

text \<open>The arguments of a send, in the order of the code.\<close>

record queue_send =
  qs_ChatID :: int
  qs_Prompt :: string
  qs_RunConfig :: "run_config option"
  qs_Source :: string
  qs_Priority :: int
  qs_FromTaskID :: int
  qs_FromChatID :: int
  qs_Attachments :: string
  qs_NotBefore :: "gotime option"

definition nullID :: "int \<Rightarrow> int option" where
  "nullID i = (if i = 0 then None else Some i)"

definition new_item :: "queue_send \<Rightarrow> gotime \<Rightarrow> int \<Rightarrow> queue_item" where
  "new_item s now i = \<lparr>qi_ID = i, qi_ChatID = qs_ChatID s, qi_Prompt = qs_Prompt s, qi_RunConfig = qs_RunConfig s,
     qi_Source = qs_Source s, qi_FromTaskID = nullID (qs_FromTaskID s), qi_FromChatID = nullID (qs_FromChatID s),
     qi_Priority = qs_Priority s, qi_Status = ChatQueueStatusQueued, qi_RunID = None, qi_CancelReason = [], qi_CancelKind = [],
     qi_Attachments = qs_Attachments s, qi_NotBefore = qs_NotBefore s, qi_CreatedAt = now, qi_UpdatedAt = now\<rparr>"

definition insert_item :: "(int \<Rightarrow> queue_item) \<Rightarrow> queue_db \<Rightarrow> queue_db" where
  "insert_item mk db = db\<lparr>qd_rows := qd_rows db @ [mk (qd_seq db + 1)], qd_seq := qd_seq db + 1\<rparr>"

definition GetChatQueueItem :: "bool \<Rightarrow> int \<Rightarrow> queue_db \<Rightarrow> queue_error + queue_item" where
  "GetChatQueueItem ok i db = (if ok then (case find (\<lambda>r. qi_ID r = i) (qd_rows db) of Some r \<Rightarrow> Inr r | None \<Rightarrow> Inl NoRow) else Inl StoreFailed)"

text \<open>The count and the insert are two statements of their own; the second half stands alone below.\<close>

definition insert_prompt :: "bool \<times> bool \<Rightarrow> queue_send \<Rightarrow> gotime \<Rightarrow> queue_db \<Rightarrow> (queue_error + queue_item) \<times> queue_db" where
  "insert_prompt oks s now db = (case oks of (ok_insert, ok_get) \<Rightarrow>
     if \<not> ok_insert then (Inl StoreFailed, db)
     else let db' = insert_item (new_item s now) db in (GetChatQueueItem ok_get (qd_seq db') db', db'))"

definition EnqueueChatPromptAt :: "bool \<times> bool \<times> bool \<Rightarrow> queue_send \<Rightarrow> gotime \<Rightarrow> queue_db \<Rightarrow> (queue_error + queue_item) \<times> queue_db" where
  "EnqueueChatPromptAt oks s now db = (case oks of (ok_count, oks') \<Rightarrow>
     if \<not> ok_count then (Inl StoreFailed, db)
     else if chatQueueBound \<le> length (queued_in (qs_ChatID s) db) then (Inl QueueFull, db)
     else insert_prompt oks' s now db)"

definition EnqueueChatPromptAttach :: "bool \<times> bool \<times> bool \<Rightarrow> queue_send \<Rightarrow> gotime \<Rightarrow> queue_db \<Rightarrow> (queue_error + queue_item) \<times> queue_db" where
  "EnqueueChatPromptAttach oks s = EnqueueChatPromptAt oks (s\<lparr>qs_NotBefore := None\<rparr>)"

definition EnqueueChatPrompt :: "bool \<times> bool \<times> bool \<Rightarrow> queue_send \<Rightarrow> gotime \<Rightarrow> queue_db \<Rightarrow> (queue_error + queue_item) \<times> queue_db" where
  "EnqueueChatPrompt oks s = EnqueueChatPromptAttach oks (s\<lparr>qs_Attachments := []\<rparr>)"

section \<open>Selection and holds\<close>

definition deliverable :: "int \<Rightarrow> gotime \<Rightarrow> queue_item \<Rightarrow> bool" where
  "deliverable chatID now i \<longleftrightarrow> qi_ChatID i = chatID \<and> queued i \<and> (case qi_NotBefore i of None \<Rightarrow> True | Some t \<Rightarrow> t \<le> now)"

definition delivery_order :: "queue_item \<Rightarrow> int \<times> int" where
  "delivery_order i = (- qi_Priority i, qi_ID i)"

definition NextQueuedAt :: "bool \<Rightarrow> int \<Rightarrow> gotime \<Rightarrow> queue_db \<Rightarrow> queue_item option option" where
  "NextQueuedAt ok chatID now db = (if \<not> ok then None
     else Some (case sort_key delivery_order (filter (deliverable chatID now) (qd_rows db)) of [] \<Rightarrow> None | i # _ \<Rightarrow> Some i))"

definition SetQueuedNotBefore :: "bool \<Rightarrow> int \<Rightarrow> gotime option \<Rightarrow> gotime \<Rightarrow> queue_db \<Rightarrow> queue_error option \<times> queue_db" where
  "SetQueuedNotBefore ok i t now db = (if \<not> ok then (Some StoreFailed, db)
     else let (n, db') = update_where (\<lambda>r. qi_ID r = i \<and> queued r) (\<lambda>r. r\<lparr>qi_NotBefore := t, qi_UpdatedAt := now\<rparr>) db
          in (if n = 0 then Some NotQueued else None, db'))"

definition future_hold :: "gotime \<Rightarrow> queue_item \<Rightarrow> bool" where
  "future_hold now r \<longleftrightarrow> queued r \<and> (case qi_NotBefore r of None \<Rightarrow> False | Some t \<Rightarrow> now < t)"

definition EarliestHeldNotBefore :: "bool \<Rightarrow> gotime \<Rightarrow> queue_db \<Rightarrow> gotime option option" where
  "EarliestHeldNotBefore ok now db = (if \<not> ok then None
     else Some (case sort (map (\<lambda>r. the (qi_NotBefore r)) (filter (future_hold now) (qd_rows db))) of [] \<Rightarrow> None | t # _ \<Rightarrow> Some t))"

definition held_retry :: "string \<Rightarrow> gotime \<Rightarrow> queue_item \<Rightarrow> bool" where
  "held_retry provider now r \<longleftrightarrow> future_hold now r \<and> qi_Source r = ChatQueueSourceOrchestrator
     \<and> (case qi_RunConfig r of None \<Rightarrow> False | Some c \<Rightarrow> rc_Provider c = provider \<and> rc_FailoverOf c \<noteq> [])"

definition ReleaseHeldRetries :: "bool \<Rightarrow> string \<Rightarrow> gotime \<Rightarrow> queue_db \<Rightarrow> int list option \<times> queue_db" where
  "ReleaseHeldRetries ok provider now db = (if \<not> ok then (None, db)
     else (Some (map qi_ChatID (filter (held_retry provider now) (qd_rows db))),
           snd (update_where (held_retry provider now) (\<lambda>r. r\<lparr>qi_NotBefore := None, qi_UpdatedAt := now\<rparr>) db)))"

section \<open>Leaving the queue\<close>

definition MarkDelivered :: "bool \<Rightarrow> int \<Rightarrow> string \<Rightarrow> gotime \<Rightarrow> queue_db \<Rightarrow> queue_error option \<times> queue_db" where
  "MarkDelivered ok i runID now db = (if \<not> ok then (Some StoreFailed, db)
     else let (n, db') = update_where (\<lambda>r. qi_ID r = i \<and> queued r)
            (\<lambda>r. r\<lparr>qi_Status := ChatQueueStatusDelivered, qi_RunID := Some runID, qi_UpdatedAt := now\<rparr>) db
          in (if n = 0 then Some NotQueued else None, db'))"

definition MarkCancelled :: "bool \<Rightarrow> int \<Rightarrow> string \<Rightarrow> string \<Rightarrow> gotime \<Rightarrow> queue_db \<Rightarrow> queue_error option \<times> queue_db" where
  "MarkCancelled ok i kind reason now db = (if \<not> ok then (Some StoreFailed, db)
     else let (n, db') = update_where (\<lambda>r. qi_ID r = i \<and> queued r)
            (\<lambda>r. r\<lparr>qi_Status := ChatQueueStatusCancelled, qi_CancelReason := reason, qi_CancelKind := kind, qi_UpdatedAt := now\<rparr>) db
          in (if n = 0 then Some NotQueued else None, db'))"

definition ListChatQueue :: "bool \<Rightarrow> int \<Rightarrow> queue_db \<Rightarrow> queue_item list option" where
  "ListChatQueue ok chatID db = (if ok then Some (sort_key qi_ID (filter (\<lambda>i. qi_ChatID i = chatID) (qd_rows db))) else None)"

definition ChatsWithQueued :: "bool \<Rightarrow> queue_db \<Rightarrow> int list option" where
  "ChatsWithQueued ok db = (if ok then Some (sorted_list_of_set (qi_ChatID ` set (filter queued (qd_rows db)))) else None)"

section \<open>Child events\<close>

fun claimRunsTx :: "string list \<Rightarrow> gotime \<Rightarrow> (string \<Rightarrow> gotime option option) \<Rightarrow> nat \<times> (string \<Rightarrow> gotime option option)" where
  "claimRunsTx [] t m = (0, m)"
| "claimRunsTx (i # is) t m =
     (if m i = Some None then let (n, m') = claimRunsTx is t (m(i := Some (Some t))) in (Suc n, m') else claimRunsTx is t m)"

definition ClaimRunsParentNotified :: "bool \<Rightarrow> string list \<Rightarrow> gotime \<Rightarrow> queue_db \<Rightarrow> nat option \<times> queue_db" where
  "ClaimRunsParentNotified ok run_ids t db = (if \<not> ok then (None, db)
     else let (n, m) = claimRunsTx run_ids t (qd_notified db) in (Some n, db\<lparr>qd_notified := m\<rparr>))"

record child_event_input =
  ce_ChatID :: int
  ce_RunIDs :: "string list"
  ce_Block :: string
  ce_RunConfig :: "run_config option"
  ce_Now :: gotime
  ce_Debounce :: duration
  ce_MaxHold :: duration

definition child_item :: "child_event_input \<Rightarrow> int \<Rightarrow> queue_item" where
  "child_item e = new_item \<lparr>qs_ChatID = ce_ChatID e, qs_Prompt = ce_Block e, qs_RunConfig = ce_RunConfig e,
     qs_Source = ChatQueueSourceChildEvent, qs_Priority = 0, qs_FromTaskID = 0, qs_FromChatID = 0, qs_Attachments = [],
     qs_NotBefore = Some (ce_Now e + ce_Debounce e)\<rparr> (ce_Now e)"

definition is_child_event :: "int \<Rightarrow> queue_item \<Rightarrow> bool" where
  "is_child_event chatID i \<longleftrightarrow> qi_ChatID i = chatID \<and> queued i \<and> qi_Source i = ChatQueueSourceChildEvent"

text \<open>An append pushes the hold, up to \<open>MaxHold\<close> past the creation of the item and never into the past.\<close>

definition pushed_hold :: "child_event_input \<Rightarrow> queue_item \<Rightarrow> gotime" where
  "pushed_hold e i = (let nb = ce_Now e + ce_Debounce e; limit = qi_CreatedAt i + ce_MaxHold e;
     nb = (if limit < nb then limit else nb) in if nb < ce_Now e then ce_Now e else nb)"

definition append_block :: "child_event_input \<Rightarrow> queue_item \<Rightarrow> queue_item" where
  "append_block e i = i\<lparr>qi_Prompt := qi_Prompt i @ [CHR 0x0A, CHR 0x0A] @ ce_Block e, qi_NotBefore := Some (pushed_hold e i), qi_UpdatedAt := ce_Now e\<rparr>"

text \<open>A message without runs reports none: there is nothing to claim, and the claim does not gate it.\<close>

definition claim_gate :: "child_event_input \<Rightarrow> queue_db \<Rightarrow> nat \<times> (string \<Rightarrow> gotime option option)" where
  "claim_gate e db = (if ce_RunIDs e = [] then (1, qd_notified db) else claimRunsTx (ce_RunIDs e) (ce_Now e) (qd_notified db))"

definition append_or_insert :: "child_event_input \<Rightarrow> queue_db \<Rightarrow> (queue_error + int \<times> bool) \<times> queue_db" where
  "append_or_insert e db = (case sort_key qi_ID (filter (is_child_event (ce_ChatID e)) (qd_rows db)) of
     i # _ \<Rightarrow> (Inr (qi_ID i, True), snd (update_where (\<lambda>r. qi_ID r = qi_ID i) (append_block e) db))
   | [] \<Rightarrow> if chatQueueBound \<le> length (queued_in (ce_ChatID e) db) then (Inl QueueFull, db)
           else (Inr (qd_seq db + 1, False), insert_item (child_item e) db))"

definition enqueueChildEventTx :: "bool \<times> bool \<Rightarrow> child_event_input \<Rightarrow> queue_db \<Rightarrow> (queue_error + int \<times> bool) \<times> queue_db" where
  "enqueueChildEventTx oks e db = (case oks of (ok_claim, ok_item) \<Rightarrow>
     case claim_gate e db of (claimed, m) \<Rightarrow>
       if \<not> ok_claim \<and> ce_RunIDs e \<noteq> [] then (Inl StoreFailed, db)
       else if claimed = 0 then (Inl AlreadyNotified, db)
       else if \<not> ok_item then (Inl StoreFailed, db\<lparr>qd_notified := m\<rparr>)
       else append_or_insert e (db\<lparr>qd_notified := m\<rparr>))"

text \<open>The transaction: any error, and a commit that fails, leaves the tables as they were.\<close>

definition EnqueueChildEvent :: "bool \<times> bool \<times> bool \<times> bool \<Rightarrow> child_event_input \<Rightarrow> queue_db \<Rightarrow> (queue_error + queue_item \<times> bool) \<times> queue_db" where
  "EnqueueChildEvent oks e db = (case oks of (ok_claim, ok_item, ok_commit, ok_get) \<Rightarrow>
     case enqueueChildEventTx (ok_claim, ok_item) e db of
       (Inl err, _) \<Rightarrow> (Inl err, db)
     | (Inr (i, appended), db') \<Rightarrow> if \<not> ok_commit then (Inl StoreFailed, db)
         else (case GetChatQueueItem ok_get i db' of Inl err \<Rightarrow> Inl err | Inr item \<Rightarrow> Inr (item, appended), db'))"

end
