(* ===== verification/GoPath.thy ===== *)
theory GoPath
  imports GoStrings
begin

text \<open>
  Package \<open>path\<close> of the Go library and the rest of package \<open>strings\<close> that the path layer of the
  permission policy calls. \<open>path_Clean\<close> follows the documented rules component by component:
  empty and \<open>.\<close> components vanish, a \<open>..\<close> removes the component before it, and a \<open>..\<close> with
  nothing before it is kept in a relative path and dropped in a rooted one.
\<close>

definition slash :: char where
  "slash = CHR ''/''"

definition clean_step :: "bool \<Rightarrow> string list \<Rightarrow> string \<Rightarrow> string list" where
  "clean_step rooted out c =
     (if c = [] \<or> c = ''.'' then out
      else if c = ''..'' then
        (if out \<noteq> [] \<and> last out \<noteq> ''..'' then butlast out else if rooted then out else out @ [c])
      else out @ [c])"

definition clean_comps :: "bool \<Rightarrow> string list \<Rightarrow> string list" where
  "clean_comps rooted cs = foldl (clean_step rooted) [] cs"

definition path_IsAbs :: "string \<Rightarrow> bool" where
  "path_IsAbs p = HasPrefix p [slash]"

definition path_Clean :: "string \<Rightarrow> string" where
  "path_Clean p =
     (let rooted = path_IsAbs p;
          body = Join (clean_comps rooted (SplitByte p slash)) [slash]
      in if rooted then slash # body else if body = [] then ''.'' else body)"

definition path_Join :: "string list \<Rightarrow> string" where
  "path_Join elems =
     (let es = filter (\<lambda>e. e \<noteq> []) elems in if es = [] then [] else path_Clean (Join es [slash]))"

definition path_Dir :: "string \<Rightarrow> string" where
  "path_Dir p = path_Clean (case LastIndexByte p slash of None \<Rightarrow> [] | Some i \<Rightarrow> take (Suc i) p)"

definition strip_slashes :: "string \<Rightarrow> string" where
  "strip_slashes p = rev (dropWhile (\<lambda>c. c = slash) (rev p))"

definition path_Base :: "string \<Rightarrow> string" where
  "path_Base p =
     (if p = [] then ''.''
      else (let q = strip_slashes p;
                b = (case LastIndexByte q slash of None \<Rightarrow> q | Some i \<Rightarrow> drop (Suc i) q)
            in if b = [] then [slash] else b))"

text \<open>\<open>strings.ReplaceAll\<close> with a pattern that is not empty, and a \<open>strings.Replacer\<close>.\<close>

definition replace_here :: "(string \<times> string) list \<Rightarrow> string \<Rightarrow> (string \<times> string) option" where
  "replace_here pairs s = find (\<lambda>(old, new). old \<noteq> [] \<and> HasPrefix s old) pairs"

function Replace :: "(string \<times> string) list \<Rightarrow> string \<Rightarrow> string" where
  "Replace pairs s =
     (case s of
        [] \<Rightarrow> []
      | c # cs \<Rightarrow>
          (case replace_here pairs s of
             None \<Rightarrow> c # Replace pairs cs
           | Some (old, new) \<Rightarrow> if old = [] then s else new @ Replace pairs (drop (length old) s)))"
  by pat_completeness auto
termination
  by (relation "measure (\<lambda>(pairs, s). length s)") auto

declare Replace.simps [simp del]

definition ReplaceAll :: "string \<Rightarrow> string \<Rightarrow> string \<Rightarrow> string" where
  "ReplaceAll s old new = Replace [(old, new)] s"

definition replace_byte :: "char \<Rightarrow> char \<Rightarrow> string \<Rightarrow> string" where
  "replace_byte a b s = map (\<lambda>c. if c = a then b else c) s"

text \<open>\<open>strings.SplitN\<close> at a one-byte separator into at most three parts.\<close>

definition SplitByte3 :: "string \<Rightarrow> char \<Rightarrow> string list" where
  "SplitByte3 s c =
     (case CutByte s c of
        (a, r, False) \<Rightarrow> [a]
      | (a, r, True) \<Rightarrow> (case CutByte r c of (b, q, False) \<Rightarrow> [a, b] | (b, q, True) \<Rightarrow> [a, b, q]))"

definition TrimBytes :: "string \<Rightarrow> string \<Rightarrow> string" where
  "TrimBytes s cutset = rev (TrimLeft (rev (TrimLeft s cutset)) cutset)"

definition after_last_any :: "string \<Rightarrow> string \<Rightarrow> string" where
  "after_last_any s cs = rev (takeWhile (\<lambda>c. c \<notin> set cs) (rev s))"

definition CutPrefix :: "string \<Rightarrow> string \<Rightarrow> string option" where
  "CutPrefix s p = (if HasPrefix s p then Some (drop (length p) s) else None)"

text \<open>
  \<open>ToUpper\<close> on the code points whose upper case is an ASCII letter (\<open>a\<close> to \<open>z\<close>, the dotless i and
  the long s), and \<open>EqualFold\<close> against an ASCII text, whose only other matches are the Kelvin sign
  and the long s. Other code points are left as they are: the modelled code compares the results
  with ASCII text.
\<close>

definition upper_byte :: "char \<Rightarrow> char" where
  "upper_byte c = (let n = of_char c :: nat in if 97 \<le> n \<and> n \<le> 122 then char_of (n - 32) else c)"

definition ToUpper :: "string \<Rightarrow> string" where
  "ToUpper s = map upper_byte
     (Replace [([CHR 0xC4, CHR 0xB1], ''I''), ([CHR 0xC5, CHR 0xBF], ''S'')] s)"

definition fold_ascii :: "string \<Rightarrow> string" where
  "fold_ascii s = map lower_byte
     (Replace [([CHR 0xE2, CHR 0x84, CHR 0xAA], ''k''), ([CHR 0xC5, CHR 0xBF], ''s'')] s)"

definition EqualFold_ascii :: "string \<Rightarrow> string \<Rightarrow> bool" where
  "EqualFold_ascii s t = (fold_ascii s = map lower_byte t)"

section \<open>Lemmas\<close>

lemma Join_Cons_ne: "xs \<noteq> [] \<Longrightarrow> Join (x # xs) s = x @ s @ Join xs s"
  by (cases xs) auto

lemma Join_subseq: "subseq as bs \<Longrightarrow> subseq (Join as [c]) (Join bs [c])"
proof (induction bs arbitrary: as)
  case (Cons b bs)
  show ?case
  proof (cases as)
    case (Cons a as')
    show ?thesis
    proof (cases "as = b # as' \<and> subseq as' bs")
      case True
      then show ?thesis using Cons.IH [of as'] 
        by (cases as'; cases bs) (auto simp: list_emb_append_mono subseq_append')
    next
      case False
      then have "subseq as bs" using Cons.prems Cons by (auto split: if_splits)
      then have "bs \<noteq> []" using Cons by auto
      then show ?thesis using Cons.IH [OF \<open>subseq as bs\<close>] by (auto simp: Join_Cons_ne intro: subseq_append_le_same_iff)
    qed
  qed simp
qed (auto dest: list_emb_Nil2)

lemma Join_Cons_app: "Join ((x # a) # list) s = x # Join (a # list) s"
  by (cases list) auto

lemma SplitByte_ne [simp]: "SplitByte s c \<noteq> []"
  by (induction s) (auto split: list.splits)

lemma Join_SplitByte [simp]: "Join (SplitByte s c) [c] = s"
proof (induction s)
  case (Cons x s)
  then show ?case by (cases "SplitByte s c") (auto simp: Join_Cons_ne Join_Cons_app split: list.splits)
qed simp

lemma clean_step_subseq: "subseq out xs \<Longrightarrow> subseq (clean_step r out c) (xs @ [c])"
  by (auto simp: clean_step_def intro: list_emb_append2 subseq_append_mono subseq_order.order_trans [OF subseq_butlast])

lemma clean_comps_subseq: "subseq (clean_comps r cs) cs"
proof -
  have "subseq out xs \<Longrightarrow> subseq (foldl (clean_step r) out cs) (xs @ cs)" for out xs
  proof (induction cs arbitrary: out xs)
    case (Cons c cs)
    show ?case using Cons.IH [OF clean_step_subseq [OF Cons.prems]] by simp
  qed simp
  from this [of "[]" "[]"] show ?thesis by (simp add: clean_comps_def)
qed

lemma Join_Nil_Cons: "xs \<noteq> [] \<Longrightarrow> Join ([] # xs) [c] = c # Join xs [c]"
  by (simp add: Join_Cons_ne)

lemma path_Clean_subseq: "path_Clean p = ''.'' \<or> subseq (path_Clean p) p"
proof (cases "path_IsAbs p")
  case True
  then obtain q where q: "p = slash # q" by (cases p) (auto simp: path_IsAbs_def HasPrefix_def)
  have "clean_comps True ([] # cs) = clean_comps True cs" for cs
    by (simp add: clean_comps_def clean_step_def)
  moreover have "subseq (Join (clean_comps True (SplitByte q slash)) [slash]) q"
    using Join_subseq [OF clean_comps_subseq [of True "SplitByte q slash"], of slash] by simp
  ultimately show ?thesis using True by (simp add: path_Clean_def q)
next
  case False
  then show ?thesis using Join_subseq [OF clean_comps_subseq [of False "SplitByte p slash"], of slash]
    by (simp add: path_Clean_def Let_def)
qed

lemma path_Clean_ne [simp]: "path_Clean p \<noteq> []"
  by (simp add: path_Clean_def Let_def)


lemma CutByte_eq: "CutByte s c = (a, r, f) \<Longrightarrow> s = (if f then a @ [c] @ r else a)"
  by (auto simp: CutByte_def id_take_nth_drop dest!: IndexByte_Some split: option.splits)

lemma SplitByte3_cases:
  assumes "2 \<le> length (SplitByte3 s c)"
  shows "s = SplitByte3 s c ! 0 @ [c] @ SplitByte3 s c ! 1 @ (if length (SplitByte3 s c) = 3 then c # SplitByte3 s c ! 2 else [])"
  using assms by (auto simp: SplitByte3_def split: prod.splits bool.splits dest!: CutByte_eq)

lemma HasPrefix_drop: "HasPrefix p q \<Longrightarrow> p = q @ drop (length q) p"
  by (metis HasPrefix_def append_take_drop_id)

lemma filter_ne_subseq_Join: "subseq out (filter (\<lambda>c. c \<noteq> []) (SplitByte rest c)) \<Longrightarrow> subseq (Join out [c]) rest"
  using Join_subseq [OF subseq_order.order_trans [OF _ subseq_filter_left], of out _ "SplitByte rest c" c] by simp

end
