(* ===== verification/RunModes.thy ===== *)
theory RunModes
  imports GoPath GoTime
begin

text \<open>
  The permission modes, models and reasoning levels a run may be started with: \<open>internal/taskrunner/modes.go\<close>,
  \<open>models.go\<close>, \<open>thinking.go\<close>, \<open>level.go\<close> and \<open>model_resolve.go\<close>. A catalog entry carries the fields that
  the validation reads; the caches of what agents advertised, the configured defaults and the environment
  are fields of the runner. An error is a constructor with the value its message quotes.
\<close>

section \<open>Catalogs\<close>

definition RunnerClaude :: string where "RunnerClaude = ''claude-native''"
definition RunnerCodex :: string where "RunnerCodex = ''codex-native''"
definition RunnerACP :: string where "RunnerACP = ''acp''"

lemmas runner_defs = RunnerClaude_def RunnerCodex_def RunnerACP_def

record mode_info =
  mi_ID :: string
  mi_AutoApproves :: bool

definition ClaudeModeDefault :: string where "ClaudeModeDefault = ''default''"
definition ClaudeModeAcceptEdits :: string where "ClaudeModeAcceptEdits = ''acceptEdits''"
definition ClaudeModePlan :: string where "ClaudeModePlan = ''plan''"
definition ClaudeModeAuto :: string where "ClaudeModeAuto = ''auto''"
definition ClaudeModeBypass :: string where "ClaudeModeBypass = ''bypassPermissions''"
definition CodexModeAuto :: string where "CodexModeAuto = ''auto''"
definition CodexModeFullAccess :: string where "CodexModeFullAccess = ''full-access''"
definition ACPModeDefault :: string where "ACPModeDefault = ''default''"

lemmas mode_defs = ClaudeModeDefault_def ClaudeModeAcceptEdits_def ClaudeModePlan_def ClaudeModeAuto_def ClaudeModeBypass_def
  CodexModeAuto_def CodexModeFullAccess_def ACPModeDefault_def

definition claudeAutoModeAvailable :: "(string \<Rightarrow> string) \<Rightarrow> bool" where
  "claudeAutoModeAvailable env \<longleftrightarrow> (\<forall>v\<in>set [''CLAUDE_CODE_USE_BEDROCK'', ''CLAUDE_CODE_USE_VERTEX''].
     ToLower (TrimSpace (env v)) \<in> set [[], ''0'', ''false'', ''no''])"

definition claudeModes :: "(string \<Rightarrow> string) \<Rightarrow> mode_info list" where
  "claudeModes env = [\<lparr>mi_ID = ClaudeModeAcceptEdits, mi_AutoApproves = False\<rparr>, \<lparr>mi_ID = ClaudeModeDefault, mi_AutoApproves = False\<rparr>,
     \<lparr>mi_ID = ClaudeModePlan, mi_AutoApproves = False\<rparr>]
     @ (if claudeAutoModeAvailable env then [\<lparr>mi_ID = ClaudeModeAuto, mi_AutoApproves = True\<rparr>] else [])
     @ [\<lparr>mi_ID = ClaudeModeBypass, mi_AutoApproves = True\<rparr>]"

definition codexModes :: "mode_info list" where
  "codexModes = [\<lparr>mi_ID = CodexModeAuto, mi_AutoApproves = False\<rparr>, \<lparr>mi_ID = CodexModeFullAccess, mi_AutoApproves = True\<rparr>]"

definition codexModePresets :: "string \<Rightarrow> (string \<times> string) option" where
  "codexModePresets = [CodexModeAuto \<mapsto> (''on-request'', ''workspace-write''), CodexModeFullAccess \<mapsto> (''never'', ''danger-full-access'')]"

definition acpFallbackModes :: "mode_info list" where
  "acpFallbackModes = [\<lparr>mi_ID = ACPModeDefault, mi_AutoApproves = False\<rparr>]"

definition acpBypassLike :: "string \<Rightarrow> bool" where
  "acpBypassLike m \<longleftrightarrow> (\<exists>s\<in>set [''bypass'', ''yolo'', ''full'', ''auto'', ''dangerous'', ''skip'']. Contains (ToLower m) s)"

record model_info =
  md_ID :: string
  md_Default :: bool
  md_Efforts :: "string list"

definition ModelsAdd :: string where "ModelsAdd = ''add''"

record provider_spec =
  sp_ID :: string
  sp_Runner :: string
  sp_Extends :: string
  sp_Models :: "(string \<times> bool) list"
  sp_ModelsMode :: string
  sp_Modes :: "mode_info list"
  sp_DefaultMode :: string
  sp_SupportsAutoAccept :: bool

record provider_info =
  pi_ID :: string
  pi_Modes :: "mode_info list"
  pi_DefaultMode :: string
  pi_ModesDiscovered :: bool
  pi_Models :: "model_info list"
  pi_DefaultModel :: string
  pi_ModelsDiscovered :: bool
  pi_SupportsAutoAccept :: bool
  pi_Runner :: string

record runner =
  rs_specs :: "provider_spec list"
  rs_defaultModels :: "string \<Rightarrow> string"
  rs_acpModes :: "string \<Rightarrow> (mode_info list \<times> string) option"
  rs_acpModels :: "string \<Rightarrow> model_info list option"
  rs_env :: "string \<Rightarrow> string"

definition IsInstance :: "provider_spec \<Rightarrow> bool" where
  "IsInstance s \<longleftrightarrow> sp_Extends s \<noteq> []"

definition spec_Base :: "provider_spec \<Rightarrow> string" where
  "spec_Base s = (if sp_Extends s \<noteq> [] then sp_Extends s else sp_ID s)"

definition spec_get :: "runner \<Rightarrow> string \<Rightarrow> provider_spec option" where
  "spec_get r i = find (\<lambda>s. sp_ID s = i) (rs_specs r)"

definition staticModes :: "(string \<Rightarrow> string) \<Rightarrow> provider_spec \<Rightarrow> mode_info list \<times> string" where
  "staticModes env s =
     (if sp_Runner s = RunnerClaude then (claudeModes env, ClaudeModeAcceptEdits)
      else if sp_Runner s = RunnerCodex then (codexModes, CodexModeAuto)
      else if sp_Modes s \<noteq> [] then (sp_Modes s, sp_DefaultMode s)
      else (acpFallbackModes, ACPModeDefault))"

definition claudeModels :: "model_info list" where
  "claudeModels = map (\<lambda>i. \<lparr>md_ID = i, md_Default = False, md_Efforts = []\<rparr>)
     [''sonnet'', ''opus'', ''haiku'', ''claude-fable-5-1'', ''claude-opus-5-5'', ''claude-sonnet-5-5'', ''claude-haiku-5-5'']"

definition configModels :: "(string \<times> bool) list \<Rightarrow> model_info list" where
  "configModels ms = map (\<lambda>(i, d). \<lparr>md_ID = i, md_Default = d, md_Efforts = []\<rparr>) ms"

text \<open>The first entry of the same id is replaced in place, a new id is appended.\<close>

fun replace_model :: "model_info \<Rightarrow> model_info list \<Rightarrow> model_info list" where
  "replace_model m [] = [m]"
| "replace_model m (x # xs) = (if md_ID x = md_ID m then m # xs else x # replace_model m xs)"

definition mergeModelInfos :: "model_info list \<Rightarrow> model_info list \<Rightarrow> model_info list" where
  "mergeModelInfos base extra = fold replace_model extra base"

definition staticModels :: "provider_spec \<Rightarrow> model_info list" where
  "staticModels s =
     (if sp_Runner s = RunnerClaude \<and> sp_Models s = [] then claudeModels
      else if sp_Runner s = RunnerClaude \<and> sp_ModelsMode s = ModelsAdd then mergeModelInfos claudeModels (configModels (sp_Models s))
      else configModels (sp_Models s))"

definition infoFromSpec :: "(string \<Rightarrow> string) \<Rightarrow> provider_spec \<Rightarrow> provider_info" where
  "infoFromSpec env s = \<lparr>pi_ID = sp_ID s, pi_Modes = fst (staticModes env s), pi_DefaultMode = snd (staticModes env s), pi_ModesDiscovered = False,
     pi_Models = staticModels s, pi_DefaultModel = [], pi_ModelsDiscovered = False, pi_SupportsAutoAccept = sp_SupportsAutoAccept s, pi_Runner = sp_Runner s\<rparr>"

definition discoveredWithExtras :: "model_info list \<Rightarrow> provider_spec \<Rightarrow> bool \<Rightarrow> model_info list" where
  "discoveredWithExtras discovered s add = (if add then mergeModelInfos discovered (configModels (sp_Models s)) else discovered)"

definition DefaultModel :: "runner \<Rightarrow> string \<Rightarrow> string" where
  "DefaultModel r provider = rs_defaultModels r provider"

definition configuredDefaultModel :: "runner \<Rightarrow> string \<Rightarrow> string" where
  "configuredDefaultModel r provider =
     (if DefaultModel r provider \<noteq> [] then DefaultModel r provider
      else case spec_get r provider of
        None \<Rightarrow> []
      | Some s \<Rightarrow> if \<not> IsInstance s \<or> sp_Models s = [] \<or> sp_ModelsMode s = ModelsAdd then []
          else (case find snd (sp_Models s) of Some (i, _) \<Rightarrow> i | None \<Rightarrow> fst (hd (sp_Models s))))"

text \<open>One entry of \<open>ProviderCatalog\<close>: what the agents advertised is layered over the static entry.\<close>

definition layer_models :: "runner \<Rightarrow> provider_spec \<Rightarrow> provider_info \<Rightarrow> provider_info" where
  "layer_models r s info = (let own = IsInstance s \<and> sp_Models s \<noteq> []; pinned = own \<and> sp_ModelsMode s \<noteq> ModelsAdd; add = own \<and> sp_ModelsMode s = ModelsAdd in
     case rs_acpModels r (sp_ID s) of
       Some ms \<Rightarrow> if pinned then info else info\<lparr>pi_Models := discoveredWithExtras ms s add, pi_ModelsDiscovered := True\<rparr>
     | None \<Rightarrow> info)"

definition catalog_entry :: "runner \<Rightarrow> provider_spec \<Rightarrow> provider_info" where
  "catalog_entry r s = (let info = (infoFromSpec (rs_env r) s)\<lparr>pi_DefaultModel := configuredDefaultModel r (sp_ID s)\<rparr> in
     if sp_Runner s = RunnerACP then
       layer_models r s (case rs_acpModes r (sp_ID s) of
         Some (modes, d) \<Rightarrow> info\<lparr>pi_Modes := modes, pi_DefaultMode := d, pi_ModesDiscovered := True\<rparr>
       | None \<Rightarrow> info)
     else if sp_Runner s = RunnerCodex then layer_models r s info
     else info)"

definition ProviderCatalog :: "runner \<Rightarrow> provider_info list" where
  "ProviderCatalog r = map (catalog_entry r) (rs_specs r)"

definition ProviderCatalogFor :: "runner \<Rightarrow> string \<Rightarrow> provider_info option" where
  "ProviderCatalogFor r provider = find (\<lambda>p. pi_ID p = provider) (ProviderCatalog r)"

section \<open>Permission settings\<close>

record permission_settings =
  ps_Mode :: string
  ps_AutoAccept :: bool

datatype settings_error =
  AutoAcceptUnsupported string | InvalidMode string
| ModelTooLong | ModelBeginsWithDash string | ModelCharacters string | InvalidModel string
| InvalidLevel string | LevelShape string | NoModel string string

definition ValidatePermissionSettings :: "provider_info \<Rightarrow> permission_settings \<Rightarrow> settings_error option" where
  "ValidatePermissionSettings catalog s =
     (if ps_AutoAccept s \<and> \<not> pi_SupportsAutoAccept catalog then Some (AutoAcceptUnsupported (pi_ID catalog))
      else if ps_Mode s = [] then None
      else if pi_Runner catalog = RunnerACP \<and> \<not> pi_ModesDiscovered catalog then None
      else if ps_Mode s \<in> set (map mi_ID (pi_Modes catalog)) then None
      else Some (InvalidMode (ps_Mode s)))"

definition ModeAutoApproves :: "provider_info \<Rightarrow> permission_settings \<Rightarrow> bool" where
  "ModeAutoApproves catalog s \<longleftrightarrow> ps_AutoAccept s \<or>
     (let mode = (if ps_Mode s = [] then pi_DefaultMode catalog else ps_Mode s) in
      case find (\<lambda>m. mi_ID m = mode) (pi_Modes catalog) of
        Some m \<Rightarrow> mi_AutoApproves m
      | None \<Rightarrow> pi_Runner catalog = RunnerACP \<and> acpBypassLike mode)"

section \<open>Models\<close>

definition maxModelLen :: nat where "maxModelLen = 100"

definition ClaudeModelDefault :: string where "ClaudeModelDefault = ''default''"

text \<open>The code iterates runes; a rune outside ASCII is refused, and so is each byte of its encoding.\<close>

definition model_char :: "char \<Rightarrow> bool" where
  "model_char c \<longleftrightarrow> byte_in 0x61 0x7A c \<or> byte_in 0x41 0x5A c \<or> is_digit_char c \<or> c \<in> set ''._:/@[]-''"

definition ValidateModelSyntax :: "string \<Rightarrow> settings_error option" where
  "ValidateModelSyntax model =
     (if model = [] then None
      else if maxModelLen < length model then Some ModelTooLong
      else if hd model = CHR ''-'' then Some (ModelBeginsWithDash model)
      else if \<forall>c\<in>set model. model_char c then None
      else Some (ModelCharacters model))"

definition ValidateModel :: "provider_info \<Rightarrow> string \<Rightarrow> settings_error option" where
  "ValidateModel catalog model = (case ValidateModelSyntax model of
     Some e \<Rightarrow> Some e
   | None \<Rightarrow> if model = [] \<or> \<not> pi_ModelsDiscovered catalog then None
       else if model \<in> set (map md_ID (pi_Models catalog)) then None
       else Some (InvalidModel model))"

definition RunnerKind :: "runner \<Rightarrow> string \<Rightarrow> string" where
  "RunnerKind r provider = (case spec_get r provider of Some s \<Rightarrow> sp_Runner s | None \<Rightarrow> [])"

definition IsClaude :: "runner \<Rightarrow> string \<Rightarrow> bool" where
  "IsClaude r provider \<longleftrightarrow> RunnerKind r provider = RunnerClaude"

definition ResolveModel :: "runner \<Rightarrow> string \<Rightarrow> string \<Rightarrow> settings_error + string" where
  "ResolveModel r provider requested =
     (if requested \<noteq> [] then Inr requested
      else if configuredDefaultModel r provider \<noteq> [] then Inr (configuredDefaultModel r provider)
      else let b = (case spec_get r provider of Some s \<Rightarrow> spec_Base s | None \<Rightarrow> []); base = (if b = [] then provider else b) in
        if DefaultModel r base \<noteq> [] then Inr (DefaultModel r base)
        else if IsClaude r provider then Inl (NoModel provider base) else Inr [])"

section \<open>Reasoning levels\<close>

definition claudeLevels :: "string list" where "claudeLevels = [''off'', ''standard'', ''extended'']"

definition isClaudeLevel :: "string \<Rightarrow> bool" where "isClaudeLevel l \<longleftrightarrow> l \<in> set claudeLevels"

definition maxLevelLen :: nat where "maxLevelLen = 32"

definition level_char :: "bool \<Rightarrow> char \<Rightarrow> bool" where
  "level_char first c \<longleftrightarrow> byte_in 0x61 0x7A c \<or> \<not> first \<and> (is_digit_char c \<or> c \<in> set ''_.-'')"

definition level_IsValid :: "string \<Rightarrow> bool" where
  "level_IsValid l \<longleftrightarrow> l = [] \<or> length l \<le> maxLevelLen \<and> level_char True (hd l) \<and> (\<forall>c\<in>set (tl l). level_char False c)"

text \<open>The levels of a run and whether they are known; of several default models the last counts.\<close>

definition levelChoices :: "provider_info \<Rightarrow> string \<Rightarrow> string \<Rightarrow> string list \<times> bool" where
  "levelChoices catalog kind model =
     (if kind = RunnerClaude then (claudeLevels, True)
      else if kind = RunnerCodex then
        (let model = (if model = [] then (case find md_Default (rev (pi_Models catalog)) of Some m \<Rightarrow> md_ID m | None \<Rightarrow> []) else model) in
         case find (\<lambda>m. md_ID m = model \<and> md_Efforts m \<noteq> []) (pi_Models catalog) of
           Some m \<Rightarrow> (md_Efforts m, True)
         | None \<Rightarrow> ([], False))
      else ([], True))"

text \<open>The resolved level, and whether one was dropped with a note.\<close>

definition ResolveLevel :: "provider_info \<Rightarrow> string \<Rightarrow> string \<Rightarrow> string \<Rightarrow> bool \<Rightarrow> settings_error + string \<times> bool" where
  "ResolveLevel catalog kind model level explicit =
     (if level = [] then Inr ([], False)
      else case levelChoices catalog kind model of (choices, known) \<Rightarrow>
        let supported = (if known then level \<in> set choices else kind = RunnerCodex \<and> \<not> isClaudeLevel level) in
        if supported then Inr (level, False)
        else if kind \<noteq> RunnerClaude \<and> kind \<noteq> RunnerCodex then Inr ([], True)
        else if explicit then Inl (InvalidLevel level) else Inr ([], True))"

section \<open>What the catalogs promise\<close>

lemma spec_get_Some: "spec_get r p = Some s \<Longrightarrow> s \<in> set (rs_specs r) \<and> sp_ID s = p"
  unfolding spec_get_def find_Some_iff by (metis nth_mem)

lemma catalog_entry_ID [simp]: "pi_ID (catalog_entry r s) = sp_ID s" "pi_Runner (catalog_entry r s) = sp_Runner s"
  by (auto simp: catalog_entry_def layer_models_def infoFromSpec_def Let_def split: option.splits prod.splits)

lemma find_map_entry: "find (\<lambda>p. pi_ID p = i) (map (catalog_entry r) xs) = map_option (catalog_entry r) (find (\<lambda>s. sp_ID s = i) xs)"
  by (induction xs) auto

lemma ProviderCatalogFor_spec: "ProviderCatalogFor r p = map_option (catalog_entry r) (spec_get r p)"
  by (simp add: ProviderCatalogFor_def ProviderCatalog_def spec_get_def find_map_entry)

lemma default_mode_asks: "\<not> acpBypassLike ACPModeDefault"
  by code_simp

lemma claude_catalog_modes:
  assumes "sp_Runner s = RunnerClaude"
  shows "pi_Modes (catalog_entry r s) = claudeModes (rs_env r) \<and> pi_DefaultMode (catalog_entry r s) = ClaudeModeAcceptEdits"
  using assms by (simp add: catalog_entry_def infoFromSpec_def staticModes_def runner_defs)

lemma codex_catalog_modes:
  assumes "sp_Runner s = RunnerCodex"
  shows "pi_Modes (catalog_entry r s) = codexModes \<and> pi_DefaultMode (catalog_entry r s) = CodexModeAuto"
  using assms by (auto simp: catalog_entry_def infoFromSpec_def staticModes_def layer_models_def runner_defs Let_def split: option.splits)

text \<open>
  A valid setting that does not approve by itself is one of the modes in which the agent asks: on Claude
  not the classifier and not the bypass, on Codex not full access, and never with auto-accept.
\<close>

lemma quiet_modes:
  assumes "ValidatePermissionSettings (catalog_entry r s) ps = None" "\<not> ModeAutoApproves (catalog_entry r s) ps"
  shows "\<not> ps_AutoAccept ps
     \<and> (sp_Runner s = RunnerClaude \<longrightarrow> ps_Mode ps \<in> {[], ClaudeModeAcceptEdits, ClaudeModeDefault, ClaudeModePlan})
     \<and> (sp_Runner s = RunnerCodex \<longrightarrow> ps_Mode ps \<in> {[], CodexModeAuto} \<and> codexModePresets CodexModeAuto = Some (''on-request'', ''workspace-write''))
     \<and> (sp_Runner s = RunnerACP \<longrightarrow> rs_acpModes r (sp_ID s) = None \<longrightarrow> sp_Modes s = [] \<longrightarrow> ps_Mode ps \<noteq> [] \<longrightarrow>
          \<not> acpBypassLike (ps_Mode ps))"
proof (intro conjI impI)
  show "\<not> ps_AutoAccept ps" using assms(2) by (simp add: ModeAutoApproves_def)
  show "ps_Mode ps \<in> {[], ClaudeModeAcceptEdits, ClaudeModeDefault, ClaudeModePlan}" if "sp_Runner s = RunnerClaude"
    using assms claude_catalog_modes [OF that, of r] that
    by (auto simp: ValidatePermissionSettings_def ModeAutoApproves_def claudeModes_def runner_defs mode_defs split: if_splits)
  show "ps_Mode ps \<in> {[], CodexModeAuto}" if "sp_Runner s = RunnerCodex"
    using assms codex_catalog_modes [OF that, of r] that
    by (auto simp: ValidatePermissionSettings_def ModeAutoApproves_def codexModes_def runner_defs mode_defs split: if_splits)
  show "codexModePresets CodexModeAuto = Some (''on-request'', ''workspace-write'')"
    by (simp add: codexModePresets_def mode_defs)
  show "\<not> acpBypassLike (ps_Mode ps)"
    if "sp_Runner s = RunnerACP" "rs_acpModes r (sp_ID s) = None" "sp_Modes s = []" "ps_Mode ps \<noteq> []"
    using assms(2) that default_mode_asks
    by (auto simp: ModeAutoApproves_def catalog_entry_def layer_models_def infoFromSpec_def staticModes_def acpFallbackModes_def Let_def runner_defs
        split: option.splits if_splits)
qed

end
