(* ===== verification/RunGuard.thy ===== *)
theory RunGuard
  imports ChatQueue RunModes
begin

text \<open>
  Which runs may be in flight at once: the sections of \<open>internal/runs/registry.go\<close> that hold the registry's
  mutex (the admission of a run, its registration and removal, the terminal status, the retention of
  finished runs, the archive and sync latches) and \<open>tree_guard.go\<close>. A section is a function on the
  registry; the handlers compose them, and \<open>guard_step\<close> interleaves them as the goroutines do. The map of
  runs is a list with one entry per id, in the order an iteration visits it.
\<close>

section \<open>State\<close>

definition StatusRunning :: string where "StatusRunning = ''running''"
definition StatusDone :: string where "StatusDone = ''done''"
definition StatusError :: string where "StatusError = ''error''"
definition StatusStopped :: string where "StatusStopped = ''stopped''"
definition StatusInterrupted :: string where "StatusInterrupted = ''interrupted''"

lemmas run_status_defs = StatusRunning_def StatusDone_def StatusError_def StatusStopped_def StatusInterrupted_def

record live_run =
  rn_id :: string
  rn_taskID :: int
  rn_chatID :: int
  rn_treeRoot :: int
  rn_purpose :: string
  rn_provider :: string
  rn_prompt :: string
  rn_perm :: permission_settings
  rn_thinkingLevel :: string
  rn_model :: string
  rn_origin :: string
  rn_originHost :: string
  rn_interrupt :: bool
  rn_replyChatID :: int
  rn_profileID :: int
  rn_failoverOf :: string
  rn_status :: string
  rn_stopRequested :: bool

record registry =
  rg_runs :: "live_run list"
  rg_archiving :: "int set"
  rg_syncing :: "int set"
  rg_maxConcurrentRunsPerTree :: int
  rg_finishedOrder :: "string list"
  rg_systemFinishedOrder :: "string list"

definition is_running :: "live_run \<Rightarrow> bool" where
  "is_running r \<longleftrightarrow> rn_status r = StatusRunning"

text \<open>The map operations: an assignment replaces the entry of its key or adds one.\<close>

definition get_run :: "registry \<Rightarrow> string \<Rightarrow> live_run option" where
  "get_run reg i = find (\<lambda>r. rn_id r = i) (rg_runs reg)"

definition put_run :: "live_run \<Rightarrow> registry \<Rightarrow> registry" where
  "put_run r reg = reg\<lparr>rg_runs := (if get_run reg (rn_id r) = None then rg_runs reg @ [r]
     else map (\<lambda>x. if rn_id x = rn_id r then r else x) (rg_runs reg))\<rparr>"

definition delete_run :: "string \<Rightarrow> registry \<Rightarrow> registry" where
  "delete_run i reg = reg\<lparr>rg_runs := filter (\<lambda>r. rn_id r \<noteq> i) (rg_runs reg)\<rparr>"

definition modify_run :: "string \<Rightarrow> (live_run \<Rightarrow> live_run) \<Rightarrow> registry \<Rightarrow> registry" where
  "modify_run i f reg = reg\<lparr>rg_runs := map (\<lambda>r. if rn_id r = i then f r else r) (rg_runs reg)\<rparr>"

section \<open>The tree guard\<close>

definition defaultMaxConcurrentRunsPerTree :: int where "defaultMaxConcurrentRunsPerTree = 4"

definition SetMaxConcurrentRunsPerTree :: "int \<Rightarrow> registry \<Rightarrow> registry" where
  "SetMaxConcurrentRunsPerTree n reg = reg\<lparr>rg_maxConcurrentRunsPerTree := n\<rparr>"

definition maxConcurrentRunsPerTreeLocked :: "registry \<Rightarrow> int" where
  "maxConcurrentRunsPerTreeLocked reg = (if 0 < rg_maxConcurrentRunsPerTree reg then rg_maxConcurrentRunsPerTree reg
     else defaultMaxConcurrentRunsPerTree)"

definition runningInTreeLocked :: "int \<Rightarrow> registry \<Rightarrow> int" where
  "runningInTreeLocked rootID reg = int (length (filter (\<lambda>r. rn_treeRoot r = rootID \<and> is_running r) (rg_runs reg)))"

definition treeRootWalkHopLimit :: nat where "treeRootWalkHopLimit = 32"

text \<open>The row of a task that the walk reads: its parent, and the rest of the row.\<close>

record 'a tree_task =
  tt_ParentTaskID :: "int option"
  tt_row :: 'a

fun root_walk :: "(int \<Rightarrow> 'a tree_task option) \<Rightarrow> nat \<Rightarrow> int \<Rightarrow> int set \<Rightarrow> int \<Rightarrow> (int \<times> 'a tree_task) option" where
  "root_walk get 0 cur seen lowest = map_option (\<lambda>t. (lowest, t)) (get lowest)"
| "root_walk get (Suc hops) cur seen lowest = (case get cur of
     None \<Rightarrow> None
   | Some t \<Rightarrow> (case tt_ParentTaskID t of
       None \<Rightarrow> Some (cur, t)
     | Some parent \<Rightarrow> if parent = 0 then Some (cur, t)
         else if parent \<in> seen then map_option (\<lambda>t. (lowest, t)) (get lowest)
         else root_walk get hops parent (insert parent seen) (if parent < lowest then parent else lowest)))"

definition treeRootTask :: "(int \<Rightarrow> 'a tree_task option) \<Rightarrow> int \<Rightarrow> (int \<times> 'a tree_task) option" where
  "treeRootTask get taskID = root_walk get treeRootWalkHopLimit taskID {taskID} taskID"

definition treeRootOf :: "(int \<Rightarrow> 'a tree_task option) \<Rightarrow> int \<Rightarrow> int option" where
  "treeRootOf get taskID = map_option fst (treeRootTask get taskID)"

definition TreeRoot :: "(int \<Rightarrow> 'a tree_task option) \<Rightarrow> int \<Rightarrow> int option" where
  "TreeRoot get taskID = treeRootOf get taskID"

section \<open>Admission\<close>

definition taskArchivingLocked :: "registry \<Rightarrow> int \<Rightarrow> bool" where
  "taskArchivingLocked reg taskID \<longleftrightarrow> taskID \<in> rg_archiving reg"

definition runningRunForChat :: "registry \<Rightarrow> int \<Rightarrow> string option" where
  "runningRunForChat reg chatID = map_option rn_id (find (\<lambda>r. rn_chatID r = chatID \<and> is_running r) (rg_runs reg))"

datatype start_error =
  TaskArchiving | TaskSyncing
| ChatBusyError int string
| TreeBusyError int int int
| SetupBusyError int
| PersistFailed
| BudgetExceededError int
| GuardError send_error
| SettingsError settings_error
| TaskUnreadable | TaskArchived int | ChatUnreadable | ChatOfOtherTask int int | ChatArchived int | BindFailed int
| ProviderMismatch int string string | UnknownProvider string
| AutoApprovingNonHuman | DefaultModelNonHuman string
| IsolationNeedsPurpose | IsolationUnsupported string | ProbeNeedsPurpose | ProbeExcludesIsolation | ProbeNeedsLaunch
| OnlyDirectStart | InvalidWhenBusy string
| RootUnreadable | CostUnreadable | NoRunID
| EnqueueError queue_error | StopFailed string

text \<open>The section of \<open>Start\<close>, and of \<open>StartWhenBusy\<close>, that decides and registers under one lock.\<close>

definition admit :: "live_run \<Rightarrow> registry \<Rightarrow> start_error option \<times> registry" where
  "admit r reg =
     (if taskArchivingLocked reg (rn_taskID r) then (Some TaskArchiving, reg)
      else if rn_taskID r \<in> rg_syncing reg then (Some TaskSyncing, reg)
      else case runningRunForChat reg (rn_chatID r) of
        Some busy \<Rightarrow> (Some (ChatBusyError (rn_chatID r) busy), reg)
      | None \<Rightarrow>
          if maxConcurrentRunsPerTreeLocked reg \<le> runningInTreeLocked (rn_treeRoot r) reg
          then (Some (TreeBusyError (rn_treeRoot r) (maxConcurrentRunsPerTreeLocked reg) (runningInTreeLocked (rn_treeRoot r) reg)), reg)
          else (None, put_run r reg))"

text \<open>The tail: the run is registered (again), and removed when its row or its origin did not reach the disk.\<close>

definition registerAndDrive :: "bool \<Rightarrow> live_run \<Rightarrow> registry \<Rightarrow> start_error option \<times> registry" where
  "registerAndDrive persisted r reg = (let reg1 = put_run r reg in
     if persisted then (None, reg1) else (Some PersistFailed, delete_run (rn_id r) reg1))"

definition start_registered :: "bool \<Rightarrow> live_run \<Rightarrow> registry \<Rightarrow> (start_error + string) \<times> registry" where
  "start_registered persisted r reg = (case admit r reg of
     (Some err, reg1) \<Rightarrow> (Inl err, reg1)
   | (None, reg1) \<Rightarrow> (case registerAndDrive persisted r reg1 of
       (Some err, reg2) \<Rightarrow> (Inl err, reg2) | (None, reg2) \<Rightarrow> (Inr (rn_id r), reg2)))"

section \<open>The end of a run\<close>

definition finish_status :: "bool \<Rightarrow> bool \<Rightarrow> string \<Rightarrow> string" where
  "finish_status stopRequested failed refusal =
     (if stopRequested then StatusStopped else if failed then StatusError
      else if refusal \<noteq> [] then StatusError else StatusDone)"

definition Stop :: "string \<Rightarrow> registry \<Rightarrow> bool \<times> registry" where
  "Stop i reg = (case get_run reg i of
     None \<Rightarrow> (False, reg)
   | Some r \<Rightarrow> (True, if is_running r then modify_run i (\<lambda>r. r\<lparr>rn_stopRequested := True\<rparr>) reg else reg))"

definition publish_status :: "string \<Rightarrow> bool \<Rightarrow> string \<Rightarrow> registry \<Rightarrow> registry" where
  "publish_status i failed refusal reg = modify_run i (\<lambda>r. r\<lparr>rn_status := finish_status (rn_stopRequested r) failed refusal\<rparr>) reg"

definition finishedRetentionCap :: nat where "finishedRetentionCap = 200"

definition systemRetentionCap :: nat where "systemRetentionCap = 50"

fun evict :: "nat \<Rightarrow> string list \<Rightarrow> registry \<Rightarrow> string list \<times> registry" where
  "evict limit [] reg = ([], reg)"
| "evict limit (i # order) reg = (if limit < length (i # order) then evict limit order (delete_run i reg) else (i # order, reg))"

definition retain :: "string \<Rightarrow> registry \<Rightarrow> registry" where
  "retain i reg = (case get_run reg i of
     Some r \<Rightarrow> if rn_purpose r \<noteq> []
       then (case evict systemRetentionCap (rg_systemFinishedOrder reg @ [i]) reg of (order, reg') \<Rightarrow> reg'\<lparr>rg_systemFinishedOrder := order\<rparr>)
       else (case evict finishedRetentionCap (rg_finishedOrder reg @ [i]) reg of (order, reg') \<Rightarrow> reg'\<lparr>rg_finishedOrder := order\<rparr>)
   | None \<Rightarrow> (case evict finishedRetentionCap (rg_finishedOrder reg @ [i]) reg of (order, reg') \<Rightarrow> reg'\<lparr>rg_finishedOrder := order\<rparr>))"

section \<open>The latches\<close>

text \<open>
  \<open>ActiveRunForTask\<close> in its two halves: the scan of the runs under the lock, and the read of the persisted
  queues of the chats of the task, given as what each listing returned.
\<close>

definition active_scan :: "registry \<Rightarrow> int \<Rightarrow> string option" where
  "active_scan reg taskID = map_option rn_id (find (\<lambda>r. rn_taskID r = taskID \<and> is_running r) (rg_runs reg))"

fun queued_scan :: "queue_item list option list \<Rightarrow> bool option" where
  "queued_scan [] = Some False"
| "queued_scan (None # qs) = None"
| "queued_scan (Some items # qs) = (if \<exists>i\<in>set items. queued i then Some True else queued_scan qs)"

datatype active = Idle | QueuedPrompt | ActiveRun string | ActiveError

definition ActiveRunForTask :: "registry \<Rightarrow> queue_item list option list option \<Rightarrow> int \<Rightarrow> active" where
  "ActiveRunForTask reg queues taskID = (case active_scan reg taskID of
     Some i \<Rightarrow> ActiveRun i
   | None \<Rightarrow> (case queues of None \<Rightarrow> ActiveError | Some qs \<Rightarrow>
       (case queued_scan qs of None \<Rightarrow> ActiveError | Some True \<Rightarrow> QueuedPrompt | Some False \<Rightarrow> Idle)))"

datatype latch_error = AlreadyArchiving | SyncInProgress | HasQueuedPrompt | HasRunningRun string | LatchStoreError | SyncRunActive

definition archive_latch :: "int \<Rightarrow> registry \<Rightarrow> latch_error option \<times> registry" where
  "archive_latch taskID reg =
     (if taskID \<in> rg_archiving reg then (Some AlreadyArchiving, reg)
      else if taskID \<in> rg_syncing reg then (Some SyncInProgress, reg)
      else (None, reg\<lparr>rg_archiving := insert taskID (rg_archiving reg)\<rparr>))"

definition archive_unlatch :: "int \<Rightarrow> registry \<Rightarrow> registry" where
  "archive_unlatch taskID reg = reg\<lparr>rg_archiving := rg_archiving reg - {taskID}\<rparr>"

definition TryBeginArchive :: "queue_item list option list option \<Rightarrow> int \<Rightarrow> registry \<Rightarrow> latch_error option \<times> registry" where
  "TryBeginArchive queues taskID reg = (case archive_latch taskID reg of
     (Some err, reg1) \<Rightarrow> (Some err, reg1)
   | (None, reg1) \<Rightarrow> (case ActiveRunForTask reg1 queues taskID of
       ActiveError \<Rightarrow> (Some LatchStoreError, archive_unlatch taskID reg1)
     | QueuedPrompt \<Rightarrow> (Some HasQueuedPrompt, archive_unlatch taskID reg1)
     | ActiveRun i \<Rightarrow> (Some (HasRunningRun i), archive_unlatch taskID reg1)
     | Idle \<Rightarrow> (None, reg1)))"

definition sync_latch :: "int \<Rightarrow> registry \<Rightarrow> latch_error option \<times> registry" where
  "sync_latch taskID reg =
     (if taskID \<in> rg_archiving reg then (Some AlreadyArchiving, reg)
      else if taskID \<in> rg_syncing reg then (Some SyncInProgress, reg)
      else (None, reg\<lparr>rg_syncing := insert taskID (rg_syncing reg)\<rparr>))"

definition sync_unlatch :: "int \<Rightarrow> registry \<Rightarrow> registry" where
  "sync_unlatch taskID reg = reg\<lparr>rg_syncing := rg_syncing reg - {taskID}\<rparr>"

definition beginSync :: "bool \<Rightarrow> queue_item list option list option \<Rightarrow> int \<Rightarrow> registry \<Rightarrow> latch_error option \<times> registry" where
  "beginSync needIdle queues taskID reg = (case sync_latch taskID reg of
     (Some err, reg1) \<Rightarrow> (Some err, reg1)
   | (None, reg1) \<Rightarrow> if \<not> needIdle then (None, reg1) else (case ActiveRunForTask reg1 queues taskID of
       ActiveError \<Rightarrow> (Some LatchStoreError, sync_unlatch taskID reg1)
     | Idle \<Rightarrow> (None, reg1)
     | _ \<Rightarrow> (Some SyncRunActive, sync_unlatch taskID reg1)))"

definition TryBeginSync :: "queue_item list option list option \<Rightarrow> int \<Rightarrow> registry \<Rightarrow> latch_error option \<times> registry" where
  "TryBeginSync = beginSync True"

definition TryBeginSyncAllowRun :: "queue_item list option list option \<Rightarrow> int \<Rightarrow> registry \<Rightarrow> latch_error option \<times> registry" where
  "TryBeginSyncAllowRun = beginSync False"

section \<open>Interleaving\<close>

text \<open>
  The goroutines of the daemon over one registry. A start is between its admission and its row (\<open>sy_starting\<close>)
  and then driven until it publishes a terminal status (\<open>sy_driven\<close>); the retention of a finished run comes
  later (\<open>sy_finished\<close>). An archive or sync has latched its task (\<open>Latched\<close>), or passed its check and holds
  the task until it releases it (\<open>Holding\<close>).
\<close>

datatype latch_pc = Free | Latched | Holding

record guard_sys =
  sy_reg :: registry
  sy_starting :: "string set"
  sy_driven :: "string set"
  sy_finished :: "string set"
  sy_archive :: "int \<Rightarrow> latch_pc"
  sy_sync :: "int \<Rightarrow> latch_pc \<times> bool"

inductive guard_step :: "int \<Rightarrow> guard_sys \<Rightarrow> guard_sys \<Rightarrow> bool" for M :: int where
  admit_run: "is_running r \<Longrightarrow> get_run (sy_reg s) (rn_id r) = None \<Longrightarrow> rn_id r \<notin> sy_starting s \<union> sy_driven s \<union> sy_finished s
     \<Longrightarrow> rn_id r \<notin> set (rg_finishedOrder (sy_reg s)) \<union> set (rg_systemFinishedOrder (sy_reg s))
     \<Longrightarrow> admit r (sy_reg s) = (None, reg')
     \<Longrightarrow> guard_step M s (s\<lparr>sy_reg := reg', sy_starting := insert (rn_id r) (sy_starting s)\<rparr>)"
| register_run: "get_run (sy_reg s) i = Some r \<Longrightarrow> i \<in> sy_starting s \<Longrightarrow> registerAndDrive True r (sy_reg s) = (None, reg')
     \<Longrightarrow> guard_step M s (s\<lparr>sy_reg := reg', sy_starting := sy_starting s - {i}, sy_driven := insert i (sy_driven s)\<rparr>)"
| persist_fails: "get_run (sy_reg s) i = Some r \<Longrightarrow> i \<in> sy_starting s \<Longrightarrow> registerAndDrive False r (sy_reg s) = (Some err, reg')
     \<Longrightarrow> guard_step M s (s\<lparr>sy_reg := reg', sy_starting := sy_starting s - {i}\<rparr>)"
| stop_run: "Stop i (sy_reg s) = (ok, reg') \<Longrightarrow> guard_step M s (s\<lparr>sy_reg := reg'\<rparr>)"
| finish_run: "i \<in> sy_driven s
     \<Longrightarrow> guard_step M s (s\<lparr>sy_reg := publish_status i failed refusal (sy_reg s), sy_driven := sy_driven s - {i}, sy_finished := insert i (sy_finished s)\<rparr>)"
| retain_run: "i \<in> sy_finished s \<Longrightarrow> guard_step M s (s\<lparr>sy_reg := retain i (sy_reg s), sy_finished := sy_finished s - {i}\<rparr>)"
| set_limit: "maxConcurrentRunsPerTreeLocked (SetMaxConcurrentRunsPerTree n (sy_reg s)) \<le> M
     \<Longrightarrow> guard_step M s (s\<lparr>sy_reg := SetMaxConcurrentRunsPerTree n (sy_reg s)\<rparr>)"
| latch_archive: "archive_latch t (sy_reg s) = (None, reg') \<Longrightarrow> guard_step M s (s\<lparr>sy_reg := reg', sy_archive := (sy_archive s)(t := Latched)\<rparr>)"
| check_archive: "sy_archive s t = Latched \<Longrightarrow> active_scan (sy_reg s) t = None \<Longrightarrow> guard_step M s (s\<lparr>sy_archive := (sy_archive s)(t := Holding)\<rparr>)"
| release_archive: "sy_archive s t \<noteq> Free \<Longrightarrow> guard_step M s (s\<lparr>sy_reg := archive_unlatch t (sy_reg s), sy_archive := (sy_archive s)(t := Free)\<rparr>)"
| latch_sync: "sync_latch t (sy_reg s) = (None, reg') \<Longrightarrow> guard_step M s (s\<lparr>sy_reg := reg', sy_sync := (sy_sync s)(t := (Latched, needIdle))\<rparr>)"
| check_sync: "sy_sync s t = (Latched, needIdle) \<Longrightarrow> needIdle \<longrightarrow> active_scan (sy_reg s) t = None
     \<Longrightarrow> guard_step M s (s\<lparr>sy_sync := (sy_sync s)(t := (Holding, needIdle))\<rparr>)"
| release_sync: "fst (sy_sync s t) \<noteq> Free \<Longrightarrow> guard_step M s (s\<lparr>sy_reg := sync_unlatch t (sy_reg s), sy_sync := (sy_sync s)(t := (Free, False))\<rparr>)"

inductive_cases guard_stepE: "guard_step M s s'"

end
