(* ===== verification/StartRun.thy ===== *)
theory StartRun
  imports RunGuard
begin

text \<open>
  Starting a run: the validation and admission of \<open>Registry.Start\<close> (\<open>internal/runs/registry.go\<close>), the options
  of a start (\<open>queue.go\<close>) and the tree budget (\<open>budget.go\<close>). \<open>run_world\<close> is what a start changes; \<open>run_env\<close>
  what it reads: the rows of tasks and profiles, the runner and the default registry of providers, the clock, the outcome of each statement, and
  the texts made from amounts, instants and errors. Amounts of money are of a type \<open>'f\<close> with its comparison.
\<close>

section \<open>Options\<close>

record start_options =
  so_model :: string
  so_purpose :: string
  so_origin :: string
  so_interrupt :: bool
  so_originHost :: string
  so_replyChatID :: int
  so_profileID :: int
  so_profileSet :: bool
  so_failoverOf :: string
  so_notBefore :: "gotime option"
  so_notify :: bool
  so_notifySet :: bool
  so_isolation :: bool
  so_probe :: "bool option"
  so_inheritedLevel :: bool
  so_attachments :: string

type_synonym start_option = "start_options \<Rightarrow> start_options"

definition no_options :: start_options where
  "no_options = \<lparr>so_model = [], so_purpose = [], so_origin = [], so_interrupt = False, so_originHost = [], so_replyChatID = 0, so_profileID = 0,
     so_profileSet = False, so_failoverOf = [], so_notBefore = None, so_notify = False, so_notifySet = False, so_isolation = False, so_probe = None,
     so_inheritedLevel = False, so_attachments = []\<rparr>"

definition WithInheritedLevel :: start_option where "WithInheritedLevel = (\<lambda>opt. opt\<lparr>so_inheritedLevel := True\<rparr>)"
definition WithOrigin :: "string \<Rightarrow> start_option" where "WithOrigin s = (\<lambda>opt. opt\<lparr>so_origin := s\<rparr>)"
definition WithOriginHost :: "string \<Rightarrow> start_option" where "WithOriginHost h = (\<lambda>opt. opt\<lparr>so_originHost := h\<rparr>)"
definition WithReplyChat :: "int \<Rightarrow> start_option" where "WithReplyChat c = (\<lambda>opt. opt\<lparr>so_replyChatID := c\<rparr>)"
definition WithProfile :: "int \<Rightarrow> start_option" where "WithProfile i = (\<lambda>opt. opt\<lparr>so_profileID := i, so_profileSet := True\<rparr>)"
definition WithFailoverOf :: "string \<Rightarrow> start_option" where "WithFailoverOf r = (\<lambda>opt. opt\<lparr>so_failoverOf := r\<rparr>)"
definition WithNotBefore :: "gotime \<Rightarrow> start_option" where "WithNotBefore t = (\<lambda>opt. opt\<lparr>so_notBefore := Some t\<rparr>)"
definition WithNotifyOnFinish :: "bool \<Rightarrow> start_option" where "WithNotifyOnFinish b = (\<lambda>opt. opt\<lparr>so_notify := b, so_notifySet := True\<rparr>)"
definition WithInterrupt :: start_option where "WithInterrupt = (\<lambda>opt. opt\<lparr>so_interrupt := True\<rparr>)"
definition WithPurpose :: "string \<Rightarrow> start_option" where "WithPurpose p = (\<lambda>opt. opt\<lparr>so_purpose := p\<rparr>)"
definition WithModel :: "string \<Rightarrow> start_option" where "WithModel m = (\<lambda>opt. opt\<lparr>so_model := m\<rparr>)"
definition WithAttachments :: "string \<Rightarrow> start_option" where "WithAttachments a = (\<lambda>opt. opt\<lparr>so_attachments := a\<rparr>)"

definition resolveStartOptions :: "start_option list \<Rightarrow> start_options" where
  "resolveStartOptions opts = fold (\<lambda>f opt. f opt) opts no_options"

definition RunPurposeUser :: string where "RunPurposeUser = ''user''"
definition RunPurposeProbe :: string where "RunPurposeProbe = ''probe''"

definition startPurpose :: "start_option list \<Rightarrow> string" where
  "startPurpose opts = (let p = so_purpose (resolveStartOptions opts) in if p = RunPurposeUser then [] else p)"

definition startModel :: "start_option list \<Rightarrow> string" where
  "startModel opts = so_model (resolveStartOptions opts)"

definition validateIsolation :: "runner \<Rightarrow> string \<Rightarrow> start_option list \<Rightarrow> start_error option" where
  "validateIsolation r provider opts =
     (if \<not> so_isolation (resolveStartOptions opts) then None
      else if startPurpose opts = [] then Some IsolationNeedsPurpose
      else if \<not> IsClaude r provider then Some (IsolationUnsupported provider) else None)"

definition validateProbe :: "runner \<Rightarrow> string \<Rightarrow> start_option list \<Rightarrow> start_error option" where
  "validateProbe r provider opts = (let opt = resolveStartOptions opts in
     case so_probe opt of None \<Rightarrow> None
     | Some prepared \<Rightarrow> if so_purpose opt \<noteq> RunPurposeProbe then Some ProbeNeedsPurpose
         else if so_isolation opt then Some ProbeExcludesIsolation
         else if \<not> IsClaude r provider then Some (IsolationUnsupported provider)
         else if \<not> prepared then Some ProbeNeedsLaunch else None)"

section \<open>What a start reads and changes\<close>

definition SetupRunning :: string where "SetupRunning = ''running''"

record 'f task_facts =
  tf_Archived :: bool
  tf_SetupStatus :: string
  tf_BudgetUSD :: "'f option"

record chat_row =
  ch_ID :: int
  ch_TaskID :: int
  ch_Title :: string
  ch_Archived :: bool
  ch_Provider :: "string option"

record agent_profile =
  ap_ID :: int
  ap_Name :: string
  ap_Provider :: string
  ap_PermissionMode :: string
  ap_AutoAccept :: bool
  ap_ThinkingLevel :: string
  ap_Model :: string
  ap_OnRateLimit :: string
  ap_FallbackProfileID :: "int option"

record run_settings =
  rt_Provider :: string
  rt_PermissionMode :: string
  rt_AutoAccept :: bool
  rt_Model :: string
  rt_ProfileID :: int

record run_world =
  w_queue :: queue_db
  w_reg :: registry
  w_chats :: "chat_row list"
  w_chatSeq :: int
  w_budgetNotified :: "int set"
  w_ids :: nat

record 'f run_env =
  en_runner :: runner
  en_providers :: runner
  en_task :: "int \<Rightarrow> 'f task_facts tree_task option"
  en_profile :: "int \<Rightarrow> agent_profile option"
  en_latestRun :: "int \<Rightarrow> run_settings option option"
  en_knownCost :: "int \<Rightarrow> 'f option"
  en_ge :: "'f \<Rightarrow> 'f \<Rightarrow> bool"
  en_cooling :: "string \<Rightarrow> gotime option"
  en_gate :: "(string \<Rightarrow> gotime \<Rightarrow> gate option) option"
  en_now :: gotime
  en_newRunID :: "nat \<Rightarrow> string option"
  en_budgetText :: "int \<Rightarrow> string"
  en_errText :: "start_error \<Rightarrow> string"
  en_timeText :: "gotime \<Rightarrow> string"
  en_notifyParent :: bool
  en_debounce :: duration
  en_maxHold :: duration
  en_closing :: bool
  en_starter :: bool
  en_decodes :: "string \<Rightarrow> bool"
  en_okBind :: bool
  en_okPersist :: bool
  en_okEnqueue :: "bool \<times> bool \<times> bool"
  en_okChild :: "bool \<times> bool \<times> bool \<times> bool"
  en_okNext :: bool
  en_okMark :: bool
  en_okCancel :: bool
  en_okList :: bool

definition GetChat :: "run_world \<Rightarrow> int \<Rightarrow> chat_row option" where
  "GetChat w c = find (\<lambda>r. ch_ID r = c) (w_chats w)"

definition ListChatsByTask :: "run_world \<Rightarrow> int \<Rightarrow> bool \<Rightarrow> chat_row list" where
  "ListChatsByTask w taskID includeArchived =
     sort_key ch_ID (filter (\<lambda>r. ch_TaskID r = taskID \<and> (includeArchived \<or> \<not> ch_Archived r)) (w_chats w))"

definition DefaultChat :: "run_world \<Rightarrow> int \<Rightarrow> chat_row option" where
  "DefaultChat w taskID = (case ListChatsByTask w taskID True of [] \<Rightarrow> None | c # _ \<Rightarrow> Some c)"

definition BindChatProvider :: "bool \<Rightarrow> int \<Rightarrow> string \<Rightarrow> run_world \<Rightarrow> chat_row option \<times> run_world" where
  "BindChatProvider ok c provider w = (if \<not> ok then (None, w)
     else let w' = w\<lparr>w_chats := map (\<lambda>r. if ch_ID r = c \<and> ch_Provider r = None then r\<lparr>ch_Provider := Some provider\<rparr> else r) (w_chats w)\<rparr>
          in (GetChat w' c, w'))"

section \<open>The tree budget\<close>

definition budgetedOrigin :: "string \<Rightarrow> bool" where
  "budgetedOrigin origin \<longleftrightarrow> origin = ChatQueueSourceAgent \<or> PluginSourceID origin \<noteq> None"

definition RearmBudgetNotify :: "int \<Rightarrow> run_world \<Rightarrow> run_world" where
  "RearmBudgetNotify rootID w = w\<lparr>w_budgetNotified := w_budgetNotified w - {rootID}\<rparr>"

definition config_of :: "run_settings \<Rightarrow> run_config" where
  "config_of p = \<lparr>rc_Provider = rt_Provider p, rc_PermissionMode = rt_PermissionMode p, rc_AutoAccept = rt_AutoAccept p, rc_ThinkingLevel = [],
     rc_Model = rt_Model p, rc_ReplyChatID = 0, rc_ProfileID = rt_ProfileID p, rc_FailoverOf = [], rc_RetryTransient = False\<rparr>"

definition notifyBudgetReached :: "'f run_env \<Rightarrow> int \<Rightarrow> run_world \<Rightarrow> run_world" where
  "notifyBudgetReached env rootID w =
     (if rootID \<in> w_budgetNotified w then w
      else let w1 = w\<lparr>w_budgetNotified := insert rootID (w_budgetNotified w)\<rparr> in
        if \<not> en_notifyParent env \<or> en_closing env then w1
        else case ListChatsByTask w1 rootID False of
          [] \<Rightarrow> w1
        | c # _ \<Rightarrow> (case en_latestRun env (ch_ID c) of
            Some (Some prev) \<Rightarrow> w1\<lparr>w_queue := snd (EnqueueChildEvent (en_okChild env)
               \<lparr>ce_ChatID = ch_ID c, ce_RunIDs = [], ce_Block = en_budgetText env rootID, ce_RunConfig = Some (config_of prev), ce_Now = en_now env,
                ce_Debounce = en_debounce env, ce_MaxHold = en_maxHold env\<rparr> (w_queue w1))\<rparr>
          | _ \<Rightarrow> w1))"

definition checkBudget :: "'f run_env \<Rightarrow> string \<Rightarrow> int \<times> 'f task_facts tree_task \<Rightarrow> run_world \<Rightarrow> start_error option \<times> run_world" where
  "checkBudget env origin rt w = (case tf_BudgetUSD (tt_row (snd rt)) of
     None \<Rightarrow> (None, w)
   | Some budget \<Rightarrow> if \<not> budgetedOrigin origin then (None, w)
       else (case en_knownCost env (fst rt) of
         None \<Rightarrow> (Some CostUnreadable, w)
       | Some known \<Rightarrow> if en_ge env known budget then (Some (BudgetExceededError (fst rt)), notifyBudgetReached env (fst rt) w)
           else (None, RearmBudgetNotify (fst rt) w)))"

definition CheckTreeBudget :: "'f run_env \<Rightarrow> int \<Rightarrow> string \<Rightarrow> run_world \<Rightarrow> start_error option \<times> run_world" where
  "CheckTreeBudget env parentTaskID origin w =
     (if \<not> budgetedOrigin origin then (None, w)
      else case treeRootTask (en_task env) parentTaskID of
        None \<Rightarrow> (Some RootUnreadable, w)
      | Some rt \<Rightarrow> checkBudget env origin rt w)"

section \<open>Validation\<close>

record start_params =
  sp_taskID :: int
  sp_chatID :: int
  sp_provider :: string
  sp_prompt :: string
  sp_perm :: permission_settings
  sp_thinkingLevel :: string
  sp_catalog :: provider_info

definition resolveChat :: "run_world \<Rightarrow> int \<Rightarrow> int \<Rightarrow> start_error + chat_row" where
  "resolveChat w taskID chatID =
     (if chatID = 0 then (case DefaultChat w taskID of Some c \<Rightarrow> Inr c | None \<Rightarrow> Inl ChatUnreadable)
      else case GetChat w chatID of
        None \<Rightarrow> Inl ChatUnreadable
      | Some c \<Rightarrow> if ch_TaskID c \<noteq> taskID then Inl (ChatOfOtherTask chatID (ch_TaskID c)) else Inr c)"

definition resolveModel :: "'f run_env \<Rightarrow> string \<Rightarrow> string \<Rightarrow> int \<Rightarrow> settings_error + string" where
  "resolveModel env provider requested profileID = (let req =
     (if requested = [] \<and> profileID \<noteq> 0 then
        (case en_profile env profileID of Some p \<Rightarrow> if ap_Provider p = provider then ap_Model p else requested | None \<Rightarrow> requested)
      else requested) in ResolveModel (en_runner env) provider req)"

definition explicitLevel :: "'f run_env \<Rightarrow> start_option list \<Rightarrow> string \<Rightarrow> bool" where
  "explicitLevel env opts thinkingLevel = (let opt = resolveStartOptions opts in
     if thinkingLevel = [] then False
     else if so_inheritedLevel opt then False
     else if so_profileSet opt \<and> so_profileID opt \<noteq> 0 then
       (case en_profile env (so_profileID opt) of Some p \<Rightarrow> ap_ThinkingLevel p \<noteq> thinkingLevel | None \<Rightarrow> True)
     else True)"

text \<open>The checks of the request itself, once the chat is bound.\<close>

definition check_settings :: "'f run_env \<Rightarrow> int \<Rightarrow> int \<Rightarrow> string \<Rightarrow> string \<Rightarrow> permission_settings \<Rightarrow> string \<Rightarrow> string \<Rightarrow> bool \<Rightarrow> start_error + start_params" where
  "check_settings env taskID chatID provider prompt perm thinkingLevel model explicit =
     (case ProviderCatalogFor (en_runner env) provider of
        None \<Rightarrow> Inl (UnknownProvider provider)
      | Some catalog \<Rightarrow> (case ValidatePermissionSettings catalog perm of
          Some e \<Rightarrow> Inl (SettingsError e)
        | None \<Rightarrow> let perm' = (if ps_Mode perm = [] then perm\<lparr>ps_Mode := pi_DefaultMode catalog\<rparr> else perm) in
            if \<not> level_IsValid thinkingLevel then Inl (SettingsError (LevelShape thinkingLevel))
            else case ValidateModel catalog model of
              Some e \<Rightarrow> Inl (SettingsError e)
            | None \<Rightarrow> (case (if explicit then ResolveLevel catalog (RunnerKind (en_runner env) provider) model thinkingLevel True else Inr ([], False)) of
                Inl e \<Rightarrow> Inl (SettingsError e)
              | Inr _ \<Rightarrow> Inr \<lparr>sp_taskID = taskID, sp_chatID = chatID, sp_provider = provider, sp_prompt = prompt, sp_perm = perm',
                  sp_thinkingLevel = thinkingLevel, sp_catalog = catalog\<rparr>)))"

definition prepareStart :: "'f run_env \<Rightarrow> int \<Rightarrow> int \<Rightarrow> string \<Rightarrow> string \<Rightarrow> permission_settings \<Rightarrow> string \<Rightarrow> string \<Rightarrow> bool \<Rightarrow> run_world
    \<Rightarrow> (start_error + start_params) \<times> run_world" where
  "prepareStart env taskID chatID provider prompt perm thinkingLevel model explicit w =
     (case en_task env taskID of
        None \<Rightarrow> (Inl TaskUnreadable, w)
      | Some t \<Rightarrow> if tf_Archived (tt_row t) then (Inl (TaskArchived taskID), w)
          else (case resolveChat w taskID chatID of
            Inl e \<Rightarrow> (Inl e, w)
          | Inr c \<Rightarrow> if ch_Archived c then (Inl (ChatArchived (ch_ID c)), w)
              else (case (if ch_Provider c = None then BindChatProvider (en_okBind env) (ch_ID c) provider w else (Some c, w)) of
                (None, w') \<Rightarrow> (Inl (BindFailed (ch_ID c)), w')
              | (Some c', w') \<Rightarrow> if ch_Provider c' \<noteq> Some provider then (Inl (ProviderMismatch (ch_ID c') (the (ch_Provider c')) provider), w')
                  else (check_settings env taskID (ch_ID c') provider prompt perm thinkingLevel model explicit, w'))))"

section \<open>Start\<close>

definition setup_running :: "'f run_env \<Rightarrow> int \<Rightarrow> bool" where
  "setup_running env taskID = (case en_task env taskID of Some t \<Rightarrow> tf_SetupStatus (tt_row t) = SetupRunning | None \<Rightarrow> False)"

definition new_run :: "string \<Rightarrow> start_params \<Rightarrow> string \<Rightarrow> string \<Rightarrow> string \<Rightarrow> string \<Rightarrow> int \<Rightarrow> bool \<Rightarrow> string \<Rightarrow> string \<Rightarrow> int \<Rightarrow> int \<Rightarrow> live_run" where
  "new_run i p prompt model purpose origin rootID interrupt originHost failoverOf replyChatID profileID = \<lparr>rn_id = i, rn_taskID = sp_taskID p, rn_chatID = sp_chatID p,
     rn_treeRoot = rootID, rn_purpose = purpose, rn_provider = sp_provider p, rn_prompt = prompt, rn_perm = sp_perm p, rn_thinkingLevel = sp_thinkingLevel p,
     rn_model = model, rn_origin = origin, rn_originHost = originHost, rn_interrupt = interrupt, rn_replyChatID = replyChatID,
     rn_profileID = profileID, rn_failoverOf = failoverOf, rn_status = StatusRunning, rn_stopRequested = False\<rparr>"

text \<open>The run of a direct start: it reads every option but the origin host.\<close>

definition direct_run :: "start_option list \<Rightarrow> start_params \<Rightarrow> string \<Rightarrow> string \<Rightarrow> int \<Rightarrow> string \<Rightarrow> live_run" where
  "direct_run opts p prompt model rootID i = (let opt = resolveStartOptions opts in
     new_run i p prompt model (startPurpose opts) (so_origin opt) rootID (so_interrupt opt) [] (so_failoverOf opt) (so_replyChatID opt) (so_profileID opt))"

text \<open>The tail of a start, once its request is validated and its model resolved.\<close>

definition launch :: "'f run_env \<Rightarrow> (string \<Rightarrow> live_run) \<Rightarrow> run_world \<Rightarrow> (start_error + string) \<times> run_world" where
  "launch env mk w = (case en_newRunID env (w_ids w) of
     None \<Rightarrow> (Inl NoRunID, w)
   | Some i \<Rightarrow> (case start_registered (en_okPersist env) (mk i) (w_reg w) of (res, reg') \<Rightarrow> (res, w\<lparr>w_reg := reg', w_ids := Suc (w_ids w)\<rparr>)))"

definition Start :: "'f run_env \<Rightarrow> int \<Rightarrow> int \<Rightarrow> string \<Rightarrow> string \<Rightarrow> permission_settings \<Rightarrow> string \<Rightarrow> start_option list \<Rightarrow> run_world
    \<Rightarrow> (start_error + string) \<times> run_world" where
  "Start env taskID chatID provider prompt perm thinkingLevel opts w = (let opt = resolveStartOptions opts in
     case validateIsolation (en_providers env) provider opts of Some e \<Rightarrow> (Inl e, w) | None \<Rightarrow>
     case validateProbe (en_providers env) provider opts of Some e \<Rightarrow> (Inl e, w) | None \<Rightarrow>
     case prepareStart env taskID chatID provider prompt perm thinkingLevel (startModel opts) (explicitLevel env opts thinkingLevel) w of
       (Inl e, w1) \<Rightarrow> (Inl e, w1)
     | (Inr p, w1) \<Rightarrow>
       (case resolveModel env provider (startModel opts) (so_profileID opt) of
          Inl e \<Rightarrow> (Inl (SettingsError e), w1)
        | Inr model \<Rightarrow> (case ValidateModel (sp_catalog p) model of
            Some e \<Rightarrow> (Inl (SettingsError e), w1)
          | None \<Rightarrow> if setup_running env taskID then (Inl (SetupBusyError taskID), w1)
              else (case treeRootTask (en_task env) taskID of
                None \<Rightarrow> (Inl RootUnreadable, w1)
              | Some rt \<Rightarrow> (case checkBudget env (so_origin opt) rt w1 of
                  (Some e, w2) \<Rightarrow> (Inl e, w2)
                | (None, w2) \<Rightarrow> launch env (direct_run opts p prompt model (fst rt)) w2)))))"

end
