(* ===== verification/ChatQueueProps.thy ===== *)
theory ChatQueueProps
  imports ChatQueue
begin

text \<open>
  What the queue of prompts promises: its bounds and the life of a row over every history of statements,
  the order of delivery, and that a child event is queued or leaves no trace.
\<close>

section \<open>Updates\<close>

definition keeps_place :: "(queue_item \<Rightarrow> queue_item) \<Rightarrow> bool" where
  "keeps_place f \<longleftrightarrow> (\<forall>i. qi_ID (f i) = qi_ID i \<and> qi_ChatID (f i) = qi_ChatID i \<and> qi_Source (f i) = qi_Source i)"

definition sound_status :: "queue_item \<Rightarrow> bool" where
  "sound_status i \<longleftrightarrow> qi_Status i \<in> {ChatQueueStatusQueued, ChatQueueStatusDelivered, ChatQueueStatusCancelled}
     \<and> (qi_RunID i \<noteq> None \<longleftrightarrow> qi_Status i = ChatQueueStatusDelivered)"

definition queue_wf :: "queue_db \<Rightarrow> bool" where
  "queue_wf db \<longleftrightarrow> sorted_wrt (<) (map qi_ID (qd_rows db)) \<and> (\<forall>i\<in>set (qd_rows db). qi_ID i \<le> qd_seq db \<and> sound_status i)
     \<and> (\<forall>c. length (queued_in c db) \<le> chatQueueBound \<and> length (filter (is_child_event c) (qd_rows db)) \<le> 1)"

lemma length_filter_map_if:
  assumes "\<And>x. x \<in> set xs \<Longrightarrow> Q (if P x then f x else x) \<Longrightarrow> Q x"
  shows "length (filter Q (map (\<lambda>x. if P x then f x else x) xs)) \<le> length (filter Q xs)"
  using assms
proof (induction xs)
  case (Cons x xs)
  let ?g = "\<lambda>x. if P x then f x else x"
  have "length (filter Q (map ?g xs)) \<le> length (filter Q xs)" by (rule Cons.IH) (use Cons.prems in auto)
  moreover have "Q (?g x) \<Longrightarrow> Q x" by (rule Cons.prems [OF list.set_intros(1)])
  ultimately show ?case by (cases "Q (?g x)"; cases "Q x") simp_all
qed simp

lemma update_where_rows [simp]:
  "qd_rows (snd (update_where P f db)) = map (\<lambda>i. if P i then f i else i) (qd_rows db)"
  "qd_seq (snd (update_where P f db)) = qd_seq db" "qd_notified (snd (update_where P f db)) = qd_notified db"
  by (simp_all add: update_where_def)

lemma update_where_wf [inv_intros]:
  assumes wf: "queue_wf db" and f: "keeps_place f" and ok: "\<And>i. P i \<Longrightarrow> sound_status i \<Longrightarrow> sound_status (f i)"
    and q: "\<And>i. i \<in> set (qd_rows db) \<Longrightarrow> P i \<Longrightarrow> queued (f i) \<Longrightarrow> queued i"
  shows "queue_wf (snd (update_where P f db))"
proof -
  let ?g = "\<lambda>i. if P i then f i else i"
  have ids: "map qi_ID (map ?g (qd_rows db)) = map qi_ID (qd_rows db)" using f by (simp add: keeps_place_def)
  have "length (queued_in c (snd (update_where P f db))) \<le> length (queued_in c db)" for c
    unfolding queued_in_def update_where_rows by (rule length_filter_map_if) (use f q in \<open>auto simp: keeps_place_def split: if_splits\<close>)
  moreover have "length (filter (is_child_event c) (qd_rows (snd (update_where P f db)))) \<le> length (filter (is_child_event c) (qd_rows db))" for c
    unfolding update_where_rows
    by (rule length_filter_map_if) (use f q in \<open>auto simp: keeps_place_def is_child_event_def split: if_splits\<close>)
  moreover have "\<forall>i\<in>set (map ?g (qd_rows db)). qi_ID i \<le> qd_seq db \<and> sound_status i"
    using wf f ok by (auto simp: queue_wf_def keeps_place_def)
  ultimately show ?thesis using wf unfolding queue_wf_def update_where_rows ids by (meson order_trans)
qed

lemma insert_item_wf [inv_intros]:
  assumes wf: "queue_wf db" and i: "\<And>k. qi_ID (mk k) = k" "\<And>k. qi_ChatID (mk k) = c" "\<And>k. sound_status (mk k)"
    and room: "length (queued_in c db) < chatQueueBound"
    and child: "\<And>k. qi_Source (mk k) = ChatQueueSourceChildEvent \<Longrightarrow> filter (is_child_event c) (qd_rows db) = []"
  shows "queue_wf (insert_item mk db)"
proof -
  have "length (queued_in c' (insert_item mk db)) \<le> chatQueueBound" for c'
    using wf room i(2) by (cases "c' = c") (auto simp: queued_in_def insert_item_def queue_wf_def)
  moreover have "length (filter (is_child_event c') (qd_rows (insert_item mk db))) \<le> 1" for c'
    using wf child i(2) by (cases "c' = c") (auto simp: insert_item_def queue_wf_def is_child_event_def)
  ultimately show ?thesis using wf i by (auto simp: queue_wf_def insert_item_def sorted_wrt_append)
qed

lemma notified_wf [simp]: "queue_wf (db\<lparr>qd_notified := m\<rparr>) \<longleftrightarrow> queue_wf db"
  by (simp add: queue_wf_def queued_in_def)

lemma queued_simps [simp]: "queued (i\<lparr>qi_NotBefore := t\<rparr>) = queued i" "queued (i\<lparr>qi_UpdatedAt := u\<rparr>) = queued i"
  "queued (i\<lparr>qi_Prompt := p\<rparr>) = queued i" "sound_status (i\<lparr>qi_NotBefore := t\<rparr>) = sound_status i"
  "sound_status (i\<lparr>qi_UpdatedAt := u\<rparr>) = sound_status i" "sound_status (i\<lparr>qi_Prompt := p\<rparr>) = sound_status i"
  by (simp_all add: queued_def sound_status_def)

lemma new_item_simps [simp]:
  "qi_ID (new_item s now k) = k" "qi_ChatID (new_item s now k) = qs_ChatID s" "qi_Source (new_item s now k) = qs_Source s"
  "queued (new_item s now k)" "sound_status (new_item s now k)"
  by (simp_all add: new_item_def queued_def sound_status_def status_defs)

section \<open>Histories\<close>

datatype queue_event =
  SendEv "bool \<times> bool \<times> bool" queue_send gotime
| ChildEv "bool \<times> bool \<times> bool \<times> bool" child_event_input
| HoldEv bool int "gotime option" gotime
| ReleaseEv bool string gotime
| DeliveredEv bool int string gotime
| CancelledEv bool int string string gotime
| ClaimEv bool "string list" gotime

fun queue_apply :: "queue_event \<Rightarrow> queue_db \<Rightarrow> queue_db" where
  "queue_apply (SendEv oks s now) db = snd (EnqueueChatPromptAt oks s now db)"
| "queue_apply (ChildEv oks e) db = snd (EnqueueChildEvent oks e db)"
| "queue_apply (HoldEv ok i t now) db = snd (SetQueuedNotBefore ok i t now db)"
| "queue_apply (ReleaseEv ok p now) db = snd (ReleaseHeldRetries ok p now db)"
| "queue_apply (DeliveredEv ok i r now) db = snd (MarkDelivered ok i r now db)"
| "queue_apply (CancelledEv ok i k r now) db = snd (MarkCancelled ok i k r now db)"
| "queue_apply (ClaimEv ok run_ids t) db = snd (ClaimRunsParentNotified ok run_ids t db)"

fun send_source_ok :: "queue_event \<Rightarrow> bool" where
  "send_source_ok (SendEv oks s now) \<longleftrightarrow> qs_Source s \<noteq> ChatQueueSourceChildEvent"
| "send_source_ok e \<longleftrightarrow> True"

definition empty_queue :: "(string \<Rightarrow> gotime option option) \<Rightarrow> queue_db" where
  "empty_queue m = \<lparr>qd_rows = [], qd_seq = 0, qd_notified = m\<rparr>"

lemma hold_wf: "queue_wf db \<Longrightarrow> queue_wf (snd (update_where P (\<lambda>r. r\<lparr>qi_NotBefore := t, qi_UpdatedAt := now\<rparr>) db))"
  by (rule update_where_wf) (auto simp: keeps_place_def)

lemma Enqueue_wf:
  assumes "queue_wf db" "qs_Source s \<noteq> ChatQueueSourceChildEvent"
  shows "queue_wf (snd (EnqueueChatPromptAt oks s now db))"
proof -
  have "queue_wf (insert_item (new_item s now) db)" if "length (queued_in (qs_ChatID s) db) < chatQueueBound"
    by (rule insert_item_wf [where c = "qs_ChatID s"]) (use assms that in auto)
  then show ?thesis using assms(1)
    by (auto simp: EnqueueChatPromptAt_def insert_prompt_def Let_def split: prod.splits)
qed

lemma append_block_wf:
  assumes "queue_wf db" "i \<in> set (qd_rows db)" "queued i"
  shows "queue_wf (snd (update_where (\<lambda>r. qi_ID r = qi_ID i) (append_block e) db))"
  by (rule update_where_wf [OF assms(1)]) (auto simp: keeps_place_def append_block_def)

lemma sort_key_Cons_in: "sort_key k (filter P xs) = y # ys \<Longrightarrow> y \<in> set xs \<and> P y"
  using set_sort [of k "filter P xs"] by auto

lemma sort_key_Nil_iff [simp]: "sort_key k xs = [] \<longleftrightarrow> xs = []"
  by (metis length_0_conv length_sort)

lemma append_or_insert_cases:
  obtains (append) i "is" where "sort_key qi_ID (filter (is_child_event (ce_ChatID e)) (qd_rows db)) = i # is"
      "i \<in> set (qd_rows db)" "is_child_event (ce_ChatID e) i"
      "append_or_insert e db = (Inr (qi_ID i, True), snd (update_where (\<lambda>r. qi_ID r = qi_ID i) (append_block e) db))"
    | (insert) "filter (is_child_event (ce_ChatID e)) (qd_rows db) = []" "length (queued_in (ce_ChatID e) db) < chatQueueBound"
      "append_or_insert e db = (Inr (qd_seq db + 1, False), insert_item (child_item e) db)"
    | (full) "append_or_insert e db = (Inl QueueFull, db)"
proof (cases "sort_key qi_ID (filter (is_child_event (ce_ChatID e)) (qd_rows db))")
  case Nil
  then show ?thesis using insert full by (cases "chatQueueBound \<le> length (queued_in (ce_ChatID e) db)") (simp_all add: append_or_insert_def)
next
  case (Cons i "is")
  then show ?thesis using append [OF Cons] sort_key_Cons_in [OF Cons] by (simp add: append_or_insert_def)
qed

lemma append_or_insert_wf:
  assumes wf: "queue_wf db"
  shows "queue_wf (snd (append_or_insert e db))"
proof (cases rule: append_or_insert_cases [of e db])
  case (append i "is")
  then show ?thesis using append_block_wf [OF wf, of i e] by (simp add: is_child_event_def)
next
  case insert
  have "queue_wf (insert_item (child_item e) db)"
    by (rule insert_item_wf [OF wf, where c = "ce_ChatID e"]) (use insert in \<open>simp_all add: child_item_def\<close>)
  then show ?thesis using insert by simp
qed (use wf in simp)

lemma ChildEventTx_snd:
  "snd (enqueueChildEventTx oks e db) \<in> {db, db\<lparr>qd_notified := snd (claim_gate e db)\<rparr>,
     snd (append_or_insert e (db\<lparr>qd_notified := snd (claim_gate e db)\<rparr>))}"
  by (simp add: enqueueChildEventTx_def split_beta)

lemma ChildEventTx_wf:
  assumes "queue_wf db"
  shows "queue_wf (snd (enqueueChildEventTx oks e db))"
  using ChildEventTx_snd [of oks e db] append_or_insert_wf [of "db\<lparr>qd_notified := snd (claim_gate e db)\<rparr>" e] assms by auto

lemma EnqueueChildEvent_snd:
  "snd (EnqueueChildEvent oks e db) \<in> {db, snd (enqueueChildEventTx (fst oks, fst (snd oks)) e db)}"
  by (auto simp: EnqueueChildEvent_def split: prod.splits sum.splits)

lemma queue_apply_wf:
  assumes "queue_wf db" "send_source_ok ev"
  shows "queue_wf (queue_apply ev db)"
proof (cases ev)
  case (ChildEv oks e)
  then show ?thesis using EnqueueChildEvent_snd [of oks e db] ChildEventTx_wf [OF assms(1)] assms(1) by auto
next
  case (DeliveredEv ok i r now)
  have "queue_wf (snd (update_where (\<lambda>x. qi_ID x = i \<and> queued x)
     (\<lambda>x. x\<lparr>qi_Status := ChatQueueStatusDelivered, qi_RunID := Some r, qi_UpdatedAt := now\<rparr>) db))"
    by (rule update_where_wf [OF assms(1)]) (auto simp: keeps_place_def sound_status_def)
  then show ?thesis using DeliveredEv assms(1) by (auto simp: MarkDelivered_def Let_def update_where_def)
next
  case (CancelledEv ok i k r now)
  have "queue_wf (snd (update_where (\<lambda>x. qi_ID x = i \<and> queued x)
     (\<lambda>x. x\<lparr>qi_Status := ChatQueueStatusCancelled, qi_CancelReason := r, qi_CancelKind := k, qi_UpdatedAt := now\<rparr>) db))"
    by (rule update_where_wf [OF assms(1)]) (auto simp: keeps_place_def sound_status_def queued_def status_defs)
  then show ?thesis using CancelledEv assms(1) by (auto simp: MarkCancelled_def Let_def update_where_def)
next
  case (HoldEv ok i t now)
  then show ?thesis using assms(1) hold_wf [OF assms(1), where P = "\<lambda>r. qi_ID r = i \<and> queued r" and t = t and now = now]
    by (auto simp: SetQueuedNotBefore_def Let_def update_where_def)
qed (use assms Enqueue_wf hold_wf in \<open>auto simp: ReleaseHeldRetries_def ClaimRunsParentNotified_def Let_def split: prod.splits\<close>)

lemma queue_history_wf:
  assumes "queue_wf db" "\<forall>e\<in>set es. send_source_ok e"
  shows "queue_wf (fold queue_apply es db)"
  using assms by (induction es arbitrary: db) (auto intro: queue_apply_wf)







definition demo_send :: "string \<Rightarrow> int \<Rightarrow> queue_send" where
  "demo_send p prio = \<lparr>qs_ChatID = 7, qs_Prompt = p, qs_RunConfig = None, qs_Source = ChatQueueSourceHuman, qs_Priority = prio,
     qs_FromTaskID = 0, qs_FromChatID = 0, qs_Attachments = [], qs_NotBefore = None\<rparr>"


section \<open>The order of delivery\<close>

lemma sort_key_first:
  assumes "sort_key k xs = y # ys" "x \<in> set xs"
  shows "k y \<le> k x"
  using assms sorted_sort_key [of k xs] set_sort [of k xs] by force

lemma NextQueuedAt_Some_iff:
  assumes "queue_wf db"
  shows "NextQueuedAt True c now db = Some (Some i) \<longleftrightarrow> i \<in> set (qd_rows db) \<and> deliverable c now i
     \<and> (\<forall>j\<in>set (qd_rows db). deliverable c now j \<longrightarrow> delivery_order i \<le> delivery_order j)"
proof -
  let ?xs = "filter (deliverable c now) (qd_rows db)"
  have inj: "i = j" if "i \<in> set ?xs" "j \<in> set ?xs" "delivery_order i = delivery_order j" for i j
    using that assms by (auto simp: delivery_order_def queue_wf_def strict_sorted_iff distinct_map inj_on_def)
  have first: "sort_key delivery_order ?xs = y # ys \<Longrightarrow> y \<in> set ?xs \<and> (\<forall>x\<in>set ?xs. delivery_order y \<le> delivery_order x)" for y ys
    using sort_key_first [of delivery_order ?xs y ys] sort_key_Cons_in [of delivery_order "deliverable c now" "qd_rows db" y ys] by auto
  show ?thesis
  proof (cases "sort_key delivery_order ?xs")
    case Nil
    then show ?thesis by (auto simp: NextQueuedAt_def filter_empty_conv)
  next
    case (Cons y ys)
    then show ?thesis using first [OF Cons] inj [of y i] by (auto simp: NextQueuedAt_def intro: antisym)
  qed
qed

lemma NextQueuedAt_None_iff:
  "NextQueuedAt True c now db = Some None \<longleftrightarrow> (\<forall>i\<in>set (qd_rows db). \<not> deliverable c now i)"
  by (auto simp: NextQueuedAt_def filter_empty_conv split: list.splits dest!: sort_key_Cons_in)

lemma EarliestHeld_bound:
  assumes "i \<in> set (qd_rows db)" "queued i" "qi_NotBefore i = Some h" "now < h"
  shows "\<exists>t. EarliestHeldNotBefore True now db = Some (Some t) \<and> now < t \<and> t \<le> h"
proof -
  let ?ts = "map (\<lambda>r. the (qi_NotBefore r)) (filter (future_hold now) (qd_rows db))"
  have h: "h \<in> set ?ts" using assms by (force simp: future_hold_def)
  obtain t ts where s: "sort ?ts = t # ts" using h by (metis empty_iff empty_set list.exhaust sort_key_Nil_iff)
  have "t \<in> set ?ts" using s set_sort [of "\<lambda>x. x" ?ts] by (metis list.set_intros(1))
  then have "now < t" by (auto simp: future_hold_def split: option.splits)
  moreover have "t \<le> h" using sort_key_first [of "\<lambda>x. x" ?ts t ts h] s h by simp
  ultimately show ?thesis using s by (simp add: EarliestHeldNotBefore_def)
qed

text \<open>
  C24. The next prompt of a chat is the one of highest priority, and the oldest of that priority, among the
  queued ones whose hold has passed; a held prompt never blocks one behind it. When nothing is
  deliverable although the chat has a prompt queued, the instant the wake timer is armed for lies ahead
  and not after the hold of any prompt of the chat, so no hold is slept through.
\<close>

theorem next_prompt_is_first_due:
  assumes "queue_wf db"
  shows "(NextQueuedAt True c now db = Some (Some i) \<longleftrightarrow> i \<in> set (qd_rows db) \<and> deliverable c now i
       \<and> (\<forall>j\<in>set (qd_rows db). deliverable c now j \<longrightarrow>
             qi_Priority j < qi_Priority i \<or> qi_Priority j = qi_Priority i \<and> qi_ID i \<le> qi_ID j))
     \<and> (NextQueuedAt True c now db = Some None \<longrightarrow> queued_in c db \<noteq> [] \<longrightarrow>
         (\<exists>t. EarliestHeldNotBefore True now db = Some (Some t) \<and> now < t
            \<and> (\<forall>j\<in>set (queued_in c db). \<exists>h. qi_NotBefore j = Some h \<and> t \<le> h)))"
proof (intro conjI impI)
  show "NextQueuedAt True c now db = Some (Some i) \<longleftrightarrow> i \<in> set (qd_rows db) \<and> deliverable c now i
       \<and> (\<forall>j\<in>set (qd_rows db). deliverable c now j \<longrightarrow>
             qi_Priority j < qi_Priority i \<or> qi_Priority j = qi_Priority i \<and> qi_ID i \<le> qi_ID j)"
    unfolding NextQueuedAt_Some_iff [OF assms] by (auto simp: delivery_order_def less_eq_prod_def)
next
  assume none: "NextQueuedAt True c now db = Some None" and some: "queued_in c db \<noteq> []"
  have hold: "\<exists>h. qi_NotBefore j = Some h \<and> now < h \<and> j \<in> set (qd_rows db) \<and> queued j" if "j \<in> set (queued_in c db)" for j
    using none that by (auto simp: NextQueuedAt_None_iff deliverable_def queued_in_def not_le split: option.splits)
  obtain j where "j \<in> set (queued_in c db)" using some by (cases "queued_in c db") auto
  from hold [OF this] EarliestHeld_bound obtain t where t: "EarliestHeldNotBefore True now db = Some (Some t)" "now < t" by blast
  moreover have "t \<le> h" if "j \<in> set (queued_in c db)" "qi_NotBefore j = Some h" for j h
    using hold [OF that(1)] EarliestHeld_bound [of j db h now] that t by auto
  ultimately show "\<exists>t. EarliestHeldNotBefore True now db = Some (Some t) \<and> now < t
            \<and> (\<forall>j\<in>set (queued_in c db). \<exists>h. qi_NotBefore j = Some h \<and> t \<le> h)"
    using hold by blast
qed

definition demo_queue :: queue_db where
  "demo_queue = fold queue_apply [SendEv (True, True, True) (demo_send ''held'' 1 \<lparr>qs_NotBefore := Some 50\<rparr>) 1,
     SendEv (True, True, True) (demo_send ''first'' 0) 2, SendEv (True, True, True) (demo_send ''second'' 0) 3] (empty_queue (\<lambda>r. None))"

lemma demo_queue_wf: "queue_wf demo_queue"
  unfolding demo_queue_def
  by (rule queue_history_wf) (auto simp: queue_wf_def empty_queue_def queued_in_def demo_send_def source_defs)

theorem next_prompt_is_first_due_witness:
  "map_option (map_option qi_Prompt) (NextQueuedAt True 7 10 demo_queue) = Some (Some ''first'')
   \<and> map_option (map_option qi_Prompt) (NextQueuedAt True 7 50 demo_queue) = Some (Some ''held'')"
proof -
  define held where "held = new_item (demo_send ''held'' 1 \<lparr>qs_NotBefore := Some 50\<rparr>) 1 1"
  define first where "first = new_item (demo_send ''first'' 0) 2 2"
  have rows: "qd_rows demo_queue = [held, first, new_item (demo_send ''second'' 0) 3 3]"
    by (simp add: demo_queue_def EnqueueChatPromptAt_def insert_prompt_def insert_item_def queued_in_def chatQueueBound_def
        empty_queue_def held_def first_def Let_def)
  have "NextQueuedAt True 7 10 demo_queue = Some (Some first)" "NextQueuedAt True 7 50 demo_queue = Some (Some held)"
    unfolding conjunct1 [OF next_prompt_is_first_due [OF demo_queue_wf]] rows
    by (auto simp: deliverable_def queued_def held_def first_def new_item_def demo_send_def)
  then show ?thesis by (simp add: held_def first_def new_item_def demo_send_def)
qed

section \<open>Child events\<close>

lemma claimRunsTx_changes:
  "snd (claimRunsTx is t m) r = (if r \<in> set is \<and> m r = Some None then Some (Some t) else m r)"
  by (induction "is" arbitrary: m) (auto simp: split_beta)

definition carries_block :: "child_event_input \<Rightarrow> queue_item \<Rightarrow> bool" where
  "carries_block e i \<longleftrightarrow> is_child_event (ce_ChatID e) i \<and> suffix (ce_Block e) (qi_Prompt i)
     \<and> (\<exists>t. qi_NotBefore i = Some t \<and> t \<le> max (ce_Now e) (ce_Now e + ce_Debounce e)
          \<and> (ce_MaxHold e \<le> ce_Debounce e \<or> t \<le> max (ce_Now e) (qi_CreatedAt i + ce_MaxHold e)))"

lemma append_block_carries: "is_child_event (ce_ChatID e) i \<Longrightarrow> carries_block e (append_block e i)"
  by (auto simp: carries_block_def append_block_def is_child_event_def queued_def pushed_hold_def Let_def suffix_def)

lemma child_item_carries: "carries_block e (child_item e k)"
  by (auto simp: carries_block_def child_item_def is_child_event_def new_item_def queued_def max_def)

lemma update_where_in: "i \<in> set (qd_rows db) \<Longrightarrow> P i \<Longrightarrow> f i \<in> set (qd_rows (snd (update_where P f db)))"
  by force

lemma ChildEventTx_ok:
  assumes "enqueueChildEventTx oks e db = (Inr (k, appended), db')"
  shows "(\<exists>i\<in>set (qd_rows db'). qi_ID i = k \<and> carries_block e i)
     \<and> (\<forall>r. qd_notified db' r = (if r \<in> set (ce_RunIDs e) \<and> qd_notified db r = Some None then Some (Some (ce_Now e)) else qd_notified db r))"
proof -
  let ?m = "snd (claim_gate e db)"
  have m: "?m r = (if r \<in> set (ce_RunIDs e) \<and> qd_notified db r = Some None then Some (Some (ce_Now e)) else qd_notified db r)" for r
    by (simp add: claim_gate_def claimRunsTx_changes)
  have ai: "append_or_insert e (db\<lparr>qd_notified := ?m\<rparr>) = (Inr (k, appended), db')"
    using assms by (auto simp: enqueueChildEventTx_def split_beta split: prod.splits if_splits)
  show ?thesis
  proof (cases rule: append_or_insert_cases [of e "db\<lparr>qd_notified := ?m\<rparr>"])
    case (append i "is")
    then have db': "k = qi_ID i" "db' = snd (update_where (\<lambda>r. qi_ID r = qi_ID i) (append_block e) (db\<lparr>qd_notified := ?m\<rparr>))"
      using ai by simp_all
    have "append_block e i \<in> set (qd_rows db')" unfolding db'(2) by (rule update_where_in) (use append in simp_all)
    moreover have "qi_ID (append_block e i) = k" using db'(1) by (simp add: append_block_def)
    ultimately show ?thesis using append_block_carries [OF append(3)] m db'(2) by auto
  next
    case insert
    then have "k = qd_seq db + 1" "db' = insert_item (child_item e) (db\<lparr>qd_notified := ?m\<rparr>)" using ai by simp_all
    then show ?thesis using m child_item_carries [of e "qd_seq db + 1"] by (simp add: insert_item_def child_item_def)
  next
    case full
    then show ?thesis using ai by simp
  qed
qed

lemma claimRunsTx_none: "(\<forall>r\<in>set is. m r \<noteq> Some None) \<Longrightarrow> claimRunsTx is t m = (0, m)"
  by (induction "is") auto

lemma claim_twice:
  assumes "\<forall>r. qd_notified db' r = (if r \<in> set (ce_RunIDs e) \<and> qd_notified db r = Some None then Some (Some t) else qd_notified db r)"
    and "ce_RunIDs e' \<noteq> []" "set (ce_RunIDs e') \<subseteq> set (ce_RunIDs e)"
  shows "EnqueueChildEvent (True, oks) e' db' = (Inl AlreadyNotified, db')"
proof -
  have "\<forall>r\<in>set (ce_RunIDs e'). qd_notified db' r \<noteq> Some None" using assms(1,3) by auto
  then have "claim_gate e' db' = (0, qd_notified db')" using assms(2) by (simp add: claim_gate_def claimRunsTx_none)
  then show ?thesis by (simp add: EnqueueChildEvent_def enqueueChildEventTx_def split: prod.splits)
qed

text \<open>
  C19. A report about finished child runs is queued or leaves no trace. Either the tables are as before (so
  nothing is claimed when the queue is full, when all runs were claimed before, or when a statement or the
  commit failed), or the chat holds a queued child event that ends with the report, held no longer than
  the debounce and, when appends push it on, the maximal hold, and exactly the unclaimed runs of the
  report are claimed at that instant. Any further report about those runs alone is then refused.
\<close>

theorem child_event_is_queued_or_leaves_no_trace:
  assumes "EnqueueChildEvent oks e db = (res, db')"
  shows "(db' = db \<or> (\<exists>i\<in>set (qd_rows db'). carries_block e i)
       \<and> (\<forall>r. qd_notified db' r = (if r \<in> set (ce_RunIDs e) \<and> qd_notified db r = Some None then Some (Some (ce_Now e)) else qd_notified db r)))
     \<and> (res \<in> {Inl QueueFull, Inl AlreadyNotified} \<longrightarrow> db' = db)
     \<and> (\<not> isl res \<longrightarrow> ce_RunIDs e' \<noteq> [] \<longrightarrow> set (ce_RunIDs e') \<subseteq> set (ce_RunIDs e) \<longrightarrow>
          EnqueueChildEvent (True, oks') e' db' = (Inl AlreadyNotified, db'))"
proof (cases "enqueueChildEventTx (fst oks, fst (snd oks)) e db")
  case (Pair tx d)
  show ?thesis
  proof (cases tx)
    case (Inl err)
    then show ?thesis using assms Pair by (auto simp: EnqueueChildEvent_def split: prod.splits)
  next
    case (Inr ka)
    then obtain k a where tx: "enqueueChildEventTx (fst oks, fst (snd oks)) e db = (Inr (k, a), d)" using Pair by (cases ka) auto
    note ok = ChildEventTx_ok [OF tx]
    have get: "GetChatQueueItem g k d \<notin> {Inl QueueFull, Inl AlreadyNotified}" for g
      by (simp add: GetChatQueueItem_def split: option.splits)
    have "db' = db \<and> isl res \<or> db' = d \<and> res \<notin> {Inl QueueFull, Inl AlreadyNotified}"
      using assms tx get by (auto simp: EnqueueChildEvent_def split: prod.splits sum.splits if_splits)
    then show ?thesis using ok claim_twice [OF conjunct2 [OF ok], where e' = e' and oks = oks'] by auto
  qed
qed

definition demo_event :: "string list \<Rightarrow> child_event_input" where
  "demo_event rs = \<lparr>ce_ChatID = 7, ce_RunIDs = rs, ce_Block = ''done'', ce_RunConfig = None, ce_Now = 100, ce_Debounce = 20, ce_MaxHold = 60\<rparr>"

theorem child_event_is_queued_or_leaves_no_trace_witness:
  "fst (EnqueueChildEvent (True, True, True, True) (demo_event [''r''])
     (snd (EnqueueChildEvent (True, True, True, True) (demo_event [''q'', ''r'']) (empty_queue (\<lambda>r. Some None))))) = Inl AlreadyNotified"
proof -
  let ?first = "EnqueueChildEvent (True, True, True, True) (demo_event [''q'', ''r'']) (empty_queue (\<lambda>r. Some None))"
  have "\<not> isl (fst ?first)"
    by (simp add: EnqueueChildEvent_def enqueueChildEventTx_def claim_gate_def append_or_insert_def demo_event_def empty_queue_def
        queued_in_def chatQueueBound_def insert_item_def child_item_def GetChatQueueItem_def)
  then show ?thesis
    using child_event_is_queued_or_leaves_no_trace [OF prod.collapse [symmetric], of "(True, True, True, True)" "demo_event [''q'', ''r'']"
        "empty_queue (\<lambda>r. Some None)" "demo_event [''r'']" "(True, True, True)"]
    by (simp add: demo_event_def)
qed

section \<open>Two senders at once\<close>

text \<open>The count and the insert are two statements: two senders that count before either inserts overrun the bound.\<close>

lemma interleaved_sends_overrun_the_bound:
  assumes "length (queued_in (qs_ChatID s) db) = 19" "qs_ChatID s' = qs_ChatID s"
  shows "length (queued_in (qs_ChatID s) db) < chatQueueBound
     \<and> length (queued_in (qs_ChatID s) (snd (insert_prompt (True, ok') s' now' (snd (insert_prompt (True, ok) s now db))))) = 21"
  using assms by (simp add: insert_prompt_def insert_item_def queued_in_def chatQueueBound_def Let_def)

end
