(* ===== verification/RunGuardProps.thy ===== *)
theory RunGuardProps
  imports RunGuard
begin

text \<open>
  What the guards of the registry promise under every interleaving of its sections, and what the walk to the
  root of a task tree returns.
\<close>

section \<open>The running runs\<close>

type_synonym run_key = "string \<times> int \<times> int \<times> int"

definition run_key :: "live_run \<Rightarrow> run_key" where
  "run_key r = (rn_id r, rn_taskID r, rn_chatID r, rn_treeRoot r)"

definition live :: "registry \<Rightarrow> run_key list" where
  "live reg = map run_key (filter is_running (rg_runs reg))"

definition key_task :: "run_key \<Rightarrow> int" where "key_task k = fst (snd k)"
definition key_chat :: "run_key \<Rightarrow> int" where "key_chat k = fst (snd (snd k))"
definition key_root :: "run_key \<Rightarrow> int" where "key_root k = snd (snd (snd k))"

lemmas key_defs = key_task_def key_chat_def key_root_def run_key_def

definition unique_ids :: "registry \<Rightarrow> bool" where
  "unique_ids reg \<longleftrightarrow> distinct (map rn_id (rg_runs reg))"

lemma get_run_Some: "get_run reg i = Some r \<Longrightarrow> r \<in> set (rg_runs reg) \<and> rn_id r = i"
  unfolding get_run_def find_Some_iff by (metis nth_mem)

lemma get_run_None_iff: "get_run reg i = None \<longleftrightarrow> i \<notin> rn_id ` set (rg_runs reg)"
  by (auto simp: get_run_def find_None_iff)

lemma get_run_in: "unique_ids reg \<Longrightarrow> r \<in> set (rg_runs reg) \<Longrightarrow> get_run reg (rn_id r) = Some r"
  by (cases "get_run reg (rn_id r)")
     (auto simp: get_run_None_iff unique_ids_def distinct_map inj_on_def dest: get_run_Some)

lemma put_new: "get_run reg (rn_id r) = None \<Longrightarrow> is_running r \<Longrightarrow>
    live (put_run r reg) = live reg @ [run_key r] \<and> (unique_ids reg \<longrightarrow> unique_ids (put_run r reg))"
  by (simp add: put_run_def live_def unique_ids_def) (simp add: get_run_None_iff)

lemma put_same:
  assumes u: "unique_ids reg" and g: "get_run reg (rn_id r) = Some r"
  shows "put_run r reg = reg"
proof -
  have "(if rn_id x = rn_id r then r else x) = x" if "x \<in> set (rg_runs reg)" for x
    using trans [OF get_run_in [OF u that, symmetric]] g by (metis option.inject)
  then have m: "map (\<lambda>x. if rn_id x = rn_id r then r else x) (rg_runs reg) = rg_runs reg" by (rule map_idI)
  have "reg\<lparr>rg_runs := rg_runs reg\<rparr> = reg" by (cases reg) simp
  then show ?thesis unfolding put_run_def m using g by simp
qed

lemma delete_live: "live (delete_run i reg) = filter (\<lambda>k. fst k \<noteq> i) (live reg)"
  by (simp add: delete_run_def live_def filter_map comp_def run_key_def conj_commute)

lemma delete_unique: "unique_ids reg \<Longrightarrow> unique_ids (delete_run i reg)"
  by (simp add: delete_run_def unique_ids_def distinct_map_filter)

lemma modify_unique: "(\<And>r. rn_id (f r) = rn_id r) \<Longrightarrow> unique_ids reg \<Longrightarrow> unique_ids (modify_run i f reg)"
  by (simp add: modify_run_def unique_ids_def comp_def if_distrib [of rn_id] cong: if_cong)

lemma live_map:
  assumes "\<And>x. is_running (g x) \<longleftrightarrow> is_running x \<and> keep x" "\<And>x. is_running (g x) \<Longrightarrow> run_key (g x) = run_key x"
  shows "map run_key (filter is_running (map g xs)) = map run_key (filter (\<lambda>x. is_running x \<and> keep x) xs)"
  by (induction xs) (simp_all add: assms)

lemma stop_live: "live (modify_run i (\<lambda>r. r\<lparr>rn_stopRequested := b\<rparr>) reg) = live reg"
proof -
  have "map run_key (filter is_running (map (\<lambda>r. if rn_id r = i then r\<lparr>rn_stopRequested := b\<rparr> else r) (rg_runs reg)))
      = map run_key (filter (\<lambda>x. is_running x \<and> True) (rg_runs reg))"
    by (rule live_map) (simp_all add: is_running_def run_key_def)
  then show ?thesis by (simp add: live_def modify_run_def)
qed

lemma finish_status_not_running [simp]: "finish_status b failed refusal \<noteq> StatusRunning"
  by (simp add: finish_status_def run_status_defs)

lemma filter_live: "filter (\<lambda>k. P (fst k)) (live reg) = map run_key (filter (\<lambda>x. is_running x \<and> P (rn_id x)) (rg_runs reg))"
  by (simp add: live_def filter_map comp_def run_key_def conj_commute)

lemma publish_live: "live (publish_status i failed refusal reg) = filter (\<lambda>k. fst k \<noteq> i) (live reg)"
proof -
  have "map run_key (filter is_running (map (\<lambda>r. if rn_id r = i then r\<lparr>rn_status := finish_status (rn_stopRequested r) failed refusal\<rparr> else r) (rg_runs reg)))
      = map run_key (filter (\<lambda>x. is_running x \<and> rn_id x \<noteq> i) (rg_runs reg))"
    by (rule live_map) (auto simp: is_running_def split: if_splits)
  then show ?thesis using filter_live [of "\<lambda>j. j \<noteq> i" reg] by (simp add: live_def publish_status_def modify_run_def)
qed

lemma evict_effect:
  "evict limit order reg = (order', reg') \<Longrightarrow> \<exists>gone. order = gone @ order' \<and>
     reg' = reg\<lparr>rg_runs := filter (\<lambda>r. rn_id r \<notin> set gone) (rg_runs reg)\<rparr>"
proof (induction order arbitrary: reg)
  case (Cons i order)
  show ?case
  proof (cases "limit < length (i # order)")
    case True
    then obtain gone where "order = gone @ order'" "reg' = (delete_run i reg)\<lparr>rg_runs := filter (\<lambda>r. rn_id r \<notin> set gone) (rg_runs (delete_run i reg))\<rparr>"
      using Cons by auto
    then show ?thesis by (intro exI [of _ "i # gone"]) (auto simp: delete_run_def intro: filter_cong)
  qed (use Cons.prems in auto)
qed auto

lemma retain_effect:
  "\<exists>gone. set gone \<subseteq> insert i (set (rg_finishedOrder reg) \<union> set (rg_systemFinishedOrder reg))
     \<and> rg_runs (retain i reg) = filter (\<lambda>r. rn_id r \<notin> set gone) (rg_runs reg)
     \<and> set (rg_finishedOrder (retain i reg)) \<union> set (rg_systemFinishedOrder (retain i reg))
         \<subseteq> insert i (set (rg_finishedOrder reg) \<union> set (rg_systemFinishedOrder reg))
     \<and> rg_archiving (retain i reg) = rg_archiving reg \<and> rg_syncing (retain i reg) = rg_syncing reg
     \<and> rg_maxConcurrentRunsPerTree (retain i reg) = rg_maxConcurrentRunsPerTree reg"
proof -
  obtain o1 r1 where e1: "evict finishedRetentionCap (rg_finishedOrder reg @ [i]) reg = (o1, r1)" by fastforce
  obtain o2 r2 where e2: "evict systemRetentionCap (rg_systemFinishedOrder reg @ [i]) reg = (o2, r2)" by fastforce
  obtain g1 where g1: "rg_finishedOrder reg @ [i] = g1 @ o1" "r1 = reg\<lparr>rg_runs := filter (\<lambda>r. rn_id r \<notin> set g1) (rg_runs reg)\<rparr>"
    using evict_effect [OF e1] by blast
  obtain g2 where g2: "rg_systemFinishedOrder reg @ [i] = g2 @ o2" "r2 = reg\<lparr>rg_runs := filter (\<lambda>r. rn_id r \<notin> set g2) (rg_runs reg)\<rparr>"
    using evict_effect [OF e2] by blast
  have s1: "set g1 \<union> set o1 = insert i (set (rg_finishedOrder reg))" using arg_cong [OF g1(1), of set] by auto
  have s2: "set g2 \<union> set o2 = insert i (set (rg_systemFinishedOrder reg))" using arg_cong [OF g2(1), of set] by auto
  have user: "retain i reg = r1\<lparr>rg_finishedOrder := o1\<rparr> \<or> retain i reg = r2\<lparr>rg_systemFinishedOrder := o2\<rparr>"
    using e1 e2 by (auto simp: retain_def split: option.splits)
  then show ?thesis
  proof
    assume "retain i reg = r1\<lparr>rg_finishedOrder := o1\<rparr>"
    then show ?thesis using s1 g1(2) by (intro exI [of _ g1]) auto
  next
    assume "retain i reg = r2\<lparr>rg_systemFinishedOrder := o2\<rparr>"
    then show ?thesis using s2 g2(2) by (intro exI [of _ g2]) auto
  qed
qed

section \<open>The invariant\<close>

definition run_bounds :: "int \<Rightarrow> run_key list \<Rightarrow> bool" where
  "run_bounds M ks \<longleftrightarrow> distinct (map key_chat ks) \<and> (\<forall>root. int (length (filter (\<lambda>k. key_root k = root) ks)) \<le> M)"

lemma run_bounds_filter: "run_bounds M ks \<Longrightarrow> run_bounds M (filter P ks)"
  unfolding run_bounds_def
proof (intro conjI allI; elim conjE)
  fix r assume "\<forall>root. int (length (filter (\<lambda>k. key_root k = root) ks)) \<le> M"
  moreover have "length (filter (\<lambda>k. key_root k = r) (filter P ks)) \<le> length (filter (\<lambda>k. key_root k = r) ks)"
    by (induction ks) auto
  ultimately show "int (length (filter (\<lambda>k. key_root k = r) (filter P ks))) \<le> M" by (meson of_nat_mono order_trans)
qed (simp add: distinct_map_filter)

definition latches_ok :: "guard_sys \<Rightarrow> bool" where
  "latches_ok s \<longleftrightarrow> (\<forall>t. (sy_archive s t \<noteq> Free \<longleftrightarrow> t \<in> rg_archiving (sy_reg s)) \<and> (fst (sy_sync s t) \<noteq> Free \<longleftrightarrow> t \<in> rg_syncing (sy_reg s)))
     \<and> rg_archiving (sy_reg s) \<inter> rg_syncing (sy_reg s) = {}"

definition idle_held :: "guard_sys \<Rightarrow> bool" where
  "idle_held s \<longleftrightarrow> (\<forall>t. sy_archive s t = Holding \<or> sy_sync s t = (Holding, True) \<longrightarrow> t \<notin> key_task ` set (live (sy_reg s)))"

definition live_ids :: "registry \<Rightarrow> string set" where
  "live_ids reg = fst ` set (live reg)"

lemma live_ids_cong: "live reg' = live reg \<Longrightarrow> live_ids reg' = live_ids reg"
  by (simp add: live_ids_def)

lemma live_ids_drop: "live reg' = filter (\<lambda>k. fst k \<notin> X) (live reg) \<Longrightarrow> live_ids reg' = live_ids reg - X"
  by (force simp: live_ids_def)

definition in_flight :: "guard_sys \<Rightarrow> bool" where
  "in_flight s \<longleftrightarrow> sy_starting s \<union> sy_driven s = live_ids (sy_reg s) \<and> sy_starting s \<inter> sy_driven s = {}
     \<and> live_ids (sy_reg s) \<inter> (sy_finished s \<union> set (rg_finishedOrder (sy_reg s)) \<union> set (rg_systemFinishedOrder (sy_reg s))) = {}"

definition guard_inv :: "int \<Rightarrow> guard_sys \<Rightarrow> bool" where
  "guard_inv M s \<longleftrightarrow> unique_ids (sy_reg s) \<and> maxConcurrentRunsPerTreeLocked (sy_reg s) \<le> M \<and> run_bounds M (live (sy_reg s))
     \<and> latches_ok s \<and> idle_held s \<and> in_flight s"

lemma runningInTree_live: "runningInTreeLocked r reg = int (length (filter (\<lambda>k. key_root k = r) (live reg)))"
  by (simp add: runningInTreeLocked_def live_def filter_map comp_def key_defs conj_commute)

lemma runningRunForChat_None: "runningRunForChat reg c = None \<longleftrightarrow> c \<notin> key_chat ` set (live reg)"
  by (auto simp: runningRunForChat_def find_None_iff live_def image_image key_defs)

lemma active_scan_None: "active_scan reg t = None \<longleftrightarrow> t \<notin> key_task ` set (live reg)"
  by (auto simp: active_scan_def find_None_iff live_def image_image key_defs)

lemma admit_None:
  assumes "admit r reg = (None, reg')"
  shows "rn_taskID r \<notin> rg_archiving reg \<union> rg_syncing reg \<and> rn_chatID r \<notin> key_chat ` set (live reg)
     \<and> int (length (filter (\<lambda>k. key_root k = rn_treeRoot r) (live reg))) < maxConcurrentRunsPerTreeLocked reg \<and> reg' = put_run r reg"
  using assms by (auto simp: admit_def taskArchivingLocked_def runningRunForChat_None [symmetric] runningInTree_live [symmetric]
      split: if_splits option.splits)

lemma run_bounds_admit:
  assumes "run_bounds M ks" "c \<notin> key_chat ` set ks" "int (length (filter (\<lambda>k. key_root k = r) ks)) < M"
  shows "run_bounds M (ks @ [(i, t, c, r)])"
  using assms by (auto simp: run_bounds_def key_chat_def key_root_def)

lemma put_run_fields [simp]: "rg_archiving (put_run r reg) = rg_archiving reg" "rg_syncing (put_run r reg) = rg_syncing reg"
  "rg_finishedOrder (put_run r reg) = rg_finishedOrder reg" "rg_systemFinishedOrder (put_run r reg) = rg_systemFinishedOrder reg"
  "maxConcurrentRunsPerTreeLocked (put_run r reg) = maxConcurrentRunsPerTreeLocked reg"
  by (simp_all add: put_run_def maxConcurrentRunsPerTreeLocked_def)

lemma guard_inv_admit:
  assumes inv: "guard_inv M s" and r: "is_running r" "get_run (sy_reg s) (rn_id r) = None"
    and fresh: "rn_id r \<notin> sy_starting s \<union> sy_driven s \<union> sy_finished s" "rn_id r \<notin> set (rg_finishedOrder (sy_reg s)) \<union> set (rg_systemFinishedOrder (sy_reg s))"
    and adm: "admit r (sy_reg s) = (None, reg')"
  shows "guard_inv M (s\<lparr>sy_reg := reg', sy_starting := insert (rn_id r) (sy_starting s)\<rparr>)"
proof -
  note a = admit_None [OF adm]
  have live: "live reg' = live (sy_reg s) @ [run_key r]" "unique_ids reg'" using put_new [OF r(2,1)] inv a by (auto simp: guard_inv_def)
  have "run_bounds M (live reg')"
    unfolding live(1) run_key_def using inv a by (intro run_bounds_admit) (auto simp: guard_inv_def)
  moreover have "key_task ` set (live reg') = insert (rn_taskID r) (key_task ` set (live (sy_reg s)))"
    by (simp add: live(1) key_task_def run_key_def)
  then have "idle_held (s\<lparr>sy_reg := reg', sy_starting := insert (rn_id r) (sy_starting s)\<rparr>)"
    using inv a unfolding idle_held_def guard_inv_def latches_ok_def by (simp, metis fst_conv latch_pc.distinct(3))
  moreover have "in_flight (s\<lparr>sy_reg := reg', sy_starting := insert (rn_id r) (sy_starting s)\<rparr>)"
    using inv a fresh live(1) by (auto simp: guard_inv_def in_flight_def live_ids_def run_key_def)
  moreover have "latches_ok (s\<lparr>sy_reg := reg', sy_starting := insert (rn_id r) (sy_starting s)\<rparr>)"
    using inv a by (simp add: guard_inv_def latches_ok_def)
  ultimately show ?thesis using inv a live(2) by (simp add: guard_inv_def)
qed

text \<open>A section that only drops running runs keeps the invariant.\<close>

lemma guard_inv_drop:
  assumes inv: "guard_inv M s" and u: "unique_ids reg'" and l: "live reg' = filter (\<lambda>k. fst k \<notin> gone) (live (sy_reg s))"
    and same: "rg_archiving reg' = rg_archiving (sy_reg s)" "rg_syncing reg' = rg_syncing (sy_reg s)" "maxConcurrentRunsPerTreeLocked reg' \<le> M"
    and fl: "in_flight (s\<lparr>sy_reg := reg', sy_starting := st, sy_driven := dr, sy_finished := fi\<rparr>)"
  shows "guard_inv M (s\<lparr>sy_reg := reg', sy_starting := st, sy_driven := dr, sy_finished := fi\<rparr>)"
proof -
  have "key_task ` set (live reg') \<subseteq> key_task ` set (live (sy_reg s))" by (auto simp: l)
  then have "idle_held (s\<lparr>sy_reg := reg', sy_starting := st, sy_driven := dr, sy_finished := fi\<rparr>)"
    using inv by (auto simp: guard_inv_def idle_held_def)
  then show ?thesis using inv u same fl run_bounds_filter [of M "live (sy_reg s)" "\<lambda>k. fst k \<notin> gone"] by (simp add: guard_inv_def latches_ok_def l)
qed

lemma delete_run_fields [simp]: "rg_archiving (delete_run i reg) = rg_archiving reg" "rg_syncing (delete_run i reg) = rg_syncing reg"
  "rg_finishedOrder (delete_run i reg) = rg_finishedOrder reg" "rg_systemFinishedOrder (delete_run i reg) = rg_systemFinishedOrder reg"
  "maxConcurrentRunsPerTreeLocked (delete_run i reg) = maxConcurrentRunsPerTreeLocked reg"
  by (simp_all add: delete_run_def maxConcurrentRunsPerTreeLocked_def)

lemma modify_run_fields [simp]: "rg_archiving (modify_run i f reg) = rg_archiving reg" "rg_syncing (modify_run i f reg) = rg_syncing reg"
  "rg_finishedOrder (modify_run i f reg) = rg_finishedOrder reg" "rg_systemFinishedOrder (modify_run i f reg) = rg_systemFinishedOrder reg"
  "maxConcurrentRunsPerTreeLocked (modify_run i f reg) = maxConcurrentRunsPerTreeLocked reg"
  by (simp_all add: modify_run_def maxConcurrentRunsPerTreeLocked_def)

lemma publish_status_fields [simp]: "rg_archiving (publish_status i b c reg) = rg_archiving reg" "rg_syncing (publish_status i b c reg) = rg_syncing reg"
  "rg_finishedOrder (publish_status i b c reg) = rg_finishedOrder reg" "rg_systemFinishedOrder (publish_status i b c reg) = rg_systemFinishedOrder reg"
  "maxConcurrentRunsPerTreeLocked (publish_status i b c reg) = maxConcurrentRunsPerTreeLocked reg"
  by (simp_all add: publish_status_def)

lemma guard_inv_register:
  assumes inv: "guard_inv M s" and r: "get_run (sy_reg s) i = Some r" "i \<in> sy_starting s"
  shows "guard_inv M (s\<lparr>sy_reg := put_run r (sy_reg s), sy_starting := sy_starting s - {i}, sy_driven := insert i (sy_driven s)\<rparr>)"
proof -
  have "put_run r (sy_reg s) = sy_reg s" using put_same inv r get_run_Some [OF r(1)] by (simp add: guard_inv_def)
  then show ?thesis using inv r(2) by (auto simp: guard_inv_def latches_ok_def idle_held_def in_flight_def)
qed

lemma guard_inv_persist:
  assumes inv: "guard_inv M s" and r: "get_run (sy_reg s) i = Some r" "i \<in> sy_starting s"
  shows "guard_inv M (s\<lparr>sy_reg := delete_run i (put_run r (sy_reg s)), sy_starting := sy_starting s - {i}\<rparr>)"
proof -
  have p: "put_run r (sy_reg s) = sy_reg s" using put_same inv r get_run_Some [OF r(1)] by (simp add: guard_inv_def)
  have l: "live (delete_run i (sy_reg s)) = filter (\<lambda>k. fst k \<notin> {i}) (live (sy_reg s))" by (simp add: delete_live)
  have "in_flight (s\<lparr>sy_reg := delete_run i (sy_reg s), sy_starting := sy_starting s - {i}, sy_driven := sy_driven s, sy_finished := sy_finished s\<rparr>)"
    using inv r(2) unfolding guard_inv_def in_flight_def by (auto simp: live_ids_drop [OF l])
  then have "guard_inv M (s\<lparr>sy_reg := delete_run i (sy_reg s), sy_starting := sy_starting s - {i}, sy_driven := sy_driven s, sy_finished := sy_finished s\<rparr>)"
    using inv by (intro guard_inv_drop [OF inv _ l]) (simp_all add: guard_inv_def delete_unique)
  then show ?thesis by (simp add: p)
qed

lemma guard_inv_finish:
  assumes inv: "guard_inv M s" and i: "i \<in> sy_driven s"
  shows "guard_inv M (s\<lparr>sy_reg := publish_status i failed refusal (sy_reg s), sy_driven := sy_driven s - {i}, sy_finished := insert i (sy_finished s)\<rparr>)"
proof -
  let ?reg = "publish_status i failed refusal (sy_reg s)"
  have l: "live ?reg = filter (\<lambda>k. fst k \<notin> {i}) (live (sy_reg s))" by (simp add: publish_live)
  have "in_flight (s\<lparr>sy_reg := ?reg, sy_starting := sy_starting s, sy_driven := sy_driven s - {i}, sy_finished := insert i (sy_finished s)\<rparr>)"
    using inv i unfolding guard_inv_def in_flight_def by (auto simp: live_ids_drop [OF l])
  then have "guard_inv M (s\<lparr>sy_reg := ?reg, sy_starting := sy_starting s, sy_driven := sy_driven s - {i}, sy_finished := insert i (sy_finished s)\<rparr>)"
    using inv by (intro guard_inv_drop [OF inv _ l]) (simp_all add: guard_inv_def, simp add: publish_status_def modify_unique)
  then show ?thesis by simp
qed

lemma guard_inv_retain:
  assumes inv: "guard_inv M s" and i: "i \<in> sy_finished s"
  shows "guard_inv M (s\<lparr>sy_reg := retain i (sy_reg s), sy_finished := sy_finished s - {i}\<rparr>)"
proof -
  let ?reg = "retain i (sy_reg s)"
  obtain gone where g: "set gone \<subseteq> insert i (set (rg_finishedOrder (sy_reg s)) \<union> set (rg_systemFinishedOrder (sy_reg s)))"
    "rg_runs ?reg = filter (\<lambda>r. rn_id r \<notin> set gone) (rg_runs (sy_reg s))"
    "set (rg_finishedOrder ?reg) \<union> set (rg_systemFinishedOrder ?reg) \<subseteq> insert i (set (rg_finishedOrder (sy_reg s)) \<union> set (rg_systemFinishedOrder (sy_reg s)))"
    "rg_archiving ?reg = rg_archiving (sy_reg s)" "rg_syncing ?reg = rg_syncing (sy_reg s)"
    "rg_maxConcurrentRunsPerTree ?reg = rg_maxConcurrentRunsPerTree (sy_reg s)"
    using retain_effect [of i "sy_reg s"] by blast
  have l: "live ?reg = filter (\<lambda>k. fst k \<notin> set gone) (live (sy_reg s))"
    unfolding filter_live [of "\<lambda>j. j \<notin> set gone"] by (simp add: live_def g(2) conj_commute)
  have keep: "live_ids ?reg = live_ids (sy_reg s)"
    unfolding live_ids_drop [OF l] using inv i g(1) by (auto simp: guard_inv_def in_flight_def)
  have "in_flight (s\<lparr>sy_reg := ?reg, sy_starting := sy_starting s, sy_driven := sy_driven s, sy_finished := sy_finished s - {i}\<rparr>)"
    using inv i g(3) unfolding guard_inv_def in_flight_def by (simp add: keep) blast
  moreover have "maxConcurrentRunsPerTreeLocked ?reg = maxConcurrentRunsPerTreeLocked (sy_reg s)"
    using g(6) by (simp add: maxConcurrentRunsPerTreeLocked_def)
  moreover have "unique_ids ?reg" using inv g(2) by (simp add: guard_inv_def unique_ids_def distinct_map_filter)
  ultimately have "guard_inv M (s\<lparr>sy_reg := ?reg, sy_starting := sy_starting s, sy_driven := sy_driven s, sy_finished := sy_finished s - {i}\<rparr>)"
    using inv g(4,5) by (intro guard_inv_drop [OF inv _ l]) (simp_all add: guard_inv_def)
  then show ?thesis by simp
qed

lemma guard_inv_stop:
  assumes inv: "guard_inv M s" and st: "Stop i (sy_reg s) = (ok, reg')"
  shows "guard_inv M (s\<lparr>sy_reg := reg'\<rparr>)"
proof -
  have "reg' = sy_reg s \<or> reg' = modify_run i (\<lambda>r. r\<lparr>rn_stopRequested := True\<rparr>) (sy_reg s)"
    using st by (auto simp: Stop_def split: option.splits if_splits)
  then have same: "reg' = sy_reg s \<or> live reg' = live (sy_reg s) \<and> unique_ids reg' \<and> rg_archiving reg' = rg_archiving (sy_reg s)
      \<and> rg_syncing reg' = rg_syncing (sy_reg s) \<and> rg_finishedOrder reg' = rg_finishedOrder (sy_reg s)
      \<and> rg_systemFinishedOrder reg' = rg_systemFinishedOrder (sy_reg s)
      \<and> maxConcurrentRunsPerTreeLocked reg' = maxConcurrentRunsPerTreeLocked (sy_reg s)"
    using inv by (auto simp: guard_inv_def stop_live modify_unique)
  then show ?thesis using inv live_ids_cong [of reg' "sy_reg s"]
    by (auto simp: guard_inv_def latches_ok_def idle_held_def in_flight_def)
qed

lemma latch_updates [simp]:
  "live (reg\<lparr>rg_archiving := X\<rparr>) = live reg" "live (reg\<lparr>rg_syncing := X\<rparr>) = live reg" "live (reg\<lparr>rg_maxConcurrentRunsPerTree := n\<rparr>) = live reg"
  "unique_ids (reg\<lparr>rg_archiving := X\<rparr>) = unique_ids reg" "unique_ids (reg\<lparr>rg_syncing := X\<rparr>) = unique_ids reg"
  "unique_ids (reg\<lparr>rg_maxConcurrentRunsPerTree := n\<rparr>) = unique_ids reg"
  "maxConcurrentRunsPerTreeLocked (reg\<lparr>rg_archiving := X\<rparr>) = maxConcurrentRunsPerTreeLocked reg"
  "maxConcurrentRunsPerTreeLocked (reg\<lparr>rg_syncing := X\<rparr>) = maxConcurrentRunsPerTreeLocked reg"
  by (simp_all add: live_def unique_ids_def maxConcurrentRunsPerTreeLocked_def)

lemma in_flight_latches [simp]: "in_flight (s\<lparr>sy_archive := a\<rparr>) = in_flight s" "in_flight (s\<lparr>sy_sync := b\<rparr>) = in_flight s"
  "in_flight (s\<lparr>sy_reg := sy_reg s\<lparr>rg_archiving := X\<rparr>\<rparr>) = in_flight s" "in_flight (s\<lparr>sy_reg := sy_reg s\<lparr>rg_syncing := X\<rparr>\<rparr>) = in_flight s"
  "in_flight (s\<lparr>sy_reg := sy_reg s\<lparr>rg_maxConcurrentRunsPerTree := n\<rparr>\<rparr>) = in_flight s"
  by (simp_all add: in_flight_def live_ids_def)

lemmas latch_defs = guard_inv_def latches_ok_def idle_held_def archive_latch_def archive_unlatch_def sync_latch_def sync_unlatch_def
  SetMaxConcurrentRunsPerTree_def

lemma guard_inv_step:
  assumes "guard_step M s s'" "guard_inv M s"
  shows "guard_inv M s'"
  using assms
proof (induction rule: guard_step.induct)
  case (admit_run r s reg')
  then show ?case by (intro guard_inv_admit)
next
  case (register_run s i r reg')
  then show ?case using guard_inv_register [of M s i r] by (auto simp: registerAndDrive_def)
next
  case (persist_fails s i r err reg')
  then show ?case using guard_inv_persist [of M s i r] get_run_Some by (auto simp: registerAndDrive_def)
next
  case (stop_run i s ok reg')
  then show ?case by (intro guard_inv_stop)
next
  case (finish_run i s failed refusal)
  then show ?case by (intro guard_inv_finish)
next
  case (retain_run i s)
  then show ?case by (intro guard_inv_retain)
next
  case (set_limit n s)
  then show ?case by (auto simp: latch_defs split: if_splits)
next
  case (latch_archive t s reg')
  then show ?case by (auto simp: latch_defs split: if_splits)
next
  case (check_archive s t)
  then show ?case by (auto simp: guard_inv_def latches_ok_def idle_held_def active_scan_None)
next
  case (release_archive s t)
  then show ?case by (auto simp: latch_defs split: if_splits)
next
  case (latch_sync t s reg' needIdle)
  then show ?case by (auto simp: latch_defs split: if_splits)
next
  case (check_sync s t needIdle)
  then show ?case by (auto simp: guard_inv_def latches_ok_def idle_held_def active_scan_None)
next
  case (release_sync s t)
  then show ?case by (auto simp: latch_defs split: if_splits)
qed

lemma guard_inv_reachable:
  assumes "(guard_step M)\<^sup>*\<^sup>* s0 s" "guard_inv M s0"
  shows "guard_inv M s"
  using assms by (induction rule: rtranclp_induct) (auto intro: guard_inv_step)

text \<open>The registry as \<open>New\<close> leaves it: rehydrated runs are terminal, nothing is latched.\<close>

definition fresh_system :: "registry \<Rightarrow> guard_sys" where
  "fresh_system reg = \<lparr>sy_reg = reg, sy_starting = {}, sy_driven = {}, sy_finished = {}, sy_archive = (\<lambda>t. Free), sy_sync = (\<lambda>t. (Free, False))\<rparr>"

definition fresh_registry :: "registry \<Rightarrow> bool" where
  "fresh_registry reg \<longleftrightarrow> unique_ids reg \<and> (\<forall>r\<in>set (rg_runs reg). \<not> is_running r) \<and> rg_archiving reg = {} \<and> rg_syncing reg = {}"

lemma fresh_inv:
  assumes "fresh_registry reg" "maxConcurrentRunsPerTreeLocked reg \<le> M"
  shows "guard_inv M (fresh_system reg)"
proof -
  have "live reg = []" using assms(1) by (simp add: fresh_registry_def live_def)
  moreover have "0 \<le> M" using assms(2) by (auto simp: maxConcurrentRunsPerTreeLocked_def defaultMaxConcurrentRunsPerTree_def split: if_splits)
  ultimately show ?thesis using assms
    by (simp add: guard_inv_def fresh_system_def fresh_registry_def run_bounds_def latches_ok_def idle_held_def in_flight_def live_ids_def)
qed

lemma distinct_key_filter: "distinct (map f xs) \<Longrightarrow> length (filter (\<lambda>x. f x = c) xs) \<le> 1"
proof (induction xs)
  case (Cons x xs)
  then show ?case by (cases "f x = c") (auto simp: filter_empty_conv image_iff)
qed simp

text \<open>
  C7. However the goroutines of the daemon interleave their sections: a chat has at most one running run, a
  task tree at most as many as the highest limit in force, a run between its admission and its terminal
  status is never forgotten by the retention of finished runs, a task is never archived and synced at
  once, and while an archive (or a sync that needs the task idle) holds its task, none of its runs is
  running. The last rests on the order of the code: the latch is set before the runs are scanned.
\<close>

theorem run_guards_hold:
  assumes reach: "(guard_step M)\<^sup>*\<^sup>* (fresh_system reg0) s"
    and init: "fresh_registry reg0" "maxConcurrentRunsPerTreeLocked reg0 \<le> M"
  defines "running \<equiv> filter is_running (rg_runs (sy_reg s))"
  shows "length (filter (\<lambda>r. rn_chatID r = c) running) \<le> 1
     \<and> runningInTreeLocked tree (sy_reg s) \<le> M
     \<and> rn_id ` set running = sy_starting s \<union> sy_driven s
     \<and> rg_archiving (sy_reg s) \<inter> rg_syncing (sy_reg s) = {}
     \<and> (sy_archive s t = Holding \<or> sy_sync s t = (Holding, True) \<longrightarrow> t \<notin> rn_taskID ` set running)"
proof -
  have inv: "guard_inv M s" by (rule guard_inv_reachable [OF reach fresh_inv [OF init]])
  have live: "live (sy_reg s) = map run_key running" by (simp add: live_def running_def)
  have "length (filter (\<lambda>k. key_chat k = c) (live (sy_reg s))) \<le> 1"
    using inv by (intro distinct_key_filter) (simp add: guard_inv_def run_bounds_def)
  then have "length (filter (\<lambda>r. rn_chatID r = c) running) \<le> 1" by (simp add: live filter_map comp_def key_defs)
  moreover have "runningInTreeLocked tree (sy_reg s) \<le> M" using inv by (simp add: runningInTree_live guard_inv_def run_bounds_def)
  moreover have "rn_id ` set running = sy_starting s \<union> sy_driven s"
    using inv by (simp add: guard_inv_def in_flight_def live_ids_def live image_image run_key_def)
  moreover have "key_task ` set (live (sy_reg s)) = rn_taskID ` set running" by (simp add: live image_image key_defs)
  ultimately show ?thesis using inv by (simp add: guard_inv_def latches_ok_def idle_held_def)
qed

section \<open>The handlers are such interleavings\<close>

lemma start_registered_steps:
  assumes "start_registered True r (sy_reg s) = (Inr i, reg')" "is_running r" "get_run (sy_reg s) (rn_id r) = None"
    and "rn_id r \<notin> sy_starting s \<union> sy_driven s \<union> sy_finished s" "rn_id r \<notin> set (rg_finishedOrder (sy_reg s)) \<union> set (rg_systemFinishedOrder (sy_reg s))"
  shows "(guard_step M)\<^sup>*\<^sup>* s (s\<lparr>sy_reg := reg', sy_starting := sy_starting s, sy_driven := insert (rn_id r) (sy_driven s)\<rparr>)"
proof -
  obtain reg1 where a: "admit r (sy_reg s) = (None, reg1)" and d: "registerAndDrive True r reg1 = (None, reg')"
    using assms(1) by (auto simp: start_registered_def split: prod.splits option.splits)
  let ?s1 = "s\<lparr>sy_reg := reg1, sy_starting := insert (rn_id r) (sy_starting s)\<rparr>"
  have one: "guard_step M s ?s1" using guard_step.admit_run [OF assms(2,3,4,5) a] .
  have "get_run reg1 (rn_id r) = Some r"
    using admit_None [OF a] assms(3) by (auto simp: put_run_def get_run_def find_None_iff find_Some_iff nth_append intro!: exI [of _ "length (rg_runs (sy_reg s))"])
  then have "guard_step M ?s1 (?s1\<lparr>sy_reg := reg', sy_starting := sy_starting ?s1 - {rn_id r}, sy_driven := insert (rn_id r) (sy_driven ?s1)\<rparr>)"
    using d by (intro guard_step.register_run [where r = r]) simp_all
  moreover have "insert (rn_id r) (sy_starting s) - {rn_id r} = sy_starting s" using assms(4) by auto
  ultimately show ?thesis using one by (simp add: converse_rtranclp_into_rtranclp r_into_rtranclp)
qed

lemma TryBeginArchive_steps:
  assumes "TryBeginArchive queues t (sy_reg s) = (None, reg')"
  shows "(guard_step M)\<^sup>*\<^sup>* s (s\<lparr>sy_reg := reg', sy_archive := (sy_archive s)(t := Holding)\<rparr>)"
proof -
  obtain reg1 where l: "archive_latch t (sy_reg s) = (None, reg1)" "ActiveRunForTask reg1 queues t = Idle" "reg' = reg1"
    using assms by (auto simp: TryBeginArchive_def split: prod.splits option.splits active.splits)
  let ?s1 = "s\<lparr>sy_reg := reg1, sy_archive := (sy_archive s)(t := Latched)\<rparr>"
  have "guard_step M s ?s1" by (rule guard_step.latch_archive [OF l(1)])
  moreover have "guard_step M ?s1 (?s1\<lparr>sy_archive := (sy_archive ?s1)(t := Holding)\<rparr>)"
    using l(2) by (intro guard_step.check_archive) (auto simp: ActiveRunForTask_def split: option.splits)
  ultimately show ?thesis using l(3) by (simp add: converse_rtranclp_into_rtranclp r_into_rtranclp)
qed

definition demo_registry :: registry where
  "demo_registry = \<lparr>rg_runs = [], rg_archiving = {}, rg_syncing = {}, rg_maxConcurrentRunsPerTree = 1, rg_finishedOrder = [], rg_systemFinishedOrder = []\<rparr>"

definition demo_run :: live_run where
  "demo_run = \<lparr>rn_id = ''a'', rn_taskID = 2, rn_chatID = 3, rn_treeRoot = 1, rn_purpose = [], rn_provider = ''glm'', rn_prompt = [],
     rn_perm = \<lparr>ps_Mode = [], ps_AutoAccept = False\<rparr>, rn_thinkingLevel = [], rn_model = [], rn_origin = [], rn_originHost = [], rn_interrupt = False,
     rn_replyChatID = 0, rn_profileID = 0, rn_failoverOf = [], rn_status = StatusRunning, rn_stopRequested = False\<rparr>"

theorem run_guards_hold_witness:
  "\<exists>s. (guard_step 1)\<^sup>*\<^sup>* (fresh_system demo_registry) s \<and> sy_driven s = {''a''} \<and> sy_archive s 9 = Holding
     \<and> runningInTreeLocked 1 (sy_reg s) \<le> 1 \<and> (9::int) \<notin> rn_taskID ` set (filter is_running (rg_runs (sy_reg s)))"
proof -
  let ?r = demo_run and ?s0 = "fresh_system demo_registry"
  have init: "fresh_registry demo_registry" "maxConcurrentRunsPerTreeLocked demo_registry \<le> 1"
    by (simp_all add: fresh_registry_def demo_registry_def unique_ids_def maxConcurrentRunsPerTreeLocked_def)
  obtain reg1 where r1: "start_registered True ?r (sy_reg ?s0) = (Inr ''a'', reg1)"
    by (simp add: start_registered_def admit_def demo_registry_def fresh_system_def demo_run_def taskArchivingLocked_def runningRunForChat_def
        maxConcurrentRunsPerTreeLocked_def runningInTreeLocked_def registerAndDrive_def put_run_def get_run_def Let_def)
  let ?s1 = "?s0\<lparr>sy_reg := reg1, sy_starting := sy_starting ?s0, sy_driven := insert (rn_id ?r) (sy_driven ?s0)\<rparr>"
  have one: "(guard_step 1)\<^sup>*\<^sup>* ?s0 ?s1"
    by (rule start_registered_steps [OF r1]) (simp_all add: demo_run_def is_running_def demo_registry_def fresh_system_def get_run_def)
  have runs: "rg_runs reg1 = [?r]" "rg_archiving reg1 = {}" "rg_syncing reg1 = {}"
    using r1 by (auto simp: start_registered_def admit_def demo_registry_def fresh_system_def demo_run_def taskArchivingLocked_def runningRunForChat_def
        maxConcurrentRunsPerTreeLocked_def runningInTreeLocked_def registerAndDrive_def put_run_def get_run_def Let_def)
  have "TryBeginArchive (Some []) 9 (sy_reg ?s1) = (None, reg1\<lparr>rg_archiving := {9}\<rparr>)"
    by (simp add: TryBeginArchive_def archive_latch_def runs ActiveRunForTask_def active_scan_def demo_run_def)
  from TryBeginArchive_steps [OF this] have "(guard_step 1)\<^sup>*\<^sup>* ?s0 (?s1\<lparr>sy_reg := reg1\<lparr>rg_archiving := {9}\<rparr>, sy_archive := (sy_archive ?s1)(9 := Holding)\<rparr>)"
    using one by (meson rtranclp_trans)
  from run_guards_hold [OF this init, of 0 1 9] this show ?thesis
    by (intro exI conjI) (assumption, simp_all add: fresh_system_def demo_run_def)
qed

section \<open>The root of a tree\<close>

inductive climbs :: "(int \<Rightarrow> 'a tree_task option) \<Rightarrow> int \<Rightarrow> nat \<Rightarrow> int \<Rightarrow> bool" for get where
  top: "get t = Some row \<Longrightarrow> tt_ParentTaskID row \<in> {None, Some 0} \<Longrightarrow> climbs get t 0 t"
| up: "get t = Some row \<Longrightarrow> tt_ParentTaskID row = Some p \<Longrightarrow> p \<noteq> 0 \<Longrightarrow> climbs get p n r \<Longrightarrow> climbs get t (Suc n) r"

inductive_cases climbsE: "climbs get t n r"

lemma climbs_unique: "climbs get t n r \<Longrightarrow> climbs get t m q \<Longrightarrow> n = m \<and> r = q"
proof (induction arbitrary: m q rule: climbs.induct)
  case (top t row)
  from top.prems show ?case by (rule climbsE) (use top.hyps in auto)
next
  case (up t row p n r)
  from up.prems show ?case
  proof (rule climbsE)
    fix row' p' m' assume "m = Suc m'" "get t = Some row'" "tt_ParentTaskID row' = Some p'" "climbs get p' m' q"
    then show ?thesis using up.IH [of m' q] up.hyps(1,2) by simp
  qed (use up.hyps in auto)
qed

lemma root_walk_climbs:
  "climbs get t n r \<Longrightarrow> n < hops \<Longrightarrow> \<forall>x\<in>seen. \<exists>m\<ge>n. \<exists>q. climbs get x m q \<Longrightarrow> \<exists>row. root_walk get hops t seen lowest = Some (r, row)"
proof (induction arbitrary: hops seen lowest rule: climbs.induct)
  case (top t row)
  then show ?case by (cases hops) auto
next
  case (up t row p n r)
  have new: "p \<notin> seen" using up.prems(2) up.hyps(4) climbs_unique by fastforce
  have "\<forall>x\<in>insert p seen. \<exists>m\<ge>n. \<exists>q. climbs get x m q" using up.prems(2) up.hyps(4) Suc_leD by blast
  then show ?case using up new by (cases hops) auto
qed

text \<open>
  The walk to the root. A task that reaches the top of its tree in fewer than thirty-two steps is
  resolved to that top, so it and its parent, and by that any two tasks of one tree, count against the
  same limit and the same budget.
\<close>

theorem tree_root_is_shared:
  assumes "climbs get t n r" "n < 32"
  shows "treeRootOf get t = Some r
     \<and> (\<forall>row p. get t = Some row \<longrightarrow> tt_ParentTaskID row = Some p \<longrightarrow> p \<noteq> 0 \<longrightarrow> treeRootOf get p = Some r)"
proof -
  have self: "treeRootOf get x = Some r" if "climbs get x m r" "m < 32" for x m
    using root_walk_climbs [OF that(1), of 32 "{x}" x] that by (auto simp: treeRootOf_def treeRootTask_def treeRootWalkHopLimit_def)
  have "treeRootOf get p = Some r" if "get t = Some row" "tt_ParentTaskID row = Some p" "p \<noteq> 0" for row p
  proof -
    note row = that
    from assms(1) obtain m where "climbs get p m r" "n = Suc m"
      by (rule climbsE) (use row in auto)
    then show ?thesis using self [of p m] assms(2) by simp
  qed
  then show ?thesis using self assms by blast
qed

definition demo_links :: "(int \<times> int) list \<Rightarrow> int \<Rightarrow> unit tree_task option" where
  "demo_links ps t = Some \<lparr>tt_ParentTaskID = map_of ps t, tt_row = ()\<rparr>"

text \<open>
  On corrupt links the walk ends too, but not always on the cycle: a task that hangs off a cycle with an id
  below all of it is its own root, while the tasks of the cycle agree on the lowest of them.
\<close>

lemma cycle_tail_has_its_own_root:
  "treeRootOf (demo_links [(1, 5), (5, 6), (6, 5)]) 1 = Some 1
   \<and> treeRootOf (demo_links [(1, 5), (5, 6), (6, 5)]) 5 = Some 5 \<and> treeRootOf (demo_links [(1, 5), (5, 6), (6, 5)]) 6 = Some 5"
  by (simp add: treeRootOf_def treeRootTask_def treeRootWalkHopLimit_def demo_links_def numeral_eq_Suc)

end
