(* ===== verification/DeliverySteps.thy ===== *)
theory DeliverySteps
  imports Delivery ChatQueueProps RunGuardProps
begin

text \<open>
  What a start and a delivery pass change, step by step: the registry and the queue under \<open>Start\<close>, the fate of
  every row under a pass, and why a pass always comes to an end of the queue.
\<close>

section \<open>What a start changes\<close>

lemma find_snoc: "find P xs = None \<Longrightarrow> find P (xs @ [x]) = (if P x then Some x else None)"
  by (induction xs) (auto split: if_splits)

lemma get_put_run [simp]: "get_run (put_run r reg) (rn_id r) = Some r"
proof (cases "get_run reg (rn_id r)")
  case None
  then show ?thesis by (simp add: put_run_def) (simp add: get_run_def find_snoc)
next
  case (Some r')
  then have "\<exists>x\<in>set xs. rn_id x = rn_id r \<Longrightarrow> find (\<lambda>x. rn_id x = rn_id r) (map (\<lambda>x. if rn_id x = rn_id r then r else x) xs) = Some r" for xs
    by (induction xs) auto
  then show ?thesis using Some get_run_Some [OF Some] by (force simp: put_run_def get_run_def)
qed

lemma put_run_twice [simp]: "put_run r (put_run r reg) = put_run r reg"
  unfolding put_run_def [of r "put_run r reg"] get_put_run
  by (auto simp: put_run_def get_run_None_iff cong: map_cong intro!: arg_cong [where f = "\<lambda>x. reg\<lparr>rg_runs := x\<rparr>"] map_idI)
     (metis imageI)

lemma delete_put_new: "get_run reg (rn_id r) = None \<Longrightarrow> delete_run (rn_id r) (put_run r reg) = reg"
  by (cases reg, auto simp: put_run_def delete_run_def get_run_None_iff filter_id_conv) (metis imageI)

lemma start_registered_Inr:
  assumes "start_registered ok r reg = (Inr i, reg')"
  shows "i = rn_id r \<and> reg' = put_run r reg \<and> runningRunForChat reg (rn_chatID r) = None"
  using assms admit_None [of r reg] by (auto simp: start_registered_def registerAndDrive_def runningRunForChat_None Let_def split: prod.splits option.splits if_splits)

lemma admit_refused: "admit r reg = (Some e, reg') \<Longrightarrow> reg' = reg"
  by (auto simp: admit_def split: if_splits option.splits)

lemma start_registered_Inl:
  assumes "start_registered ok r reg = (Inl e, reg')" "get_run reg (rn_id r) = None"
  shows "reg' = reg"
  using assms admit_refused [of r reg] admit_None [of r reg] delete_put_new [OF assms(2)]
  by (auto simp: start_registered_def registerAndDrive_def Let_def split: prod.splits option.splits if_splits)

lemma GetChat_ID: "GetChat w c = Some r \<Longrightarrow> ch_ID r = c"
  by (auto simp: GetChat_def find_Some_iff)

lemma BindChatProvider_effect:
  assumes "BindChatProvider ok c p w = (res, w')"
  shows "w_queue w' = w_queue w \<and> w_reg w' = w_reg w \<and> w_ids w' = w_ids w \<and> w_budgetNotified w' = w_budgetNotified w \<and> (\<forall>r. res = Some r \<longrightarrow> ch_ID r = c)"
  using assms by (auto simp: BindChatProvider_def Let_def dest: GetChat_ID split: if_splits)

lemma check_settings_Inr:
  assumes "check_settings env t c provider prompt perm lvl m x = Inr p"
  shows "sp_taskID p = t \<and> sp_chatID p = c \<and> sp_provider p = provider \<and> sp_prompt p = prompt
     \<and> ProviderCatalogFor (en_runner env) provider = Some (sp_catalog p) \<and> ValidatePermissionSettings (sp_catalog p) perm = None
     \<and> sp_perm p = (if ps_Mode perm = [] then perm\<lparr>ps_Mode := pi_DefaultMode (sp_catalog p)\<rparr> else perm)"
  using assms by (auto simp: check_settings_def Let_def split: option.splits sum.splits if_splits)

lemma prepareStart_effect:
  assumes "prepareStart env t c provider prompt perm lvl m x w = (res, w')"
  shows "w_queue w' = w_queue w \<and> w_reg w' = w_reg w \<and> w_ids w' = w_ids w
     \<and> (\<forall>p. res = Inr p \<longrightarrow> (\<exists>c'. check_settings env t c' provider prompt perm lvl m x = Inr p \<and> (c \<noteq> 0 \<longrightarrow> c' = c)))"
proof (cases "en_task env t = None \<or> tf_Archived (tt_row (the (en_task env t))) \<or> isl (resolveChat w t c)
    \<or> ch_Archived (projr (resolveChat w t c))")
  case True
  then show ?thesis using assms by (auto simp: prepareStart_def split: option.splits sum.splits if_splits)
next
  case False
  then obtain t' ch where t': "en_task env t = Some t'" "\<not> tf_Archived (tt_row t')" and ch: "resolveChat w t c = Inr ch" "\<not> ch_Archived ch"
    by (cases "en_task env t"; cases "resolveChat w t c") auto
  have id: "c \<noteq> 0 \<longrightarrow> ch_ID ch = c" using ch(1) by (auto simp: resolveChat_def split: option.splits if_splits dest: GetChat_ID)
  obtain b w1 where b: "(if ch_Provider ch = None then BindChatProvider (en_okBind env) (ch_ID ch) provider w else (Some ch, w)) = (b, w1)" by fastforce
  have eff: "w_queue w1 = w_queue w" "w_reg w1 = w_reg w" "w_ids w1 = w_ids w" "\<forall>r. b = Some r \<longrightarrow> ch_ID r = ch_ID ch"
    using b by (auto split: if_splits dest: BindChatProvider_effect)
  show ?thesis using assms t' ch b eff id by (auto simp: prepareStart_def split: option.splits if_splits)
qed

section \<open>The queue under a start\<close>

inductive noticed :: "'f run_env \<Rightarrow> queue_db \<Rightarrow> queue_db \<Rightarrow> bool" for env where
  none: "noticed env q q"
| notice: "ce_RunIDs e = [] \<Longrightarrow> ce_Now e = en_now env \<Longrightarrow> ce_Debounce e = en_debounce env \<Longrightarrow> ce_MaxHold e = en_maxHold env \<Longrightarrow>
    noticed env q (snd (EnqueueChildEvent oks e q))"

lemma notifyBudgetReached_effect:
  "noticed env (w_queue w) (w_queue (notifyBudgetReached env root_id w)) \<and> w_reg (notifyBudgetReached env root_id w) = w_reg w
     \<and> w_chats (notifyBudgetReached env root_id w) = w_chats w \<and> w_ids (notifyBudgetReached env root_id w) = w_ids w"
  by (auto simp: notifyBudgetReached_def Let_def intro: noticed.intros split: list.splits option.splits)

lemma checkBudget_effect:
  assumes "checkBudget env origin rt w = (res, w')"
  shows "noticed env (w_queue w) (w_queue w') \<and> w_reg w' = w_reg w \<and> w_chats w' = w_chats w \<and> w_ids w' = w_ids w \<and> (res = None \<longrightarrow> w_queue w' = w_queue w)"
  using assms notifyBudgetReached_effect [of env w "fst rt"]
  by (auto simp: checkBudget_def RearmBudgetNotify_def intro: noticed.none split: option.splits if_splits)

lemma launch_effect:
  assumes "launch env mk w = (res, w')"
  shows "w_queue w' = w_queue w"
  using assms by (auto simp: launch_def split: option.splits prod.splits)

text \<open>A start is refused before anything is registered, or runs its tail on the world of its start.\<close>

lemma Start_cases:
  assumes "Start env t c provider prompt perm lvl opts w = (res, w')"
  obtains (refused) e where "res = Inl e" "noticed env (w_queue w) (w_queue w')" "w_reg w' = w_reg w" "w_ids w' = w_ids w"
    | (launched) p model rt w1 where "w_queue w1 = w_queue w" "w_reg w1 = w_reg w" "w_ids w1 = w_ids w" "sp_taskID p = t"
        "c \<noteq> 0 \<Longrightarrow> sp_chatID p = c" "sp_provider p = provider"
        "sp_perm p = (if ps_Mode perm = [] then perm\<lparr>ps_Mode := pi_DefaultMode (sp_catalog p)\<rparr> else perm)"
        "launch env (direct_run opts p prompt model rt) w1 = (res, w')"
proof -
  obtain pres w1 where prep: "prepareStart env t c provider prompt perm lvl (startModel opts) (explicitLevel env opts lvl) w = (pres, w1)"
    by fastforce
  note eff = prepareStart_effect [OF prep]
  show ?thesis
  proof (cases "\<exists>p model r' rt w2. pres = Inr p \<and> treeRootTask (en_task env) t = Some (rt, r') \<and> checkBudget env (so_origin (resolveStartOptions opts)) (rt, r') w1 = (None, w2)
      \<and> launch env (direct_run opts p prompt model rt) w2 = (res, w')")
    case True
    then obtain p model r' rt w2 where p: "pres = Inr p" and budget: "checkBudget env (so_origin (resolveStartOptions opts)) (rt, r') w1 = (None, w2)"
      and l: "launch env (direct_run opts p prompt model rt) w2 = (res, w')" by blast
    obtain c' where c': "check_settings env t c' provider prompt perm lvl (startModel opts) (explicitLevel env opts lvl) = Inr p" "c \<noteq> 0 \<longrightarrow> c' = c"
      using eff p by blast
    show ?thesis using launched [OF _ _ _ _ _ _ _ l] eff checkBudget_effect [OF budget] check_settings_Inr [OF c'(1)] c'(2) by auto
  next
    case False
    then have "isl res \<and> (w' = w \<or> w' = w1 \<or> (\<exists>rt e. checkBudget env (so_origin (resolveStartOptions opts)) rt w1 = (Some e, w')))"
      using assms prep
      by (cases "validateIsolation (en_providers env) provider opts"; cases "validateProbe (en_providers env) provider opts"; cases pres)
         (auto simp: Start_def Let_def split: option.splits sum.splits if_splits prod.splits)
    then show ?thesis
    proof (elim conjE disjE exE)
      fix rt e assume "isl res" "checkBudget env (so_origin (resolveStartOptions opts)) rt w1 = (Some e, w')"
      then show ?thesis using refused [of "projl res"] checkBudget_effect [of env "so_origin (resolveStartOptions opts)" rt w1 "Some e" w'] eff by auto
    qed (use refused [of "projl res"] eff in \<open>auto intro: noticed.none\<close>)
  qed
qed

text \<open>What a start did: it was refused and registered nothing, or it registered the run of its request.\<close>

definition run_of_request :: "live_run \<Rightarrow> int \<Rightarrow> int \<Rightarrow> string \<Rightarrow> string \<Rightarrow> permission_settings \<Rightarrow> start_option list \<Rightarrow> bool" where
  "run_of_request r t c provider prompt perm opts \<longleftrightarrow> rn_taskID r = t \<and> (c \<noteq> 0 \<longrightarrow> rn_chatID r = c) \<and> rn_provider r = provider \<and> rn_prompt r = prompt \<and> is_running r
     \<and> ps_AutoAccept (rn_perm r) = ps_AutoAccept perm \<and> (ps_Mode perm \<noteq> [] \<longrightarrow> rn_perm r = perm)
     \<and> rn_origin r = so_origin (resolveStartOptions opts) \<and> rn_failoverOf r = so_failoverOf (resolveStartOptions opts)
     \<and> rn_profileID r = so_profileID (resolveStartOptions opts)"

lemma Start_Inr:
  assumes "Start env t c provider prompt perm lvl opts w = (Inr i, w')"
  shows "\<exists>r. run_of_request r t c provider prompt perm opts \<and> rn_id r = i \<and> en_newRunID env (w_ids w) = Some i \<and> w_reg w' = put_run r (w_reg w)
     \<and> w_queue w' = w_queue w \<and> runningRunForChat (w_reg w) (rn_chatID r) = None"
  using assms
proof (cases rule: Start_cases)
  case (launched p model rt w1)
  let ?mk = "direct_run opts p prompt model rt"
  obtain j reg' where l: "en_newRunID env (w_ids w) = Some j" "start_registered (en_okPersist env) (?mk j) (w_reg w) = (Inr i, reg')"
    "w_reg w' = reg'" "w_queue w' = w_queue w"
    using launched by (auto simp: launch_def split: option.splits prod.splits)
  have "run_of_request (?mk j) t c provider prompt perm opts" using launched by (simp add: run_of_request_def direct_run_def new_run_def is_running_def Let_def)
  then show ?thesis using l start_registered_Inr [OF l(2)] by (auto simp: direct_run_def new_run_def Let_def)
qed simp

lemma Start_Inl:
  assumes "Start env t c provider prompt perm lvl opts w = (Inl e, w')" "\<forall>i. en_newRunID env (w_ids w) = Some i \<longrightarrow> get_run (w_reg w) i = None"
  shows "w_reg w' = w_reg w \<and> noticed env (w_queue w) (w_queue w')"
  using assms(1)
proof (cases rule: Start_cases)
  case (launched p model rt w1)
  then show ?thesis using assms(2)
    by (auto simp: launch_def direct_run_def new_run_def Let_def intro: noticed.none dest!: start_registered_Inl split: option.splits prod.splits)
qed simp

section \<open>Rows under a delivery pass\<close>

definition left_as :: "queue_item \<Rightarrow> string \<times> string option \<times> string" where
  "left_as i = (qi_Status i, qi_RunID i, qi_CancelKind i)"

definition auto_cancelled :: "queue_item \<Rightarrow> bool" where
  "auto_cancelled i \<longleftrightarrow> qi_Status i = ChatQueueStatusCancelled \<and> qi_CancelKind i = ChatQueueCancelAuto"

definition row_fate :: "queue_item \<Rightarrow> queue_item \<Rightarrow> bool" where
  "row_fate i i' \<longleftrightarrow> qi_ID i' = qi_ID i \<and> qi_ChatID i' = qi_ChatID i \<and> qi_RunConfig i' = qi_RunConfig i \<and> qi_Source i' = qi_Source i
     \<and> prefix (qi_Prompt i) (qi_Prompt i') \<and> (left_as i' = left_as i \<or> queued i \<and> auto_cancelled i')"

definition evolves :: "queue_db \<Rightarrow> queue_db \<Rightarrow> bool" where
  "evolves q q' \<longleftrightarrow> (\<forall>i\<in>set (qd_rows q). \<exists>i'\<in>set (qd_rows q'). row_fate i i')
     \<and> (\<forall>i'\<in>set (qd_rows q'). qi_Status i' = ChatQueueStatusDelivered \<longrightarrow> (\<exists>i\<in>set (qd_rows q). row_fate i i'))"

lemma row_fate_refl [simp]: "row_fate i i"
  by (simp add: row_fate_def)

lemma row_fate_trans: "row_fate i j \<Longrightarrow> row_fate j k \<Longrightarrow> row_fate i k"
  by (auto simp: row_fate_def left_as_def auto_cancelled_def queued_def status_defs intro: prefix_order.trans)

lemma row_fate_delivered: "row_fate i j \<Longrightarrow> qi_Status j = ChatQueueStatusDelivered \<Longrightarrow> qi_Status i = ChatQueueStatusDelivered"
  by (auto simp: row_fate_def left_as_def auto_cancelled_def status_defs)

lemma evolves_refl [simp]: "evolves q q"
  by (auto simp: evolves_def intro: row_fate_refl)

lemma evolves_trans: "evolves q q' \<Longrightarrow> evolves q' q'' \<Longrightarrow> evolves q q''"
  unfolding evolves_def by (meson row_fate_trans row_fate_delivered)

lemma evolves_update:
  assumes "\<And>i. i \<in> set (qd_rows q) \<Longrightarrow> P i \<Longrightarrow> row_fate i (f i)"
  shows "evolves q (snd (update_where P f q))"
proof -
  have "row_fate i (if P i then f i else i)" if "i \<in> set (qd_rows q)" for i using assms that by simp
  then show ?thesis unfolding evolves_def update_where_rows set_map by blast
qed

lemma evolves_insert: "(\<And>k. queued (mk k)) \<Longrightarrow> evolves q (insert_item mk q)"
  by (auto simp: evolves_def insert_item_def queued_def status_defs intro: row_fate_refl)

lemma evolves_notified [simp]: "evolves q (q'\<lparr>qd_notified := m\<rparr>) \<longleftrightarrow> evolves q q'" "evolves (q\<lparr>qd_notified := m\<rparr>) q' \<longleftrightarrow> evolves q q'"
  by (simp_all add: evolves_def)

lemma append_block_fate: "row_fate i (append_block e i)"
  by (simp add: row_fate_def append_block_def left_as_def)

lemma append_or_insert_evolves: "evolves q (snd (append_or_insert e q))"
proof (cases rule: append_or_insert_cases [of e q])
  case (append i "is")
  then show ?thesis by (simp add: evolves_update append_block_fate)
next
  case insert
  then show ?thesis by (simp add: evolves_insert child_item_def)
qed simp

lemma EnqueueChildEvent_evolves: "evolves q (snd (EnqueueChildEvent oks e q))"
  using EnqueueChildEvent_snd [of oks e q] ChildEventTx_snd [of "(fst oks, fst (snd oks))" e q]
    append_or_insert_evolves [of "q\<lparr>qd_notified := snd (claim_gate e q)\<rparr>" e] by auto

lemma noticed_evolves: "noticed env q q' \<Longrightarrow> evolves q q'"
  by (induction rule: noticed.induct) (simp_all add: EnqueueChildEvent_evolves)

lemma noticed_wf: "noticed env q q' \<Longrightarrow> queue_wf q \<Longrightarrow> queue_wf q'"
  by (induction rule: noticed.induct) (use queue_apply_wf [of _ "ChildEv _ _"] in simp_all)

lemma cancelQueuedItem_effect [simp]:
  "w_reg (cancelQueuedItem env i k r w) = w_reg w" "w_chats (cancelQueuedItem env i k r w) = w_chats w" "w_ids (cancelQueuedItem env i k r w) = w_ids w"
  by (simp_all add: cancelQueuedItem_def split: sum.splits)

lemma MarkCancelled_evolves: "evolves q (snd (MarkCancelled ok i ChatQueueCancelAuto reason now q))"
proof -
  have "evolves q (snd (update_where (\<lambda>x. qi_ID x = i \<and> queued x)
     (\<lambda>x. x\<lparr>qi_Status := ChatQueueStatusCancelled, qi_CancelReason := reason, qi_CancelKind := ChatQueueCancelAuto, qi_UpdatedAt := now\<rparr>) q))"
    by (rule evolves_update) (simp add: row_fate_def auto_cancelled_def)
  then show ?thesis by (simp add: MarkCancelled_def update_where_def Let_def)
qed

lemma cancelQueuedItem_evolves: "evolves (w_queue w) (w_queue (cancelQueuedItem env i ChatQueueCancelAuto r w))"
  by (auto simp: cancelQueuedItem_def MarkCancelled_evolves split: sum.splits)

lemma cancelQueuedItem_wf: "queue_wf (w_queue w) \<Longrightarrow> queue_wf (w_queue (cancelQueuedItem env i k r w))"
  using queue_apply_wf [of "w_queue w" "CancelledEv (en_okCancel env) i k r (en_now env)"]
  by (simp add: cancelQueuedItem_def split: sum.splits)

section \<open>A pass\<close>

text \<open>The prompts a pass gave up: each was the first that was due, and its cancel is recorded.\<close>

inductive skips :: "'f run_env \<Rightarrow> int \<Rightarrow> nat \<Rightarrow> run_world \<Rightarrow> run_world \<Rightarrow> bool" for env c where
  here: "skips env c 0 w w"
| skip: "NextQueuedAt (en_okNext env) c (en_now env) (w_queue w) = Some (Some item) \<Longrightarrow> w_reg w1 = w_reg w \<Longrightarrow>
    noticed env (w_queue w) (w_queue w1) \<Longrightarrow> skips env c n (cancelQueuedItem env (qi_ID item) ChatQueueCancelAuto reason w1) w' \<Longrightarrow>
    skips env c (Suc n) w w'"

lemma skips_keeps: "skips env c n w w' \<Longrightarrow> w_reg w' = w_reg w \<and> evolves (w_queue w) (w_queue w') \<and> (queue_wf (w_queue w) \<longrightarrow> queue_wf (w_queue w'))"
proof (induction rule: skips.induct)
  case (skip w item w1 n reason w')
  have "evolves (w_queue w) (w_queue (cancelQueuedItem env (qi_ID item) ChatQueueCancelAuto reason w1))"
    by (rule evolves_trans [OF noticed_evolves [OF skip.hyps(3)] cancelQueuedItem_evolves])
  then show ?case using skip.IH evolves_trans noticed_wf [OF skip.hyps(3)] cancelQueuedItem_wf [of w1 env "qi_ID item" ChatQueueCancelAuto reason] skip.hyps(2) by auto
qed simp

definition fresh_ids :: "'f run_env \<Rightarrow> registry \<Rightarrow> bool" where
  "fresh_ids env reg \<longleftrightarrow> (\<forall>n i. en_newRunID env n = Some i \<longrightarrow> get_run reg i = None)"

text \<open>Why a pass ends without a start: the chat or its task is busy, nothing is due, or the first prompt has to wait.\<close>

definition nothing_to_start :: "'f run_env \<Rightarrow> int \<Rightarrow> run_world \<Rightarrow> bool" where
  "nothing_to_start env c w \<longleftrightarrow> runningRunForChat (w_reg w) c \<noteq> None \<or> setupRunningForChat env w c
     \<or> (\<forall>item. NextQueuedAt (en_okNext env) c (en_now env) (w_queue w) \<noteq> Some (Some item))"

definition has_to_wait :: "'f run_env \<Rightarrow> int \<Rightarrow> run_world \<Rightarrow> run_world \<Rightarrow> bool" where
  "has_to_wait env c w w' \<longleftrightarrow> (\<exists>item chat e. NextQueuedAt (en_okNext env) c (en_now env) (w_queue w) = Some (Some item)
     \<and> start_item env c chat item w = (Inl e, w') \<and> stays_queued e)"

definition delivers :: "'f run_env \<Rightarrow> int \<Rightarrow> run_world \<Rightarrow> run_world \<Rightarrow> bool" where
  "delivers env c w w' \<longleftrightarrow> (\<exists>item chat i w1. NextQueuedAt (en_okNext env) c (en_now env) (w_queue w) = Some (Some item)
     \<and> GetChat w c = Some chat \<and> start_item env c chat item w = (Inr i, w1)
     \<and> w' = w1\<lparr>w_queue := snd (MarkDelivered (en_okMark env) (qi_ID item) i (en_now env) (w_queue w1))\<rparr>)"

lemma deliver_loop_pass:
  assumes "fresh_ids env (w_reg w)"
  shows "\<exists>k w1. k \<le> n \<and> skips env c k w w1
     \<and> (delivers env c w1 (deliver_loop env n c w) \<or> has_to_wait env c w1 (deliver_loop env n c w)
        \<or> deliver_loop env n c w = w1 \<and> (nothing_to_start env c w1 \<or> k = n))"
  using assms
proof (induction n arbitrary: w)
  case 0
  show ?case by (intro exI [of _ 0] exI [of _ w]) (simp add: skips.here)
next
  case (Suc n)
  show ?case
  proof (cases "nothing_to_start env c w")
    case True
    then have "deliver_loop env (Suc n) c w = w" by (auto simp: nothing_to_start_def split: option.splits)
    then show ?thesis using True by (intro exI [of _ 0] exI [of _ w]) (simp add: skips.here)
  next
    case False
    then obtain item where item: "NextQueuedAt (en_okNext env) c (en_now env) (w_queue w) = Some (Some item)"
      and free: "runningRunForChat (w_reg w) c = None" "\<not> setupRunningForChat env w c"
      by (auto simp: nothing_to_start_def)
    have skip: ?thesis if eq: "deliver_loop env (Suc n) c w = deliver_loop env n c (cancelQueuedItem env (qi_ID item) ChatQueueCancelAuto reason w1)"
      and w1: "w_reg w1 = w_reg w" "noticed env (w_queue w) (w_queue w1)" for reason w1
    proof -
      let ?w2 = "cancelQueuedItem env (qi_ID item) ChatQueueCancelAuto reason w1"
      obtain k w3 where k: "k \<le> n" "skips env c k ?w2 w3"
        "delivers env c w3 (deliver_loop env n c ?w2) \<or> has_to_wait env c w3 (deliver_loop env n c ?w2)
          \<or> deliver_loop env n c ?w2 = w3 \<and> (nothing_to_start env c w3 \<or> k = n)"
        using Suc.IH [of ?w2] Suc.prems w1(1) by auto
      show ?thesis unfolding eq
        by (intro exI [of _ "Suc k"] exI [of _ w3]) (use k skips.skip [OF item w1 k(2)] in auto)
    qed
    show ?thesis
    proof (cases "GetChat w c")
      case None
      then show ?thesis using skip [of _ w] item free by (auto intro: noticed.none)
    next
      case (Some chat)
      show ?thesis
      proof (cases "if rc_RetryTransient (item_config item) then en_cooling env (rc_Provider (item_config item)) else None")
        case (Some until)
        then show ?thesis using skip [of _ w] item free \<open>GetChat w c = Some chat\<close> by (auto intro: noticed.none)
      next
        case None
        obtain res w1 where st: "start_item env c chat item w = (res, w1)" by fastforce
        have step: "deliver_loop env (Suc n) c w = (case res of
             Inr i \<Rightarrow> w1\<lparr>w_queue := snd (MarkDelivered (en_okMark env) (qi_ID item) i (en_now env) (w_queue w1))\<rparr>
           | Inl e \<Rightarrow> if stays_queued e then w1 else deliver_loop env n c (cancelQueuedItem env (qi_ID item) ChatQueueCancelAuto (failure_text env e) w1))"
          using item free Some None st by (simp split: sum.splits)
        show ?thesis
        proof (cases "\<exists>e. res = Inl e \<and> \<not> stays_queued e")
          case True
          then obtain e where e: "res = Inl e" "\<not> stays_queued e" by blast
          have "w_reg w1 = w_reg w \<and> noticed env (w_queue w) (w_queue w1)"
            by (rule Start_Inl) (use st e Suc.prems in \<open>auto simp: start_item_def Let_def fresh_ids_def\<close>)
          then show ?thesis using skip [of "failure_text env e" w1] step e by simp
        next
          case False
          then have "delivers env c w (deliver_loop env (Suc n) c w) \<or> has_to_wait env c w (deliver_loop env (Suc n) c w)"
            unfolding step using item st Some by (cases res) (auto simp: delivers_def has_to_wait_def)
          then show ?thesis by (intro exI [of _ 0] exI [of _ w]) (auto simp: skips.here)
        qed
      qed
    qed
  qed
qed

section \<open>A pass is complete\<close>

text \<open>
  A notice of the budget inserted by the pass itself is held; every other queued prompt of the chat counts, and
  each prompt given up is one of them.
\<close>

definition held_notice :: "'f run_env \<Rightarrow> queue_item \<Rightarrow> bool" where
  "held_notice env i \<longleftrightarrow> (\<exists>t. qi_NotBefore i = Some t \<and> en_now env < t) \<and> en_now env < qi_CreatedAt i + en_maxHold env"

definition is_waiting :: "'f run_env \<Rightarrow> int \<Rightarrow> queue_item \<Rightarrow> bool" where
  "is_waiting env c i \<longleftrightarrow> qi_ChatID i = c \<and> queued i \<and> \<not> held_notice env i"

definition waiting :: "'f run_env \<Rightarrow> int \<Rightarrow> queue_db \<Rightarrow> queue_item list" where
  "waiting env c q = filter (is_waiting env c) (qd_rows q)"

lemma waiting_le: "length (waiting env c q) \<le> length (queued_in c q)"
proof -
  have "waiting env c q = filter (\<lambda>i. \<not> held_notice env i) (queued_in c q)" by (simp add: waiting_def queued_in_def is_waiting_def [abs_def] conj_ac)
  then show ?thesis by simp
qed

lemma waiting_notified [simp]: "waiting env c (q\<lparr>qd_notified := m\<rparr>) = waiting env c q"
  by (simp add: waiting_def)

lemma append_block_held:
  assumes "held_notice env i" "ce_Now e = en_now env" "ce_Debounce e = en_debounce env" "ce_MaxHold e = en_maxHold env" "0 < en_debounce env"
  shows "held_notice env (append_block e i)"
  using assms by (auto simp: held_notice_def append_block_def pushed_hold_def Let_def)

lemma filter_map_le:
  assumes "\<And>x. Q (g x) \<Longrightarrow> Q x"
  shows "length (filter Q (map g xs)) \<le> length (filter Q xs)"
  using assms by (induction xs) (auto simp: le_Suc_eq)

lemma filter_map_shrinks:
  assumes "\<And>x. Q (g x) \<Longrightarrow> Q x" "x \<in> set xs" "Q x"
  shows "g x \<in> set (filter Q (map g xs)) \<or> length (filter Q (map g xs)) < length (filter Q xs)"
proof -
  obtain ys zs where "xs = ys @ x # zs" using split_list [OF assms(2)] by blast
  then show ?thesis using assms(3) filter_map_le [of Q g ys, OF assms(1)] filter_map_le [of Q g zs, OF assms(1)] by auto
qed

text \<open>A change of the rows that only takes prompts out of the waiting ones, seen from one of them.\<close>

definition shrinks :: "'f run_env \<Rightarrow> int \<Rightarrow> queue_item \<Rightarrow> queue_db \<Rightarrow> queue_db \<Rightarrow> bool" where
  "shrinks env c i q q' \<longleftrightarrow> length (waiting env c q') \<le> length (waiting env c q)
     \<and> ((\<exists>i'\<in>set (waiting env c q'). qi_ID i' = qi_ID i) \<or> length (waiting env c q') < length (waiting env c q))"

lemma shrinks_update:
  assumes out: "\<And>x. P x \<Longrightarrow> qi_ID (f x) = qi_ID x \<and> (is_waiting env c (f x) \<longrightarrow> is_waiting env c x)"
    and i: "i \<in> set (waiting env c q)"
  shows "shrinks env c i q (snd (update_where P f q))"
proof -
  define g where "g = (\<lambda>x. if P x then f x else x)"
  have g: "is_waiting env c (g x) \<Longrightarrow> is_waiting env c x" "qi_ID (g x) = qi_ID x" for x using out [of x] by (auto simp: g_def split: if_splits)
  have rows: "qd_rows (snd (update_where P f q)) = map g (qd_rows q)" by (simp add: g_def)
  have mem: "i \<in> set (qd_rows q)" "is_waiting env c i" using i by (simp_all add: waiting_def)
  from filter_map_shrinks [of "is_waiting env c" g, OF g(1) mem] filter_map_le [of "is_waiting env c" g "qd_rows q", OF g(1)] g(2) [of i]
  show ?thesis unfolding shrinks_def waiting_def rows by blast
qed

lemma shrinks_refl: "i \<in> set (waiting env c q) \<Longrightarrow> shrinks env c i q q"
  by (auto simp: shrinks_def)

lemma append_or_insert_shrinks:
  assumes e: "ce_Now e = en_now env" "ce_Debounce e = en_debounce env" "ce_MaxHold e = en_maxHold env" and pos: "0 < en_debounce env" "0 < en_maxHold env"
    and j: "j \<in> set (waiting env c q)"
  shows "shrinks env c j q (snd (append_or_insert e q))"
proof (cases rule: append_or_insert_cases [of e q])
  case (append i "is")
  show ?thesis unfolding append(4) snd_conv
  proof (rule shrinks_update [OF _ j])
    fix x
    show "qi_ID (append_block e x) = qi_ID x \<and> (is_waiting env c (append_block e x) \<longrightarrow> is_waiting env c x)"
      using append_block_held [OF _ e pos(1), of x] by (auto simp: append_block_def queued_def is_waiting_def)
  qed
next
  case insert
  have "held_notice env (child_item e k)" for k using e pos by (simp add: held_notice_def child_item_def new_item_def)
  then have "waiting env c (snd (append_or_insert e q)) = waiting env c q" using insert by (simp add: waiting_def insert_item_def is_waiting_def)
  then show ?thesis using j by (auto simp: shrinks_def)
qed (use j in \<open>simp add: shrinks_refl\<close>)

lemma noticed_shrinks:
  assumes "noticed env q q'" "0 < en_debounce env" "0 < en_maxHold env" "j \<in> set (waiting env c q)"
  shows "shrinks env c j q q'"
  using assms
proof (induction rule: noticed.induct)
  case (notice e q oks)
  have "shrinks env c j q (snd (append_or_insert e (q\<lparr>qd_notified := m\<rparr>)))" for m
    using append_or_insert_shrinks [of e env j c "q\<lparr>qd_notified := m\<rparr>"] notice by (simp add: shrinks_def)
  moreover have "shrinks env c j q (q\<lparr>qd_notified := m\<rparr>)" for m using notice by (auto simp: shrinks_def)
  ultimately show ?case
    using shrinks_refl [OF notice.prems(3)] EnqueueChildEvent_snd [of oks e q] ChildEventTx_snd [of "(fst oks, fst (snd oks))" e q] by auto
qed (simp add: shrinks_refl)

lemma cancel_rows:
  assumes "en_okCancel env" "i \<in> qi_ID ` set (qd_rows (w_queue w))"
  shows "w_queue (cancelQueuedItem env i k r w) = snd (update_where (\<lambda>x. qi_ID x = i \<and> queued x)
     (\<lambda>x. x\<lparr>qi_Status := ChatQueueStatusCancelled, qi_CancelReason := r, qi_CancelKind := k, qi_UpdatedAt := en_now env\<rparr>) (w_queue w))"
  using assms by (auto simp: cancelQueuedItem_def GetChatQueueItem_def MarkCancelled_def update_where_def Let_def find_None_iff
        split: option.splits sum.splits)

lemma cancel_waiting:
  assumes "i \<in> qi_ID ` set (qd_rows (w_queue w))" "en_okCancel env"
  shows "length (waiting env c (w_queue (cancelQueuedItem env i k r w))) \<le> length (waiting env c (w_queue w))
     \<and> (x \<in> set (waiting env c (w_queue w)) \<longrightarrow> qi_ID x = i \<longrightarrow>
          length (waiting env c (w_queue (cancelQueuedItem env i k r w))) < length (waiting env c (w_queue w)))"
proof -
  define g where "g = (\<lambda>x. if qi_ID x = i \<and> queued x
    then x\<lparr>qi_Status := ChatQueueStatusCancelled, qi_CancelReason := r, qi_CancelKind := k, qi_UpdatedAt := en_now env\<rparr> else x)"
  have gone: "\<not> is_waiting env c (g y)" if "qi_ID y = i" for y using that by (simp add: g_def is_waiting_def queued_def status_defs)
  have same: "g y = y" if "qi_ID y \<noteq> i" for y using that by (simp add: g_def)
  have Q: "is_waiting env c (g y) \<Longrightarrow> is_waiting env c y" for y using gone [of y] same [of y] by metis
  have rows: "qd_rows (w_queue (cancelQueuedItem env i k r w)) = map g (qd_rows (w_queue w))"
    unfolding cancel_rows [OF assms(2,1)] by (simp add: g_def)
  show ?thesis unfolding waiting_def rows
    using filter_map_le [of "is_waiting env c" g, OF Q] filter_map_shrinks [of "is_waiting env c" g x "qd_rows (w_queue w)", OF Q] gone [of x] by auto
qed

lemma deliverable_waiting: "i \<in> set (qd_rows q) \<Longrightarrow> deliverable c (en_now env) i \<Longrightarrow> i \<in> set (waiting env c q)"
  by (auto simp: deliverable_def waiting_def is_waiting_def held_notice_def split: option.splits)

lemma NextQueuedAt_in: "NextQueuedAt ok c now q = Some (Some i) \<Longrightarrow> i \<in> set (qd_rows q) \<and> deliverable c now i"
  by (auto simp: NextQueuedAt_def split: if_splits list.splits dest: sort_key_Cons_in)

lemma skips_waiting:
  assumes "skips env c k w w'" "0 < en_debounce env" "0 < en_maxHold env" "en_okCancel env"
  shows "length (waiting env c (w_queue w')) + k \<le> length (waiting env c (w_queue w))"
  using assms
proof (induction rule: skips.induct)
  case (skip w item w1 n reason w')
  have item: "item \<in> set (qd_rows (w_queue w))" "item \<in> set (waiting env c (w_queue w))"
    using NextQueuedAt_in [OF skip.hyps(1)] deliverable_waiting by blast+
  have "qi_ID item \<in> qi_ID ` set (qd_rows (w_queue w1))"
    using noticed_evolves [OF skip.hyps(3)] item(1) unfolding evolves_def row_fate_def by (metis imageI)
  note c = cancel_waiting [OF this skip.prems(3), where c = c and k = ChatQueueCancelAuto and r = reason]
  have "length (waiting env c (w_queue (cancelQueuedItem env (qi_ID item) ChatQueueCancelAuto reason w1))) < length (waiting env c (w_queue w))"
  proof -
    consider i' where "i' \<in> set (waiting env c (w_queue w1))" "qi_ID i' = qi_ID item" | "length (waiting env c (w_queue w1)) < length (waiting env c (w_queue w))"
      using noticed_shrinks [OF skip.hyps(3) skip.prems(1,2) item(2)] unfolding shrinks_def by blast
    then show ?thesis
    proof cases
      case 1
      then show ?thesis using c [of i'] noticed_shrinks [OF skip.hyps(3) skip.prems(1,2) item(2)] unfolding shrinks_def by linarith
    qed (use c [of item] in linarith)
  qed
  then show ?case using skip.IH [OF skip.prems] by linarith
qed simp

end
