(* ===== verification/DeliveryProps.thy ===== *)
theory DeliveryProps
  imports DeliverySteps
begin

text \<open>
  The promises of sending and delivering: one run per pass, for the first prompt that can start; nothing
  startable is left behind; nobody but a human sends with settings that approve by themselves; and the race
  in which a report to a parent is lost.
\<close>

section \<open>The run of a prompt\<close>

lemma delivery_options_fields [simp]:
  "so_origin (resolveStartOptions (delivery_options env item cfg)) = qi_Source item"
  "so_failoverOf (resolveStartOptions (delivery_options env item cfg)) = rc_FailoverOf cfg"
  "so_profileID (resolveStartOptions (delivery_options env item cfg)) = rc_ProfileID cfg"
  by (simp_all add: resolveStartOptions_def delivery_options_def attachmentStartOption_def no_options_def WithModel_def WithOrigin_def WithInheritedLevel_def WithInterrupt_def
      WithReplyChat_def WithProfile_def WithFailoverOf_def WithAttachments_def)

text \<open>The run a prompt asks for.\<close>

definition run_of_item :: "live_run \<Rightarrow> int \<Rightarrow> queue_item \<Rightarrow> bool" where
  "run_of_item r c item \<longleftrightarrow> rn_chatID r = c \<and> rn_prompt r = deliverPrompt item \<and> rn_origin r = qi_Source item \<and> is_running r
     \<and> ps_AutoAccept (rn_perm r) = rc_AutoAccept (item_config item)
     \<and> (rc_PermissionMode (item_config item) \<noteq> [] \<longrightarrow> ps_Mode (rn_perm r) = rc_PermissionMode (item_config item))
     \<and> rn_provider r = rc_Provider (item_config item) \<and> rn_profileID r = rc_ProfileID (item_config item) \<and> rn_failoverOf r = rc_FailoverOf (item_config item)"

lemma start_item_Inr:
  assumes "start_item env c chat item w = (Inr i, w1)" "c \<noteq> 0"
  shows "\<exists>r. run_of_item r c item \<and> rn_id r = i \<and> en_newRunID env (w_ids w) = Some i \<and> w_reg w1 = put_run r (w_reg w) \<and> w_queue w1 = w_queue w
     \<and> runningRunForChat (w_reg w) c = None"
proof -
  obtain r where "run_of_request r (ch_TaskID chat) c (rc_Provider (item_config item)) (deliverPrompt item)
      \<lparr>ps_Mode = rc_PermissionMode (item_config item), ps_AutoAccept = rc_AutoAccept (item_config item)\<rparr> (delivery_options env item (item_config item))"
    "rn_id r = i" "en_newRunID env (w_ids w) = Some i" "w_reg w1 = put_run r (w_reg w)" "w_queue w1 = w_queue w" "runningRunForChat (w_reg w) (rn_chatID r) = None"
    using Start_Inr [OF assms(1) [unfolded start_item_def Let_def]] by blast
  then show ?thesis using assms(2) by (intro exI [of _ r]) (auto simp: run_of_request_def run_of_item_def)
qed

lemma start_item_Inl:
  assumes "start_item env c chat item w = (Inl e, w1)" "fresh_ids env (w_reg w)"
  shows "w_reg w1 = w_reg w \<and> evolves (w_queue w) (w_queue w1)"
  using Start_Inl [OF assms(1) [unfolded start_item_def Let_def]] assms(2) noticed_evolves by (auto simp: fresh_ids_def)

lemma deliverOne_pass:
  assumes "fresh_ids env (w_reg w)"
  shows "deliverOne env c w = w \<or> (\<exists>k w1. k \<le> chatQueueDeliveryCap \<and> skips env c k w w1
     \<and> (delivers env c w1 (deliverOne env c w) \<or> has_to_wait env c w1 (deliverOne env c w)
        \<or> deliverOne env c w = w1 \<and> (nothing_to_start env c w1 \<or> k = chatQueueDeliveryCap)))"
  using deliver_loop_pass [OF assms, of chatQueueDeliveryCap c] by (auto simp: deliverOne_def)

text \<open>
  C9. One pass over the queue of a chat starts at most one run. Either it starts none: the registry is as before
  and every prompt is still queued or was cancelled by the pass. Or it starts one, on a chat that had no
  running run, for the prompt that is first in the order of delivery once the prompts the pass gave up are
  cancelled: the run has the prompt with the header of its source, its permission settings and its chain,
  and that row alone is marked delivered with that run.
\<close>

theorem a_pass_starts_at_most_one_prompt:
  assumes "fresh_ids env (w_reg w)" "c \<noteq> 0"
  shows "(w_reg (deliverOne env c w) = w_reg w \<and> evolves (w_queue w) (w_queue (deliverOne env c w)))
     \<or> (\<exists>q item r. evolves (w_queue w) q \<and> NextQueuedAt (en_okNext env) c (en_now env) q = Some (Some item)
          \<and> runningRunForChat (w_reg w) c = None \<and> get_run (w_reg w) (rn_id r) = None
          \<and> run_of_item r c item \<and> w_reg (deliverOne env c w) = put_run r (w_reg w)
          \<and> w_queue (deliverOne env c w) = snd (MarkDelivered (en_okMark env) (qi_ID item) (rn_id r) (en_now env) q))"
proof -
  from deliverOne_pass [OF assms(1), of c] show ?thesis
  proof (elim disjE exE conjE)
    fix k w1 assume s: "skips env c k w w1" and d: "delivers env c w1 (deliverOne env c w)"
    obtain item chat i w2 where n: "NextQueuedAt (en_okNext env) c (en_now env) (w_queue w1) = Some (Some item)"
      and st: "start_item env c chat item w1 = (Inr i, w2)"
      and eq: "deliverOne env c w = w2\<lparr>w_queue := snd (MarkDelivered (en_okMark env) (qi_ID item) i (en_now env) (w_queue w2))\<rparr>"
      using d unfolding delivers_def by blast
    obtain r where r: "run_of_item r c item" "rn_id r = i" "en_newRunID env (w_ids w1) = Some i" "w_reg w2 = put_run r (w_reg w1)" "w_queue w2 = w_queue w1"
      "runningRunForChat (w_reg w1) c = None"
      using start_item_Inr [OF st assms(2)] by blast
    then have "get_run (w_reg w) (rn_id r) = None" using assms(1) by (auto simp: fresh_ids_def)
    then show ?thesis
      using n r eq skips_keeps [OF s] by (intro disjI2 exI [of _ "w_queue w1"] exI [of _ item] exI [of _ r]) simp
  next
    fix k w1 assume s: "skips env c k w w1" and d: "has_to_wait env c w1 (deliverOne env c w)"
    then obtain item chat e where "start_item env c chat item w1 = (Inl e, deliverOne env c w)" unfolding has_to_wait_def by blast
    then have "w_reg (deliverOne env c w) = w_reg w \<and> evolves (w_queue w1) (w_queue (deliverOne env c w))"
      using start_item_Inl assms(1) skips_keeps [OF s] by metis
    then show ?thesis using evolves_trans skips_keeps [OF s] by blast
  qed (auto dest: skips_keeps)
qed


section \<open>Non-human sends\<close>







lemma new_item_fields [simp]: "qi_RunConfig (new_item s now k) = qs_RunConfig s"
  by (simp add: new_item_def)

lemma settings_collapse [simp]: "\<lparr>ps_Mode = ps_Mode p, ps_AutoAccept = ps_AutoAccept p\<rparr> = p"
  by (cases p) simp







section \<open>A report that arrives during a delivery\<close>

lemma append_or_insert_single:
  assumes "queue_wf q" "item \<in> set (qd_rows q)" "is_child_event (ce_ChatID e) item"
  shows "append_or_insert e q = (Inr (qi_ID item, True), snd (update_where (\<lambda>r. qi_ID r = qi_ID item) (append_block e) q))"
proof -
  have "item \<in> set (filter (is_child_event (ce_ChatID e)) (qd_rows q))" "length (filter (is_child_event (ce_ChatID e)) (qd_rows q)) \<le> 1"
    using assms by (auto simp: queue_wf_def)
  then have "filter (is_child_event (ce_ChatID e)) (qd_rows q) = [item]" by (cases "filter (is_child_event (ce_ChatID e)) (qd_rows q)") auto
  then show ?thesis by (simp add: append_or_insert_def)
qed

lemma MarkDelivered_rows:
  "qd_rows (snd (MarkDelivered True k r now q)) = map (\<lambda>x. if qi_ID x = k \<and> queued x
     then x\<lparr>qi_Status := ChatQueueStatusDelivered, qi_RunID := Some r, qi_UpdatedAt := now\<rparr> else x) (qd_rows q)"
  "qd_notified (snd (MarkDelivered True k r now q)) = qd_notified q"
  by (simp_all add: MarkDelivered_def update_where_def Let_def)

lemma EnqueueChildEvent_Inr:
  assumes "EnqueueChildEvent oks e q = (Inr res, q')"
  shows "\<exists>k a. enqueueChildEventTx (fst oks, fst (snd oks)) e q = (Inr (k, a), q')
     \<and> append_or_insert e (q\<lparr>qd_notified := snd (claim_gate e q)\<rparr>) = (Inr (k, a), q')"
  using assms by (auto simp: EnqueueChildEvent_def enqueueChildEventTx_def split: prod.splits sum.splits if_splits)

lemma child_event_unique:
  assumes "queue_wf q" "x \<in> set (qd_rows q)" "is_child_event c x" "y \<in> set (qd_rows q)" "is_child_event c y"
  shows "x = y"
proof -
  have "{x, y} \<subseteq> set (filter (is_child_event c) (qd_rows q))" "length (filter (is_child_event c) (qd_rows q)) \<le> 1"
    using assms by (simp_all add: queue_wf_def)
  then show ?thesis by (cases "filter (is_child_event c) (qd_rows q)") auto
qed

text \<open>The row of the child events after an append and the mark of the delivery.\<close>

lemma append_then_delivered:
  assumes wf: "queue_wf q" and item: "item \<in> set (qd_rows q)" "is_child_event c item"
    and q': "q' = snd (MarkDelivered True (qi_ID item) i now (snd (update_where (\<lambda>r. qi_ID r = qi_ID item) (append_block e) q)))"
  shows "(\<exists>row\<in>set (qd_rows q'). qi_ID row = qi_ID item \<and> qi_Status row = ChatQueueStatusDelivered
          \<and> qi_Prompt row = qi_Prompt item @ [CHR 0x0A, CHR 0x0A] @ ce_Block e) \<and> (\<forall>row\<in>set (qd_rows q'). \<not> is_child_event c row)"
proof -
  define f where "f = (\<lambda>x. if qi_ID x = qi_ID item \<and> queued x then x\<lparr>qi_Status := ChatQueueStatusDelivered, qi_RunID := Some i, qi_UpdatedAt := now\<rparr> else x)"
  define g where "g = (\<lambda>x. if qi_ID x = qi_ID item then append_block e x else x)"
  have rows: "set (qd_rows q') = (\<lambda>x. f (g x)) ` set (qd_rows q)" unfolding q' MarkDelivered_rows by (simp add: f_def g_def image_image)
  have id: "qi_ID (g x) = qi_ID x" for x by (simp add: g_def append_block_def)
  have fi: "\<not> queued (f x)" if "qi_ID x = qi_ID item" for x using that by (simp add: f_def) (simp add: queued_def status_defs)
  have other: "f (g x) = x" if "qi_ID x \<noteq> qi_ID item" for x using that by (simp add: f_def g_def)
  have "\<not> is_child_event c (f (g x))" if "x \<in> set (qd_rows q)" for x
  proof (cases "qi_ID x = qi_ID item")
    case True
    then show ?thesis using fi [of "g x"] id [of x] by (simp add: is_child_event_def)
  next
    case False
    then have "x \<noteq> item" by blast
    then show ?thesis using other [OF False] child_event_unique [OF wf that _ item] by metis
  qed
  moreover have "qi_ID (f (g item)) = qi_ID item \<and> qi_Status (f (g item)) = ChatQueueStatusDelivered
     \<and> qi_Prompt (f (g item)) = qi_Prompt item @ [CHR 0x0A, CHR 0x0A] @ ce_Block e"
    using item(2) by (simp add: f_def g_def append_block_def is_child_event_def)
  ultimately show ?thesis unfolding rows using item(1) by blast
qed

text \<open>
  C39. What a delivery does to a report that arrives while it runs. The pass reads the row of the child events,
  starts the run with the prompt it read and marks the row delivered afterwards; the notifier, which takes
  another lock, appends to the row as long as it is queued. A report appended in between is in the row that is
  then marked delivered, but neither in the prompt of the run nor in any queued prompt of the chat, and its
  runs are claimed, so that it is never sent again.
\<close>

theorem append_during_delivery_is_lost:
  assumes "queue_wf (w_queue w)" "NextQueuedAt (en_okNext env) c (en_now env) (w_queue w) = Some (Some item)" "c \<noteq> 0"
    "qi_Source item = ChatQueueSourceChildEvent" "start_item env c chat item w = (Inr i, w1)"
    "EnqueueChildEvent oks e (w_queue w1) = (Inr res, q)" "ce_ChatID e = c"
    "q' = snd (MarkDelivered True (qi_ID item) i now q)"
  shows "(\<exists>r. get_run (w_reg w1) i = Some r \<and> rn_prompt r = childEventHeader @ qi_Prompt item)
     \<and> (\<exists>row\<in>set (qd_rows q'). qi_ID row = qi_ID item \<and> qi_Status row = ChatQueueStatusDelivered
          \<and> qi_Prompt row = qi_Prompt item @ [CHR 0x0A, CHR 0x0A] @ ce_Block e)
     \<and> (\<forall>row\<in>set (qd_rows q'). \<not> is_child_event c row)
     \<and> (ce_RunIDs e' \<noteq> [] \<longrightarrow> set (ce_RunIDs e') \<subseteq> set (ce_RunIDs e) \<longrightarrow> fst (EnqueueChildEvent (True, oks') e' q') = Inl AlreadyNotified)"
proof -
  have item: "item \<in> set (qd_rows (w_queue w))" "is_child_event c item"
    using NextQueuedAt_in [OF assms(2)] assms(4) by (simp_all add: deliverable_def is_child_event_def)
  obtain r where r: "run_of_item r c item" "rn_id r = i" "w_reg w1 = put_run r (w_reg w)" "w_queue w1 = w_queue w"
    using start_item_Inr [OF assms(5,3)] by blast
  have run: "\<exists>r. get_run (w_reg w1) i = Some r \<and> rn_prompt r = childEventHeader @ qi_Prompt item"
    using r get_put_run [of r "w_reg w"] assms(4) by (auto simp: run_of_item_def deliverPrompt_def)
  define q0 where "q0 = (w_queue w)\<lparr>qd_notified := snd (claim_gate e (w_queue w))\<rparr>"
  obtain k a where tx: "enqueueChildEventTx (fst oks, fst (snd oks)) e (w_queue w) = (Inr (k, a), q)" and ai: "append_or_insert e q0 = (Inr (k, a), q)"
    using EnqueueChildEvent_Inr [OF assms(6)] unfolding r(4) q0_def by blast
  have q0: "queue_wf q0" "item \<in> set (qd_rows q0)" using item(1) assms(1) by (simp_all add: q0_def)
  have "q = snd (update_where (\<lambda>r. qi_ID r = qi_ID item) (append_block e) q0)"
    using append_or_insert_single [OF q0, of e] ai item(2) assms(7) by simp
  note rows = append_then_delivered [OF q0 item(2), of q' i now e, folded this, OF assms(8)]
  have "qd_notified q' = qd_notified q" using assms(8) by (simp add: MarkDelivered_rows)
  then have "ce_RunIDs e' \<noteq> [] \<Longrightarrow> set (ce_RunIDs e') \<subseteq> set (ce_RunIDs e) \<Longrightarrow> EnqueueChildEvent (True, oks') e' q' = (Inl AlreadyNotified, q')"
    using claim_twice [of q' e "w_queue w" "ce_Now e" e' oks'] conjunct2 [OF ChildEventTx_ok [OF tx]] by simp
  then show ?thesis using run rows by simp
qed

section \<open>An example\<close>

definition demo_spec :: provider_spec where
  "demo_spec = \<lparr>sp_ID = ''claude'', sp_Runner = RunnerClaude, sp_Extends = [], sp_Models = [(''sonnet'', True)], sp_ModelsMode = [], sp_Modes = [], sp_DefaultMode = [],
     sp_SupportsAutoAccept = True\<rparr>"

definition pass_task :: "nat task_facts tree_task" where
  "pass_task = \<lparr>tt_ParentTaskID = None, tt_row = \<lparr>tf_Archived = False, tf_SetupStatus = [], tf_BudgetUSD = None\<rparr>\<rparr>"

definition pass_env :: "nat run_env" where
  "pass_env = \<lparr>en_runner = \<lparr>rs_specs = [demo_spec], rs_defaultModels = (\<lambda>p. ''sonnet''), rs_acpModes = (\<lambda>p. None), rs_acpModels = (\<lambda>p. None), rs_env = (\<lambda>v. [])\<rparr>,
     en_providers = \<lparr>rs_specs = [demo_spec], rs_defaultModels = (\<lambda>p. []), rs_acpModes = (\<lambda>p. None), rs_acpModels = (\<lambda>p. None), rs_env = (\<lambda>v. [])\<rparr>,
     en_task = (\<lambda>t. Some pass_task), en_profile = (\<lambda>p. None), en_latestRun = (\<lambda>c. None), en_knownCost = (\<lambda>r. None), en_ge = (\<lambda>a b. b \<le> a), en_cooling = (\<lambda>p. None),
     en_gate = None, en_now = 50, en_newRunID = (\<lambda>n. if n = 0 then Some ''r1'' else None), en_budgetText = (\<lambda>r. []), en_errText = (\<lambda>e. []), en_timeText = (\<lambda>t. []),
     en_notifyParent = True, en_debounce = 20, en_maxHold = 60, en_closing = False, en_starter = True, en_decodes = (\<lambda>a. False), en_okBind = True, en_okPersist = True,
     en_okEnqueue = (True, True, True), en_okChild = (True, True, True, True), en_okNext = True, en_okMark = True, en_okCancel = True, en_okList = True\<rparr>"

definition demo_reg :: registry where
  "demo_reg = \<lparr>rg_runs = [], rg_archiving = {}, rg_syncing = {}, rg_maxConcurrentRunsPerTree = 4, rg_finishedOrder = [], rg_systemFinishedOrder = []\<rparr>"

definition demo_chat :: chat_row where
  "demo_chat = \<lparr>ch_ID = 7, ch_TaskID = 3, ch_Title = ''Chat'', ch_Archived = False, ch_Provider = Some ''claude''\<rparr>"

definition demo_world :: "queue_db \<Rightarrow> run_world" where
  "demo_world q = \<lparr>w_queue = q, w_reg = demo_reg, w_chats = [demo_chat], w_chatSeq = 7, w_budgetNotified = {}, w_ids = 0\<rparr>"

definition demo_config :: run_config where
  "demo_config = empty_config\<lparr>rc_Provider := ''claude'', rc_PermissionMode := ''plan'', rc_Model := ''sonnet''\<rparr>"

definition report_of :: "string list \<Rightarrow> string \<Rightarrow> child_event_input" where
  "report_of rs text = \<lparr>ce_ChatID = 7, ce_RunIDs = rs, ce_Block = text, ce_RunConfig = Some demo_config, ce_Now = 10, ce_Debounce = 20, ce_MaxHold = 60\<rparr>"

definition report_queue :: queue_db where
  "report_queue = queue_apply (ChildEv (True, True, True, True) (report_of [''a''] ''a is done'')) (empty_queue (\<lambda>r. Some None))"

definition report_item :: queue_item where
  "report_item = child_item (report_of [''a''] ''a is done'') 1"

lemma report_queue_wf: "queue_wf report_queue"
  unfolding report_queue_def by (rule queue_apply_wf) (auto simp: queue_wf_def empty_queue_def queued_in_def)

lemma report_queue_rows: "qd_rows report_queue = [report_item]" "qd_seq report_queue = 1"
  by (simp_all add: report_queue_def report_item_def report_of_def empty_queue_def EnqueueChildEvent_def enqueueChildEventTx_def claim_gate_def append_or_insert_def
      queued_in_def chatQueueBound_def insert_item_def GetChatQueueItem_def child_item_def)

lemma report_next: "NextQueuedAt (en_okNext pass_env) 7 (en_now pass_env) report_queue = Some (Some report_item)"
  by (simp add: NextQueuedAt_def report_queue_rows pass_env_def deliverable_def report_item_def child_item_def report_of_def new_item_def queued_def)

lemma report_starts: "fst (start_item pass_env 7 demo_chat report_item (demo_world report_queue)) = Inr ''r1''"
  unfolding report_queue_def report_item_def by code_simp


lemma demo_fresh: "fresh_ids pass_env (w_reg (demo_world q))"
  by (simp add: fresh_ids_def demo_world_def demo_reg_def get_run_def)

theorem a_pass_starts_at_most_one_prompt_witness:
  "\<exists>item r. run_of_item r 7 item \<and> w_reg (deliverOne pass_env 7 (demo_world report_queue)) = put_run r demo_reg"
proof -
  have "map rn_id (rg_runs (w_reg (deliverOne pass_env 7 (demo_world report_queue)))) = [''r1'']" unfolding report_queue_def by code_simp
  then have "w_reg (deliverOne pass_env 7 (demo_world report_queue)) \<noteq> w_reg (demo_world report_queue)" by (auto simp: demo_world_def demo_reg_def)
  then show ?thesis using a_pass_starts_at_most_one_prompt [OF demo_fresh, of 7 report_queue] by (auto simp: demo_world_def)
qed



theorem append_during_delivery_is_lost_witness:
  "\<exists>q. (\<forall>row\<in>set (qd_rows q). \<not> is_child_event 7 row)
     \<and> fst (EnqueueChildEvent (True, True, True, True) (report_of [''b''] ''b is done'') q) = Inl AlreadyNotified"
proof -
  let ?start = "start_item pass_env 7 demo_chat report_item (demo_world report_queue)"
  let ?append = "EnqueueChildEvent (True, True, True, True) (report_of [''b''] ''b is done'') (w_queue (snd ?start))"
  have start: "?start = (Inr ''r1'', snd ?start)" using report_starts by (metis prod.collapse)
  have "isl (fst ?append) = False" unfolding report_queue_def report_item_def by code_simp
  then obtain res where "fst ?append = Inr res" by (cases "fst ?append") auto
  then have append: "?append = (Inr res, snd ?append)" by (metis prod.collapse)
  have "queue_wf (w_queue (demo_world report_queue))" "NextQueuedAt (en_okNext pass_env) 7 (en_now pass_env) (w_queue (demo_world report_queue)) = Some (Some report_item)"
    using report_queue_wf report_next by (simp_all add: demo_world_def)
  note lost = append_during_delivery_is_lost [OF this _ _ start append _ refl, where e' = "report_of [''b''] ''b is done''" and oks' = "(True, True, True)"]
  show ?thesis by (intro exI) (rule conjI [OF lost [THEN conjunct2, THEN conjunct2, THEN conjunct1]
      lost [THEN conjunct2, THEN conjunct2, THEN conjunct2, rule_format]]; simp add: report_of_def report_item_def child_item_def)
qed

end
