(* ===== verification/Failover.thy ===== *)
theory Failover
  imports DeliveryProps
begin

text \<open>
  What happens to a run that failed at a rate limit: \<open>internal/runs/failover.go\<close>. A short throttle is retried on
  the same chat after a bounded wait, a used-up plan is waited for or continued on another profile, and
  anything else is left to a human. The last text of the agent and the rows of the finished runs are read from
  the store and are parameters.
\<close>

section \<open>Constants and texts\<close>

definition fallbackTailMax :: nat where "fallbackTailMax = 4096"
definition defaultRetryGrace :: duration where "defaultRetryGrace = 30 * Second"
definition transientRetryBackoffs :: "duration list" where "transientRetryBackoffs = [30 * Second, 2 * Minute]"
definition transientRetryAfterMin :: duration where "transientRetryAfterMin = 5 * Second"
definition transientRetryAfterMax :: duration where "transientRetryAfterMax = 5 * Minute"

definition retryPreface :: string where
  "retryPreface = ''(Retrying after a provider rate limit. Your earlier attempt may have made partial progress: check git status and git log, then continue.)''
     @ [CHR 0x0A, CHR 0x0A]"

definition transientRetryPreface :: string where
  "transientRetryPreface = ''(Retrying after a short provider throttle. Your earlier attempt may have made partial progress: check git status and git log, then continue.)''
     @ [CHR 0x0A, CHR 0x0A]"

definition failoverPreface :: "string \<Rightarrow> string" where
  "failoverPreface oldProvider = ''(The previous attempt on '' @ oldProvider @ '' stopped at a rate limit. The task'' @ [CHR 0x27] @
     ''s worktree holds its changes: inspect `git status` and `git log`, then continue the work below. Your earlier conversation is not available to you.)''
     @ [CHR 0x0A, CHR 0x0A]"

lemma preface_nonempty: "transientRetryPreface \<noteq> []" "retryPreface \<noteq> []"
  by (simp_all add: transientRetryPreface_def retryPreface_def)

lemma TrimPrefix_shorter: "HasPrefix s p \<Longrightarrow> p \<noteq> [] \<Longrightarrow> length (TrimPrefix s p) < length s"
  by (cases s; cases p) (auto simp: HasPrefix_def TrimPrefix_def)

function stripRetryPreface :: "string \<Rightarrow> string" where
  "stripRetryPreface prompt =
     (if HasPrefix prompt transientRetryPreface then stripRetryPreface (TrimPrefix prompt transientRetryPreface)
      else if HasPrefix prompt retryPreface then stripRetryPreface (TrimPrefix prompt retryPreface)
      else prompt)"
  by pat_completeness auto
termination
  by (relation "measure length") (auto intro: TrimPrefix_shorter simp: preface_nonempty)

declare stripRetryPreface.simps [simp del]

definition stripProvenanceHeader :: "string \<Rightarrow> string" where
  "stripProvenanceHeader prompt =
     (if HasPrefix prompt ''[message from task #'' then
        (case CutByte prompt CHR 0x0A of (line, rest, ok) \<Rightarrow> if ok \<and> HasSuffix line '']'' then rest else prompt)
      else prompt)"

text \<open>\<open>utf8.RuneStart\<close>: every byte but a continuation byte.\<close>

definition RuneStart :: "char \<Rightarrow> bool" where
  "RuneStart c \<longleftrightarrow> (of_char c :: nat) div 64 \<noteq> 2"

definition tailBytes :: "string \<Rightarrow> nat \<Rightarrow> string" where
  "tailBytes s m = (if length s \<le> m then s else dropWhile (\<lambda>c. \<not> RuneStart c) (drop (length s - m) s))"

section \<open>Retries\<close>

record run_row =
  rw_FailureKind :: string
  rw_FailoverOf :: string

definition FallbackProfileFor :: "'f run_env \<Rightarrow> int \<Rightarrow> int" where
  "FallbackProfileFor env profileID =
     (if profileID = 0 then 0
      else case en_profile env profileID of
        None \<Rightarrow> 0
      | Some p \<Rightarrow> (case ap_FallbackProfileID p of None \<Rightarrow> 0 | Some i \<Rightarrow> i))"

definition transientRetryEligible :: "live_run \<Rightarrow> bool" where
  "transientRetryEligible r \<longleftrightarrow> rn_profileID r \<noteq> 0 \<or> rn_origin r \<noteq> [] \<and> rn_origin r \<noteq> ChatQueueSourceHuman"

function attempts_loop :: "(string \<Rightarrow> run_row option) \<Rightarrow> string \<Rightarrow> nat \<Rightarrow> nat" where
  "attempts_loop get i n =
     (if i \<noteq> [] \<and> n \<le> length transientRetryBackoffs then
        (case get i of
           None \<Rightarrow> n
         | Some row \<Rightarrow> if rw_FailureKind row \<noteq> KindTransient429 then n else attempts_loop get (rw_FailoverOf row) (Suc n))
      else n)"
  by pat_completeness auto
termination
  by (relation "measure (\<lambda>(get, i, n). Suc (length transientRetryBackoffs) - n)") auto

declare attempts_loop.simps [simp del]

definition transientAttempts :: "(string \<Rightarrow> run_row option) \<Rightarrow> live_run \<Rightarrow> nat" where
  "transientAttempts get r = attempts_loop get (rn_failoverOf r) 0"

text \<open>The settings and the prompt of a retry are those of the run; its attachments are not sent again.\<close>

definition retry_config :: "live_run \<Rightarrow> bool \<Rightarrow> run_config" where
  "retry_config r transient = \<lparr>rc_Provider = rn_provider r, rc_PermissionMode = ps_Mode (rn_perm r), rc_AutoAccept = ps_AutoAccept (rn_perm r),
     rc_ThinkingLevel = rn_thinkingLevel r, rc_Model = rn_model r, rc_ReplyChatID = rn_replyChatID r, rc_ProfileID = rn_profileID r,
     rc_FailoverOf = rn_id r, rc_RetryTransient = transient\<rparr>"

definition retry_prompt :: "string \<Rightarrow> string \<Rightarrow> string" where
  "retry_prompt preface prompt = preface @ stripRetryPreface (stripProvenanceHeader prompt)"

definition retry_send :: "live_run \<Rightarrow> string \<Rightarrow> gotime \<Rightarrow> bool \<Rightarrow> queue_send" where
  "retry_send r preface notBefore transient = \<lparr>qs_ChatID = rn_chatID r, qs_Prompt = retry_prompt preface (rn_prompt r),
     qs_RunConfig = Some (retry_config r transient), qs_Source = ChatQueueSourceOrchestrator, qs_Priority = 0, qs_FromTaskID = 0, qs_FromChatID = 0,
     qs_Attachments = [], qs_NotBefore = Some notBefore\<rparr>"

definition enqueueRetry :: "'f run_env \<Rightarrow> live_run \<Rightarrow> string \<Rightarrow> gotime \<Rightarrow> bool \<Rightarrow> run_world \<Rightarrow> bool \<times> run_world" where
  "enqueueRetry env r preface notBefore transient w =
     (case EnqueueChatPromptAt (en_okEnqueue env) (retry_send r preface notBefore transient) (en_now env) (w_queue w) of
        (res, q) \<Rightarrow> (\<not> isl res, w\<lparr>w_queue := q\<rparr>))"

definition retry_delay :: "fail_result \<Rightarrow> nat \<Rightarrow> duration" where
  "retry_delay fail attempt =
     (if 0 < fr_RetryAfter fail then min (max (fr_RetryAfter fail) transientRetryAfterMin) transientRetryAfterMax
      else transientRetryBackoffs ! attempt)"

text \<open>The result is what the run records of its retry: the attempt and the instant.\<close>

definition enqueueTransientRetry :: "'f run_env \<Rightarrow> (string \<Rightarrow> run_row option) \<Rightarrow> live_run \<Rightarrow> fail_result \<Rightarrow> run_world \<Rightarrow> (nat \<times> gotime) option \<times> run_world" where
  "enqueueTransientRetry env get r fail w =
     (if \<not> transientRetryEligible r then (None, w)
      else let attempt = transientAttempts get r in
        if length transientRetryBackoffs \<le> attempt then (None, w)
        else if en_cooling env (rn_provider r) \<noteq> None then (None, w)
        else let notBefore = en_now env + retry_delay fail attempt in
          (case enqueueRetry env r transientRetryPreface notBefore True w of
             (ok, w') \<Rightarrow> (if ok then Some (attempt + 1, notBefore) else None, w')))"

definition enqueueRateLimitRetry :: "'f run_env \<Rightarrow> duration \<Rightarrow> live_run \<Rightarrow> fail_result \<Rightarrow> run_world \<Rightarrow> run_world" where
  "enqueueRateLimitRetry env retryGrace r fail w = (case fr_ResetAt fail of
     None \<Rightarrow> w
   | Some t \<Rightarrow> if t \<le> en_now env then w else snd (enqueueRetry env r retryPreface (t + retryGrace) False w))"

section \<open>The fallback profile\<close>

text \<open>\<open>workspace.Manager.CreateChat\<close>: the task must be readable; the row gets the next id of the table.\<close>

definition CreateChat :: "'f run_env \<Rightarrow> bool \<Rightarrow> int \<Rightarrow> string \<Rightarrow> run_world \<Rightarrow> int option \<times> run_world" where
  "CreateChat env ok taskID title w = (if en_task env taskID = None \<or> \<not> ok then (None, w)
     else let i = w_chatSeq w + 1 in (Some i, w\<lparr>w_chatSeq := i,
       w_chats := w_chats w @ [\<lparr>ch_ID = i, ch_TaskID = taskID, ch_Title = title, ch_Archived = False, ch_Provider = None\<rparr>]\<rparr>))"

definition fallback_prompt :: "live_run \<Rightarrow> string \<Rightarrow> string" where
  "fallback_prompt r tail = failoverPreface (rn_provider r) @ stripProvenanceHeader (rn_prompt r)
     @ (if tail = [] then []
        else [CHR 0x0A, CHR 0x0A] @ ''--- tail of the previous attempt'' @ [CHR 0x27] @ ''s output (read-only context, may be incomplete) ---'' @ [CHR 0x0A]
          @ tailBytes tail fallbackTailMax)"

definition fallback_send :: "live_run \<Rightarrow> agent_profile \<Rightarrow> int \<Rightarrow> string \<Rightarrow> queue_send" where
  "fallback_send r fb chat tail = \<lparr>qs_ChatID = chat, qs_Prompt = fallback_prompt r tail,
     qs_RunConfig = Some \<lparr>rc_Provider = ap_Provider fb, rc_PermissionMode = ap_PermissionMode fb, rc_AutoAccept = ap_AutoAccept fb,
       rc_ThinkingLevel = ap_ThinkingLevel fb, rc_Model = ap_Model fb, rc_ReplyChatID = rn_replyChatID r, rc_ProfileID = ap_ID fb,
       rc_FailoverOf = rn_id r, rc_RetryTransient = False\<rparr>,
     qs_Source = ChatQueueSourceOrchestrator, qs_Priority = 0, qs_FromTaskID = 0, qs_FromChatID = 0, qs_Attachments = [], qs_NotBefore = None\<rparr>"

definition startFallbackSuccessor :: "'f run_env \<Rightarrow> bool \<Rightarrow> (string \<Rightarrow> string) \<Rightarrow> live_run \<Rightarrow> agent_profile \<Rightarrow> run_world \<Rightarrow> run_world" where
  "startFallbackSuccessor env ok_chat lastText r prof w =
     (if ap_FallbackProfileID prof \<in> {None, Some 0} then w
      else case en_profile env (the (ap_FallbackProfileID prof)) of
        None \<Rightarrow> w
      | Some fb \<Rightarrow>
          if ap_Provider fb = rn_provider r then w
          else if en_cooling env (ap_Provider fb) \<noteq> None then w
          else if \<not> en_starter env then w
          else (case CreateChat env ok_chat (rn_taskID r) (''Continued on '' @ ap_Name fb) w of
            (None, w1) \<Rightarrow> w1
          | (Some c, w1) \<Rightarrow>
              (case EnqueueChatPromptAt (en_okEnqueue env) (fallback_send r fb c (lastText (rn_id r))) (en_now env) (w_queue w1) of
                 (Inl e, q) \<Rightarrow> w1\<lparr>w_queue := q\<rparr>
               | (Inr item, q) \<Rightarrow> deliverOne env c (w1\<lparr>w_queue := q\<rparr>))))"

section \<open>The policy\<close>

record policy_env =
  pe_row :: "string \<Rightarrow> run_row option"
  pe_lastText :: "string \<Rightarrow> string"
  pe_retryGrace :: duration
  pe_okChat :: bool

definition applyRateLimitPolicy :: "'f run_env \<Rightarrow> policy_env \<Rightarrow> live_run \<Rightarrow> fail_result \<Rightarrow> run_world \<Rightarrow> (nat \<times> gotime) option \<times> run_world" where
  "applyRateLimitPolicy env pe r fail w =
     (if rn_purpose r \<noteq> [] then (None, w)
      else if fr_Kind fail = KindTransient429 then enqueueTransientRetry env (pe_row pe) r fail w
      else if IsPlanLimit (fr_Kind fail) then
        (if rn_profileID r = 0 \<or> rn_failoverOf r \<noteq> [] then (None, w)
         else case en_profile env (rn_profileID r) of
           None \<Rightarrow> (None, w)
         | Some prof \<Rightarrow>
             if ap_OnRateLimit prof = ''wait'' then (None, enqueueRateLimitRetry env (pe_retryGrace pe) r fail w)
             else if ap_OnRateLimit prof = ''fallback'' then (None, startFallbackSuccessor env (pe_okChat pe) (pe_lastText pe) r prof w)
             else (None, w))
      else (None, w))"

end
