(* ===== verification/FailoverProps.thy ===== *)
theory FailoverProps
  imports Failover
begin

text \<open>
  Facts about the rate-limit policy: it acts on a rate limit only, a chain of automatic retries is short, and a
  retry sends the failed run again, with its own settings and with one preface, on its own chat.
\<close>

section \<open>Which runs the policy acts on\<close>

definition acts :: "'f run_env \<Rightarrow> policy_env \<Rightarrow> live_run \<Rightarrow> fail_result \<Rightarrow> run_world \<Rightarrow> bool" where
  "acts env pe r fail w \<longleftrightarrow> snd (applyRateLimitPolicy env pe r fail w) \<noteq> w"

lemma enqueueTransientRetry_idle:
  "\<not> transientRetryEligible r \<or> length transientRetryBackoffs \<le> transientAttempts get r \<Longrightarrow> enqueueTransientRetry env get r fail w = (None, w)"
  by (auto simp: enqueueTransientRetry_def Let_def)

lemma acts_cases:
  assumes "acts env pe r fail w"
  obtains (transient) "fr_Kind fail = KindTransient429" "transientRetryEligible r" "transientAttempts (pe_row pe) r < length transientRetryBackoffs"
    | (plan) "IsPlanLimit (fr_Kind fail)" "fr_Kind fail \<noteq> KindTransient429" "rn_profileID r \<noteq> 0" "rn_failoverOf r = []"
proof (cases "fr_Kind fail = KindTransient429")
  case True
  have "enqueueTransientRetry env (pe_row pe) r fail w \<noteq> (None, w)"
    using assms True by (auto simp: acts_def applyRateLimitPolicy_def split: if_splits)
  then have "\<not> (\<not> transientRetryEligible r \<or> length transientRetryBackoffs \<le> transientAttempts (pe_row pe) r)"
    using enqueueTransientRetry_idle by blast
  then show ?thesis using transient True by simp
next
  case False
  then show ?thesis using plan assms by (auto simp: acts_def applyRateLimitPolicy_def split: if_splits)
qed

lemma attempts_loop_ge: "n \<le> attempts_loop get i n"
proof (induction get i n rule: attempts_loop.induct)
  case (1 get i n)
  then show ?case by (subst attempts_loop.simps) (fastforce split: option.splits)
qed

lemma attempts_step:
  assumes "i \<noteq> []" "n \<le> length transientRetryBackoffs" "get i = Some row" "rw_FailureKind row = KindTransient429"
  shows "attempts_loop get i n = attempts_loop get (rw_FailoverOf row) (Suc n)"
  using assms by (subst attempts_loop.simps) simp

text \<open>Runs each of which continues the one before, with the rows the store has for them.\<close>

fun retry_chain :: "(string \<Rightarrow> run_row option) \<Rightarrow> (live_run \<times> fail_result) list \<Rightarrow> bool" where
  "retry_chain get ((r, f) # (r', f') # rest) \<longleftrightarrow> rn_id r \<noteq> [] \<and> rn_failoverOf r' = rn_id r
     \<and> get (rn_id r) = Some \<lparr>rw_FailureKind = fr_Kind f, rw_FailoverOf = rn_failoverOf r\<rparr> \<and> retry_chain get ((r', f') # rest)"
| "retry_chain get _ \<longleftrightarrow> True"

lemma chain_continues: "retry_chain get xs \<Longrightarrow> (r, f) \<in> set (tl xs) \<Longrightarrow> rn_failoverOf r \<noteq> []"
  by (induction get xs rule: retry_chain.induct) auto

lemma in_set_tlD: "x \<in> set (tl xs) \<Longrightarrow> x \<in> set xs"
  by (cases xs) auto

lemma length_ge_4: "\<not> length xs \<le> 3 \<Longrightarrow> \<exists>a b c d rest. xs = a # b # c # d # rest"
  by (cases xs rule: remdups_adj.cases; simp) (metis Suc_le_length_iff not_less_eq_eq numeral_3_eq_3)

lemma chain_of_four:
  assumes "retry_chain get ((a, fa) # (b, fb) # (c, fc) # (d, fd) # rest)"
  shows "rn_failoverOf b \<noteq> []" "rn_failoverOf c \<noteq> []" "rn_failoverOf d \<noteq> []" "retry_chain get [(b, fb), (c, fc), (d, fd)]"
  using assms by simp_all

lemma third_retry_idle:
  assumes "retry_chain get [(b, fb), (c, fc), (d, fd)]" "fr_Kind fb = KindTransient429" "fr_Kind fc = KindTransient429"
  shows "length transientRetryBackoffs \<le> transientAttempts get d"
proof -
  have "transientAttempts get d = attempts_loop get (rn_failoverOf b) 2"
    using assms by (simp add: transientAttempts_def attempts_step transientRetryBackoffs_def numeral_2_eq_2)
  then show ?thesis using attempts_loop_ge [of 2 get "rn_failoverOf b"] by (simp add: transientRetryBackoffs_def)
qed

lemma continued_act_is_transient:
  assumes "acts env pe r fail w" "rn_failoverOf r \<noteq> []"
  shows "fr_Kind fail = KindTransient429 \<and> transientAttempts (pe_row pe) r < length transientRetryBackoffs"
  using assms by (cases rule: acts_cases) auto

section \<open>The prompt of a retry\<close>

lemma TrimPrefix_append [simp]: "TrimPrefix (p @ s) p = s" "HasPrefix (p @ s) p"
  by (simp_all add: TrimPrefix_def HasPrefix_def)

lemma stripRetryPreface_result: "\<not> HasPrefix (stripRetryPreface s) transientRetryPreface \<and> \<not> HasPrefix (stripRetryPreface s) retryPreface"
proof (induction s rule: stripRetryPreface.induct)
  case (1 s)
  then show ?case by (simp add: stripRetryPreface.simps [of s])
qed

lemma stripRetryPreface_idem: "stripRetryPreface (stripRetryPreface s) = stripRetryPreface s"
  using stripRetryPreface_result [of s] by (simp add: stripRetryPreface.simps [of "stripRetryPreface s"])

lemma prefaces_differ: "\<not> HasPrefix (retryPreface @ s) transientRetryPreface"
  by (simp add: HasPrefix_def retryPreface_def transientRetryPreface_def)

lemma stripRetryPreface_preface: "p \<in> {transientRetryPreface, retryPreface} \<Longrightarrow> stripRetryPreface (p @ s) = stripRetryPreface s"
  using prefaces_differ [of s] by (auto simp: stripRetryPreface.simps [of "transientRetryPreface @ s"] stripRetryPreface.simps [of "retryPreface @ s"])

lemma stripProvenanceHeader_preface: "p \<in> {transientRetryPreface, retryPreface} \<Longrightarrow> stripProvenanceHeader (p @ s) = p @ s"
  by (auto simp: stripProvenanceHeader_def HasPrefix_def transientRetryPreface_def retryPreface_def)

lemma retry_prompt_again:
  assumes "p \<in> {transientRetryPreface, retryPreface}"
  shows "retry_prompt p' (retry_prompt p s) = retry_prompt p' s"
  using assms by (simp add: retry_prompt_def stripProvenanceHeader_preface stripRetryPreface_preface stripRetryPreface_idem)

section \<open>The retry as a queued prompt\<close>

lemma EnqueueChatPromptAt_Inr:
  assumes "EnqueueChatPromptAt oks s now q = (res, q')" "\<not> isl res"
  shows "q' = insert_item (new_item s now) q"
  using assms by (auto simp: EnqueueChatPromptAt_def insert_prompt_def Let_def split: prod.splits if_splits)

lemma retry_delay_bounds:
  assumes "attempt < length transientRetryBackoffs"
  shows "transientRetryAfterMin \<le> retry_delay fail attempt" "retry_delay fail attempt \<le> transientRetryAfterMax"
  using assms by (auto simp: retry_delay_def transientRetryBackoffs_def transientRetryAfterMin_def transientRetryAfterMax_def Minute_def Second_def less_Suc_eq)

definition resends :: "live_run \<Rightarrow> queue_item \<Rightarrow> bool" where
  "resends r item \<longleftrightarrow> qi_ChatID item = rn_chatID r \<and> qi_Source item = ChatQueueSourceOrchestrator \<and> queued item \<and> qi_Attachments item = []
     \<and> qi_Prompt item = retry_prompt transientRetryPreface (rn_prompt r) \<and> qi_RunConfig item = Some (retry_config r True)"

lemma policy_retries:
  assumes "applyRateLimitPolicy env pe r fail w = (Some (a, t), w')"
  obtains attempt where "a = attempt + 1" "attempt < length transientRetryBackoffs" "t = en_now env + retry_delay fail attempt"
    "w' = w\<lparr>w_queue := insert_item (new_item (retry_send r transientRetryPreface t True) (en_now env)) (w_queue w)\<rparr>"
proof -
  have "enqueueTransientRetry env (pe_row pe) r fail w = (Some (a, t), w')"
    using assms by (auto simp: applyRateLimitPolicy_def split: if_splits option.splits)
  then show ?thesis
    using that [of "transientAttempts (pe_row pe) r"]
    by (auto simp: enqueueTransientRetry_def enqueueRetry_def Let_def dest!: EnqueueChatPromptAt_Inr split: if_splits prod.splits)
qed

lemma resent_run:
  assumes "start_item env (rn_chatID r) chat item w = (Inr i, w')" "resends r item" "rn_chatID r \<noteq> 0" "qi_FromTaskID item = None"
  obtains r' where "get_run (w_reg w') i = Some r'" "rn_failoverOf r' = rn_id r" "rn_prompt r' = retry_prompt transientRetryPreface (rn_prompt r)"
    "rn_provider r' = rn_provider r" "rn_profileID r' = rn_profileID r" "ps_AutoAccept (rn_perm r') = ps_AutoAccept (rn_perm r)"
    "ps_Mode (rn_perm r) \<noteq> [] \<longrightarrow> ps_Mode (rn_perm r') = ps_Mode (rn_perm r)"
proof -
  obtain r' where r': "run_of_item r' (rn_chatID r) item" "rn_id r' = i" "w_reg w' = put_run r' (w_reg w)"
    using start_item_Inr [OF assms(1,3)] by blast
  have "deliverPrompt item = qi_Prompt item"
    using assms(2,4) by (simp add: resends_def deliverPrompt_def source_defs PluginSourceID_def HasPrefix_def)
  then show ?thesis using that [of r'] r' assms(2) by (auto simp: run_of_item_def resends_def retry_config_def item_config_def)
qed

section \<open>Properties\<close>

text \<open>
  C20. The automatic retries of a failed run come to an end: of runs that each continue the one before, with the
  rows the store has for them, the policy acts on three at most, whatever the state it finds and whatever the
  providers' reset instants; a plan limit that follows another failure of the chain is left to a human.
\<close>

theorem automatic_retries_are_bounded:
  assumes "retry_chain get runs"
    and "\<And>r fail. (r, fail) \<in> set runs \<Longrightarrow> \<exists>(env :: 'f run_env) pe w. pe_row pe = get \<and> acts env pe r fail w"
  shows "length runs \<le> 3 \<and> (\<forall>(r, fail) \<in> set (tl runs). fr_Kind fail = KindTransient429)"
proof -
  have later: "fr_Kind f = KindTransient429 \<and> transientAttempts get r < length transientRetryBackoffs"
    if mem: "(r, f) \<in> set runs" and continued: "rn_failoverOf r \<noteq> []" for r f
  proof -
    obtain env :: "'f run_env" and pe w where "pe_row pe = get" "acts env pe r f w" using assms(2) [OF mem] by (elim exE conjE) (rule that)
    then show ?thesis using continued_act_is_transient [of env pe r f w] continued by simp
  qed
  have "\<forall>(r, fail) \<in> set (tl runs). fr_Kind fail = KindTransient429"
  proof clarify
    fix r fail assume m: "(r, fail) \<in> set (tl runs)"
    show "fr_Kind fail = KindTransient429" using later [OF in_set_tlD [OF m] chain_continues [OF assms(1) m]] ..
  qed
  moreover have "length runs \<le> 3"
  proof (rule ccontr)
    assume "\<not> length runs \<le> 3"
    then obtain a fa b fb c fc d fd rest where runs: "runs = (a, fa) # (b, fb) # (c, fc) # (d, fd) # rest" using length_ge_4 by (metis surj_pair)
    note four = chain_of_four [OF assms(1) [unfolded runs]]
    have "(b, fb) \<in> set runs" "(c, fc) \<in> set runs" "(d, fd) \<in> set runs" by (simp_all add: runs)
    then show False using third_retry_idle [OF four(4)] later four(1,2,3) by (meson not_le)
  qed
  ultimately show ?thesis by (rule conjI [rotated])
qed

text \<open>
  C23. An automatic retry of a throttled run sends that run again and escalates nothing: the policy adds one
  prompt to the run's own chat, held for between five seconds and five minutes, as the first or the second
  attempt. A run started from that prompt continues the failed one, has its provider, profile, permission mode
  and approval setting, and its prompt is the original after one preface, however often it was retried before.
\<close>

theorem retry_resends_the_same_run:
  assumes "applyRateLimitPolicy env pe r fail w = (Some (a, t), w')" "rn_chatID r \<noteq> 0"
  shows "\<exists>item. qd_rows (w_queue w') = qd_rows (w_queue w) @ [item] \<and> resends r item \<and> qi_NotBefore item = Some t
     \<and> en_now env + 5 * Second \<le> t \<and> t \<le> en_now env + 5 * Minute \<and> a \<in> {1, 2}
     \<and> (\<forall>(env' :: 'g run_env) chat w1 i w2. start_item env' (rn_chatID r) chat item w1 = (Inr i, w2) \<longrightarrow>
          (\<exists>r'. get_run (w_reg w2) i = Some r' \<and> rn_failoverOf r' = rn_id r \<and> rn_provider r' = rn_provider r \<and> rn_profileID r' = rn_profileID r
             \<and> ps_AutoAccept (rn_perm r') = ps_AutoAccept (rn_perm r) \<and> (ps_Mode (rn_perm r) \<noteq> [] \<longrightarrow> ps_Mode (rn_perm r') = ps_Mode (rn_perm r))
             \<and> retry_prompt p (rn_prompt r') = retry_prompt p (rn_prompt r)))"
proof -
  from policy_retries [OF assms(1)] obtain attempt where att: "a = attempt + 1" "attempt < length transientRetryBackoffs"
    and t: "t = en_now env + retry_delay fail attempt"
    and w': "w' = w\<lparr>w_queue := insert_item (new_item (retry_send r transientRetryPreface t True) (en_now env)) (w_queue w)\<rparr>" by metis
  let ?item = "new_item (retry_send r transientRetryPreface t True) (en_now env) (qd_seq (w_queue w) + 1)"
  have re: "resends r ?item" by (simp add: resends_def new_item_def retry_send_def queued_def)
  have none: "qi_FromTaskID ?item = None" by (simp add: new_item_def retry_send_def nullID_def)
  have started: "\<exists>r'. get_run (w_reg w2) i = Some r' \<and> rn_failoverOf r' = rn_id r \<and> rn_provider r' = rn_provider r \<and> rn_profileID r' = rn_profileID r
      \<and> ps_AutoAccept (rn_perm r') = ps_AutoAccept (rn_perm r) \<and> (ps_Mode (rn_perm r) \<noteq> [] \<longrightarrow> ps_Mode (rn_perm r') = ps_Mode (rn_perm r))
      \<and> retry_prompt p (rn_prompt r') = retry_prompt p (rn_prompt r)"
    if "start_item env' (rn_chatID r) chat ?item w1 = (Inr i, w2)" for env' :: "'g run_env" and chat w1 i w2
    using resent_run [OF that re assms(2) none] by (metis insertI1 retry_prompt_again)
  show ?thesis
    using w' t re started att(1) att(2) retry_delay_bounds [OF att(2), of fail]
    by (intro exI [of _ ?item])
       (auto simp: insert_item_def new_item_def retry_send_def transientRetryAfterMin_def transientRetryAfterMax_def transientRetryBackoffs_def)
qed

section \<open>Witnesses\<close>

text \<open>A run throttled at the tenth second on chat 7, and the run its retry started, throttled as well.\<close>

definition throttled :: "string \<Rightarrow> string \<Rightarrow> live_run" where
  "throttled i before = \<lparr>rn_id = i, rn_taskID = 3, rn_chatID = 7, rn_treeRoot = 3, rn_purpose = [], rn_provider = ''claude'', rn_prompt = ''go'',
     rn_perm = \<lparr>ps_Mode = ''plan'', ps_AutoAccept = False\<rparr>, rn_thinkingLevel = [], rn_model = ''sonnet'', rn_origin = ChatQueueSourceOrchestrator, rn_originHost = [],
     rn_interrupt = False, rn_replyChatID = 0, rn_profileID = 0, rn_failoverOf = before, rn_status = StatusError, rn_stopRequested = False\<rparr>"

definition throttle :: fail_result where
  "throttle = \<lparr>fr_Kind = KindTransient429, fr_Window = [], fr_ResetAt = None, fr_ResetInferred = False, fr_ResetZone = [], fr_RetryAfter = 0\<rparr>"

definition policy_demo :: policy_env where
  "policy_demo = \<lparr>pe_row = (\<lambda>i. if i = ''a'' then Some \<lparr>rw_FailureKind = KindTransient429, rw_FailoverOf = []\<rparr> else None), pe_lastText = (\<lambda>i. []),
     pe_retryGrace = defaultRetryGrace, pe_okChat = True\<rparr>"

definition demo_retry :: "string \<Rightarrow> string \<Rightarrow> (nat \<times> gotime) option \<times> run_world" where
  "demo_retry i before = applyRateLimitPolicy pass_env policy_demo (throttled i before) throttle (demo_world (empty_queue (\<lambda>r. None)))"

lemma demo_retries: "fst (demo_retry ''a'' []) = Some (1, 50 + 30 * Second)" "fst (demo_retry ''b'' ''a'') = Some (2, 50 + 2 * Minute)"
  by code_simp+

lemma retried_acts: "fst (applyRateLimitPolicy env pe r fail w) \<noteq> None \<Longrightarrow> acts env pe r fail w"
  by (cases "applyRateLimitPolicy env pe r fail w") (auto simp: acts_def insert_item_def elim!: policy_retries dest!: arg_cong [of _ w "\<lambda>w. length (qd_rows (w_queue w))"])

theorem automatic_retries_are_bounded_witness:
  "retry_chain (pe_row policy_demo) [(throttled ''a'' [], throttle), (throttled ''b'' ''a'', throttle)]
   \<and> length [(throttled ''a'' [], throttle), (throttled ''b'' ''a'', throttle)] \<le> 3"
proof -
  have chain: "retry_chain (pe_row policy_demo) [(throttled ''a'' [], throttle), (throttled ''b'' ''a'', throttle)]"
    by (simp add: throttled_def throttle_def policy_demo_def)
  have "acts pass_env policy_demo (throttled i b) throttle (demo_world (empty_queue (\<lambda>r. None)))" if "(i, b) \<in> {(''a'', []), (''b'', ''a'')}" for i b
    by (rule retried_acts) (use that demo_retries in \<open>auto simp: demo_retry_def\<close>)
  then have "\<exists>i b. r = throttled i b \<and> fail = throttle \<and> acts pass_env policy_demo (throttled i b) throttle (demo_world (empty_queue (\<lambda>r. None)))"
    if "(r, fail) \<in> set [(throttled ''a'' [], throttle), (throttled ''b'' ''a'', throttle)]" for r fail
    using that by auto
  then have "\<exists>(env :: nat run_env) pe w. pe_row pe = pe_row policy_demo \<and> acts env pe r fail w"
    if "(r, fail) \<in> set [(throttled ''a'' [], throttle), (throttled ''b'' ''a'', throttle)]" for r fail
    using that by metis
  from automatic_retries_are_bounded [OF chain this] chain show ?thesis by simp
qed

theorem retry_resends_the_same_run_witness:
  "\<exists>item. qd_rows (w_queue (snd (demo_retry ''a'' []))) = [item] \<and> resends (throttled ''a'' []) item \<and> qi_NotBefore item = Some (50 + 30 * Second)"
proof -
  obtain w' where "demo_retry ''a'' [] = (Some (1, 50 + 30 * Second), w')" using demo_retries(1) by (cases "demo_retry ''a'' []") auto
  then have "applyRateLimitPolicy pass_env policy_demo (throttled ''a'' []) throttle (demo_world (empty_queue (\<lambda>r. None))) = (Some (1, 50 + 30 * Second), w')"
    "snd (demo_retry ''a'' []) = w'" by (simp_all add: demo_retry_def)
  from retry_resends_the_same_run [OF this(1), where ?'g = nat and p = "[]"] this(2)
  show ?thesis by (fastforce simp: throttled_def demo_world_def empty_queue_def)
qed

end
