(* ===== verification/UiMarkdown.thy ===== *)
theory UiMarkdown
  imports GoStrings
begin

text \<open>
  The markdown sanitiser of plugin views (\<open>internal/plugins/uiview/sanitize.go\<close>). Each regular expression of
  the code is a scan over the bytes that finds the same leftmost match: none of them has two ways to match at
  one place, and a negated class matches every byte of a longer rune.
\<close>

section \<open>The expressions\<close>

definition is_letter :: "char \<Rightarrow> bool" where
  "is_letter c \<longleftrightarrow> byte_in 65 90 c \<or> byte_in 97 122 c"

definition opens_tag :: "string \<Rightarrow> bool" where
  "opens_tag s = (case s of c # d # _ \<Rightarrow> c = CHR ''<'' \<and> (d \<in> set ''!/?'' \<or> is_letter d) | _ \<Rightarrow> False)"

text \<open>\<open>htmlTagRe.ReplaceAllString(seg, "")\<close> and \<open>openTagRe.ReplaceAllString(seg, "")\<close>.\<close>

function strip_tags :: "string \<Rightarrow> string" where
  "strip_tags [] = []"
| "strip_tags (c # cs) =
     (if opens_tag (c # cs) \<and> CHR ''>'' \<in> set (tl cs) then strip_tags (tl (dropWhile (\<lambda>x. x \<noteq> CHR ''>'') (tl cs)))
      else c # strip_tags cs)"
  by pat_completeness auto
termination
  by (relation "measure length") (auto simp: less_Suc_eq_le intro!: le_trans [OF length_dropWhile_le] diff_le_self le_trans [OF diff_le_self])

fun strip_open_tag :: "string \<Rightarrow> string" where
  "strip_open_tag [] = []"
| "strip_open_tag (c # cs) =
     (if opens_tag (c # cs) \<and> \<not> list_ex (\<lambda>x. x = CHR ''>'' \<or> x = CHR 0x0A) (tl cs) then [] else c # strip_open_tag cs)"

text \<open>The target of a link after its opening parenthesis, with one level of parentheses inside, and what follows the closing one.\<close>

function link_target :: "string \<Rightarrow> (string \<times> string) option" where
  "link_target [] = None"
| "link_target (c # cs) =
     (if c = CHR '')'' then Some ([], cs)
      else if c = CHR ''('' then
        (case dropWhile (\<lambda>x. x \<noteq> CHR ''('' \<and> x \<noteq> CHR '')'') cs of
           d # rest \<Rightarrow> if d = CHR '')'' then
               map_option (\<lambda>(b, r). (c # takeWhile (\<lambda>x. x \<noteq> CHR ''('' \<and> x \<noteq> CHR '')'') cs @ CHR '')'' # b, r)) (link_target rest)
             else None
         | [] \<Rightarrow> None)
      else map_option (\<lambda>(b, r). (c # b, r)) (link_target cs))"
  by pat_completeness auto
termination
proof (relation "measure length")
  fix c :: char and cs d rest
  assume "dropWhile (\<lambda>x. x \<noteq> CHR ''('' \<and> x \<noteq> CHR '')'') cs = d # rest"
  then have "length (d # rest) \<le> length cs" by (metis length_dropWhile_le)
  then show "(rest, c # cs) \<in> measure length" by simp
qed auto

text \<open>A link \<open>[text](target)\<close> and a reference \<open>[text][label]\<close> at the start of a string, and what follows.\<close>

definition link_at :: "string \<Rightarrow> (string \<times> string \<times> string) option" where
  "link_at s = (case s of
     c # cs \<Rightarrow> if c \<noteq> CHR ''['' then None
       else (case dropWhile (\<lambda>x. x \<noteq> CHR '']'') cs of
         _ # d # r \<Rightarrow> if d = CHR ''('' then map_option (\<lambda>(t, rest). (takeWhile (\<lambda>x. x \<noteq> CHR '']'') cs, t, rest)) (link_target r) else None
       | _ \<Rightarrow> None)
   | [] \<Rightarrow> None)"

definition ref_at :: "string \<Rightarrow> (string \<times> string) option" where
  "ref_at s = (case s of
     c # cs \<Rightarrow> if c \<noteq> CHR ''['' then None
       else (case dropWhile (\<lambda>x. x \<noteq> CHR '']'') cs of
         _ # d # r \<Rightarrow> if d = CHR ''['' then
             (case dropWhile (\<lambda>x. x \<noteq> CHR '']'') r of _ # rest \<Rightarrow> Some (takeWhile (\<lambda>x. x \<noteq> CHR '']'') cs, rest) | [] \<Rightarrow> None)
           else None
       | _ \<Rightarrow> None)
   | [] \<Rightarrow> None)"

definition link_source :: "string \<Rightarrow> string \<Rightarrow> string" where
  "link_source text target = CHR ''['' # text @ '']('' @ target @ '')''"

lemma link_target_splits: "link_target s = Some (t, rest) \<Longrightarrow> s = t @ '')'' @ rest"
proof (induction s arbitrary: t rest rule: link_target.induct)
  case (2 c cs)
  then show ?case by (auto split: if_splits list.splits) (metis append.assoc append_Cons takeWhile_dropWhile_id)+
qed simp

lemma takeWhile_bracket [simp]: "a \<notin> set p \<Longrightarrow> takeWhile (\<lambda>x. x \<noteq> a) (p @ a # r) = p"
  by (induction p) auto

lemma dropWhile_bracketE:
  assumes "dropWhile (\<lambda>x. x \<noteq> a) cs = d # r"
  obtains p where "cs = p @ a # r" "a \<notin> set p"
proof -
  have "cs = takeWhile (\<lambda>x. x \<noteq> a) cs @ d # r" using assms takeWhile_dropWhile_id by metis
  moreover have "d = a" using assms by (simp add: dropWhile_eq_Cons_conv)
  ultimately show ?thesis using that set_takeWhileD by metis
qed

lemma link_at_splits: "link_at s = Some (text, t, rest) \<Longrightarrow> s = link_source text t @ rest"
  by (auto simp: link_at_def link_source_def split: list.splits if_splits dest!: link_target_splits elim!: dropWhile_bracketE)

lemma ref_at_splits: "ref_at s = Some (text, rest) \<Longrightarrow> \<exists>label. s = CHR ''['' # text @ '']['' @ label @ '']'' @ rest"
  by (auto simp: ref_at_def split: list.splits if_splits elim!: dropWhile_bracketE)

lemma link_at_shorter: "link_at s = Some (text, t, rest) \<Longrightarrow> length rest < length s"
  by (drule link_at_splits) (simp add: link_source_def)

lemma ref_at_shorter: "ref_at s = Some (text, rest) \<Longrightarrow> length rest < length s"
  by (drule ref_at_splits) auto

section \<open>The rewriting of a segment\<close>

definition safe_target :: "string \<Rightarrow> bool" where
  "safe_target t \<longleftrightarrow> HasPrefix t ''http://'' \<or> HasPrefix t ''https://'' \<or> HasPrefix t ''mailto:''"

text \<open>\<open>mdImageRe.ReplaceAllString(seg, "$1")\<close> and \<open>mdImageRef.ReplaceAllString(seg, "$1")\<close>.\<close>

function strip_images :: "string \<Rightarrow> string" where
  "strip_images [] = []"
| "strip_images (c # cs) =
     (case (if c = CHR ''!'' then link_at cs else None) of
        Some (text, _, rest) \<Rightarrow> text @ strip_images rest
      | None \<Rightarrow> c # strip_images cs)"
  by pat_completeness auto
termination by (relation "measure length") (auto split: if_splits dest: link_at_shorter)

function strip_image_refs :: "string \<Rightarrow> string" where
  "strip_image_refs [] = []"
| "strip_image_refs (c # cs) =
     (case (if c = CHR ''!'' then ref_at cs else None) of
        Some (text, rest) \<Rightarrow> text @ strip_image_refs rest
      | None \<Rightarrow> c # strip_image_refs cs)"
  by pat_completeness auto
termination by (relation "measure length") (auto split: if_splits dest: ref_at_shorter)

text \<open>\<open>mdLinkRe.ReplaceAllStringFunc\<close>: a link with another target becomes its text.\<close>

function rewrite_links :: "string \<Rightarrow> string" where
  "rewrite_links [] = []"
| "rewrite_links (c # cs) =
     (case link_at (c # cs) of
        Some (text, target, rest) \<Rightarrow>
          (if safe_target (ToLower (TrimSpace target)) then link_source text target else text) @ rewrite_links rest
      | None \<Rightarrow> c # rewrite_links cs)"
  by pat_completeness auto
termination by (relation "measure length") (auto dest: link_at_shorter)

text \<open>Every rewriting keeps a subsequence of its input.\<close>

lemma subseq_skip: "subseq xs ys \<Longrightarrow> subseq xs (zs @ ys)"
  by (metis list_emb_append2)

lemma subseq_tl_dropWhile: "subseq (tl (dropWhile P xs)) xs"
  by (induction xs) auto

lemma strip_tags_subseq: "subseq (strip_tags s) s"
proof (induction s rule: strip_tags.induct)
  case (2 c cs)
  show ?case
  proof (cases "opens_tag (c # cs) \<and> CHR ''>'' \<in> set (tl cs)")
    case True
    have "subseq (tl cs) (c # cs)" by (cases cs) auto
    then show ?thesis using 2(1) [OF True] True subseq_tl_dropWhile [of "\<lambda>x. x \<noteq> CHR ''>''" "tl cs"]
      by (metis strip_tags.simps(2) subseq_order.order_trans)
  qed (use 2(2) in auto)
qed simp

lemma strip_open_tag_subseq: "subseq (strip_open_tag s) s"
  by (induction s) auto

lemma subseq_bracketed: "subseq zs rest \<Longrightarrow> subseq (text @ zs) (c # text @ ys @ rest)"
  by (rule list_emb_Cons) (intro subseq_append_mono subseq_order.refl subseq_skip)

lemma link_text_subseq: "link_at s = Some (text, t, rest) \<Longrightarrow> subseq zs rest \<Longrightarrow> subseq (text @ zs) s"
  using subseq_bracketed [of zs rest _ _ "'']('' @ t @ '')''"] by (auto simp: link_source_def dest!: link_at_splits)

lemma ref_text_subseq: "ref_at s = Some (text, rest) \<Longrightarrow> subseq zs rest \<Longrightarrow> subseq (text @ zs) s"
  using subseq_bracketed [of zs rest _ _ "'']['' @ l @ '']''" for l] by (auto dest!: ref_at_splits)

lemma strip_images_subseq: "subseq (strip_images s) s"
proof (induction s rule: strip_images.induct)
  case (2 c cs)
  then show ?case using link_text_subseq [of cs] by (fastforce split: option.splits if_splits)
qed simp

lemma strip_image_refs_subseq: "subseq (strip_image_refs s) s"
proof (induction s rule: strip_image_refs.induct)
  case (2 c cs)
  then show ?case using ref_text_subseq [of cs] by (fastforce split: option.splits if_splits)
qed simp

lemma link_kept_subseq: "link_at s = Some (text, t, rest) \<Longrightarrow> subseq zs rest \<Longrightarrow> subseq (link_source text t @ zs) s"
  by (drule link_at_splits) (auto intro: subseq_append_mono)

lemma rewrite_links_subseq: "subseq (rewrite_links s) s"
  by (induction s rule: rewrite_links.induct) (auto split: option.splits intro: link_text_subseq link_kept_subseq)

lemma strip_tags_shorter: "strip_tags s \<noteq> s \<Longrightarrow> length (strip_tags s) < length s"
  using strip_tags_subseq [of s] list_emb_length [of _ "strip_tags s" s] subseq_same_length [of "strip_tags s" s] by force

function strip_all_tags :: "string \<Rightarrow> string" where
  "strip_all_tags seg = (let stripped = strip_tags seg in if stripped = seg then seg else strip_all_tags stripped)"
  by pat_completeness auto
termination by (relation "measure length") (auto simp: strip_tags_shorter)

declare strip_all_tags.simps [simp del]

definition sanitizeSegment :: "string \<Rightarrow> string" where
  "sanitizeSegment seg = rewrite_links (strip_image_refs (strip_images (strip_open_tag (strip_all_tags seg))))"

section \<open>Lines and documents\<close>

text \<open>The text between backticks is kept; an unclosed backtick opens no code. \<open>acc\<close> is the piece being read, in reverse.\<close>

fun sanitized_line :: "bool \<Rightarrow> string \<Rightarrow> string \<Rightarrow> string" where
  "sanitized_line inCode acc [] = sanitizeSegment (rev acc)"
| "sanitized_line inCode acc (c # cs) =
     (if c \<noteq> CHR 0x60 then sanitized_line inCode (c # acc) cs
      else if inCode then rev (c # acc) @ sanitized_line False [] cs
      else sanitizeSegment (rev acc) @ sanitized_line True [c] cs)"

definition writeSanitizedLine :: "string \<Rightarrow> string" where
  "writeSanitizedLine line = sanitized_line False [] line"

definition re_space :: "char \<Rightarrow> bool" where
  "re_space c \<longleftrightarrow> c \<in> {CHR 0x09, CHR 0x0A, CHR 0x0C, CHR 0x0D, CHR 0x20}"

text \<open>\<open>mdRefDefRe.FindStringSubmatch(line)\<close>: the target of a definition.\<close>

definition ref_def_target :: "string \<Rightarrow> string option" where
  "ref_def_target line = (let r = dropWhile re_space line in
     if 3 < length line - length r then None
     else case r of
       c # cs \<Rightarrow> if c \<noteq> CHR ''['' \<or> takeWhile (\<lambda>x. x \<noteq> CHR '']'') cs = [] then None
         else (case dropWhile (\<lambda>x. x \<noteq> CHR '']'') cs of
           _ # d # rest \<Rightarrow> let t = takeWhile (\<lambda>x. \<not> re_space x) (dropWhile re_space rest) in if d = CHR '':'' \<and> t \<noteq> [] then Some t else None
         | _ \<Rightarrow> None)
     | [] \<Rightarrow> None)"

definition unsafeReferenceDefinition :: "string \<Rightarrow> bool" where
  "unsafeReferenceDefinition line = (case ref_def_target line of
     None \<Rightarrow> False
   | Some m \<Rightarrow> \<not> safe_target (ToLower (TrimPrefix m ''<'')))"

definition fence_line :: "string \<Rightarrow> bool" where
  "fence_line line = (let trimmed = TrimLeft line [CHR 0x20, CHR 0x09] in
     HasPrefix trimmed [CHR 0x60, CHR 0x60, CHR 0x60] \<or> HasPrefix trimmed ''~~~'')"

fun markdown_lines :: "bool \<Rightarrow> string list \<Rightarrow> string" where
  "markdown_lines inFence [] = []"
| "markdown_lines inFence (line # rest) =
     (if inFence then line @ CHR 0x0A # markdown_lines (\<not> fence_line line) rest
      else if fence_line line then line @ CHR 0x0A # markdown_lines True rest
      else (if unsafeReferenceDefinition line then [] else writeSanitizedLine line) @ CHR 0x0A # markdown_lines False rest)"

definition SanitizeMarkdown :: "string \<Rightarrow> string" where
  "SanitizeMarkdown s = (let out = markdown_lines False (SplitByte s (CHR 0x0A)) in
     if HasSuffix s [CHR 0x0A] then out else TrimSuffix out [CHR 0x0A])"




section \<open>The sanitiser only removes\<close>

lemma strip_all_tags_subseq: "subseq (strip_all_tags s) s"
proof (induction s rule: strip_all_tags.induct)
  case (1 s)
  then show ?case using strip_tags_subseq [of s] subseq_order.order_trans by (auto simp: strip_all_tags.simps [of s] Let_def)
qed

lemma sanitizeSegment_subseq: "subseq (sanitizeSegment s) s"
  unfolding sanitizeSegment_def
  by (meson rewrite_links_subseq strip_image_refs_subseq strip_images_subseq strip_open_tag_subseq strip_all_tags_subseq subseq_order.order_trans)

lemma sanitized_line_subseq: "subseq (sanitized_line inCode acc s) (rev acc @ s)"
proof (induction inCode acc s rule: sanitized_line.induct)
  case (2 inCode acc c cs)
  then show ?case by (auto intro!: subseq_append_mono sanitizeSegment_subseq)
qed (simp add: sanitizeSegment_subseq)

lemma markdown_lines_subseq: "subseq (markdown_lines inFence ls) (concat (map (\<lambda>l. l @ [CHR 0x0A]) ls))"
proof (induction inFence ls rule: markdown_lines.induct)
  case (2 inFence line rest)
  have "subseq (writeSanitizedLine line) line" using sanitized_line_subseq [of False "[]" line] by (simp add: writeSanitizedLine_def)
  then show ?case using 2 by (auto intro!: subseq_append_mono)
qed simp

lemma concat_SplitByte: "concat (map (\<lambda>l. l @ [c]) (SplitByte s c)) = s @ [c]"
  by (induction s) (auto split: list.splits)

lemma SplitByte_not_Nil: "SplitByte s c \<noteq> []"
  by (cases s) (auto split: list.splits)

lemma markdown_lines_ends: "ls \<noteq> [] \<Longrightarrow> \<exists>out. markdown_lines inFence ls = out @ [CHR 0x0A]"
proof (induction inFence ls rule: markdown_lines.induct)
  case (2 inFence line rest)
  then show ?case by (cases "rest = []") auto
qed simp

lemma subseq_snoc: "subseq (xs @ [c]) (ys @ [c]) \<Longrightarrow> subseq xs ys"
  by simp

lemma SanitizeMarkdown_subseq: "subseq (SanitizeMarkdown s) (if HasSuffix s [CHR 0x0A] then s @ [CHR 0x0A] else s)"
proof -
  obtain out where out: "markdown_lines False (SplitByte s (CHR 0x0A)) = out @ [CHR 0x0A]" using markdown_lines_ends SplitByte_not_Nil by blast
  have sub: "subseq (out @ [CHR 0x0A]) (s @ [CHR 0x0A])"
    using markdown_lines_subseq [of False "SplitByte s (CHR 0x0A)"] by (simp add: out concat_SplitByte)
  moreover have "SanitizeMarkdown s = (if HasSuffix s [CHR 0x0A] then out @ [CHR 0x0A] else out)"
    by (simp add: SanitizeMarkdown_def Let_def out TrimSuffix_def) (simp add: HasSuffix_def HasPrefix_def)
  ultimately show ?thesis using subseq_snoc [OF sub] by simp
qed

text \<open>
  C22. The sanitiser of markdown only removes, but for one newline: what it returns is a subsequence of the text,
  or of the text and one more newline when the text ends in one, as it does for \<open>a\<close> and a newline.
\<close>

theorem markdown_sanitiser_only_removes:
  "subseq (SanitizeMarkdown s) (if HasSuffix s [CHR 0x0A] then s @ [CHR 0x0A] else s)
   \<and> SanitizeMarkdown (''a'' @ [CHR 0x0A]) = ''a'' @ [CHR 0x0A, CHR 0x0A]"
proof (rule conjI [OF SanitizeMarkdown_subseq])
  show "SanitizeMarkdown (''a'' @ [CHR 0x0A]) = ''a'' @ [CHR 0x0A, CHR 0x0A]" by code_simp
qed


end
