(* ===== verification/UiSvg.thy ===== *)
theory UiSvg
  imports UiMarkdown
begin

text \<open>
  The rules for the strings, icons and link targets of a plugin view
  (\<open>internal/plugins/uiview/schema.go\<close>, \<open>sanitize.go\<close>). \<open>view_lib\<close> holds what the code takes from Go's decoders:
  the tokens of an XML text, the parts of a URL, JSON text of a value and back, and the printing of a quoted string.
\<close>

section \<open>Values and errors\<close>

datatype json = JNull | JBool bool | JNumber string | JString string | JArray "json list" | JObject "(string \<times> json) list"

text \<open>An object is the list of its fields in the order in which Go's \<open>range\<close> visits them.\<close>

type_synonym obj = "(string \<times> json) list"

record view_error =
  ve_Path :: string
  ve_Msg :: string

type_synonym 'a checked = "view_error + 'a"

definition fail :: "string \<Rightarrow> string \<Rightarrow> 'a checked" where
  "fail path msg = Inl \<lparr>ve_Path = path, ve_Msg = msg\<rparr>"

definition andThen :: "'a checked \<Rightarrow> ('a \<Rightarrow> 'b checked) \<Rightarrow> 'b checked" where
  "andThen m f = (case m of Inl e \<Rightarrow> Inl e | Inr a \<Rightarrow> f a)"

definition ensure :: "bool \<Rightarrow> string \<Rightarrow> string \<Rightarrow> unit checked" where
  "ensure ok path msg = (if ok then Inr () else fail path msg)"

lemma andThen_Inr [simp]: "andThen m f = Inr b \<longleftrightarrow> (\<exists>a. m = Inr a \<and> f a = Inr b)"
  by (cases m) (auto simp: andThen_def)

lemma andThen_eval [simp]: "andThen (Inr a) f = f a"
  by (simp add: andThen_def)

lemma ensure_Inr [simp]: "ensure ok path msg = Inr u \<longleftrightarrow> ok"
  by (simp add: ensure_def fail_def)

lemma fail_Inr [simp]: "fail path msg \<noteq> Inr a"
  by (simp add: fail_def)

section \<open>What the decoders of the standard library give\<close>

record xml_name =
  xn_Space :: string
  xn_Local :: string

record xml_attr =
  xa_Name :: xml_name
  xa_Value :: string

datatype xml_token = XDirective | XProcInst | XComment | XStartElement xml_name "xml_attr list" | XCharData string | XEndElement

record url_parts =
  u_Scheme :: string
  u_Host :: string
  u_hasUser :: bool
  u_Hostname :: string
  u_Port :: string

datatype decoded = InvalidJSON string | TrailingData | Decoded json

text \<open>The tokens of an XML text come with the text of the error that ended them, if one did.\<close>

record view_lib =
  vl_xml :: "string \<Rightarrow> xml_token list \<times> string option"
  vl_url :: "string \<Rightarrow> url_parts option"
  vl_lower :: "string \<Rightarrow> string"
  vl_quote :: "string \<Rightarrow> string"
  vl_decode :: "string \<Rightarrow> decoded"
  vl_marshal :: "json \<Rightarrow> string + string"
  vl_in_unit :: "string \<Rightarrow> bool"

section \<open>The schema\<close>

definition MaxDocBytes :: nat where "MaxDocBytes = 262144"
definition MaxDepth :: nat where "MaxDepth = 12"
definition MaxNodes_view :: nat where "MaxNodes_view = 1000"
definition MaxString :: nat where "MaxString = 8192"
definition MaxRows :: nat where "MaxRows = 500"
definition MaxColumns :: nat where "MaxColumns = 12"
definition MaxFormFields :: nat where "MaxFormFields = 24"
definition MaxSVGBytes :: nat where "MaxSVGBytes = 65536"
definition MaxParamsBytes :: nat where "MaxParamsBytes = 16384"
definition maxURLBytes :: nat where "maxURLBytes = 2048"

record view_env =
  ve_RPCs :: "string \<Rightarrow> bool"
  ve_Panels :: "string \<Rightarrow> bool"

definition NodeTypes :: "string list" where
  "NodeTypes = [''badge'', ''button'', ''code'', ''diff'', ''empty'', ''error'', ''form'', ''heading'', ''keyValue'', ''list'', ''markdown'',
     ''progress'', ''row'', ''stack'', ''table'', ''text'']"

definition ActionKinds :: "string list" where
  "ActionKinds = [''command'', ''openPanel'', ''openUrl'', ''prompt'', ''rpc'']"

definition toneSet :: "string list" where "toneSet = [''success'', ''warning'', ''danger'', ''muted'']"
definition gapSet :: "string list" where "gapSet = [''sm'', ''md'', ''lg'']"
definition sizeSet :: "string list" where "sizeSet = [''sm'', ''md'']"
definition alignSet :: "string list" where "alignSet = [''start'', ''end'']"
definition fieldTypeSet :: "string list" where "fieldTypeSet = [''text'', ''select'', ''toggle'', ''secret'']"

definition svgElemSet :: "string list" where
  "svgElemSet = [''svg'', ''g'', ''path'', ''circle'', ''ellipse'', ''rect'', ''line'', ''polyline'', ''polygon'', ''defs'', ''linearGradient'',
     ''radialGradient'', ''stop'', ''clipPath'', ''title'', ''desc'', ''use'', ''symbol'']"

section \<open>Strings\<close>

definition control_byte :: "char \<Rightarrow> bool" where
  "control_byte c \<longleftrightarrow> (of_char c :: nat) < 0x20 \<or> (of_char c :: nat) = 0x7F"

definition clean_text :: "string \<Rightarrow> bool" where
  "clean_text s \<longleftrightarrow> list_all (\<lambda>c. c = CHR 0x0A \<or> c = CHR 0x09 \<or> \<not> control_byte c) s"

definition checkString :: "string \<Rightarrow> string \<Rightarrow> unit checked" where
  "checkString s path =
     (if \<not> utf8_valid s then fail path ''is not valid UTF-8''
      else if MaxString < length s then fail path ''exceeds the 8 KiB string cap''
      else ensure (clean_text s) path ''contains a control character'')"

text \<open>The anchored expressions of names: a first class, a class for the rest, and the number of bytes.\<close>

definition name_re :: "(char \<Rightarrow> bool) \<Rightarrow> (char \<Rightarrow> bool) \<Rightarrow> nat \<Rightarrow> string \<Rightarrow> bool" where
  "name_re first rest n s = (case s of [] \<Rightarrow> False | c # cs \<Rightarrow> first c \<and> list_all rest cs \<and> length cs \<le> n)"

definition is_upper :: "char \<Rightarrow> bool" where "is_upper c = byte_in 65 90 c"
definition is_alnum :: "char \<Rightarrow> bool" where "is_alnum c \<longleftrightarrow> is_letter c \<or> is_digit_char c"

definition lucideNameRe :: "string \<Rightarrow> bool" where "lucideNameRe = name_re is_upper is_alnum 39"
definition commandName :: "string \<Rightarrow> bool" where "commandName = name_re is_alnum (\<lambda>c. is_alnum c \<or> c \<in> set ''._:-'') 127"
definition nodeIDRe :: "string \<Rightarrow> bool" where "nodeIDRe = name_re (\<lambda>c. is_alnum c \<or> c \<in> set ''._-'') (\<lambda>c. is_alnum c \<or> c \<in> set ''._-'') 63"
definition fieldNameRe :: "string \<Rightarrow> bool" where "fieldNameRe = name_re is_letter (\<lambda>c. is_alnum c \<or> c = CHR ''_'') 39"
definition languageRe :: "string \<Rightarrow> bool" where "languageRe = name_re (\<lambda>c. is_alnum c \<or> c \<in> set ''+#._-'') (\<lambda>c. is_alnum c \<or> c \<in> set ''+#._-'') 31"

section \<open>Inline icons\<close>

definition svgNamespace :: string where "svgNamespace = ''http://www.w3.org/2000/svg''"
definition xlinkNS :: string where "xlinkNS = ''http://www.w3.org/1999/xlink''"

definition checkSVGAttr :: "xml_attr \<Rightarrow> unit checked" where
  "checkSVGAttr a = (let lcl = ToLower (xn_Local (xa_Name a)); lower = ToLower (xa_Value a) in
     if HasPrefix lcl ''on'' then fail ''svg'' ''on* handler attributes are not allowed''
     else if lcl = ''style'' then fail ''svg'' ''style attributes are not allowed''
     else if xn_Local (xa_Name a) = ''href'' \<and> \<not> HasPrefix (xa_Value a) ''#'' then fail ''svg'' ''href must reference an id inside the svg (#...)''
     else if xn_Space (xa_Name a) = ''xmlns'' \<or> xn_Space (xa_Name a) = [] \<and> xn_Local (xa_Name a) = ''xmlns'' then
       ensure (xa_Value a = svgNamespace \<or> xa_Value a = xlinkNS) ''svg'' ''namespace declarations other than svg and xlink are not allowed''
     else (case find (Contains lower) [''javascript:'', ''data:'', ''http:'', ''https:'', ''@import''] of
       Some bad \<Rightarrow> fail ''svg'' (''attribute values may not reference '' @ bad)
     | None \<Rightarrow> (case Index lower ''url('' of
         Some i \<Rightarrow> ensure (HasPrefix (drop (i + 4) lower) ''#'') ''svg'' ''url() must reference an id inside the svg (#...)''
       | None \<Rightarrow> Inr ())))"

fun checkSVGAttrs :: "xml_attr list \<Rightarrow> unit checked" where
  "checkSVGAttrs [] = Inr ()"
| "checkSVGAttrs (a # rest) = andThen (checkSVGAttr a) (\<lambda>_. checkSVGAttrs rest)"

text \<open>The state of the reader: the open elements, the innermost first, the roots seen, whether the root is closed, and the bytes of text.\<close>

record svg_state =
  sv_stack :: "string list"
  sv_roots :: nat
  sv_rootDone :: bool
  sv_titleText :: nat

definition svg_start :: "xml_name \<Rightarrow> xml_attr list \<Rightarrow> svg_state \<Rightarrow> svg_state checked" where
  "svg_start name attrs st =
     andThen (ensure (\<not> sv_rootDone st) ''svg'' ''content follows the root element'') (\<lambda>_.
     andThen (ensure (xn_Local name \<in> set svgElemSet) ''svg'' (''element <'' @ xn_Local name @ ''> is not allowed'')) (\<lambda>_.
     andThen (ensure (xn_Space name = [] \<or> xn_Space name = svgNamespace) ''svg'' (''namespace prefix '' @ xn_Space name @ '' is not allowed'')) (\<lambda>_.
     andThen (ensure (sv_stack st = [] \<longrightarrow> xn_Local name = ''svg'') ''svg'' ''the root element must be <svg>'') (\<lambda>_.
     andThen (checkSVGAttrs attrs) (\<lambda>_.
     Inr (st\<lparr>sv_roots := (if sv_stack st = [] then sv_roots st + 1 else sv_roots st), sv_stack := xn_Local name # sv_stack st\<rparr>))))))"

definition svg_text :: "string \<Rightarrow> svg_state \<Rightarrow> svg_state checked" where
  "svg_text t st = (if TrimSpace t = [] then Inr st
     else andThen (ensure (\<not> sv_rootDone st \<and> sv_stack st \<noteq> []) ''svg'' ''content follows the root element'') (\<lambda>_.
       andThen (ensure (hd (sv_stack st) \<in> {''title'', ''desc''}) ''svg'' ''text is only allowed inside <title> and <desc>'') (\<lambda>_.
       andThen (ensure (sv_titleText st + length t \<le> 200) ''svg'' ''title/desc text exceeds 200 bytes'') (\<lambda>_.
       Inr (st\<lparr>sv_titleText := sv_titleText st + length t\<rparr>)))))"

fun svg_token :: "xml_token \<Rightarrow> svg_state \<Rightarrow> svg_state checked" where
  "svg_token XDirective st = fail ''svg'' ''DOCTYPE and entity declarations are not allowed''"
| "svg_token XProcInst st = fail ''svg'' ''processing instructions are not allowed''"
| "svg_token XComment st = Inr st"
| "svg_token (XStartElement name attrs) st = svg_start name attrs st"
| "svg_token (XCharData t) st = svg_text t st"
| "svg_token XEndElement st = (let s = tl (sv_stack st) in Inr (st\<lparr>sv_stack := s, sv_rootDone := (s = [] \<or> sv_rootDone st)\<rparr>))"

fun svg_loop :: "xml_token list \<Rightarrow> svg_state \<Rightarrow> svg_state checked" where
  "svg_loop [] st = Inr st"
| "svg_loop (t # ts) st = andThen (svg_token t st) (svg_loop ts)"

definition SanitizeSVG :: "view_lib \<Rightarrow> string \<Rightarrow> unit checked" where
  "SanitizeSVG L svg =
     (if MaxSVGBytes < length svg then fail ''svg'' ''svg exceeds the 64 KiB cap''
      else case vl_xml L svg of (toks, err) \<Rightarrow>
        andThen (svg_loop toks \<lparr>sv_stack = [], sv_roots = 0, sv_rootDone = False, sv_titleText = 0\<rparr>) (\<lambda>st.
          case err of
            Some e \<Rightarrow> fail ''svg'' (''svg is not well-formed XML: '' @ e)
          | None \<Rightarrow> ensure (sv_roots st = 1) ''svg'' ''exactly one root <svg> element is required''))"

section \<open>Link targets, icons and tones\<close>

fun space_or_control :: "string \<Rightarrow> bool" where
  "space_or_control [] = False"
| "space_or_control (c # cs) \<longleftrightarrow> control_byte c \<or> 0 < space_len space_encodings (c # cs) \<or> space_or_control cs"

definition sanitizeOpenURL :: "view_lib \<Rightarrow> string \<Rightarrow> string checked" where
  "sanitizeOpenURL L raw =
     (if maxURLBytes < length raw then fail [] ''url exceeds 2048 bytes''
      else if space_or_control raw then fail [] ''url contains control or whitespace characters''
      else case vl_url L raw of
        None \<Rightarrow> fail [] ''url is not valid''
      | Some u \<Rightarrow>
          if u_Scheme u \<noteq> ''http'' \<and> u_Scheme u \<noteq> ''https'' then fail [] ''scheme must be http or https''
          else if u_Host u = [] then fail [] ''url must name a host''
          else if u_hasUser u then fail [] ''url must not carry credentials''
          else Inr (vl_lower L (u_Hostname u) @ (if u_Port u = [] then [] else '':'' @ u_Port u)))"

definition relocate :: "string \<Rightarrow> 'a checked \<Rightarrow> 'a checked" where
  "relocate path m = (case m of Inl e \<Rightarrow> fail path (ve_Msg e) | Inr a \<Rightarrow> Inr a)"

lemma relocate_Inr [simp]: "relocate path m = Inr a \<longleftrightarrow> m = Inr a"
  by (cases m) (simp_all add: relocate_def)

definition validateIcon :: "view_lib \<Rightarrow> json \<Rightarrow> string \<Rightarrow> unit checked" where
  "validateIcon L icon path = (case icon of
     JString t \<Rightarrow> andThen (checkString t path) (\<lambda>_. ensure (lucideNameRe t) path ''icon must be a Lucide name or {svg}'')
   | JObject m \<Rightarrow> (case find (\<lambda>k. k \<noteq> ''svg'') (map fst m) of
       Some k \<Rightarrow> fail (path @ ''.'' @ k) ''unknown field''
     | None \<Rightarrow> (case map_of m ''svg'' of
         Some (JString svg) \<Rightarrow> andThen (checkString svg (path @ ''.svg'')) (\<lambda>_. relocate (path @ ''.svg'') (SanitizeSVG L svg))
       | _ \<Rightarrow> fail (path @ ''.svg'') ''must be a string''))
   | _ \<Rightarrow> fail path ''icon must be a Lucide name or {svg}'')"

definition validateTone :: "json \<Rightarrow> string \<Rightarrow> unit checked" where
  "validateTone tone path = (case tone of
     JString s \<Rightarrow> ensure (s \<in> set toneSet) path ''tone must be one of success, warning, danger, muted''
   | _ \<Rightarrow> fail path ''tone must be one of success, warning, danger, muted'')"

end
