(* ===== verification/UiView.thy ===== *)
theory UiView
  imports UiSvg
begin

text \<open>
  The validator of plugin views (\<open>internal/plugins/uiview/validate.go\<close>): it rebuilds a document from the fields of
  the schema or names the first value that breaks it. The validator's counter of nodes is passed along.
\<close>

section \<open>Fields\<close>

text \<open>\<open>utf8.RuneCountInString\<close>; a byte that starts no rune counts as one.\<close>

function RuneCount :: "string \<Rightarrow> nat" where
  "RuneCount s = (if s = [] then 0 else Suc (RuneCount (drop (max 1 (utf8_rune_len s)) s)))"
  by pat_completeness auto
termination by (relation "measure length") auto

declare RuneCount.simps [simp del]

definition sub_path :: "string \<Rightarrow> string \<Rightarrow> string" where "sub_path path k = path @ ''.'' @ k"
definition item_path :: "string \<Rightarrow> string \<Rightarrow> nat \<Rightarrow> string" where "item_path path k i = path @ ''.'' @ k @ ''['' @ Itoa i @ '']''"

definition checkFields :: "obj \<Rightarrow> string \<Rightarrow> string list \<Rightarrow> unit checked" where
  "checkFields m path allowed = (case find (\<lambda>k. k \<notin> set allowed) (map fst m) of
     Some k \<Rightarrow> fail (sub_path path k) ''unknown field'' | None \<Rightarrow> Inr ())"

definition requireFields :: "obj \<Rightarrow> string \<Rightarrow> string list \<Rightarrow> unit checked" where
  "requireFields m path required = (case find (\<lambda>r. map_of m r = None) required of
     Some r \<Rightarrow> fail (sub_path path r) ''is required'' | None \<Rightarrow> Inr ())"

definition shape :: "obj \<Rightarrow> string \<Rightarrow> string list \<Rightarrow> string list \<Rightarrow> unit checked" where
  "shape m path allowed required = andThen (checkFields m path allowed) (\<lambda>_. requireFields m path required)"

definition as_object :: "json \<Rightarrow> string \<Rightarrow> string \<Rightarrow> obj checked" where
  "as_object v path msg = (case v of JObject m \<Rightarrow> Inr m | _ \<Rightarrow> fail path msg)"

text \<open>The result is \<open>None\<close> when the field is absent, which Go tells by a flag.\<close>

definition getString :: "obj \<Rightarrow> string \<Rightarrow> string \<Rightarrow> string option checked" where
  "getString m key path = (case map_of m key of
     None \<Rightarrow> Inr None
   | Some (JString s) \<Rightarrow> andThen (checkString s path) (\<lambda>_. Inr (Some s))
   | Some _ \<Rightarrow> fail path ''must be a string'')"

definition getBool :: "obj \<Rightarrow> string \<Rightarrow> string \<Rightarrow> bool option checked" where
  "getBool m key path = (case map_of m key of
     None \<Rightarrow> Inr None
   | Some (JBool b) \<Rightarrow> Inr (Some b)
   | Some _ \<Rightarrow> fail path ''must be a boolean'')"

definition getInt :: "obj \<Rightarrow> string \<Rightarrow> string \<Rightarrow> int option checked" where
  "getInt m key path = (case map_of m key of
     None \<Rightarrow> Inr None
   | Some (JNumber n) \<Rightarrow> (case Atoi n of Some i \<Rightarrow> Inr (Some i) | None \<Rightarrow> fail path ''must be a whole number'')
   | Some _ \<Rightarrow> fail path ''must be a number'')"

definition arrayField :: "obj \<Rightarrow> string \<Rightarrow> string \<Rightarrow> nat \<Rightarrow> json list checked" where
  "arrayField m key path mx = (case map_of m key of
     None \<Rightarrow> fail (sub_path path key) ''is required''
   | Some (JArray arr) \<Rightarrow> if mx < length arr then fail (item_path path key mx) (''exceeds the cap of '' @ Itoa mx) else Inr arr
   | Some _ \<Rightarrow> fail (sub_path path key) ''must be an array'')"

definition text_of :: "string option \<Rightarrow> string" where
  "text_of s = (case s of None \<Rightarrow> [] | Some t \<Rightarrow> t)"

definition present :: "string \<Rightarrow> ('a \<Rightarrow> json) \<Rightarrow> 'a option \<Rightarrow> obj" where
  "present k f v = (case v of None \<Rightarrow> [] | Some a \<Rightarrow> [(k, f a)])"

definition string_field :: "obj \<Rightarrow> string \<Rightarrow> string \<Rightarrow> obj checked" where
  "string_field m path k = andThen (getString m k (sub_path path k)) (\<lambda>s. Inr [(k, JString (text_of s))])"

definition opt_string :: "obj \<Rightarrow> string \<Rightarrow> string \<Rightarrow> obj checked" where
  "opt_string m path k = andThen (getString m k (sub_path path k)) (\<lambda>s. Inr (present k JString s))"

definition opt_bool :: "obj \<Rightarrow> string \<Rightarrow> string \<Rightarrow> obj checked" where
  "opt_bool m path k = andThen (getBool m k (sub_path path k)) (\<lambda>b. Inr (present k JBool b))"

text \<open>An optional field that is checked and kept as it is: a tone or an icon.\<close>

definition opt_raw :: "(json \<Rightarrow> string \<Rightarrow> unit checked) \<Rightarrow> obj \<Rightarrow> string \<Rightarrow> string \<Rightarrow> obj checked" where
  "opt_raw check m path k = (case map_of m k of
     None \<Rightarrow> Inr [] | Some raw \<Rightarrow> andThen (check raw (sub_path path k)) (\<lambda>_. Inr [(k, raw)]))"

text \<open>An optional string out of a closed vocabulary.\<close>

definition opt_enum :: "string list \<Rightarrow> string \<Rightarrow> obj \<Rightarrow> string \<Rightarrow> string \<Rightarrow> obj checked" where
  "opt_enum vals msg m path k = (case map_of m k of
     None \<Rightarrow> Inr []
   | Some (JString s) \<Rightarrow> andThen (ensure (s \<in> set vals) (sub_path path k) msg) (\<lambda>_. Inr [(k, JString s)])
   | Some _ \<Rightarrow> fail (sub_path path k) msg)"

text \<open>Steps one after the other, each adding its fields.\<close>

fun collect :: "obj checked list \<Rightarrow> obj checked" where
  "collect [] = Inr []"
| "collect (s # ss) = andThen s (\<lambda>a. andThen (collect ss) (\<lambda>b. Inr (a @ b)))"

text \<open>A loop over the items of an array, with a state.\<close>

fun each :: "(nat \<Rightarrow> 's \<Rightarrow> json \<Rightarrow> ('b \<times> 's) checked) \<Rightarrow> nat \<Rightarrow> 's \<Rightarrow> json list \<Rightarrow> ('b list \<times> 's) checked" where
  "each f i s [] = Inr ([], s)"
| "each f i s (x # xs) = andThen (f i s x) (\<lambda>(y, s'). andThen (each f (i + 1) s' xs) (\<lambda>(ys, s''). Inr (y # ys, s'')))"

section \<open>Parameters of an action\<close>

fun walkStrings :: "json \<Rightarrow> string \<Rightarrow> unit checked"
and walk_fields :: "obj \<Rightarrow> string \<Rightarrow> unit checked"
and walk_items :: "json list \<Rightarrow> string \<Rightarrow> nat \<Rightarrow> unit checked" where
  "walkStrings (JString t) path = checkString t path"
| "walkStrings (JObject m) path = walk_fields m path"
| "walkStrings (JArray xs) path = walk_items xs path 0"
| "walkStrings _ path = Inr ()"
| "walk_fields [] path = Inr ()"
| "walk_fields ((k, v) # m) path = andThen (checkString k (sub_path path k)) (\<lambda>_. andThen (walkStrings v (sub_path path k)) (\<lambda>_. walk_fields m path))"
| "walk_items [] path i = Inr ()"
| "walk_items (x # xs) path i = andThen (walkStrings x (path @ ''['' @ Itoa i @ '']'')) (\<lambda>_. walk_items xs path (i + 1))"

definition params :: "view_lib \<Rightarrow> json \<Rightarrow> string \<Rightarrow> unit checked" where
  "params L raw path = andThen (as_object raw path ''must be an object'') (\<lambda>m. andThen (walkStrings raw path) (\<lambda>_.
     case vl_marshal L raw of Inl _ \<Rightarrow> fail path ''cannot be encoded''
     | Inr b \<Rightarrow> ensure (length b \<le> MaxParamsBytes) path ''exceeds the 16 KiB cap''))"

section \<open>Actions\<close>

definition rpc_action :: "view_lib \<Rightarrow> view_env \<Rightarrow> obj \<Rightarrow> string \<Rightarrow> obj checked" where
  "rpc_action L env m path = andThen (shape m path [''kind'', ''rpc'', ''params''] [''rpc'']) (\<lambda>_.
     andThen (getString m ''rpc'' (sub_path path ''rpc'')) (\<lambda>name.
     andThen (ensure (ve_RPCs env (text_of name)) (sub_path path ''rpc'') ''not declared in contributes.rpc'') (\<lambda>_.
     andThen (opt_raw (params L) m path ''params'') (\<lambda>ps. Inr ([(''kind'', JString ''rpc''), (''rpc'', JString (text_of name))] @ ps)))))"

definition prompt_action :: "obj \<Rightarrow> string \<Rightarrow> obj checked" where
  "prompt_action m path = andThen (shape m path [''kind'', ''text''] [''text'']) (\<lambda>_.
     andThen (getString m ''text'' (sub_path path ''text'')) (\<lambda>s.
     andThen (ensure (text_of s \<noteq> []) (sub_path path ''text'') ''must not be empty'') (\<lambda>_. Inr [(''kind'', JString ''prompt''), (''text'', JString (text_of s))])))"

definition command_action :: "obj \<Rightarrow> string \<Rightarrow> obj checked" where
  "command_action m path = andThen (shape m path [''kind'', ''name''] [''name'']) (\<lambda>_.
     andThen (getString m ''name'' (sub_path path ''name'')) (\<lambda>s.
     andThen (ensure (commandName (text_of s)) (sub_path path ''name'') ''is not a valid command name'') (\<lambda>_. Inr [(''kind'', JString ''command''), (''name'', JString (text_of s))])))"

definition openPanel_action :: "view_lib \<Rightarrow> view_env \<Rightarrow> obj \<Rightarrow> string \<Rightarrow> obj checked" where
  "openPanel_action L env m path = andThen (shape m path [''kind'', ''panel'', ''context''] [''panel'']) (\<lambda>_.
     andThen (getString m ''panel'' (sub_path path ''panel'')) (\<lambda>panel.
     andThen (ensure (ve_Panels env (text_of panel)) (sub_path path ''panel'') ''not declared in contributes.panels'') (\<lambda>_.
     andThen (opt_raw (params L) m path ''context'') (\<lambda>cs. Inr ([(''kind'', JString ''openPanel''), (''panel'', JString (text_of panel))] @ cs)))))"

definition openUrl_action :: "view_lib \<Rightarrow> obj \<Rightarrow> string \<Rightarrow> obj checked" where
  "openUrl_action L m path = andThen (shape m path [''kind'', ''url''] [''url'']) (\<lambda>_.
     case map_of m ''url'' of
       Some (JString raw) \<Rightarrow> andThen (relocate (sub_path path ''url'') (sanitizeOpenURL L raw)) (\<lambda>host.
         Inr [(''kind'', JString ''openUrl''), (''url'', JString raw), (''host'', JString host)])
     | _ \<Rightarrow> fail (sub_path path ''url'') ''must be a string'')"

definition action :: "view_lib \<Rightarrow> view_env \<Rightarrow> json \<Rightarrow> string \<Rightarrow> obj checked" where
  "action L env raw path = andThen (as_object raw path ''must be an object'') (\<lambda>m.
     case map_of m ''kind'' of
       Some (JString kind) \<Rightarrow>
         if kind \<notin> set ActionKinds then fail (sub_path path ''kind'') (''unknown action kind '' @ vl_quote L kind)
         else if kind = ''rpc'' then rpc_action L env m path
         else if kind = ''prompt'' then prompt_action m path
         else if kind = ''command'' then command_action m path
         else if kind = ''openPanel'' then openPanel_action L env m path
         else openUrl_action L m path
     | _ \<Rightarrow> fail (sub_path path ''kind'') ''must be an action kind'')"

definition opt_action :: "view_lib \<Rightarrow> view_env \<Rightarrow> obj \<Rightarrow> string \<Rightarrow> obj checked" where
  "opt_action L env m path = (case map_of m ''action'' of
     None \<Rightarrow> Inr [] | Some raw \<Rightarrow> andThen (action L env raw (sub_path path ''action'')) (\<lambda>a. Inr [(''action'', JObject a)]))"

section \<open>Nodes without children\<close>

definition opt_string_such :: "(string \<Rightarrow> bool) \<Rightarrow> string \<Rightarrow> obj \<Rightarrow> string \<Rightarrow> string \<Rightarrow> obj checked" where
  "opt_string_such ok msg m path k = andThen (getString m k (sub_path path k)) (\<lambda>s. case s of
     None \<Rightarrow> Inr [] | Some t \<Rightarrow> andThen (ensure (ok t) (sub_path path k) msg) (\<lambda>_. Inr [(k, JString t)]))"

definition heading_fields :: "obj \<Rightarrow> string \<Rightarrow> obj checked" where
  "heading_fields m path = andThen (shape m path [''type'', ''id'', ''text'', ''level''] [''text'']) (\<lambda>_.
     andThen (string_field m path ''text'') (\<lambda>t.
     andThen (getInt m ''level'' (sub_path path ''level'')) (\<lambda>n. case n of
       None \<Rightarrow> Inr t
     | Some i \<Rightarrow> andThen (ensure (1 \<le> i \<and> i \<le> 3) (sub_path path ''level'') ''must be 1, 2 or 3'') (\<lambda>_. Inr (t @ [(''level'', JNumber (Itoa (nat i)))])))))"

definition textLike :: "obj \<Rightarrow> string \<Rightarrow> string list \<Rightarrow> obj checked" where
  "textLike m path extras = andThen (shape m path ([''type'', ''id'', ''text''] @ extras) [''text'']) (\<lambda>_.
     collect [string_field m path ''text'', opt_raw validateTone m path ''tone'', opt_enum sizeSet ''must be one of sm, md'' m path ''size''])"

definition markdown_fields :: "obj \<Rightarrow> string \<Rightarrow> obj checked" where
  "markdown_fields m path = andThen (shape m path [''type'', ''id'', ''text''] [''text'']) (\<lambda>_.
     andThen (getString m ''text'' (sub_path path ''text'')) (\<lambda>s. Inr [(''text'', JString (SanitizeMarkdown (text_of s)))]))"

definition keyValue_item :: "string \<Rightarrow> nat \<Rightarrow> unit \<Rightarrow> json \<Rightarrow> (json \<times> unit) checked" where
  "keyValue_item path i s raw = (let p = item_path path ''items'' i in
     andThen (as_object raw p ''must be an object'') (\<lambda>item.
     andThen (shape item p [''key'', ''value'', ''tone''] [''key'', ''value'']) (\<lambda>_.
     andThen (collect [string_field item p ''key'', string_field item p ''value'', opt_raw validateTone item p ''tone'']) (\<lambda>norm. Inr (JObject norm, ())))))"

definition keyValue_fields :: "obj \<Rightarrow> string \<Rightarrow> obj checked" where
  "keyValue_fields m path = andThen (shape m path [''type'', ''id'', ''items''] [''items'']) (\<lambda>_.
     andThen (arrayField m ''items'' path MaxRows) (\<lambda>items.
     andThen (each (keyValue_item path) 0 () items) (\<lambda>(out, _). Inr [(''items'', JArray out)])))"

definition list_item :: "view_lib \<Rightarrow> view_env \<Rightarrow> string \<Rightarrow> nat \<Rightarrow> unit \<Rightarrow> json \<Rightarrow> (json \<times> unit) checked" where
  "list_item L env path i s raw = (let p = item_path path ''items'' i in
     andThen (as_object raw p ''must be an object'') (\<lambda>item.
     andThen (shape item p [''title'', ''subtitle'', ''icon'', ''tone'', ''badge'', ''action''] [''title'']) (\<lambda>_.
     andThen (collect [string_field item p ''title'', opt_string item p ''subtitle'', opt_string item p ''badge'', opt_raw validateTone item p ''tone'',
       opt_raw (validateIcon L) item p ''icon'', opt_action L env item p]) (\<lambda>norm. Inr (JObject norm, ())))))"

definition list_fields :: "view_lib \<Rightarrow> view_env \<Rightarrow> obj \<Rightarrow> string \<Rightarrow> obj checked" where
  "list_fields L env m path = andThen (shape m path [''type'', ''id'', ''items''] [''items'']) (\<lambda>_.
     andThen (arrayField m ''items'' path MaxRows) (\<lambda>items.
     andThen (each (list_item L env path) 0 () items) (\<lambda>(out, _). Inr [(''items'', JArray out)])))"

definition table_column :: "string \<Rightarrow> nat \<Rightarrow> string list \<Rightarrow> json \<Rightarrow> (json \<times> string list) checked" where
  "table_column path i keys raw = (let p = item_path path ''columns'' i in
     andThen (as_object raw p ''must be an object'') (\<lambda>col.
     andThen (shape col p [''key'', ''label'', ''align''] [''key'', ''label'']) (\<lambda>_.
     andThen (getString col ''key'' (sub_path p ''key'')) (\<lambda>key.
     andThen (string_field col p ''label'') (\<lambda>label.
     andThen (ensure (text_of key \<notin> set keys) (sub_path p ''key'') ''duplicate column key'') (\<lambda>_.
     andThen (opt_enum alignSet ''must be one of start, end'' col p ''align'') (\<lambda>align.
     Inr (JObject ([(''key'', JString (text_of key))] @ label @ align), text_of key # keys))))))))"

fun table_cells :: "string list \<Rightarrow> string \<Rightarrow> obj \<Rightarrow> obj checked" where
  "table_cells keys p [] = Inr []"
| "table_cells keys p ((k, cell) # rest) =
     andThen (ensure (k \<in> set keys) (sub_path p k) ''is not a declared column'') (\<lambda>_.
     andThen (case cell of
         JString t \<Rightarrow> checkString t (sub_path p k)
       | JArray _ \<Rightarrow> fail (sub_path p k) ''must be a string, number, boolean or null''
       | JObject _ \<Rightarrow> fail (sub_path p k) ''must be a string, number, boolean or null''
       | _ \<Rightarrow> Inr ()) (\<lambda>_.
     andThen (table_cells keys p rest) (\<lambda>out. Inr ((k, cell) # out))))"

definition table_row :: "string list \<Rightarrow> string \<Rightarrow> nat \<Rightarrow> unit \<Rightarrow> json \<Rightarrow> (json \<times> unit) checked" where
  "table_row keys path i s raw = (let p = item_path path ''rows'' i in
     andThen (as_object raw p ''must be an object'') (\<lambda>row. andThen (table_cells keys p row) (\<lambda>norm. Inr (JObject norm, ()))))"

definition table :: "obj \<Rightarrow> string \<Rightarrow> obj checked" where
  "table m path = andThen (shape m path [''type'', ''id'', ''columns'', ''rows''] [''columns'', ''rows'']) (\<lambda>_.
     andThen (arrayField m ''columns'' path MaxColumns) (\<lambda>columns.
     andThen (ensure (columns \<noteq> []) (sub_path path ''columns'') ''must have at least one column'') (\<lambda>_.
     andThen (each (table_column path) 0 [] columns) (\<lambda>(normCols, keys).
     andThen (arrayField m ''rows'' path MaxRows) (\<lambda>rows.
     andThen (each (table_row keys path) 0 () rows) (\<lambda>(normRows, _). Inr [(''columns'', JArray normCols), (''rows'', JArray normRows)]))))))"

definition badge_fields :: "view_lib \<Rightarrow> obj \<Rightarrow> string \<Rightarrow> obj checked" where
  "badge_fields L m path = andThen (shape m path [''type'', ''id'', ''text'', ''tone'', ''icon''] [''text'']) (\<lambda>_.
     collect [string_field m path ''text'', opt_raw validateTone m path ''tone'', opt_raw (validateIcon L) m path ''icon''])"

definition progress_fields :: "view_lib \<Rightarrow> obj \<Rightarrow> string \<Rightarrow> obj checked" where
  "progress_fields L m path = andThen (shape m path [''type'', ''id'', ''value'', ''label'', ''tone''] [''value'']) (\<lambda>_.
     case map_of m ''value'' of
       Some (JNumber n) \<Rightarrow> andThen (ensure (vl_in_unit L n) (sub_path path ''value'') ''must be between 0 and 1'') (\<lambda>_.
         collect [Inr [(''value'', JNumber n)], opt_string m path ''label'', opt_raw validateTone m path ''tone''])
     | _ \<Rightarrow> fail (sub_path path ''value'') ''must be a number'')"

definition code_fields :: "obj \<Rightarrow> string \<Rightarrow> obj checked" where
  "code_fields m path = andThen (shape m path [''type'', ''id'', ''text'', ''language''] [''text'']) (\<lambda>_.
     collect [string_field m path ''text'', opt_string_such languageRe ''must match [A-Za-z0-9+#._-] and be at most 32 characters'' m path ''language''])"

definition diff_fields :: "obj \<Rightarrow> string \<Rightarrow> obj checked" where
  "diff_fields m path = andThen (shape m path [''type'', ''id'', ''text''] [''text'']) (\<lambda>_. string_field m path ''text'')"

definition button_fields :: "view_lib \<Rightarrow> view_env \<Rightarrow> obj \<Rightarrow> string \<Rightarrow> obj checked" where
  "button_fields L env m path =
     andThen (shape m path [''type'', ''id'', ''label'', ''action'', ''tone'', ''icon'', ''disabled''] [''label'', ''action'']) (\<lambda>_.
     collect [string_field m path ''label'', opt_action L env m path, opt_raw validateTone m path ''tone'', opt_raw (validateIcon L) m path ''icon'',
       opt_bool m path ''disabled''])"

definition titleText :: "obj \<Rightarrow> string \<Rightarrow> obj checked" where
  "titleText m path = andThen (requireFields m path [''title'']) (\<lambda>_. collect [string_field m path ''title'', opt_string m path ''text''])"

definition empty_fields :: "view_lib \<Rightarrow> obj \<Rightarrow> string \<Rightarrow> obj checked" where
  "empty_fields L m path = andThen (checkFields m path [''type'', ''id'', ''title'', ''text'', ''icon'']) (\<lambda>_.
     collect [titleText m path, opt_raw (validateIcon L) m path ''icon''])"

definition error_fields :: "obj \<Rightarrow> string \<Rightarrow> obj checked" where
  "error_fields m path = andThen (checkFields m path [''type'', ''id'', ''title'', ''text'']) (\<lambda>_. titleText m path)"

section \<open>Forms\<close>

definition option_item :: "string \<Rightarrow> nat \<Rightarrow> unit \<Rightarrow> json \<Rightarrow> (json \<times> unit) checked" where
  "option_item p j s oraw = (let op = item_path p ''options'' j in
     andThen (as_object oraw op ''must be an object'') (\<lambda>ob.
     andThen (shape ob op [''value'', ''label''] [''value'', ''label'']) (\<lambda>_.
     andThen (collect [string_field ob op ''value'', string_field ob op ''label'']) (\<lambda>no. Inr (JObject no, ())))))"

definition options_field :: "string \<Rightarrow> obj \<Rightarrow> string \<Rightarrow> obj checked" where
  "options_field typ f p = (case map_of f ''options'' of
     Some raw \<Rightarrow>
       if typ \<noteq> ''select'' then fail (sub_path p ''options'') ''only a select field may have options''
       else (case raw of
         JArray opts \<Rightarrow>
           if opts = [] then fail (sub_path p ''options'') ''a select must have at least one option''
           else if 64 < length opts then fail (sub_path p ''options'') ''must have at most 64 options''
           else andThen (each (option_item p) 0 () opts) (\<lambda>(normOpts, _). Inr [(''options'', JArray normOpts)])
       | _ \<Rightarrow> fail (sub_path p ''options'') ''must be an array'')
   | None \<Rightarrow> if typ = ''select'' then fail (sub_path p ''options'') ''a select must declare its options'' else Inr [])"

definition default_field :: "string \<Rightarrow> obj \<Rightarrow> string \<Rightarrow> obj checked" where
  "default_field typ f p = (case map_of f ''default'' of
     None \<Rightarrow> Inr []
   | Some raw \<Rightarrow>
       if typ = ''secret'' then fail (sub_path p ''default'') ''a secret field may not have a default''
       else if typ = ''toggle'' then (case raw of JBool b \<Rightarrow> Inr [(''default'', JBool b)] | _ \<Rightarrow> fail (sub_path p ''default'') ''must be a boolean'')
       else (case raw of
         JString s \<Rightarrow> andThen (checkString s (sub_path p ''default'')) (\<lambda>_. Inr [(''default'', JString s)])
       | _ \<Rightarrow> fail (sub_path p ''default'') ''must be a string''))"

text \<open>A string of an expression or of a vocabulary, which must be there.\<close>

definition named_string :: "(string \<Rightarrow> bool) \<Rightarrow> obj \<Rightarrow> string \<Rightarrow> string \<Rightarrow> string \<Rightarrow> string checked" where
  "named_string ok m k path msg = (case map_of m k of
     Some (JString s) \<Rightarrow> andThen (ensure (ok s) path msg) (\<lambda>_. Inr s)
   | _ \<Rightarrow> fail path msg)"

definition form_field :: "string \<Rightarrow> nat \<Rightarrow> string list \<Rightarrow> json \<Rightarrow> (json \<times> string list) checked" where
  "form_field path i names raw = (let p = item_path path ''fields'' i in
     andThen (as_object raw p ''must be an object'') (\<lambda>f.
     andThen (shape f p [''name'', ''type'', ''label'', ''placeholder'', ''required'', ''options'', ''default''] [''name'', ''type'', ''label'']) (\<lambda>_.
     andThen (named_string fieldNameRe f ''name'' (sub_path p ''name'') ''must match [A-Za-z][A-Za-z0-9_]{0,39}'') (\<lambda>name.
     andThen (ensure (name \<notin> set names) (sub_path p ''name'') ''duplicate field name'') (\<lambda>_.
     andThen (named_string (\<lambda>t. t \<in> set fieldTypeSet) f ''type'' (sub_path p ''type'') ''must be one of text, select, toggle, secret'') (\<lambda>typ.
     andThen (collect [Inr [(''name'', JString name), (''type'', JString typ)], string_field f p ''label'', opt_string f p ''placeholder'', opt_bool f p ''required'',
       options_field typ f p, default_field typ f p]) (\<lambda>norm.
     Inr (JObject norm, name # names))))))))"

definition form_submit :: "view_lib \<Rightarrow> view_env \<Rightarrow> obj \<Rightarrow> string \<Rightarrow> json checked" where
  "form_submit L env m path = (let p = sub_path path ''submit'' in
     andThen (case map_of m ''submit'' of Some (JObject submit) \<Rightarrow> Inr submit | _ \<Rightarrow> fail p ''must be an object'') (\<lambda>submit.
     andThen (shape submit p [''label'', ''action''] [''label'', ''action'']) (\<lambda>_.
     andThen (string_field submit p ''label'') (\<lambda>label.
     andThen (action L env (the (map_of submit ''action'')) (sub_path p ''action'')) (\<lambda>act.
     andThen (ensure (map_of act ''kind'' = Some (JString ''rpc'')) (sub_path p ''action.kind'') (''must be '' @ [CHR 0x22] @ ''rpc'' @ [CHR 0x22])) (\<lambda>_.
     Inr (JObject (label @ [(''action'', JObject act)]))))))))"

definition form :: "view_lib \<Rightarrow> view_env \<Rightarrow> obj \<Rightarrow> string \<Rightarrow> obj checked" where
  "form L env m path = andThen (shape m path [''type'', ''id'', ''fields'', ''submit''] [''id'', ''fields'', ''submit'']) (\<lambda>_.
     andThen (named_string nodeIDRe m ''id'' (sub_path path ''id'') ''must match [A-Za-z0-9._-] and be 1 to 64 characters'') (\<lambda>i.
     andThen (arrayField m ''fields'' path MaxFormFields) (\<lambda>fields.
     andThen (ensure (fields \<noteq> []) (sub_path path ''fields'') ''must have at least one field'') (\<lambda>_.
     andThen (each (form_field path) 0 [] fields) (\<lambda>(normFields, _).
     andThen (form_submit L env m path) (\<lambda>submit.
     Inr [(''id'', JString i), (''fields'', JArray normFields), (''submit'', submit)]))))))"

section \<open>Nodes\<close>

definition leaf_fields :: "view_lib \<Rightarrow> view_env \<Rightarrow> obj \<Rightarrow> string \<Rightarrow> string \<Rightarrow> obj checked" where
  "leaf_fields L env m typ path =
     (if typ = ''heading'' then heading_fields m path
      else if typ = ''text'' then textLike m path [''tone'', ''size'']
      else if typ = ''markdown'' then markdown_fields m path
      else if typ = ''keyValue'' then keyValue_fields m path
      else if typ = ''list'' then list_fields L env m path
      else if typ = ''table'' then table m path
      else if typ = ''badge'' then badge_fields L m path
      else if typ = ''progress'' then progress_fields L m path
      else if typ = ''code'' then code_fields m path
      else if typ = ''diff'' then diff_fields m path
      else if typ = ''form'' then form L env m path
      else if typ = ''button'' then button_fields L env m path
      else if typ = ''empty'' then empty_fields L m path
      else if typ = ''error'' then error_fields m path
      else fail (sub_path path ''type'') (''unknown node type '' @ vl_quote L typ))"

text \<open>The other fields of a container, once its children are read.\<close>

definition container_extras :: "string \<Rightarrow> obj \<Rightarrow> string \<Rightarrow> obj checked" where
  "container_extras typ m path = collect [opt_string_such (\<lambda>s. s \<in> set gapSet) ''must be one of sm, md, lg'' m path ''gap'',
     if typ = ''row'' then opt_bool m path ''wrap'' else Inr []]"

definition node_id :: "obj \<Rightarrow> string \<Rightarrow> obj checked" where
  "node_id m path = (case map_of m ''id'' of
     None \<Rightarrow> Inr []
   | Some _ \<Rightarrow> andThen (named_string nodeIDRe m ''id'' (sub_path path ''id'') ''must match [A-Za-z0-9._-] and be at most 64 characters'') (\<lambda>s. Inr [(''id'', JString s)]))"

definition node_type :: "view_lib \<Rightarrow> obj \<Rightarrow> string \<Rightarrow> string checked" where
  "node_type L m path = (case map_of m ''type'' of
     Some (JString typ) \<Rightarrow> andThen (ensure (typ \<in> set NodeTypes) (sub_path path ''type'') (''unknown node type '' @ vl_quote L typ)) (\<lambda>_. Inr typ)
   | _ \<Rightarrow> fail (sub_path path ''type'') ''must be a node type'')"

text \<open>The fields of the type are copied over those of every node.\<close>

definition put_fields :: "obj \<Rightarrow> obj \<Rightarrow> obj" where
  "put_fields out fs = filter (\<lambda>(k, _). k \<notin> fst ` set fs) out @ fs"

function validate_node :: "view_lib \<Rightarrow> view_env \<Rightarrow> json \<Rightarrow> string \<Rightarrow> nat \<Rightarrow> nat \<Rightarrow> (obj \<times> nat) checked"
and validate_children :: "view_lib \<Rightarrow> view_env \<Rightarrow> json list \<Rightarrow> string \<Rightarrow> nat \<Rightarrow> nat \<Rightarrow> nat \<Rightarrow> (json list \<times> nat) checked" where
  "validate_node L env val path depth nodes =
     (if MaxDepth < depth then fail path (''depth '' @ Itoa depth @ '' exceeds the maximum of '' @ Itoa MaxDepth)
      else if MaxNodes_view < nodes + 1 then fail path (''document has more than '' @ Itoa MaxNodes_view @ '' nodes'')
      else andThen (as_object val path ''node must be an object'') (\<lambda>m.
        andThen (node_type L m path) (\<lambda>typ.
        andThen (node_id m path) (\<lambda>i.
        if typ = ''stack'' \<or> typ = ''row'' then
          andThen (shape m path [''type'', ''id'', ''children'', ''gap'', ''wrap''] [''children'']) (\<lambda>_.
          case map_of m ''children'' of
            Some (JArray arr) \<Rightarrow> andThen (validate_children L env arr path 0 depth (nodes + 1)) (\<lambda>(cs, nodes').
              andThen (container_extras typ m path) (\<lambda>ex.
              Inr (put_fields ((''type'', JString typ) # i) ((''children'', JArray cs) # ex), nodes')))
          | _ \<Rightarrow> fail (sub_path path ''children'') ''must be an array of nodes'')
        else andThen (leaf_fields L env m typ path) (\<lambda>fields. Inr (put_fields ((''type'', JString typ) # i) fields, nodes + 1))))))"
| "validate_children L env [] path i depth nodes = Inr ([], nodes)"
| "validate_children L env (child # rest) path i depth nodes =
     andThen (validate_node L env child (item_path path ''children'' i) (depth + 1) nodes) (\<lambda>(norm, nodes').
     andThen (validate_children L env rest path (i + 1) depth nodes') (\<lambda>(out, nodes''). Inr (JObject norm # out, nodes'')))"
  by pat_completeness auto
termination
  by (relation "measures [\<lambda>x. case x of Inl (_, _, _, _, depth, _) \<Rightarrow> 2 * (MaxDepth + 1 - depth) | Inr (_, _, _, _, _, depth, _) \<Rightarrow> 2 * (MaxDepth + 1 - depth) - 1,
      \<lambda>x. case x of Inl _ \<Rightarrow> 0 | Inr (_, _, xs, _) \<Rightarrow> length xs]") auto

declare validate_node.simps [simp del]

section \<open>Documents\<close>

fun top_fields :: "view_lib \<Rightarrow> view_env \<Rightarrow> obj \<Rightarrow> obj checked" where
  "top_fields L env [] = Inr []"
| "top_fields L env ((k, val) # rest) =
     andThen
       (if k = ''ui'' then andThen (ensure (val = JNumber ''1'') ''$.ui'' ''must be 1'') (\<lambda>_. Inr [(''ui'', JNumber ''1'')])
        else if k = ''title'' then (case val of
          JString s \<Rightarrow> andThen (checkString s ''$.title'') (\<lambda>_. andThen (ensure (RuneCount s \<le> 120) ''$.title'' ''exceeds 120 characters'') (\<lambda>_. Inr [(''title'', JString s)]))
        | _ \<Rightarrow> fail ''$.title'' ''must be a string'')
        else if k = ''root'' then andThen (validate_node L env val ''$.root'' 1 0) (\<lambda>(n, _). Inr [(''root'', JObject n)])
        else fail (''$.'' @ k) ''unknown field'') (\<lambda>a.
     andThen (top_fields L env rest) (\<lambda>b. Inr (a @ b)))"

definition normalised :: "view_lib \<Rightarrow> view_env \<Rightarrow> json \<Rightarrow> json checked" where
  "normalised L env raw = andThen (as_object raw ''$'' ''document must be a JSON object'') (\<lambda>top.
     andThen (top_fields L env top) (\<lambda>out.
     andThen (ensure (map_of out ''ui'' \<noteq> None) ''$.ui'' ''is required and must be 1'') (\<lambda>_.
     andThen (ensure (map_of out ''root'' \<noteq> None) ''$.root'' ''is required'') (\<lambda>_. Inr (JObject out)))))"

definition Validate :: "view_lib \<Rightarrow> view_env \<Rightarrow> string \<Rightarrow> string checked" where
  "Validate L env doc =
     (if MaxDocBytes < length doc then fail ''$'' (''document is '' @ Itoa (length doc) @ '' bytes, over the '' @ Itoa MaxDocBytes @ ''-byte cap'')
      else case vl_decode L doc of
        InvalidJSON e \<Rightarrow> fail ''$'' (''invalid JSON: '' @ e)
      | TrailingData \<Rightarrow> fail ''$'' ''trailing data after the document''
      | Decoded raw \<Rightarrow> andThen (normalised L env raw) (\<lambda>out. case vl_marshal L out of
          Inl e \<Rightarrow> fail ''$'' (''cannot encode the normalised document: '' @ e)
        | Inr b \<Rightarrow> andThen (ensure (length b \<le> MaxDocBytes) ''$''
            (''normalised document is '' @ Itoa (length b) @ '' bytes, over the '' @ Itoa MaxDocBytes @ ''-byte cap'')) (\<lambda>_. Inr b)))"

end
