(* ===== verification/UiViewProps.thy ===== *)
theory UiViewProps
  imports UiView
begin

text \<open>
  What an accepted view is: the fields of its nodes are clean text, its actions name declared targets, and it
  stays within the caps. \<open>field_ok\<close> says so of one field; every operation that builds fields is shown to
  build such ones, and the nodes of a view are reached by induction over the validator.
\<close>

section \<open>Clean text\<close>

fun clean_json :: "json \<Rightarrow> bool"
and clean_fields :: "obj \<Rightarrow> bool"
and clean_items :: "json list \<Rightarrow> bool" where
  "clean_json (JString s) = clean_text s"
| "clean_json (JObject m) = clean_fields m"
| "clean_json (JArray xs) = clean_items xs"
| "clean_json _ = True"
| "clean_fields [] = True"
| "clean_fields ((k, v) # m) \<longleftrightarrow> clean_text k \<and> clean_json v \<and> clean_fields m"
| "clean_items [] = True"
| "clean_items (x # xs) \<longleftrightarrow> clean_json x \<and> clean_items xs"

lemma clean_fields_iff: "clean_fields m \<longleftrightarrow> (\<forall>(k, v) \<in> set m. clean_text k \<and> clean_json v)"
  by (induction m) auto

lemma clean_items_iff: "clean_items xs \<longleftrightarrow> (\<forall>x \<in> set xs. clean_json x)"
  by (induction xs) auto

lemma clean_text_set: "clean_text s \<longleftrightarrow> (\<forall>c \<in> set s. c = CHR 0x0A \<or> c = CHR 0x09 \<or> \<not> control_byte c)"
  by (simp add: clean_text_def list_all_iff)

lemma clean_text_append [simp]: "clean_text (s @ t) \<longleftrightarrow> clean_text s \<and> clean_text t"
  by (auto simp: clean_text_def)

lemma clean_text_Nil [simp]: "clean_text []"
  by (simp add: clean_text_def)

lemma checkString_clean: "checkString s path = Inr u \<Longrightarrow> clean_text s"
  by (simp add: checkString_def split: if_splits)

lemma getString_clean: "getString m k path = Inr s \<Longrightarrow> clean_text (text_of s)"
  by (auto simp: getString_def text_of_def split: option.splits json.splits dest: checkString_clean)

lemma set_subseq: "subseq xs ys \<Longrightarrow> set xs \<subseteq> set ys"
  by (auto elim: list_emb_set)

lemma SanitizeMarkdown_clean: "clean_text s \<Longrightarrow> clean_text (SanitizeMarkdown s)"
  using set_subseq [OF SanitizeMarkdown_subseq [of s]] by (fastforce simp: clean_text_set split: if_splits)

lemma walkStrings_clean:
  "walkStrings v path = Inr u \<Longrightarrow> clean_json v"
  "walk_fields m path = Inr u \<Longrightarrow> clean_fields m"
  "walk_items xs path i = Inr u \<Longrightarrow> clean_items xs"
  by (induction v path and m path and xs path i arbitrary: u and u and u rule: walkStrings_walk_fields_walk_items.induct)
     (auto dest: checkString_clean)

lemma params_clean: "params L raw path = Inr u \<Longrightarrow> clean_json raw"
  by (auto simp: params_def dest: walkStrings_clean(1))

lemma vocabulary_clean: "list_all clean_text toneSet" "list_all clean_text sizeSet" "list_all clean_text alignSet" "list_all clean_text gapSet"
  "list_all clean_text fieldTypeSet" "list_all clean_text NodeTypes" "list_all clean_text ActionKinds"
  by code_simp+

lemma validateTone_clean: "validateTone raw path = Inr u \<Longrightarrow> clean_json raw"
  using vocabulary_clean(1) by (auto simp: validateTone_def list_all_iff split: json.splits)

section \<open>Objects with each key once\<close>

fun wf_json :: "json \<Rightarrow> bool"
and wf_fields :: "obj \<Rightarrow> bool"
and wf_items :: "json list \<Rightarrow> bool" where
  "wf_json (JObject m) \<longleftrightarrow> distinct (map fst m) \<and> wf_fields m"
| "wf_json (JArray xs) = wf_items xs"
| "wf_json _ = True"
| "wf_fields [] = True"
| "wf_fields ((k, v) # m) \<longleftrightarrow> wf_json v \<and> wf_fields m"
| "wf_items [] = True"
| "wf_items (x # xs) \<longleftrightarrow> wf_json x \<and> wf_items xs"

lemma wf_fields_iff: "wf_fields m \<longleftrightarrow> (\<forall>(k, v) \<in> set m. wf_json v)"
  by (induction m) auto

lemma wf_items_iff: "wf_items xs \<longleftrightarrow> (\<forall>x \<in> set xs. wf_json x)"
  by (induction xs) auto

lemma wf_field: "wf_json (JObject m) \<Longrightarrow> map_of m k = Some v \<Longrightarrow> wf_json v"
  by (auto simp: wf_fields_iff dest: map_of_SomeD)

lemma validateIcon_clean:
  assumes "validateIcon L raw path = Inr u" "wf_json raw"
  shows "clean_json raw"
proof (cases raw)
  case (JObject m)
  then obtain svg where svg: "map_of m ''svg'' = Some (JString svg)" "clean_text svg" "\<forall>x \<in> set m. fst x = ''svg''"
    using assms(1) by (auto simp: validateIcon_def find_None_iff split: option.splits json.splits dest: checkString_clean)
  have "x = (''svg'', JString svg)" if "x \<in> set m" for x
    using that svg(1,3) assms(2) JObject by (metis eq_key_imp_eq_value map_of_SomeD prod.collapse wf_json.simps(1))
  moreover have "clean_text ''svg''" by code_simp
  ultimately show ?thesis using svg(2) JObject by (force simp: clean_fields_iff)
qed (use assms(1) in \<open>auto simp: validateIcon_def dest: checkString_clean\<close>)

section \<open>Declared actions\<close>

definition url_of :: "view_lib \<Rightarrow> string \<Rightarrow> string \<Rightarrow> bool" where
  "url_of L raw host \<longleftrightarrow> length raw \<le> maxURLBytes \<and> \<not> space_or_control raw \<and> (\<exists>u. vl_url L raw = Some u \<and> u_Scheme u \<in> {''http'', ''https''}
     \<and> u_Host u \<noteq> [] \<and> \<not> u_hasUser u \<and> host = vl_lower L (u_Hostname u) @ (if u_Port u = [] then [] else '':'' @ u_Port u))"

definition declared :: "view_lib \<Rightarrow> view_env \<Rightarrow> obj \<Rightarrow> bool" where
  "declared L env a \<longleftrightarrow>
     map_of a ''kind'' = Some (JString ''rpc'') \<and> (\<exists>n. map_of a ''rpc'' = Some (JString n) \<and> ve_RPCs env n)
   \<or> map_of a ''kind'' = Some (JString ''openPanel'') \<and> (\<exists>n. map_of a ''panel'' = Some (JString n) \<and> ve_Panels env n)
   \<or> map_of a ''kind'' = Some (JString ''openUrl'') \<and> (\<exists>raw host. map_of a ''url'' = Some (JString raw) \<and> map_of a ''host'' = Some (JString host) \<and> url_of L raw host)
   \<or> map_of a ''kind'' = Some (JString ''prompt'') \<and> (\<exists>t. map_of a ''text'' = Some (JString t) \<and> t \<noteq> [])
   \<or> map_of a ''kind'' = Some (JString ''command'') \<and> (\<exists>n. map_of a ''name'' = Some (JString n) \<and> commandName n)"

text \<open>The host shown for a link is printable; the other strings of an action are checked.\<close>

definition clean_hosts :: "view_lib \<Rightarrow> bool" where
  "clean_hosts L \<longleftrightarrow> (\<forall>raw u. vl_url L raw = Some u \<longrightarrow> clean_text (vl_lower L (u_Hostname u)) \<and> clean_text (u_Port u))"

lemma sanitizeOpenURL_url_of: "sanitizeOpenURL L raw = Inr host \<Longrightarrow> url_of L raw host"
  by (auto simp: sanitizeOpenURL_def url_of_def split: if_splits option.splits)

lemma no_control_clean: "\<not> space_or_control s \<Longrightarrow> clean_text s"
  by (induction s) (auto simp: clean_text_def)

lemma key_words_clean [simp]: "clean_text ''kind''" "clean_text ''rpc''" "clean_text ''params''" "clean_text ''openPanel''" "clean_text ''panel''" "clean_text ''context''"
  "clean_text ''openUrl''" "clean_text ''url''" "clean_text ''host''" "clean_text ''prompt''" "clean_text ''text''" "clean_text ''command''" "clean_text ''name''" "clean_text '':''"
  by code_simp+

lemma url_of_clean: "url_of L raw host \<Longrightarrow> clean_hosts L \<Longrightarrow> clean_text raw \<and> clean_text host"
  using key_words_clean(14) clean_text_append by (auto simp: url_of_def clean_hosts_def no_control_clean simp del: append_Cons)

lemma opt_params_clean: "opt_raw (params L) m path k = Inr fs \<Longrightarrow> clean_text k \<Longrightarrow> clean_fields fs"
  by (auto simp: opt_raw_def split: option.splits dest: params_clean)

lemma rpc_action_ok: "rpc_action L env m path = Inr a \<Longrightarrow> declared L env a \<and> clean_fields a"
  unfolding rpc_action_def declared_def by (clarsimp simp: getString_clean opt_params_clean)

lemma openPanel_action_ok: "openPanel_action L env m path = Inr a \<Longrightarrow> declared L env a \<and> clean_fields a"
  unfolding openPanel_action_def declared_def by (clarsimp simp: getString_clean opt_params_clean)

lemma prompt_action_ok: "prompt_action m path = Inr a \<Longrightarrow> declared L env a \<and> clean_fields a"
  unfolding prompt_action_def declared_def by (clarsimp simp: getString_clean)

lemma command_action_ok: "command_action m path = Inr a \<Longrightarrow> declared L env a \<and> clean_fields a"
  unfolding command_action_def declared_def by (clarsimp simp: getString_clean)

lemma openUrl_action_ok: "openUrl_action L m path = Inr a \<Longrightarrow> clean_hosts L \<Longrightarrow> declared L env a \<and> clean_fields a"
  unfolding openUrl_action_def declared_def by (auto split: option.splits json.splits dest!: sanitizeOpenURL_url_of dest: url_of_clean)

lemma branch_Inr: "(if b then x else y) = Inr a \<Longrightarrow> x = Inr a \<or> y = Inr a"
  by (simp split: if_splits)

lemma action_cases:
  assumes "action L env raw path = Inr a"
  shows "\<exists>m. rpc_action L env m path = Inr a \<or> prompt_action m path = Inr a \<or> command_action m path = Inr a
     \<or> openPanel_action L env m path = Inr a \<or> openUrl_action L m path = Inr a"
proof -
  obtain m where m: "(case map_of m ''kind'' of
       Some (JString kind) \<Rightarrow>
         if kind \<notin> set ActionKinds then fail (sub_path path ''kind'') (''unknown action kind '' @ vl_quote L kind)
         else if kind = ''rpc'' then rpc_action L env m path
         else if kind = ''prompt'' then prompt_action m path
         else if kind = ''command'' then command_action m path
         else if kind = ''openPanel'' then openPanel_action L env m path
         else openUrl_action L m path
     | _ \<Rightarrow> fail (sub_path path ''kind'') ''must be an action kind'') = Inr a"
    using assms unfolding action_def andThen_Inr by blast
  then obtain kind where "map_of m ''kind'' = Some (JString kind)" by (auto split: option.splits json.splits)
  with m have "(if kind \<notin> set ActionKinds then fail (sub_path path ''kind'') (''unknown action kind '' @ vl_quote L kind)
         else if kind = ''rpc'' then rpc_action L env m path
         else if kind = ''prompt'' then prompt_action m path
         else if kind = ''command'' then command_action m path
         else if kind = ''openPanel'' then openPanel_action L env m path
         else openUrl_action L m path) = Inr a" by (simp only: option.case json.case)
  then show ?thesis using branch_Inr fail_Inr by metis
qed

lemma action_ok: "action L env raw path = Inr a \<Longrightarrow> clean_hosts L \<Longrightarrow> declared L env a \<and> clean_fields a"
  by (drule action_cases) (metis rpc_action_ok openPanel_action_ok prompt_action_ok command_action_ok openUrl_action_ok)

section \<open>Fields of a node\<close>

definition action_within :: "view_lib \<Rightarrow> view_env \<Rightarrow> obj \<Rightarrow> bool" where
  "action_within L env m \<longleftrightarrow> (\<forall>a. (''action'', JObject a) \<in> set m \<longrightarrow> declared L env a)"

definition capped :: "string \<Rightarrow> json \<Rightarrow> bool" where
  "capped k v \<longleftrightarrow> (\<forall>xs. v = JArray xs \<longrightarrow> length xs \<le> (if k = ''columns'' then MaxColumns else if k = ''fields'' then MaxFormFields else MaxRows))"

definition field_ok :: "view_lib \<Rightarrow> view_env \<Rightarrow> string \<Rightarrow> json \<Rightarrow> bool" where
  "field_ok L env k v \<longleftrightarrow> k \<noteq> ''children'' \<and> clean_text k \<and> clean_json v \<and> capped k v
     \<and> (k = ''action'' \<longrightarrow> (\<forall>a. v = JObject a \<longrightarrow> declared L env a))
     \<and> (k = ''submit'' \<longrightarrow> (\<forall>m. v = JObject m \<longrightarrow> action_within L env m))
     \<and> (k = ''items'' \<longrightarrow> (\<forall>xs m. v = JArray xs \<longrightarrow> JObject m \<in> set xs \<longrightarrow> action_within L env m))"

definition fields_ok :: "view_lib \<Rightarrow> view_env \<Rightarrow> obj \<Rightarrow> bool" where
  "fields_ok L env fs \<longleftrightarrow> (\<forall>(k, v) \<in> set fs. field_ok L env k v)"

definition plain_key :: "string \<Rightarrow> bool" where
  "plain_key k \<longleftrightarrow> k \<notin> {''children'', ''action'', ''submit'', ''items''} \<and> clean_text k"

lemma fields_ok_simps [simp]: "fields_ok L env []" "fields_ok L env ((k, v) # fs) \<longleftrightarrow> field_ok L env k v \<and> fields_ok L env fs"
  "fields_ok L env (fs @ gs) \<longleftrightarrow> fields_ok L env fs \<and> fields_ok L env gs"
  by (auto simp: fields_ok_def)

lemma plain_field: "plain_key k \<Longrightarrow> clean_json v \<Longrightarrow> (\<And>xs. v \<noteq> JArray xs) \<Longrightarrow> field_ok L env k v"
  by (auto simp: field_ok_def plain_key_def capped_def)

lemma plain_array: "plain_key k \<Longrightarrow> clean_json (JArray xs) \<Longrightarrow> capped k (JArray xs) \<Longrightarrow> field_ok L env k (JArray xs)"
  by (auto simp: field_ok_def plain_key_def)

lemma plain_string: "plain_key k \<Longrightarrow> clean_text s \<Longrightarrow> field_ok L env k (JString s)"
  by (rule plain_field) auto

lemma plain_bool: "plain_key k \<Longrightarrow> field_ok L env k (JBool b)"
  by (rule plain_field) auto

lemma string_field_ok: "string_field m path k = Inr fs \<Longrightarrow> plain_key k \<Longrightarrow> fields_ok L env fs"
  by (auto simp: string_field_def intro!: plain_string dest: getString_clean)

lemma opt_string_ok: "opt_string m path k = Inr fs \<Longrightarrow> plain_key k \<Longrightarrow> fields_ok L env fs"
  by (auto simp: opt_string_def present_def text_of_def intro!: plain_string dest!: getString_clean split: option.splits)

lemma opt_bool_ok: "opt_bool m path k = Inr fs \<Longrightarrow> plain_key k \<Longrightarrow> fields_ok L env fs"
proof -
  assume "opt_bool m path k = Inr fs" and k: "plain_key k"
  then obtain v where "fs = present k JBool v" by (auto simp: opt_bool_def)
  then show "fields_ok L env fs" using plain_bool [OF k] by (cases v) (simp_all add: present_def)
qed

lemma opt_enum_ok: "opt_enum vals msg m path k = Inr fs \<Longrightarrow> plain_key k \<Longrightarrow> list_all clean_text vals \<Longrightarrow> fields_ok L env fs"
  by (auto simp: opt_enum_def list_all_iff intro!: plain_string split: option.splits json.splits)

lemma opt_string_such_ok: "opt_string_such ok msg m path k = Inr fs \<Longrightarrow> plain_key k \<Longrightarrow> fields_ok L env fs"
  by (auto simp: opt_string_such_def text_of_def intro!: plain_string dest!: getString_clean split: option.splits)

lemma opt_raw_Inr: "opt_raw check m path k = Inr fs \<Longrightarrow> fs = [] \<or> (\<exists>raw u. fs = [(k, raw)] \<and> map_of m k = Some raw \<and> check raw (sub_path path k) = Inr u)"
  by (auto simp: opt_raw_def split: option.splits)

lemma validateTone_scalar: "validateTone raw path = Inr u \<Longrightarrow> raw \<noteq> JArray xs"
  by (auto simp: validateTone_def)

lemma validateIcon_scalar: "validateIcon L raw path = Inr u \<Longrightarrow> raw \<noteq> JArray xs"
  by (auto simp: validateIcon_def)

lemma opt_tone_ok: "opt_raw validateTone m path k = Inr fs \<Longrightarrow> plain_key k \<Longrightarrow> fields_ok L env fs"
  by (auto dest!: opt_raw_Inr intro!: plain_field dest: validateTone_clean validateTone_scalar)

lemma opt_icon_ok: "opt_raw (validateIcon L) m path k = Inr fs \<Longrightarrow> wf_json (JObject m) \<Longrightarrow> plain_key k \<Longrightarrow> fields_ok L env fs"
proof -
  assume "opt_raw (validateIcon L) m path k = Inr fs" and wf: "wf_json (JObject m)" and k: "plain_key k"
  from opt_raw_Inr [OF this(1)] show "fields_ok L env fs"
  proof (elim disjE exE conjE)
    fix raw u assume r: "fs = [(k, raw)]" "map_of m k = Some raw" "validateIcon L raw (sub_path path k) = Inr u"
    show ?thesis using plain_field [OF k validateIcon_clean [OF r(3) wf_field [OF wf r(2)]] validateIcon_scalar [OF r(3)]] r(1) by simp
  qed simp
qed

lemma opt_action_ok:
  assumes "opt_action L env m path = Inr fs" "clean_hosts L"
  shows "fields_ok L env fs"
proof -
  have "clean_text ''action''" by code_simp
  then show ?thesis using assms by (auto simp: opt_action_def field_ok_def capped_def split: option.splits dest: action_ok)
qed

lemma collect_ok: "collect ss = Inr out \<Longrightarrow> (\<And>s fs. s \<in> set ss \<Longrightarrow> s = Inr fs \<Longrightarrow> fields_ok L env fs) \<Longrightarrow> fields_ok L env out"
  by (induction ss arbitrary: out) auto

lemma fields_ok_clean: "fields_ok L env fs \<Longrightarrow> clean_fields fs"
  unfolding fields_ok_def field_ok_def clean_fields_iff by blast

lemma fields_ok_action: "fields_ok L env fs \<Longrightarrow> action_within L env fs"
  unfolding action_within_def
proof (intro allI impI)
  fix a assume "fields_ok L env fs" "(''action'', JObject a) \<in> set fs"
  then have "field_ok L env ''action'' (JObject a)" unfolding fields_ok_def by blast
  then show "declared L env a" by (simp add: field_ok_def)
qed

text \<open>A loop whose every step gives an object of such fields.\<close>

lemma each_ok:
  assumes "each f i s xs = Inr (ys, s')" "\<And>j t x y t'. x \<in> set xs \<Longrightarrow> f j t x = Inr (y, t') \<Longrightarrow> \<exists>fs. y = JObject fs \<and> fields_ok L env fs"
  shows "length ys = length xs" "clean_json (JArray ys)" "JObject m \<in> set ys \<Longrightarrow> action_within L env m"
proof -
  have "length ys = length xs \<and> (\<forall>y \<in> set ys. \<exists>fs. y = JObject fs \<and> fields_ok L env fs)"
    using assms
  proof (induction xs arbitrary: i s ys s')
    case (Cons x xs)
    then obtain y t ys' where step: "f i s x = Inr (y, t)" "each f (i + 1) t xs = Inr (ys', s')" "ys = y # ys'"
      by (auto split: prod.splits)
    have "length ys' = length xs \<and> (\<forall>y \<in> set ys'. \<exists>fs. y = JObject fs \<and> fields_ok L env fs)"
      using Cons.IH [OF step(2)] Cons.prems(2) by (meson list.set_intros(2))
    then show ?case using Cons.prems(2) [OF _ step(1)] step(3) by simp
  qed simp
  then show "length ys = length xs" "clean_json (JArray ys)" "JObject m \<in> set ys \<Longrightarrow> action_within L env m"
    by (simp_all add: clean_items_iff) (metis clean_json.simps(2) fields_ok_clean, metis fields_ok_action json.inject(5))
qed

section \<open>The node types\<close>

lemma plain_keys [simp]: "plain_key ''text''" "plain_key ''level''" "plain_key ''tone''" "plain_key ''size''" "plain_key ''key''" "plain_key ''value''" "plain_key ''title''"
  "plain_key ''subtitle''" "plain_key ''badge''" "plain_key ''icon''" "plain_key ''label''" "plain_key ''align''" "plain_key ''columns''" "plain_key ''rows''"
  "plain_key ''language''" "plain_key ''disabled''" "plain_key ''placeholder''" "plain_key ''required''" "plain_key ''options''" "plain_key ''default''"
  "plain_key ''name''" "plain_key ''type''" "plain_key ''id''" "plain_key ''fields''" "plain_key ''gap''" "plain_key ''wrap''"
  by code_simp+

lemmas field_oks = string_field_ok opt_string_ok opt_bool_ok opt_enum_ok opt_string_such_ok opt_tone_ok opt_icon_ok opt_action_ok

lemma heading_ok: "heading_fields m path = Inr fs \<Longrightarrow> fields_ok L env fs"
  by (auto simp: heading_fields_def intro!: plain_field split: option.splits) (erule field_oks; simp)+

lemma textLike_ok: "textLike m path extras = Inr fs \<Longrightarrow> fields_ok L env fs"
  by (auto simp: textLike_def) (erule field_oks; simp add: vocabulary_clean)+

lemma markdown_ok: "markdown_fields m path = Inr fs \<Longrightarrow> fields_ok L env fs"
  by (auto simp: markdown_fields_def intro!: plain_string SanitizeMarkdown_clean dest: getString_clean)

lemma keyValue_item_ok: "keyValue_item path i s raw = Inr (y, t) \<Longrightarrow> \<exists>fs. y = JObject fs \<and> fields_ok L env fs"
  by (auto simp: keyValue_item_def Let_def) (erule field_oks; simp)+

lemma as_object_Inr [simp]: "as_object v path msg = Inr m \<longleftrightarrow> v = JObject m"
  by (cases v) (auto simp: as_object_def)

lemma list_item_ok: "list_item L env path i s raw = Inr (y, t) \<Longrightarrow> clean_hosts L \<Longrightarrow> wf_json raw \<Longrightarrow> \<exists>fs. y = JObject fs \<and> fields_ok L env fs"
  by (auto simp: list_item_def Let_def simp del: wf_json.simps) (erule field_oks; simp del: wf_json.simps)+

lemma arrayField_Inr: "arrayField m k path mx = Inr xs \<Longrightarrow> map_of m k = Some (JArray xs) \<and> length xs \<le> mx"
  by (auto simp: arrayField_def split: option.splits json.splits if_splits)

lemma wf_array: "wf_json (JObject m) \<Longrightarrow> map_of m k = Some (JArray xs) \<Longrightarrow> x \<in> set xs \<Longrightarrow> wf_json x"
  using wf_field [of m k "JArray xs"] by (simp add: wf_items_iff del: wf_json.simps(1))

text \<open>A list of items that are objects of such fields.\<close>

lemma items_ok:
  assumes "each f i s xs = Inr (ys, s')" "\<And>j t x y t'. x \<in> set xs \<Longrightarrow> f j t x = Inr (y, t') \<Longrightarrow> \<exists>fs. y = JObject fs \<and> fields_ok L env fs" "length xs \<le> MaxRows"
  shows "field_ok L env ''items'' (JArray ys)"
proof -
  have "clean_text ''items''" by code_simp
  then show ?thesis using each_ok [OF assms(1,2)] assms(3) by (simp add: field_ok_def capped_def)
qed

lemma array_ok:
  assumes "each f i s xs = Inr (ys, s')" "\<And>j t x y t'. x \<in> set xs \<Longrightarrow> f j t x = Inr (y, t') \<Longrightarrow> \<exists>fs. y = JObject fs \<and> fields_ok L env fs" "plain_key k"
    "capped k (JArray xs)"
  shows "field_ok L env k (JArray ys)"
  using plain_array [OF assms(3)] each_ok [OF assms(1,2)] assms(4) by (simp add: capped_def)

lemma keyValue_ok: "keyValue_fields m path = Inr fs \<Longrightarrow> fields_ok L env fs"
  by (auto simp: keyValue_fields_def dest!: arrayField_Inr intro!: items_ok intro: keyValue_item_ok)

lemma list_ok:
  assumes "list_fields L env m path = Inr fs" "clean_hosts L" "wf_json (JObject m)"
  shows "fields_ok L env fs"
  using assms wf_array [OF assms(3)] list_item_ok
  by (auto simp: list_fields_def simp del: wf_json.simps dest!: arrayField_Inr intro!: items_ok)

lemma each_clean:
  assumes "each f i s xs = Inr (ys, s')" "\<And>j t x y t'. f j t x = Inr (y, t') \<Longrightarrow> I t \<Longrightarrow> clean_json y \<and> I t'" "I s"
  shows "length ys = length xs \<and> clean_json (JArray ys) \<and> I s'"
  using assms(1,3)
proof (induction xs arbitrary: i s ys s')
  case (Cons x xs)
  then obtain y t ys' where step: "f i s x = Inr (y, t)" "each f (i + 1) t xs = Inr (ys', s')" "ys = y # ys'"
    by (auto split: prod.splits)
  then show ?case using Cons.IH [OF step(2)] assms(2) [OF step(1) Cons.prems(2)] by simp
qed simp

lemma table_column_ok:
  assumes "table_column path i keys raw = Inr (y, keys')" "list_all clean_text keys"
  shows "clean_json y \<and> list_all clean_text keys'"
proof -
  from assms(1) obtain col key label align where parts: "getString col ''key'' (sub_path (item_path path ''columns'' i) ''key'') = Inr key"
      "string_field col (item_path path ''columns'' i) ''label'' = Inr label"
      "opt_enum alignSet ''must be one of start, end'' col (item_path path ''columns'' i) ''align'' = Inr align"
    and out: "y = JObject ([(''key'', JString (text_of key))] @ label @ align)" "keys' = text_of key # keys"
    unfolding table_column_def Let_def andThen_Inr by auto
  have "fields_ok undefined undefined (label @ align)" using string_field_ok [OF parts(2)] opt_enum_ok [OF parts(3)] vocabulary_clean(3) by simp
  then have "clean_fields (label @ align)" by (rule fields_ok_clean)
  moreover have "clean_text ''key''" by code_simp
  ultimately show ?thesis using getString_clean [OF parts(1)] out assms(2) by simp
qed

lemma table_cells_ok: "table_cells keys p m = Inr out \<Longrightarrow> list_all clean_text keys \<Longrightarrow> clean_fields out"
proof (induction keys p m arbitrary: out rule: table_cells.induct)
  case (2 keys p k cell rest)
  then show ?case by (cases cell) (auto simp: list_all_iff dest: checkString_clean)
qed simp

lemma table_row_ok: "table_row keys path i s raw = Inr (y, t) \<Longrightarrow> list_all clean_text keys \<Longrightarrow> clean_json y"
  by (auto simp: table_row_def Let_def dest: table_cells_ok)

lemma table_ok:
  assumes "table m path = Inr fs"
  shows "fields_ok L env fs"
proof -
  from assms obtain columns normCols keys rows normRows where cols: "arrayField m ''columns'' path MaxColumns = Inr columns" "each (table_column path) 0 [] columns = Inr (normCols, keys)"
    and rows: "arrayField m ''rows'' path MaxRows = Inr rows" "each (table_row keys path) 0 () rows = Inr (normRows, ())"
    and fs: "fs = [(''columns'', JArray normCols), (''rows'', JArray normRows)]"
    unfolding table_def andThen_Inr by auto
  have c: "length normCols = length columns \<and> clean_json (JArray normCols) \<and> list_all clean_text keys"
    using each_clean [OF cols(2), of "list_all clean_text"] table_column_ok by simp
  have r: "length normRows = length rows \<and> clean_json (JArray normRows)"
    using each_clean [OF rows(2), of "\<lambda>_. True"] table_row_ok c by simp
  have "capped ''columns'' (JArray normCols)" "capped ''rows'' (JArray normRows)"
    using c r arrayField_Inr [OF cols(1)] arrayField_Inr [OF rows(1)] by (simp_all add: capped_def)
  then show ?thesis using c r plain_array fs by simp
qed

lemma badge_ok: "badge_fields L m path = Inr fs \<Longrightarrow> wf_json (JObject m) \<Longrightarrow> fields_ok L env fs"
  by (auto simp: badge_fields_def simp del: wf_json.simps) (erule field_oks; simp del: wf_json.simps)+

lemma progress_ok: "progress_fields L m path = Inr fs \<Longrightarrow> fields_ok L env fs"
  by (auto simp: progress_fields_def intro!: plain_field split: option.splits json.splits) (erule field_oks; simp)+

lemma code_ok: "code_fields m path = Inr fs \<Longrightarrow> fields_ok L env fs"
  by (auto simp: code_fields_def) (erule field_oks; simp)+

lemma diff_ok: "diff_fields m path = Inr fs \<Longrightarrow> fields_ok L env fs"
  by (auto simp: diff_fields_def) (erule field_oks; simp)+

lemma button_ok: "button_fields L env m path = Inr fs \<Longrightarrow> clean_hosts L \<Longrightarrow> wf_json (JObject m) \<Longrightarrow> fields_ok L env fs"
  by (auto simp: button_fields_def simp del: wf_json.simps) (erule field_oks; simp del: wf_json.simps)+

lemma titleText_ok: "titleText m path = Inr fs \<Longrightarrow> fields_ok L env fs"
  by (auto simp: titleText_def) (erule field_oks; simp)+

lemma empty_ok: "empty_fields L m path = Inr fs \<Longrightarrow> wf_json (JObject m) \<Longrightarrow> fields_ok L env fs"
  by (auto simp: empty_fields_def simp del: wf_json.simps) (erule titleText_ok field_oks; simp del: wf_json.simps)+

lemma error_ok: "error_fields m path = Inr fs \<Longrightarrow> fields_ok L env fs"
  by (auto simp: error_fields_def intro: titleText_ok)

lemma container_ok: "container_extras typ m path = Inr fs \<Longrightarrow> fields_ok L env fs"
  by (cases "typ = ''row''") (auto simp: container_extras_def opt_string_such_ok opt_bool_ok)

lemma is_alnum_clean: "is_alnum c \<Longrightarrow> \<not> control_byte c" "is_letter c \<Longrightarrow> \<not> control_byte c"
  by (auto simp: is_alnum_def is_letter_def byte_in_def is_digit_char_def control_byte_def Let_def)

lemma name_re_clean:
  assumes "name_re f g n s" "\<And>c. f c \<or> g c \<Longrightarrow> \<not> control_byte c"
  shows "clean_text s"
  using assms by (cases s) (auto simp: name_re_def clean_text_def list_all_iff)

lemma nodeIDRe_clean: "nodeIDRe s \<Longrightarrow> clean_text s"
  unfolding nodeIDRe_def by (erule name_re_clean) (auto simp: is_alnum_clean, auto simp: control_byte_def)

lemma fieldNameRe_clean: "fieldNameRe s \<Longrightarrow> clean_text s"
  unfolding fieldNameRe_def by (erule name_re_clean) (auto simp: is_alnum_clean, auto simp: control_byte_def)

lemma named_string_Inr: "named_string ok m k path msg = Inr s \<Longrightarrow> ok s"
  by (auto simp: named_string_def split: option.splits json.splits)

lemma option_item_ok: "option_item p j s oraw = Inr (y, t) \<Longrightarrow> \<exists>fs. y = JObject fs \<and> fields_ok L env fs"
  by (auto simp: option_item_def Let_def) (erule field_oks; simp)+

lemma options_field_ok:
  assumes "options_field typ f p = Inr fs"
  shows "fields_ok L env fs"
proof (cases "map_of f ''options''")
  case (Some raw)
  then obtain opts normOpts where o: "raw = JArray opts" "length opts \<le> 64" "each (option_item p) 0 () opts = Inr (normOpts, ())" "fs = [(''options'', JArray normOpts)]"
    using assms by (cases raw) (auto simp: options_field_def split: if_splits)
  show ?thesis using array_ok [where k = "''options''" and L = L and env = env, OF o(3) option_item_ok] o by (simp add: capped_def MaxRows_def)
qed (use assms in \<open>auto simp: options_field_def split: if_splits\<close>)

lemma default_field_ok: "default_field typ f p = Inr fs \<Longrightarrow> fields_ok L env fs"
  by (auto simp: default_field_def intro!: plain_string plain_bool split: option.splits if_splits json.splits dest: checkString_clean)

lemma form_field_ok:
  assumes "form_field path i names raw = Inr (y, t)"
  shows "\<exists>fs. y = JObject fs \<and> fields_ok L env fs"
proof -
  let ?p = "item_path path ''fields'' i"
  from assms obtain f name ty norm where n: "named_string fieldNameRe f ''name'' (sub_path ?p ''name'') ''must match [A-Za-z][A-Za-z0-9_]{0,39}'' = Inr name"
    and t: "named_string (\<lambda>t. t \<in> set fieldTypeSet) f ''type'' (sub_path ?p ''type'') ''must be one of text, select, toggle, secret'' = Inr ty"
    and c: "collect [Inr [(''name'', JString name), (''type'', JString ty)], string_field f ?p ''label'', opt_string f ?p ''placeholder'', opt_bool f ?p ''required'',
       options_field ty f ?p, default_field ty f ?p] = Inr norm" and y: "y = JObject norm"
    unfolding form_field_def Let_def andThen_Inr by auto
  have "clean_text name" using fieldNameRe_clean [OF named_string_Inr [OF n]] .
  moreover have "clean_text ty" using named_string_Inr [OF t] vocabulary_clean(5) by (simp add: list_all_iff)
  ultimately have "fields_ok L env norm" using c
    by (auto simp: plain_string options_field_ok default_field_ok) (erule field_oks; simp)+
  then show ?thesis using y by blast
qed

lemma form_submit_ok:
  assumes "form_submit L env m path = Inr v" "clean_hosts L"
  shows "field_ok L env ''submit'' v"
proof -
  obtain submit label act where s: "string_field submit (sub_path path ''submit'') ''label'' = Inr label" "v = JObject (label @ [(''action'', JObject act)])"
    "action L env (the (map_of submit ''action'')) (sub_path (sub_path path ''submit'') ''action'') = Inr act"
    using assms(1) unfolding form_submit_def Let_def andThen_Inr by auto
  have key: "clean_text ''submit''" "clean_text ''action''" by code_simp+
  have l: "fields_ok L env label" using string_field_ok [OF s(1)] by simp
  have all: "fields_ok L env (label @ [(''action'', JObject act)])"
    using l key(2) action_ok [OF s(3) assms(2)] by (simp add: field_ok_def capped_def)
  show ?thesis using s(2) key(1) fields_ok_clean [OF all] fields_ok_action [OF all] by (simp add: field_ok_def capped_def)
qed

lemma form_ok:
  assumes "form L env m path = Inr fs" "clean_hosts L"
  shows "fields_ok L env fs"
proof -
  obtain i flds norm names submit where f: "named_string nodeIDRe m ''id'' (sub_path path ''id'') ''must match [A-Za-z0-9._-] and be 1 to 64 characters'' = Inr i"
    "arrayField m ''fields'' path MaxFormFields = Inr flds" "each (form_field path) 0 [] flds = Inr (norm, names)" "form_submit L env m path = Inr submit"
    "fs = [(''id'', JString i), (''fields'', JArray norm), (''submit'', submit)]"
    using assms(1) unfolding form_def andThen_Inr by auto
  have "field_ok L env ''fields'' (JArray norm)"
    using array_ok [where k = "''fields''" and L = L and env = env, OF f(3) form_field_ok] arrayField_Inr [OF f(2)] by (simp add: capped_def)
  then show ?thesis using f(5) form_submit_ok [OF f(4) assms(2)] plain_string [of "''id''" i] nodeIDRe_clean [OF named_string_Inr [OF f(1)]] by simp
qed

lemma leaf_ok:
  assumes "leaf_fields L env m typ path = Inr fs" "clean_hosts L" "wf_json (JObject m)"
  shows "fields_ok L env fs"
proof -
  have "heading_fields m path = Inr fs \<or> textLike m path [''tone'', ''size''] = Inr fs \<or> markdown_fields m path = Inr fs \<or> keyValue_fields m path = Inr fs
      \<or> list_fields L env m path = Inr fs \<or> table m path = Inr fs \<or> badge_fields L m path = Inr fs \<or> progress_fields L m path = Inr fs \<or> code_fields m path = Inr fs
      \<or> diff_fields m path = Inr fs \<or> form L env m path = Inr fs \<or> button_fields L env m path = Inr fs \<or> empty_fields L m path = Inr fs \<or> error_fields m path = Inr fs"
    using assms(1) unfolding leaf_fields_def by (auto dest!: branch_Inr)
  then show ?thesis
    using assms(2,3) by (elim disjE) (simp_all only: heading_ok textLike_ok markdown_ok keyValue_ok list_ok table_ok badge_ok progress_ok code_ok diff_ok form_ok button_ok empty_ok error_ok)
qed

section \<open>The nodes of a view\<close>

inductive view_node :: "json \<Rightarrow> obj \<Rightarrow> bool" where
  itself: "view_node (JObject m) m"
| below: "(''children'', JArray cs) \<in> set m \<Longrightarrow> c \<in> set cs \<Longrightarrow> view_node c nd \<Longrightarrow> view_node (JObject m) nd"

inductive_cases view_nodeE: "view_node (JObject m) nd"

fun view_nodes :: "json \<Rightarrow> nat"
and field_nodes :: "obj \<Rightarrow> nat"
and item_nodes :: "json list \<Rightarrow> nat" where
  "view_nodes (JObject m) = Suc (field_nodes m)"
| "view_nodes _ = 0"
| "field_nodes [] = 0"
| "field_nodes ((k, v) # m) = (case v of JArray cs \<Rightarrow> if k = ''children'' then item_nodes cs else 0 | _ \<Rightarrow> 0) + field_nodes m"
| "item_nodes [] = 0"
| "item_nodes (x # xs) = view_nodes x + item_nodes xs"

fun view_depth :: "json \<Rightarrow> nat"
and field_depth :: "obj \<Rightarrow> nat"
and item_depth :: "json list \<Rightarrow> nat" where
  "view_depth (JObject m) = Suc (field_depth m)"
| "view_depth _ = 0"
| "field_depth [] = 0"
| "field_depth ((k, v) # m) = max (case v of JArray cs \<Rightarrow> if k = ''children'' then item_depth cs else 0 | _ \<Rightarrow> 0) (field_depth m)"
| "item_depth [] = 0"
| "item_depth (x # xs) = max (view_depth x) (item_depth xs)"

lemma field_append [simp]: "field_nodes (fs @ gs) = field_nodes fs + field_nodes gs" "field_depth (fs @ gs) = max (field_depth fs) (field_depth gs)"
  by (induction fs) (auto split: json.splits)

lemma no_children:
  assumes "''children'' \<notin> fst ` set fs"
  shows "field_nodes fs = 0" "field_depth fs = 0"
  using assms by (induction fs) (auto split: json.splits)

definition node_fields_ok :: "view_lib \<Rightarrow> view_env \<Rightarrow> obj \<Rightarrow> bool" where
  "node_fields_ok L env nd \<longleftrightarrow> (\<forall>(k, v) \<in> set nd. k \<noteq> ''children'' \<longrightarrow> field_ok L env k v)"

definition view_ok :: "view_lib \<Rightarrow> view_env \<Rightarrow> json \<Rightarrow> bool" where
  "view_ok L env v \<longleftrightarrow> clean_json v \<and> (\<forall>nd. view_node v nd \<longrightarrow> node_fields_ok L env nd)"

lemma fields_ok_no_children: "fields_ok L env fs \<Longrightarrow> ''children'' \<notin> fst ` set fs"
  unfolding fields_ok_def field_ok_def by force

lemma leaf_view_ok:
  assumes "fields_ok L env fs"
  shows "view_ok L env (JObject fs) \<and> view_nodes (JObject fs) = 1 \<and> view_depth (JObject fs) = 1"
proof -
  have "nd = fs" if "view_node (JObject fs) nd" for nd
    using that fields_ok_no_children [OF assms] by (elim view_nodeE) force+
  moreover have "node_fields_ok L env fs" using assms unfolding fields_ok_def node_fields_ok_def by blast
  ultimately show ?thesis
    using fields_ok_clean [OF assms] no_children [OF fields_ok_no_children [OF assms]] by (auto simp: view_ok_def)
qed

lemma container_view_ok:
  assumes "fields_ok L env hs" "fields_ok L env ex" "\<And>c. c \<in> set cs \<Longrightarrow> view_ok L env c"
  defines "m \<equiv> hs @ (''children'', JArray cs) # ex"
  shows "view_ok L env (JObject m) \<and> view_nodes (JObject m) = Suc (item_nodes cs) \<and> view_depth (JObject m) = Suc (item_depth cs)"
proof -
  note none = fields_ok_no_children [OF assms(1)] fields_ok_no_children [OF assms(2)]
  have child: "xs = cs" if "(''children'', JArray xs) \<in> set m" for xs using that none by (force simp: m_def)
  have "node_fields_ok L env m" using assms(1,2) unfolding m_def fields_ok_def node_fields_ok_def by auto
  then have nodes: "node_fields_ok L env nd" if "view_node (JObject m) nd" for nd
    using that assms(3) child by (elim view_nodeE) (auto simp: view_ok_def)
  have "clean_text ''children''" by code_simp
  then have "clean_fields m"
    using fields_ok_clean [OF assms(1)] fields_ok_clean [OF assms(2)] assms(3) by (auto simp: m_def clean_fields_iff clean_items_iff view_ok_def)
  moreover have "field_nodes m = item_nodes cs" "field_depth m = item_depth cs"
    using no_children [OF none(1)] no_children [OF none(2)] by (simp_all add: m_def)
  ultimately show ?thesis using nodes by (simp add: view_ok_def)
qed

lemma head_ok:
  assumes "node_type L m path = Inr ty" "node_id m path = Inr i"
  shows "fields_ok L env (filter P ((''type'', JString ty) # i))"
proof -
  have "clean_text ty" using assms(1) vocabulary_clean(6) by (auto simp: node_type_def list_all_iff split: option.splits json.splits)
  moreover have "fields_ok L env i"
    using assms(2) by (auto simp: node_id_def intro!: plain_string split: option.splits dest!: named_string_Inr nodeIDRe_clean)
  ultimately have "fields_ok L env ((''type'', JString ty) # i)" by (simp add: plain_string)
  then show ?thesis by (auto simp: fields_ok_def)
qed

text \<open>What the validator tells apart at a node.\<close>

lemma node_cases:
  assumes "validate_node L env val path depth nodes = Inr (out, nodes')"
  obtains (container) m ty i arr cs ex where "val = JObject m" "depth \<le> MaxDepth" "nodes + 1 \<le> MaxNodes_view" "node_type L m path = Inr ty" "node_id m path = Inr i"
      "map_of m ''children'' = Some (JArray arr)" "validate_children L env arr path 0 depth (nodes + 1) = Inr (cs, nodes')" "container_extras ty m path = Inr ex"
      "out = put_fields ((''type'', JString ty) # i) ((''children'', JArray cs) # ex)"
    | (leaf) m ty i fs where "val = JObject m" "depth \<le> MaxDepth" "nodes + 1 \<le> MaxNodes_view" "node_type L m path = Inr ty" "node_id m path = Inr i"
      "leaf_fields L env m ty path = Inr fs" "nodes' = nodes + 1" "out = put_fields ((''type'', JString ty) # i) fs"
proof -
  let ?kids = "\<lambda>m ty i. andThen (shape m path [''type'', ''id'', ''children'', ''gap'', ''wrap''] [''children'']) (\<lambda>_.
          case map_of m ''children'' of
            Some (JArray arr) \<Rightarrow> andThen (validate_children L env arr path 0 depth (nodes + 1)) (\<lambda>(cs, nodes').
              andThen (container_extras ty m path) (\<lambda>ex. Inr (put_fields ((''type'', JString ty) # i) ((''children'', JArray cs) # ex), nodes')))
          | _ \<Rightarrow> fail (sub_path path ''children'') ''must be an array of nodes'')"
  have bounds: "depth \<le> MaxDepth" "nodes + 1 \<le> MaxNodes_view"
    using assms by (auto simp: validate_node.simps [of L env val path depth nodes] simp del: andThen_Inr split: if_splits)
  then obtain m ty i where m: "val = JObject m" "node_type L m path = Inr ty" "node_id m path = Inr i"
    and rest: "(if ty = ''stack'' \<or> ty = ''row'' then ?kids m ty i
      else andThen (leaf_fields L env m ty path) (\<lambda>fs. Inr (put_fields ((''type'', JString ty) # i) fs, nodes + 1))) = Inr (out, nodes')"
    using assms unfolding validate_node.simps [of L env val path depth nodes] by (simp only: not_less [symmetric] if_False andThen_Inr as_object_Inr) blast
  from branch_Inr [OF rest] show ?thesis
  proof
    assume "?kids m ty i = Inr (out, nodes')"
    then show ?thesis using container [OF m(1) bounds m(2,3)] by (auto split: option.splits json.splits prod.splits)
  next
    assume "andThen (leaf_fields L env m ty path) (\<lambda>fs. Inr (put_fields ((''type'', JString ty) # i) fs, nodes + 1)) = Inr (out, nodes')"
    then show ?thesis using leaf [OF m(1) bounds m(2,3)] by auto
  qed
qed

definition within_caps :: "nat \<Rightarrow> nat \<Rightarrow> obj \<Rightarrow> nat \<Rightarrow> bool" where
  "within_caps depth n out n' \<longleftrightarrow> n' = n + view_nodes (JObject out) \<and> n' \<le> MaxNodes_view \<and> depth + view_depth (JObject out) \<le> Suc MaxDepth"

lemma children_view:
  assumes node: "\<And>val path n out n'. validate_node L env val path (Suc depth) n = Inr (out, n') \<Longrightarrow> wf_json val
      \<Longrightarrow> view_ok L env (JObject out) \<and> within_caps (Suc depth) n out n'"
    and "validate_children L env xs path i depth n = Inr (ys, n')" "wf_items xs" "n \<le> MaxNodes_view" "depth \<le> MaxDepth"
  shows "(\<forall>y \<in> set ys. view_ok L env y) \<and> n' = n + item_nodes ys \<and> n' \<le> MaxNodes_view \<and> depth + item_depth ys \<le> MaxDepth"
  using assms(2-)
proof (induction xs arbitrary: i n ys n')
  case (Cons x xs)
  then obtain out n1 ys' where step: "validate_node L env x (item_path path ''children'' i) (Suc depth) n = Inr (out, n1)"
    "validate_children L env xs path (i + 1) depth n1 = Inr (ys', n')" "ys = JObject out # ys'"
    by (auto split: prod.splits)
  have v: "view_ok L env (JObject out)" "within_caps (Suc depth) n out n1" using node [OF step(1)] Cons.prems(2) by auto
  then have "n1 \<le> MaxNodes_view" by (simp add: within_caps_def)
  from Cons.IH [OF step(2) _ this Cons.prems(4)] Cons.prems(2) show ?case using v step(3) by (auto simp: within_caps_def)
qed simp

lemma node_view:
  assumes "validate_node L env val path depth n = Inr (out, n')" "clean_hosts L" "wf_json val"
  shows "view_ok L env (JObject out) \<and> within_caps depth n out n'"
  using assms
proof (induction "Suc MaxDepth - depth" arbitrary: val path depth n out n' rule: less_induct)
  case less
  from less.prems(1) show ?case
  proof (cases rule: node_cases)
    case (container m ty i arr cs ex)
    have node: "view_ok L env (JObject out) \<and> within_caps (Suc depth) n out n'"
      if "validate_node L env val path (Suc depth) n = Inr (out, n')" "wf_json val" for val path n out n'
      using less.hyps [OF _ that(1) less.prems(2) that(2)] container(2) by simp
    have "wf_items arr" using wf_field [of m "''children''" "JArray arr"] container(1,6) less.prems(3) by simp
    then have "(\<forall>y \<in> set cs. view_ok L env y) \<and> n' = n + 1 + item_nodes cs \<and> n' \<le> MaxNodes_view \<and> depth + item_depth cs \<le> MaxDepth"
      by (intro children_view [OF _ container(7) _ container(3,2)]) (rule node)
    then have cs: "\<And>c. c \<in> set cs \<Longrightarrow> view_ok L env c" "n' = n + 1 + item_nodes cs" "n' \<le> MaxNodes_view" "depth + item_depth cs \<le> MaxDepth" by auto
    show ?thesis
      using container_view_ok [OF head_ok [OF container(4,5)] container_ok [OF container(8)] cs(1)] cs(2-) container(9)
      by (simp add: put_fields_def within_caps_def del: view_nodes.simps view_depth.simps filter.simps)
  next
    case (leaf m ty i fs)
    have "fields_ok L env (put_fields ((''type'', JString ty) # i) fs)"
      using head_ok [OF leaf(4,5)] leaf_ok [OF leaf(6) less.prems(2)] less.prems(3) leaf(1) by (simp add: put_fields_def del: filter.simps)
    from leaf_view_ok [OF this] show ?thesis using leaf(2,3,7,8) by (simp add: within_caps_def del: view_nodes.simps view_depth.simps)
  qed
qed

section \<open>Documents\<close>

text \<open>What one field of a document becomes.\<close>

lemma top_field_cases:
  assumes "top_fields L env ((k, val) # rest) = Inr out"
  obtains (scalar) kv b where "out = kv # b" "top_fields L env rest = Inr b" "fst kv \<noteq> ''root''" "clean_fields [kv]"
    | (root) nd n b where "k = ''root''" "out = (''root'', JObject nd) # b" "top_fields L env rest = Inr b" "validate_node L env val ''$.root'' 1 0 = Inr (nd, n)"
proof -
  have key: "clean_text ''ui''" "clean_text ''title''" by code_simp+
  from assms obtain a b where ab: "out = a @ b" "top_fields L env rest = Inr b"
    and a: "(if k = ''ui'' then andThen (ensure (val = JNumber ''1'') ''$.ui'' ''must be 1'') (\<lambda>_. Inr [(''ui'', JNumber ''1'')])
        else if k = ''title'' then (case val of
          JString s \<Rightarrow> andThen (checkString s ''$.title'') (\<lambda>_. andThen (ensure (RuneCount s \<le> 120) ''$.title'' ''exceeds 120 characters'') (\<lambda>_. Inr [(''title'', JString s)]))
        | _ \<Rightarrow> fail ''$.title'' ''must be a string'')
        else if k = ''root'' then andThen (validate_node L env val ''$.root'' 1 0) (\<lambda>(n, _). Inr [(''root'', JObject n)])
        else fail (''$.'' @ k) ''unknown field'') = Inr a"
    unfolding top_fields.simps andThen_Inr by blast
  show ?thesis
  proof (cases "k = ''root''")
    case True
    then have "andThen (validate_node L env val ''$.root'' 1 0) (\<lambda>(n, _). Inr [(''root'', JObject n)]) = Inr a" using a by simp
    then show ?thesis using root [OF True] ab by (auto split: prod.splits)
  next
    case False
    then have "\<exists>kv. a = [kv] \<and> fst kv \<noteq> ''root'' \<and> clean_fields [kv]"
      using a key by (auto split: if_splits json.splits dest: checkString_clean)
    then show ?thesis using scalar ab by auto
  qed
qed

lemma top_fields_view:
  assumes "top_fields L env doc = Inr out" "clean_hosts L" "wf_fields doc"
  shows "clean_fields out \<and> (\<forall>v. map_of out ''root'' = Some v \<longrightarrow> view_ok L env v \<and> view_nodes v \<le> MaxNodes_view \<and> view_depth v \<le> MaxDepth)"
  using assms
proof (induction doc arbitrary: out)
  case (Cons kv doc)
  obtain k val where kv: "kv = (k, val)" by fastforce
  show ?case
  proof (cases rule: top_field_cases [OF Cons.prems(1) [unfolded kv]])
    case (1 x b)
    then show ?thesis using Cons.IH [OF 1(2) Cons.prems(2)] Cons.prems(3) kv by (cases x) auto
  next
    case (2 nd n b)
    have "clean_text ''root''" by code_simp
    moreover have "view_ok L env (JObject nd) \<and> within_caps 1 0 nd n" using node_view [OF 2(4) Cons.prems(2)] Cons.prems(3) kv by simp
    ultimately show ?thesis
      using 2 Cons.IH [OF 2(3) Cons.prems(2)] Cons.prems(3) kv by (auto simp: within_caps_def view_ok_def simp del: view_nodes.simps view_depth.simps)
  qed
qed simp

text \<open>The decoder gives each key of an object once.\<close>

definition decodes_to_maps :: "view_lib \<Rightarrow> bool" where
  "decodes_to_maps L \<longleftrightarrow> (\<forall>doc raw. vl_decode L doc = Decoded raw \<longrightarrow> wf_json raw)"

lemma Validate_view:
  assumes "Validate L env doc = Inr b" "clean_hosts L" "decodes_to_maps L"
  shows "\<exists>out v. vl_marshal L (JObject out) = Inr b \<and> length b \<le> MaxDocBytes \<and> clean_json (JObject out) \<and> map_of out ''root'' = Some v \<and> view_ok L env v
     \<and> view_nodes v \<le> MaxNodes_view \<and> view_depth v \<le> MaxDepth"
proof -
  obtain raw n where rn: "vl_decode L doc = Decoded raw" "normalised L env raw = Inr n"
    and mar: "(case vl_marshal L n of Inl e \<Rightarrow> fail ''$'' (''cannot encode the normalised document: '' @ e)
      | Inr b \<Rightarrow> andThen (ensure (length b \<le> MaxDocBytes) ''$''
          (''normalised document is '' @ Itoa (length b) @ '' bytes, over the '' @ Itoa MaxDocBytes @ ''-byte cap'')) (\<lambda>_. Inr b)) = Inr b"
    using assms(1) unfolding Validate_def by (cases "vl_decode L doc"; cases "MaxDocBytes < length doc") auto
  have r: "vl_decode L doc = Decoded raw" "normalised L env raw = Inr n" "vl_marshal L n = Inr b" "length b \<le> MaxDocBytes"
    using rn mar by (cases "vl_marshal L n"; simp)+
  obtain doc' out where d: "raw = JObject doc'" "top_fields L env doc' = Inr out" "n = JObject out" "map_of out ''root'' \<noteq> None"
    using r(2) unfolding normalised_def by auto
  have "wf_json (JObject doc')" using assms(3) r(1) d(1) unfolding decodes_to_maps_def by blast
  then have "wf_fields doc'" by simp
  from top_fields_view [OF d(2) assms(2) this] show ?thesis using r d by auto
qed

section \<open>Where the code and its comments differ\<close>

text \<open>A stack accepts the field \<open>wrap\<close> and drops it unread, though nothing is to be dropped silently.\<close>

lemma stack_drops_wrap:
  "validate_node L env (JObject [(''type'', JString ''stack''), (''children'', JArray []), (''wrap'', JNumber ''7'')]) p 1 0
   = Inr ([(''type'', JString ''stack''), (''children'', JArray [])], 1)"
  by (simp add: validate_node.simps node_type_def node_id_def container_extras_def opt_string_such_def getString_def shape_def checkFields_def requireFields_def as_object_def ensure_def
      NodeTypes_def MaxDepth_def MaxNodes_view_def put_fields_def)

text \<open>Only the first \<open>url(\<close> of an attribute is looked at, so that a second one can name another host.\<close>

lemma second_url_is_not_checked:
  "checkSVGAttr \<lparr>xa_Name = \<lparr>xn_Space = [], xn_Local = ''filter''\<rparr>, xa_Value = ''url(#a) url(//host/x)''\<rparr> = Inr ()"
  by code_simp

text \<open>The cap of 64 KiB of an icon is never reached: its text is a string of the document, of 8 KiB at most.\<close>

lemma svg_cap_is_8_KiB: "validateIcon L (JObject [(''svg'', JString svg)]) path = Inr u \<Longrightarrow> length svg \<le> 8192"
  by (auto simp: validateIcon_def checkString_def MaxString_def split: if_splits)

section \<open>Properties\<close>


lemma node_field: "node_fields_ok L env nd \<Longrightarrow> (k, v) \<in> set nd \<Longrightarrow> k \<noteq> ''children'' \<Longrightarrow> field_ok L env k v"
  unfolding node_fields_ok_def by blast



text \<open>
  C21. A view that reaches a client is small: an accepted document has at most 256 KiB, a thousand nodes and twelve
  levels of nodes, and no node has more than 500 items or rows, twelve columns or 24 fields.
\<close>

theorem accepted_view_is_bounded:
  assumes "Validate L env doc = Inr b" "clean_hosts L" "decodes_to_maps L"
  shows "\<exists>out v. vl_marshal L (JObject out) = Inr b \<and> map_of out ''root'' = Some v \<and> length b \<le> 262144 \<and> view_nodes v \<le> 1000 \<and> view_depth v \<le> 12
     \<and> (\<forall>nd k xs. view_node v nd \<and> (k, JArray xs) \<in> set nd \<and> k \<noteq> ''children'' \<longrightarrow>
          length xs \<le> (if k = ''columns'' then 12 else if k = ''fields'' then 24 else 500))"
proof -
  have caps: "MaxDocBytes = 262144" "MaxNodes_view = 1000" "MaxDepth = 12" "MaxColumns = 12" "MaxFormFields = 24" "MaxRows = 500"
    by (simp_all add: MaxDocBytes_def MaxNodes_view_def MaxDepth_def MaxColumns_def MaxFormFields_def MaxRows_def)
  obtain out v where o: "vl_marshal L (JObject out) = Inr b" "map_of out ''root'' = Some v" "length b \<le> 262144" "view_ok L env v" "view_nodes v \<le> 1000" "view_depth v \<le> 12"
    using Validate_view [OF assms] unfolding caps by blast
  have "length xs \<le> (if k = ''columns'' then 12 else if k = ''fields'' then 24 else 500)"
    if "view_node v nd" "(k, JArray xs) \<in> set nd" "k \<noteq> ''children''" for nd k xs
  proof -
    have "field_ok L env k (JArray xs)" using o(4) node_field that unfolding view_ok_def by blast
    then show ?thesis unfolding field_ok_def capped_def caps by blast
  qed
  then show ?thesis using o by blast
qed

section \<open>Witnesses\<close>

text \<open>A stack of a button that calls the declared procedure \<open>run\<close> and a markdown text.\<close>

definition demo_doc :: json where
  "demo_doc = JObject [(''ui'', JNumber ''1''), (''title'', JString ''Demo''),
     (''root'', JObject [(''type'', JString ''stack''), (''children'', JArray
       [JObject [(''type'', JString ''button''), (''label'', JString ''Go''), (''action'', JObject [(''kind'', JString ''rpc''), (''rpc'', JString ''run'')])],
        JObject [(''type'', JString ''markdown''), (''text'', JString ''hello'')]])])]"

definition demo_view_lib :: view_lib where
  "demo_view_lib = \<lparr>vl_xml = (\<lambda>s. ([], None)), vl_url = (\<lambda>s. None), vl_lower = (\<lambda>s. s), vl_quote = (\<lambda>s. s),
     vl_decode = (\<lambda>s. if s = ''demo'' then Decoded demo_doc else TrailingData), vl_marshal = (\<lambda>j. Inr ''out''), vl_in_unit = (\<lambda>s. False)\<rparr>"

definition demo_view_env :: view_env where
  "demo_view_env = \<lparr>ve_RPCs = (\<lambda>s. s = ''run''), ve_Panels = (\<lambda>s. False)\<rparr>"

lemma demo_texts: "utf8_valid ''Go''" "utf8_valid ''run''" "utf8_valid ''hello''" "utf8_valid ''Demo''" "clean_text ''Go''" "clean_text ''run''" "clean_text ''hello''" "clean_text ''Demo''"
  by code_simp+

lemma demo_evals: "SanitizeMarkdown ''hello'' = ''hello''" "RuneCount ''Demo'' = 4"
  by code_simp+

lemma demo_strings: "checkString ''Go'' p = Inr ()" "checkString ''run'' p = Inr ()" "checkString ''hello'' p = Inr ()" "checkString ''Demo'' p = Inr ()"
  by (simp_all add: checkString_def ensure_def MaxString_def demo_texts)

lemmas field_defs = string_field_def getString_def text_of_def shape_def checkFields_def requireFields_def as_object_def ensure_def present_def

lemma demo_button: "leaf_fields demo_view_lib demo_view_env
     [(''type'', JString ''button''), (''label'', JString ''Go''), (''action'', JObject [(''kind'', JString ''rpc''), (''rpc'', JString ''run'')])] ''button'' p
   = Inr [(''label'', JString ''Go''), (''action'', JObject [(''kind'', JString ''rpc''), (''rpc'', JString ''run'')])]"
  by (simp add: leaf_fields_def button_fields_def opt_action_def action_def rpc_action_def opt_raw_def opt_bool_def getBool_def field_defs ActionKinds_def demo_view_env_def demo_strings)

lemma demo_markdown: "leaf_fields demo_view_lib demo_view_env [(''type'', JString ''markdown''), (''text'', JString ''hello'')] ''markdown'' p = Inr [(''text'', JString ''hello'')]"
  by (simp add: leaf_fields_def markdown_fields_def field_defs demo_strings demo_evals)

lemma demo_view: "Validate demo_view_lib demo_view_env ''demo'' = Inr ''out''" "clean_hosts demo_view_lib" "decodes_to_maps demo_view_lib"
proof -
  show "Validate demo_view_lib demo_view_env ''demo'' = Inr ''out''"
    by (simp add: Validate_def normalised_def demo_view_lib_def [THEN arg_cong, of vl_decode] demo_view_lib_def [THEN arg_cong, of vl_marshal] demo_doc_def MaxDocBytes_def
        validate_node.simps node_type_def node_id_def container_extras_def opt_string_such_def NodeTypes_def MaxDepth_def MaxNodes_view_def demo_button demo_markdown field_defs demo_strings demo_evals)
  show "clean_hosts demo_view_lib" by (simp add: clean_hosts_def demo_view_lib_def)
  have "wf_json demo_doc" by code_simp
  then show "decodes_to_maps demo_view_lib" by (simp add: decodes_to_maps_def demo_view_lib_def)
qed


theorem accepted_view_is_bounded_witness:
  "\<exists>v. view_nodes v \<le> 1000 \<and> view_depth v \<le> 12"
  using accepted_view_is_bounded [OF demo_view] by blast

end
