(* ===== verification/TaskTree.thy ===== *)
theory TaskTree
  imports Failure Forest
begin

text \<open>
  The task tree read model (\<open>internal/tasktree/tree.go\<close>): from a flat set of tasks, their latest run and
  their usage to the list of nodes in depth-first order, with usage and status rolled up over the
  subtrees and a cap on the number of nodes.

  Counts and tokens are 64-bit words, whose addition wraps. Costs are floating point numbers: they
  enter as a type with its addition and zero, so that no law of real numbers is used for them. The
  aggregation is the memoised fold of \<open>Forest\<close>; the emission threads its state (nodes, visited tasks,
  next remote id, truncation) through the recursion, with a bound on its depth that is shown to suffice.
\<close>

section \<open>Data\<close>

definition MaxNodes :: nat where "MaxNodes = 500"

record 'f task =
  tk_ID :: int
  tk_ParentID :: "int option"
  tk_WorkspaceID :: int
  tk_Title :: string
  tk_TaskStatus :: string
  tk_Archived :: bool
  tk_ArchivedAt :: string
  tk_BudgetUSD :: "'f option"

definition StateRunning :: string where "StateRunning = ''running''"
definition StateWaitingPermission :: string where "StateWaitingPermission = ''waiting_permission''"
definition StateDone :: string where "StateDone = ''done''"
definition StateError :: string where "StateError = ''error''"
definition StateStopped :: string where "StateStopped = ''stopped''"
definition StateIdle :: string where "StateIdle = ''idle''"

lemmas state_defs = StateRunning_def StateWaitingPermission_def StateDone_def StateError_def StateStopped_def StateIdle_def

record run_fact =
  rf_State :: string
  rf_RunningRunIDs :: "string list"
  rf_PendingPermissions :: int
  rf_Disposition :: string
  rf_FailureKind :: string
  rf_Window :: string
  rf_ResetAt :: string
  rf_ResetInferred :: bool
  rf_Action :: "fail_action option"

definition zero_fact :: run_fact where
  "zero_fact = \<lparr>rf_State = [], rf_RunningRunIDs = [], rf_PendingPermissions = 0, rf_Disposition = [], rf_FailureKind = [],
     rf_Window = [], rf_ResetAt = [], rf_ResetInferred = False, rf_Action = None\<rparr>"

record 'f usage_totals =
  ut_Runs :: "64 word"
  ut_InputTokens :: "64 word option"
  ut_OutputTokens :: "64 word option"
  ut_CacheReadTokens :: "64 word option"
  ut_CacheWriteTokens :: "64 word option"
  ut_ReasoningTokens :: "64 word option"
  ut_CostUSD :: "'f option"

definition zero_usage :: "'f usage_totals" where
  "zero_usage = \<lparr>ut_Runs = 0, ut_InputTokens = None, ut_OutputTokens = None, ut_CacheReadTokens = None,
     ut_CacheWriteTokens = None, ut_ReasoningTokens = None, ut_CostUSD = None\<rparr>"

record tree_root =
  rt_TaskID :: int
  rt_WorkspaceID :: int
  rt_IncludeArchived :: bool

record counts =
  ct_Running :: "64 word"
  ct_WaitingPermission :: "64 word"
  ct_Failed :: "64 word"
  ct_Done :: "64 word"
  ct_Idle :: "64 word"

definition zero_counts :: counts where
  "zero_counts = \<lparr>ct_Running = 0, ct_WaitingPermission = 0, ct_Failed = 0, ct_Done = 0, ct_Idle = 0\<rparr>"

record node_run =
  nr_State :: string
  nr_RunningRunIDs :: "string list"
  nr_PendingPermissions :: int
  nr_Disposition :: string
  nr_FailureKind :: string
  nr_Window :: string
  nr_ResetAt :: string
  nr_ResetInferred :: bool
  nr_Action :: "fail_action option"

record 'f node_usage =
  nu_Own :: "'f usage_totals"
  nu_Subtree :: "'f usage_totals"
  nu_ArchivedDescendants :: "64 word"

record 'f node =
  nd_ID :: int
  nd_ParentID :: "int option"
  nd_WorkspaceID :: int
  nd_Title :: string
  nd_Depth :: int
  nd_TaskStatus :: string
  nd_Tier :: "string option"
  nd_ChildCount :: nat
  nd_Run :: node_run
  nd_Counts :: counts
  nd_Usage :: "'f node_usage"
  nd_BudgetUSD :: "'f option"
  nd_ArchivedAt :: string
  nd_Host :: string
  nd_HostID :: string
  nd_Remote :: bool
  nd_GlobalID :: string

record 'f remote_task =
  rm_HostID :: string
  rm_Alias :: string
  rm_RemoteTaskID :: string
  rm_ParentID :: int
  rm_Title :: string
  rm_State :: string
  rm_CostUSD :: "'f option"

record 'f agg_rec =
  ar_usage :: "'f usage_totals"
  ar_counts :: counts
  ar_archived :: "64 word"

text \<open>The arguments of a build; \<open>fadd\<close> and \<open>fzero\<close> are the addition and the zero of the cost type.\<close>

record 'f build =
  b_tasks :: "'f task list"
  b_facts :: "int \<Rightarrow> run_fact option"
  b_usage :: "int \<Rightarrow> 'f usage_totals option"
  b_remotes :: "'f remote_task list"
  b_root :: tree_root
  b_fadd :: "'f \<Rightarrow> 'f \<Rightarrow> 'f"
  b_fzero :: 'f

section \<open>Helpers\<close>

definition TierOf :: "bool \<Rightarrow> bool \<Rightarrow> string" where
  "TierOf hasParent liveChildren =
     (if \<not> hasParent \<and> liveChildren then ''supervisor''
      else if hasParent \<and> liveChildren then ''leader''
      else if hasParent \<and> \<not> liveChildren then ''coder''
      else [])"

definition fact_of :: "(int \<Rightarrow> run_fact option) \<Rightarrow> int \<Rightarrow> run_fact" where
  "fact_of facts i = (case facts i of Some f \<Rightarrow> f | None \<Rightarrow> zero_fact)"

definition factState :: "(int \<Rightarrow> run_fact option) \<Rightarrow> int \<Rightarrow> string" where
  "factState facts i = (let s = rf_State (fact_of facts i) in if s \<noteq> [] then s else StateIdle)"

definition countOne :: "string \<Rightarrow> counts" where
  "countOne state =
     (if state = StateRunning then zero_counts\<lparr>ct_Running := 1\<rparr>
      else if state = StateWaitingPermission then zero_counts\<lparr>ct_WaitingPermission := 1\<rparr>
      else if state = StateError then zero_counts\<lparr>ct_Failed := 1\<rparr>
      else if state = StateDone \<or> state = StateStopped then zero_counts\<lparr>ct_Done := 1\<rparr>
      else zero_counts\<lparr>ct_Idle := 1\<rparr>)"

definition addCounts :: "counts \<Rightarrow> counts \<Rightarrow> counts" where
  "addCounts a b = \<lparr>ct_Running = ct_Running a + ct_Running b, ct_WaitingPermission = ct_WaitingPermission a + ct_WaitingPermission b,
     ct_Failed = ct_Failed a + ct_Failed b, ct_Done = ct_Done a + ct_Done b, ct_Idle = ct_Idle a + ct_Idle b\<rparr>"

definition addI64 :: "64 word option \<Rightarrow> 64 word option \<Rightarrow> 64 word option" where
  "addI64 a b =
     (if a = None \<and> b = None then None
      else Some ((case a of Some x \<Rightarrow> x | None \<Rightarrow> 0) + (case b of Some y \<Rightarrow> y | None \<Rightarrow> 0)))"

definition addF64 :: "('f \<Rightarrow> 'f \<Rightarrow> 'f) \<Rightarrow> 'f \<Rightarrow> 'f option \<Rightarrow> 'f option \<Rightarrow> 'f option" where
  "addF64 fadd fzero a b =
     (if a = None \<and> b = None then None
      else let x = (case a of Some x \<Rightarrow> fadd fzero x | None \<Rightarrow> fzero)
           in Some (case b of Some y \<Rightarrow> fadd x y | None \<Rightarrow> x))"

definition addUsage :: "('f \<Rightarrow> 'f \<Rightarrow> 'f) \<Rightarrow> 'f \<Rightarrow> 'f usage_totals \<Rightarrow> 'f usage_totals \<Rightarrow> 'f usage_totals" where
  "addUsage fadd fzero a b = \<lparr>ut_Runs = ut_Runs a + ut_Runs b,
     ut_InputTokens = addI64 (ut_InputTokens a) (ut_InputTokens b),
     ut_OutputTokens = addI64 (ut_OutputTokens a) (ut_OutputTokens b),
     ut_CacheReadTokens = addI64 (ut_CacheReadTokens a) (ut_CacheReadTokens b),
     ut_CacheWriteTokens = addI64 (ut_CacheWriteTokens a) (ut_CacheWriteTokens b),
     ut_ReasoningTokens = addI64 (ut_ReasoningTokens a) (ut_ReasoningTokens b),
     ut_CostUSD = addF64 fadd fzero (ut_CostUSD a) (ut_CostUSD b)\<rparr>"

definition remoteState :: "string \<Rightarrow> string" where
  "remoteState s = (if s \<in> {StateRunning, StateWaitingPermission, StateDone, StateError, StateStopped} then s else StateIdle)"

definition remoteUsage :: "'f remote_task \<Rightarrow> 'f usage_totals" where
  "remoteUsage r = zero_usage\<lparr>ut_Runs := 1, ut_CostUSD := rm_CostUSD r\<rparr>"

text \<open>Go's order on strings is the lexicographic order on their bytes.\<close>

fun string_less :: "string \<Rightarrow> string \<Rightarrow> bool" where
  "string_less _ [] = False"
| "string_less [] (b # bs) = True"
| "string_less (a # as) (b # bs) =
     ((of_char a :: nat) < of_char b \<or> a = b \<and> string_less as bs)"

definition remote_less :: "'f remote_task \<Rightarrow> 'f remote_task \<Rightarrow> bool" where
  "remote_less a b =
     (if rm_Alias a \<noteq> rm_Alias b then string_less (rm_Alias a) (rm_Alias b)
      else case (Atoi (rm_RemoteTaskID a), Atoi (rm_RemoteTaskID b)) of
        (Some an, Some bn) \<Rightarrow> if an \<noteq> bn then an < bn else string_less (rm_RemoteTaskID a) (rm_RemoteTaskID b)
      | (Some an, None) \<Rightarrow> True
      | (None, Some bn) \<Rightarrow> False
      | (None, None) \<Rightarrow> string_less (rm_RemoteTaskID a) (rm_RemoteTaskID b))"

fun insert_by :: "('a \<Rightarrow> 'a \<Rightarrow> bool) \<Rightarrow> 'a \<Rightarrow> 'a list \<Rightarrow> 'a list" where
  "insert_by lt x [] = [x]"
| "insert_by lt x (y # ys) = (if lt y x then y # insert_by lt x ys else x # y # ys)"

definition sortRemotes :: "'f remote_task list \<Rightarrow> 'f remote_task list" where
  "sortRemotes rs = foldr (insert_by remote_less) rs []"

definition sortTasks :: "'f task list \<Rightarrow> 'f task list" where
  "sortTasks ts = sort_key tk_ID ts"

section \<open>Aggregation\<close>

definition byID :: "'f build \<Rightarrow> int \<Rightarrow> 'f task option" where
  "byID B i = find (\<lambda>t. tk_ID t = i) (rev (b_tasks B))"

definition children :: "'f build \<Rightarrow> int \<Rightarrow> 'f task list" where
  "children B p = sortTasks (filter (\<lambda>t. tk_ParentID t = Some p) (b_tasks B))"

definition visible :: "'f build \<Rightarrow> 'f task \<Rightarrow> bool" where
  "visible B t \<longleftrightarrow> rt_IncludeArchived (b_root B) \<or> \<not> tk_Archived t"

definition remoteKids :: "'f build \<Rightarrow> int \<Rightarrow> 'f remote_task list" where
  "remoteKids B p = sortRemotes (filter (\<lambda>r. rm_ParentID r = p \<and> byID B p \<noteq> None) (b_remotes B))"

definition usage_of :: "'f build \<Rightarrow> int \<Rightarrow> 'f usage_totals" where
  "usage_of B i = (case b_usage B i of Some u \<Rightarrow> u | None \<Rightarrow> zero_usage)"

definition own_rec :: "'f build \<Rightarrow> int \<Rightarrow> 'f agg_rec" where
  "own_rec B i = \<lparr>ar_usage = usage_of B i, ar_counts = zero_counts, ar_archived = 0\<rparr>"

definition merge_child :: "'f build \<Rightarrow> 'f agg_rec \<Rightarrow> 'f task \<Rightarrow> 'f agg_rec \<Rightarrow> 'f agg_rec" where
  "merge_child B rec c crec =
     (let counts = addCounts (ar_counts rec) (ar_counts crec); archived = ar_archived rec + ar_archived crec in
      \<lparr>ar_usage = addUsage (b_fadd B) (b_fzero B) (ar_usage rec) (ar_usage crec),
       ar_counts = (if tk_Archived c then counts else addCounts counts (countOne (factState (b_facts B) (tk_ID c)))),
       ar_archived = (if tk_Archived c then archived + 1 else archived)\<rparr>)"

definition merge_remote :: "'f build \<Rightarrow> 'f agg_rec \<Rightarrow> 'f remote_task \<Rightarrow> 'f agg_rec" where
  "merge_remote B rec r = rec\<lparr>ar_usage := addUsage (b_fadd B) (b_fzero B) (ar_usage rec) (remoteUsage r),
     ar_counts := addCounts (ar_counts rec) (countOne (remoteState (rm_State r)))\<rparr>"

definition visit_spec :: "'f build \<Rightarrow> (int, 'f task, 'f agg_rec) fold_spec" where
  "visit_spec B = \<lparr>ids = map tk_ID (b_tasks B), kids = children B, key = tk_ID, init = own_rec B, merge = merge_child B,
     close = (\<lambda>i rec. foldl (merge_remote B) rec (remoteKids B i)), grey = None\<rparr>"

definition agg_memo :: "'f build \<Rightarrow> int \<Rightarrow> 'f agg_rec option" where
  "agg_memo B = fold_all (visit_spec B)"

section \<open>Emission\<close>

definition visible_children :: "'f build \<Rightarrow> int \<Rightarrow> 'f task list" where
  "visible_children B i = filter (visible B) (children B i)"

definition has_parent :: "'f build \<Rightarrow> 'f task \<Rightarrow> bool" where
  "has_parent B t = (case Option.bind (tk_ParentID t) (byID B) of Some p \<Rightarrow> visible B p | None \<Rightarrow> False)"

definition emit :: "'f build \<Rightarrow> (int \<Rightarrow> 'f agg_rec option) \<Rightarrow> 'f task \<Rightarrow> int \<Rightarrow> 'f node" where
  "emit B memo t depth =
     (let rec = (case memo (tk_ID t) of Some r \<Rightarrow> r | None \<Rightarrow> own_rec B (tk_ID t));
          liveKids = length (remoteKids B (tk_ID t)) + length (visible_children B (tk_ID t));
          f = fact_of (b_facts B) (tk_ID t);
          s = TierOf (has_parent B t) (0 < liveKids)
      in \<lparr>nd_ID = tk_ID t, nd_ParentID = tk_ParentID t, nd_WorkspaceID = tk_WorkspaceID t, nd_Title = tk_Title t, nd_Depth = depth,
          nd_TaskStatus = tk_TaskStatus t, nd_Tier = (if s \<noteq> [] then Some s else None), nd_ChildCount = liveKids,
          nd_Run = \<lparr>nr_State = factState (b_facts B) (tk_ID t), nr_RunningRunIDs = rf_RunningRunIDs f,
            nr_PendingPermissions = rf_PendingPermissions f, nr_Disposition = rf_Disposition f, nr_FailureKind = rf_FailureKind f,
            nr_Window = rf_Window f, nr_ResetAt = rf_ResetAt f, nr_ResetInferred = rf_ResetInferred f, nr_Action = rf_Action f\<rparr>,
          nd_Counts = ar_counts rec,
          nd_Usage = \<lparr>nu_Own = usage_of B (tk_ID t), nu_Subtree = ar_usage rec, nu_ArchivedDescendants = ar_archived rec\<rparr>,
          nd_BudgetUSD = (if tk_ParentID t = None then tk_BudgetUSD t else None),
          nd_ArchivedAt = (if tk_Archived t then tk_ArchivedAt t else []),
          nd_Host = [], nd_HostID = [], nd_Remote = False, nd_GlobalID = []\<rparr>)"

definition emit_remote :: "'f task \<Rightarrow> int \<Rightarrow> int \<Rightarrow> 'f remote_task \<Rightarrow> 'f node" where
  "emit_remote t depth i r =
     \<lparr>nd_ID = i, nd_ParentID = Some (tk_ID t), nd_WorkspaceID = tk_WorkspaceID t, nd_Title = rm_Title r, nd_Depth = depth + 1,
      nd_TaskStatus = ''active'', nd_Tier = None, nd_ChildCount = 0,
      nd_Run = \<lparr>nr_State = remoteState (rm_State r), nr_RunningRunIDs = [], nr_PendingPermissions = 0, nr_Disposition = [],
        nr_FailureKind = [], nr_Window = [], nr_ResetAt = [], nr_ResetInferred = False, nr_Action = None\<rparr>,
      nd_Counts = zero_counts,
      nd_Usage = \<lparr>nu_Own = remoteUsage r, nu_Subtree = remoteUsage r, nu_ArchivedDescendants = 0\<rparr>,
      nd_BudgetUSD = None, nd_ArchivedAt = [], nd_Host = rm_Alias r, nd_HostID = rm_HostID r, nd_Remote = True,
      nd_GlobalID = rm_Alias r @ '':'' @ rm_RemoteTaskID r\<rparr>"

record 'f tree_state =
  ts_nodes :: "'f node list"
  ts_nextRemoteID :: int
  ts_visited :: "int list"
  ts_truncated :: bool

definition start_state :: "'f tree_state" where
  "start_state = \<lparr>ts_nodes = [], ts_nextRemoteID = 0, ts_visited = [], ts_truncated = False\<rparr>"

fun emit_remotes :: "'f task \<Rightarrow> int \<Rightarrow> 'f remote_task list \<Rightarrow> 'f tree_state \<Rightarrow> 'f tree_state" where
  "emit_remotes t depth [] st = st"
| "emit_remotes t depth (r # rs) st =
     (if MaxNodes \<le> length (ts_nodes st) then st\<lparr>ts_truncated := True\<rparr>
      else emit_remotes t depth rs (st\<lparr>ts_nextRemoteID := ts_nextRemoteID st - 1,
             ts_nodes := ts_nodes st @ [emit_remote t depth (ts_nextRemoteID st - 1) r]\<rparr>))"

text \<open>The recursion of the emission; \<open>None\<close> says that the bound on its depth was too small.\<close>

fun walk :: "'f build \<Rightarrow> (int \<Rightarrow> 'f agg_rec option) \<Rightarrow> nat \<Rightarrow> 'f task \<Rightarrow> int \<Rightarrow> 'f tree_state \<Rightarrow> 'f tree_state option"
  and walk_children :: "'f build \<Rightarrow> (int \<Rightarrow> 'f agg_rec option) \<Rightarrow> nat \<Rightarrow> 'f task list \<Rightarrow> int \<Rightarrow> 'f tree_state \<Rightarrow> 'f tree_state option"
where
  "walk B memo 0 t depth st = None"
| "walk B memo (Suc n) t depth st =
     (if tk_ID t \<in> set (ts_visited st) \<or> ts_truncated st then Some st
      else let st = st\<lparr>ts_visited := tk_ID t # ts_visited st\<rparr> in
        if MaxNodes \<le> length (ts_nodes st) then Some (st\<lparr>ts_truncated := True\<rparr>)
        else case walk_children B memo n (visible_children B (tk_ID t)) (depth + 1)
                    (st\<lparr>ts_nodes := ts_nodes st @ [emit B memo t depth]\<rparr>) of
          None \<Rightarrow> None
        | Some st \<Rightarrow> Some (emit_remotes t depth (remoteKids B (tk_ID t)) st))"
| "walk_children B memo n [] depth st = Some st"
| "walk_children B memo n (c # cs) depth st =
     (case walk B memo n c depth st of None \<Rightarrow> None | Some st' \<Rightarrow> walk_children B memo n cs depth st')"

definition tree_roots :: "'f build \<Rightarrow> 'f task list" where
  "tree_roots B = sortTasks (filter (\<lambda>t. visible B t \<and>
     (case tk_ParentID t of None \<Rightarrow> True
      | Some p \<Rightarrow> (case byID B p of None \<Rightarrow> True | Some q \<Rightarrow> \<not> visible B q))) (b_tasks B))"

definition root_tasks :: "'f build \<Rightarrow> 'f task list" where
  "root_tasks B =
     (if rt_TaskID (b_root B) \<noteq> 0 then
        (case byID B (rt_TaskID (b_root B)) of Some t \<Rightarrow> if visible B t then [t] else [] | None \<Rightarrow> [])
      else tree_roots B)"

definition BuildWithRemote :: "'f build \<Rightarrow> ('f node list \<times> bool) option" where
  "BuildWithRemote B =
     map_option (\<lambda>st. (ts_nodes st, ts_truncated st))
       (walk_children B (agg_memo B) (Suc (length (b_tasks B))) (root_tasks B) 0 start_state)"

definition Build :: "'f build \<Rightarrow> ('f node list \<times> bool) option" where
  "Build B = BuildWithRemote (B\<lparr>b_remotes := []\<rparr>)"

end
