(* ===== verification/TaskTreeProps.thy ===== *)
theory TaskTreeProps
  imports TaskTree
begin

text \<open>
  What the task tree shows: the build always returns, within the cap, every task at most once and after
  its parent; a list that is not truncated holds exactly the visible tasks that hang below the roots.
\<close>

section \<open>Children and roots are tasks\<close>

definition task_ids :: "'f build \<Rightarrow> int set" where
  "task_ids B = tk_ID ` set (b_tasks B)"

lemma finite_task_ids [simp]: "finite (task_ids B)"
  by (simp add: task_ids_def)

lemma card_task_ids: "card (task_ids B) \<le> length (b_tasks B)"
  unfolding task_ids_def by (metis card_length list.set_map length_map)

lemma set_children: "set (children B p) = {t \<in> set (b_tasks B). tk_ParentID t = Some p}"
  by (simp add: children_def sortTasks_def)

lemma visible_children_parent:
  "c \<in> set (visible_children B p) \<Longrightarrow> c \<in> set (b_tasks B) \<and> tk_ParentID c = Some p \<and> visible B c"
  by (simp add: visible_children_def set_children)

lemma byID_in: "byID B i = Some t \<Longrightarrow> t \<in> set (b_tasks B) \<and> tk_ID t = i"
  unfolding byID_def find_Some_iff by (metis nth_mem set_rev)

lemma root_tasks_in: "t \<in> set (root_tasks B) \<Longrightarrow> t \<in> set (b_tasks B) \<and> visible B t"
  by (cases "byID B (rt_TaskID (b_root B))") (auto simp: root_tasks_def tree_roots_def sortTasks_def dest: byID_in split: if_splits)

section \<open>The bound on the depth suffices\<close>

definition unvisited :: "'f build \<Rightarrow> 'f tree_state \<Rightarrow> int set" where
  "unvisited B st = task_ids B - set (ts_visited st)"

lemma emit_remotes_visited [simp]: "ts_visited (emit_remotes t depth rs st) = ts_visited st"
  by (induction t depth rs st rule: emit_remotes.induct) simp_all

lemma walk_visited_mono:
  "walk B memo n t depth st = Some st' \<Longrightarrow> set (ts_visited st) \<subseteq> set (ts_visited st')"
  "walk_children B memo n cs depth st = Some st' \<Longrightarrow> set (ts_visited st) \<subseteq> set (ts_visited st')"
proof (induction B memo n t depth st and B memo n cs depth st arbitrary: st' and st' rule: walk_walk_children.induct)
  case (2 B memo n t depth st)
  then show ?case by (fastforce simp: Let_def split: if_splits option.splits)
next
  case (4 B memo n c cs depth st)
  then show ?case by (fastforce split: option.splits)
qed simp_all

lemma walk_returns:
  "t \<in> set (b_tasks B) \<Longrightarrow> card (unvisited B st) < n \<Longrightarrow> walk B memo n t depth st \<noteq> None"
  "set cs \<subseteq> set (b_tasks B) \<Longrightarrow> card (unvisited B st) < n \<Longrightarrow> walk_children B memo n cs depth st \<noteq> None"
proof (induction B memo n t depth st and B memo n cs depth st rule: walk_walk_children.induct)
  case (2 B memo n t depth st)
  show ?case
  proof (cases "tk_ID t \<in> set (ts_visited st) \<or> ts_truncated st \<or> MaxNodes \<le> length (ts_nodes st)")
    case True
    then show ?thesis by (auto simp: Let_def)
  next
    case False
    let ?st = "st\<lparr>ts_visited := tk_ID t # ts_visited st, ts_nodes := ts_nodes st @ [emit B memo t depth]\<rparr>"
    have "unvisited B ?st = unvisited B st - {tk_ID t}" by (auto simp: unvisited_def)
    moreover have "tk_ID t \<in> unvisited B st" using False 2(2) by (auto simp: unvisited_def task_ids_def)
    ultimately have "card (unvisited B ?st) < n" using 2(3)
      by (metis card_Suc_Diff1 finite_Diff finite_task_ids not_less_eq unvisited_def)
    moreover have "set (visible_children B (tk_ID t)) \<subseteq> set (b_tasks B)" using visible_children_parent by blast
    ultimately have "walk_children B memo n (visible_children B (tk_ID t)) (depth + 1) ?st \<noteq> None"
      using 2(1) False by simp
    then show ?thesis using False by (auto simp: Let_def)
  qed
next
  case (4 B memo n c cs depth st)
  obtain st' where st': "walk B memo n c depth st = Some st'" using 4(1,3,4) by auto
  have "unvisited B st' \<subseteq> unvisited B st" using walk_visited_mono(1) [OF st'] by (auto simp: unvisited_def)
  then have "card (unvisited B st') < n" using 4(4) card_mono [of "unvisited B st" "unvisited B st'"] by (simp add: unvisited_def)
  then show ?case using 4(2) [OF st'] 4(3) st' by simp
qed simp_all

lemma Build_returns: "\<exists>nodes truncated. BuildWithRemote B = Some (nodes, truncated)"
proof -
  have "card (unvisited B start_state) < Suc (length (b_tasks B))"
    using card_task_ids [of B] by (simp add: unvisited_def start_state_def)
  moreover have "set (root_tasks B) \<subseteq> set (b_tasks B)" using root_tasks_in by blast
  ultimately have "walk_children B (agg_memo B) (Suc (length (b_tasks B))) (root_tasks B) 0 start_state \<noteq> None"
    using walk_returns(2) by blast
  then show ?thesis by (auto simp: BuildWithRemote_def)
qed

section \<open>What is emitted\<close>

definition local_ids :: "'f node list \<Rightarrow> int list" where
  "local_ids ns = map nd_ID (filter (\<lambda>n. \<not> nd_Remote n) ns)"

definition remote_ids :: "'f node list \<Rightarrow> int list" where
  "remote_ids ns = map nd_ID (filter nd_Remote ns)"

lemma ids_append [simp]:
  "local_ids (as @ bs) = local_ids as @ local_ids bs" "remote_ids (as @ bs) = remote_ids as @ remote_ids bs"
  by (simp_all add: local_ids_def remote_ids_def)

lemma ids_emit [simp]:
  "local_ids [emit B memo t depth] = [tk_ID t]" "remote_ids [emit B memo t depth] = []"
  "local_ids [emit_remote t depth i r] = []" "remote_ids [emit_remote t depth i r] = [i]"
  by (simp_all add: local_ids_def remote_ids_def emit_def emit_remote_def Let_def)

definition placed :: "'f node list \<Rightarrow> 'f node \<Rightarrow> bool" where
  "placed before x \<longleftrightarrow> nd_Depth x = 0 \<or> (\<exists>p\<in>set before. nd_ParentID x = Some (nd_ID p) \<and> nd_Depth x = nd_Depth p + 1)"

text \<open>Every node comes after its parent, one level below it.\<close>

definition parents_first :: "'f node list \<Rightarrow> bool" where
  "parents_first ns \<longleftrightarrow> (\<forall>k<length ns. placed (take k ns) (ns ! k))"

lemma parents_first_Nil [simp]: "parents_first []"
  by (simp add: parents_first_def)

lemma parents_first_snoc: "parents_first (ns @ [x]) \<longleftrightarrow> parents_first ns \<and> placed ns x"
proof -
  have "placed (take k (ns @ [x])) ((ns @ [x]) ! k) = placed (take k ns) (ns ! k)" if "k < length ns" for k
    using that by (simp add: nth_append)
  then show ?thesis by (simp add: parents_first_def All_less_Suc) blast
qed

definition tree_inv :: "'f build \<Rightarrow> 'f tree_state \<Rightarrow> bool" where
  "tree_inv B st \<longleftrightarrow> length (ts_nodes st) \<le> MaxNodes \<and> distinct (local_ids (ts_nodes st))
     \<and> set (local_ids (ts_nodes st)) \<subseteq> set (ts_visited st) \<and> (\<not> ts_truncated st \<longrightarrow> set (ts_visited st) \<subseteq> set (local_ids (ts_nodes st)))
     \<and> remote_ids (ts_nodes st) = map (\<lambda>k. - int k - 1) [0..<length (remote_ids (ts_nodes st))]
     \<and> ts_nextRemoteID st = - int (length (remote_ids (ts_nodes st))) \<and> parents_first (ts_nodes st)"

text \<open>A task may be walked at a depth when its parent is among the nodes one level above.\<close>

definition ready :: "'f tree_state \<Rightarrow> int \<Rightarrow> 'f task \<Rightarrow> bool" where
  "ready st depth t \<longleftrightarrow> depth = 0 \<or> (\<exists>p\<in>set (ts_nodes st). tk_ParentID t = Some (nd_ID p) \<and> depth = nd_Depth p + 1)"

lemma emit_fields [simp]: "nd_ID (emit B memo t depth) = tk_ID t" "nd_Depth (emit B memo t depth) = depth" "nd_ParentID (emit B memo t depth) = tk_ParentID t"
  by (simp_all add: emit_def Let_def)

lemma emit_remote_fields [simp]: "nd_Depth (emit_remote t depth i r) = depth + 1" "nd_ParentID (emit_remote t depth i r) = Some (tk_ID t)"
  by (simp_all add: emit_remote_def)

lemma emit_remotes_inv [inv_intros]:
  assumes "tree_inv B st" "\<exists>p\<in>set (ts_nodes st). nd_ID p = tk_ID t \<and> nd_Depth p = depth"
  shows "tree_inv B (emit_remotes t depth rs st) \<and> set (ts_nodes st) \<subseteq> set (ts_nodes (emit_remotes t depth rs st))"
  using assms
proof (induction t depth rs st rule: emit_remotes.induct)
  case (2 t depth r rs st)
  show ?case
  proof (cases "MaxNodes \<le> length (ts_nodes st)")
    case True
    then show ?thesis using 2(2) by (simp add: tree_inv_def)
  next
    case False
    let ?st = "st\<lparr>ts_nextRemoteID := ts_nextRemoteID st - 1, ts_nodes := ts_nodes st @ [emit_remote t depth (ts_nextRemoteID st - 1) r]\<rparr>"
    have "placed (ts_nodes st) (emit_remote t depth (ts_nextRemoteID st - 1) r)" using 2(3) by (fastforce simp: placed_def)
    then have "tree_inv B ?st" using 2(2) False by (auto simp: tree_inv_def parents_first_snoc)
    then show ?thesis using 2(1) [OF False] 2(3) False by auto
  qed
qed simp

lemma emit_inv:
  assumes "tree_inv B st" "ready st depth t" "tk_ID t \<notin> set (ts_visited st)" "\<not> MaxNodes \<le> length (ts_nodes st)"
  shows "tree_inv B (st\<lparr>ts_visited := tk_ID t # ts_visited st, ts_nodes := ts_nodes st @ [emit B memo t depth]\<rparr>)"
proof -
  have "placed (ts_nodes st) (emit B memo t depth)" using assms(2) by (auto simp: ready_def placed_def)
  then show ?thesis using assms(1,3,4) by (auto simp: tree_inv_def parents_first_snoc)
qed

text \<open>The three ways a walk returns.\<close>

abbreviation opened :: "'f build \<Rightarrow> (int \<Rightarrow> 'f agg_rec option) \<Rightarrow> 'f task \<Rightarrow> int \<Rightarrow> 'f tree_state \<Rightarrow> 'f tree_state" where
  "opened B memo t depth st \<equiv> st\<lparr>ts_visited := tk_ID t # ts_visited st, ts_nodes := ts_nodes st @ [emit B memo t depth]\<rparr>"

lemma walk_Suc_cases:
  assumes "walk B memo (Suc n) t depth st = Some st'"
  obtains (skip) "tk_ID t \<in> set (ts_visited st) \<or> ts_truncated st" "st' = st"
  | (full) "tk_ID t \<notin> set (ts_visited st)" "\<not> ts_truncated st" "MaxNodes \<le> length (ts_nodes st)"
      "st' = st\<lparr>ts_visited := tk_ID t # ts_visited st, ts_truncated := True\<rparr>"
  | (new) st1 where "tk_ID t \<notin> set (ts_visited st)" "\<not> ts_truncated st" "\<not> MaxNodes \<le> length (ts_nodes st)"
      "walk_children B memo n (visible_children B (tk_ID t)) (depth + 1) (opened B memo t depth st) = Some st1"
      "st' = emit_remotes t depth (remoteKids B (tk_ID t)) st1"
proof (cases "tk_ID t \<in> set (ts_visited st) \<or> ts_truncated st")
  case True
  then have "st' = st" using assms by simp
  then show ?thesis by (rule skip [OF True])
next
  case False
  then have v: "tk_ID t \<notin> set (ts_visited st)" "\<not> ts_truncated st" by auto
  show ?thesis
  proof (cases "MaxNodes \<le> length (ts_nodes st)")
    case True
    then have "st' = st\<lparr>ts_visited := tk_ID t # ts_visited st, ts_truncated := True\<rparr>" using assms v by (simp add: Let_def)
    then show ?thesis by (rule full [OF v True])
  next
    case no: False
    have w: "(case walk_children B memo n (visible_children B (tk_ID t)) (depth + 1) (opened B memo t depth st) of
        None \<Rightarrow> None | Some st \<Rightarrow> Some (emit_remotes t depth (remoteKids B (tk_ID t)) st)) = Some st'"
      using assms v no by (simp add: Let_def)
    then obtain st1 where "walk_children B memo n (visible_children B (tk_ID t)) (depth + 1) (opened B memo t depth st) = Some st1"
      "st' = emit_remotes t depth (remoteKids B (tk_ID t)) st1" by (auto split: option.splits)
    then show ?thesis by (rule new [OF v no])
  qed
qed

lemma walk_children_Cons:
  assumes "walk_children B memo n (c # cs) depth st = Some st'"
  obtains st1 where "walk B memo n c depth st = Some st1" "walk_children B memo n cs depth st1 = Some st'"
  using assms by (cases "walk B memo n c depth st") auto

text \<open>Induction over the recursion of a walk that returns.\<close>

lemma walk_induct:
  assumes skip: "\<And>t depth st. tk_ID t \<in> set (ts_visited st) \<or> ts_truncated st \<Longrightarrow> P t depth st st"
    and full: "\<And>t depth st. tk_ID t \<notin> set (ts_visited st) \<Longrightarrow> \<not> ts_truncated st \<Longrightarrow> MaxNodes \<le> length (ts_nodes st) \<Longrightarrow>
      P t depth st (st\<lparr>ts_visited := tk_ID t # ts_visited st, ts_truncated := True\<rparr>)"
    and new: "\<And>t depth st st1. tk_ID t \<notin> set (ts_visited st) \<Longrightarrow> \<not> ts_truncated st \<Longrightarrow> \<not> MaxNodes \<le> length (ts_nodes st) \<Longrightarrow>
      Q (visible_children B (tk_ID t)) (depth + 1) (opened B memo t depth st) st1 \<Longrightarrow>
      P t depth st (emit_remotes t depth (remoteKids B (tk_ID t)) st1)"
    and nil: "\<And>depth st. Q [] depth st st"
    and cons: "\<And>c cs depth st st1 st2. P c depth st st1 \<Longrightarrow> Q cs depth st1 st2 \<Longrightarrow> Q (c # cs) depth st st2"
  shows "(walk B memo n t depth st = Some st' \<longrightarrow> P t depth st st') \<and> (walk_children B memo n cs depth st = Some st' \<longrightarrow> Q cs depth st st')"
proof (induction n arbitrary: t depth st st' cs)
  case 0
  have "walk_children B memo 0 cs depth st = Some st' \<longrightarrow> Q cs depth st st'" by (cases cs) (auto intro: nil)
  then show ?case by simp
next
  case (Suc n)
  have w: "P t depth st st'" if "walk B memo (Suc n) t depth st = Some st'" for t depth st st'
    using that by (cases rule: walk_Suc_cases) (use Suc skip full new in blast)+
  have "walk_children B memo (Suc n) cs depth st = Some st' \<longrightarrow> Q cs depth st st'"
  proof (induction cs arbitrary: st)
    case (Cons c cs)
    show ?case
    proof
      assume "walk_children B memo (Suc n) (c # cs) depth st = Some st'"
      then obtain st1 where "walk B memo (Suc n) c depth st = Some st1" "walk_children B memo (Suc n) cs depth st1 = Some st'"
        by (rule walk_children_Cons)
      then show "Q (c # cs) depth st st'" using w Cons cons by blast
    qed
  qed (simp add: nil)
  then show ?case using w by blast
qed

lemma walk_children_inv:
  assumes "walk_children B memo n cs depth st = Some st'" "tree_inv B st" "\<forall>c\<in>set cs. ready st depth c"
  shows "tree_inv B st'"
proof -
  let ?R = "\<lambda>st st'. tree_inv B st' \<and> set (ts_nodes st) \<subseteq> set (ts_nodes st')"
  have mono: "ready st' depth c" if "set (ts_nodes st) \<subseteq> set (ts_nodes st')" "ready st depth c" for st st' :: "'a tree_state" and depth c
    using that by (auto simp: ready_def)
  have "walk_children B memo n cs depth st = Some st' \<longrightarrow> tree_inv B st \<longrightarrow> (\<forall>c\<in>set cs. ready st depth c) \<longrightarrow> ?R st st'"
  proof (rule walk_induct [where P = "\<lambda>t depth st st'. tree_inv B st \<longrightarrow> ready st depth t \<longrightarrow> ?R st st'"
        and Q = "\<lambda>cs depth st st'. tree_inv B st \<longrightarrow> (\<forall>c\<in>set cs. ready st depth c) \<longrightarrow> ?R st st'", THEN conjunct2])
    fix t depth and st st1 :: "'a tree_state"
    assume a: "tk_ID t \<notin> set (ts_visited st)" "\<not> ts_truncated st" "\<not> MaxNodes \<le> length (ts_nodes st)"
      and Q: "tree_inv B (opened B memo t depth st) \<longrightarrow> (\<forall>c\<in>set (visible_children B (tk_ID t)). ready (opened B memo t depth st) (depth + 1) c)
        \<longrightarrow> ?R (opened B memo t depth st) st1"
    show "tree_inv B st \<longrightarrow> ready st depth t \<longrightarrow> ?R st (emit_remotes t depth (remoteKids B (tk_ID t)) st1)"
    proof (intro impI)
      assume i: "tree_inv B st" "ready st depth t"
      have "\<forall>c\<in>set (visible_children B (tk_ID t)). ready (opened B memo t depth st) (depth + 1) c"
        using visible_children_parent by (fastforce simp: ready_def)
      then have st1: "tree_inv B st1" "set (ts_nodes st) \<subseteq> set (ts_nodes st1)" "emit B memo t depth \<in> set (ts_nodes st1)"
        using Q emit_inv [OF i a(1,3), of memo] by auto
      have "\<exists>p\<in>set (ts_nodes st1). nd_ID p = tk_ID t \<and> nd_Depth p = depth" using st1(3) by (auto intro!: bexI [of _ "emit B memo t depth"])
      from emit_remotes_inv [OF st1(1) this] show "?R st (emit_remotes t depth (remoteKids B (tk_ID t)) st1)" using st1(2) by blast
    qed
  next
    fix c cs depth and st st1 st2 :: "'a tree_state"
    assume "tree_inv B st \<longrightarrow> ready st depth c \<longrightarrow> ?R st st1" "tree_inv B st1 \<longrightarrow> (\<forall>c\<in>set cs. ready st1 depth c) \<longrightarrow> ?R st1 st2"
    then show "tree_inv B st \<longrightarrow> (\<forall>c\<in>set (c # cs). ready st depth c) \<longrightarrow> ?R st st2" using mono by (metis list.set_intros order.trans)
  qed (auto simp: tree_inv_def)
  then show ?thesis using assms by blast
qed

section \<open>What is reached\<close>

definition visible_link :: "'f build \<Rightarrow> (int \<times> int) set" where
  "visible_link B = {(tk_ID c, p) | c p. c \<in> set (b_tasks B) \<and> visible B c \<and> tk_ParentID c = Some p}"

definition below :: "'f build \<Rightarrow> int set \<Rightarrow> int set" where
  "below B S = {x. \<exists>r\<in>S. (x, r) \<in> (visible_link B)\<^sup>*}"

lemma visible_children_link: "c \<in> set (visible_children B p) \<longleftrightarrow> c \<in> set (b_tasks B) \<and> visible B c \<and> tk_ParentID c = Some p"
  by (auto simp: visible_children_def set_children)

text \<open>The tasks a walk visits for the first time.\<close>

definition fresh :: "'f tree_state \<Rightarrow> 'f tree_state \<Rightarrow> int set" where
  "fresh st st' = set (ts_visited st') - set (ts_visited st)"

definition explored :: "'f build \<Rightarrow> int set \<Rightarrow> 'f tree_state \<Rightarrow> 'f tree_state \<Rightarrow> bool" where
  "explored B S st st' \<longleftrightarrow> set (ts_visited st) \<subseteq> set (ts_visited st') \<and> (ts_truncated st \<longrightarrow> ts_truncated st') \<and> fresh st st' \<subseteq> below B S
     \<and> (\<not> ts_truncated st' \<longrightarrow> S \<subseteq> set (ts_visited st') \<and> (\<forall>x\<in>fresh st st'. \<forall>c\<in>set (visible_children B x). tk_ID c \<in> set (ts_visited st')))"

lemma below_self: "S \<subseteq> below B S"
  by (auto simp: below_def)

lemma below_child: "below B (tk_ID ` set (visible_children B p)) \<subseteq> below B {p}"
proof
  fix x assume "x \<in> below B (tk_ID ` set (visible_children B p))"
  then obtain c where "c \<in> set (visible_children B p)" "(x, tk_ID c) \<in> (visible_link B)\<^sup>*" by (auto simp: below_def)
  moreover have "(tk_ID c, p) \<in> visible_link B" using calculation(1) by (auto simp: visible_children_link visible_link_def)
  ultimately show "x \<in> below B {p}" by (auto simp: below_def)
qed

lemma emit_remotes_truncated: "ts_truncated st \<Longrightarrow> ts_truncated (emit_remotes t depth rs st)"
  by (induction t depth rs st rule: emit_remotes.induct) simp_all

lemma walk_children_explored:
  "walk_children B memo n cs depth st = Some st' \<Longrightarrow> explored B (tk_ID ` set cs) st st'"
proof -
  have "walk_children B memo n cs depth st = Some st' \<longrightarrow> explored B (tk_ID ` set cs) st st'"
  proof (rule walk_induct [where P = "\<lambda>t depth st st'. explored B {tk_ID t} st st'"
        and Q = "\<lambda>cs depth st st'. explored B (tk_ID ` set cs) st st'", THEN conjunct2])
    fix t depth and st st1 :: "'a tree_state"
    assume a: "tk_ID t \<notin> set (ts_visited st)" "\<not> ts_truncated st" "\<not> MaxNodes \<le> length (ts_nodes st)"
      and Q: "explored B (tk_ID ` set (visible_children B (tk_ID t))) (opened B memo t depth st) st1"
    let ?st = "emit_remotes t depth (remoteKids B (tk_ID t)) st1"
    have f: "fresh st st1 = insert (tk_ID t) (fresh (opened B memo t depth st) st1)" "fresh st ?st = fresh st st1"
      using Q a(1) by (auto simp: fresh_def explored_def)
    have "fresh st ?st \<subseteq> below B {tk_ID t}"
      using Q below_child [of B "tk_ID t"] below_self [of "{tk_ID t}" B] unfolding f explored_def by blast
    moreover have "\<not> ts_truncated st1" if "\<not> ts_truncated ?st" using that emit_remotes_truncated by blast
    ultimately show "explored B {tk_ID t} st ?st" using Q a(2) f unfolding explored_def by auto
  next
    fix c :: "'a task" and cs :: "'a task list" and depth :: int and st st1 st2 :: "'a tree_state"
    assume P: "explored B {tk_ID c} st st1" and Q: "explored B (tk_ID ` set cs) st1 st2"
    have "fresh st st2 = fresh st st1 \<union> fresh st1 st2" using P Q by (auto simp: explored_def fresh_def)
    moreover have "below B {tk_ID c} \<union> below B (tk_ID ` set cs) = below B (tk_ID ` set (c # cs))" by (auto simp: below_def)
    ultimately show "explored B (tk_ID ` set (c # cs)) st st2" using P Q unfolding explored_def by (auto; blast)
  next
    fix t depth and st :: "'a tree_state"
    assume "tk_ID t \<in> set (ts_visited st) \<or> ts_truncated st"
    then show "explored B {tk_ID t} st st" by (auto simp: explored_def fresh_def)
  next
    fix t depth and st :: "'a tree_state"
    show "explored B {tk_ID t} st (st\<lparr>ts_visited := tk_ID t # ts_visited st, ts_truncated := True\<rparr>)"
      using below_self [of "{tk_ID t}" B] by (auto simp: explored_def fresh_def)
  next
    fix depth and st :: "'a tree_state"
    show "explored B (tk_ID ` set []) st st" by (simp add: explored_def fresh_def)
  qed
  then show "walk_children B memo n cs depth st = Some st' \<Longrightarrow> explored B (tk_ID ` set cs) st st'" by blast
qed

lemma explored_all:
  assumes "explored B S start_state st" "\<not> ts_truncated st"
  shows "set (ts_visited st) = below B S"
proof
  have fresh: "fresh start_state st = set (ts_visited st)" by (simp add: fresh_def start_state_def)
  then show "set (ts_visited st) \<subseteq> below B S" using assms(1) by (auto simp: explored_def)
  have step: "x \<in> set (ts_visited st)" if "(x, y) \<in> visible_link B" "y \<in> set (ts_visited st)" for x y
    using that assms fresh by (auto simp: explored_def visible_link_def visible_children_link)
  have "x \<in> set (ts_visited st)" if "(x, r) \<in> (visible_link B)\<^sup>*" "r \<in> S" for x r
    using that(1) by (induction rule: converse_rtrancl_induct) (use that(2) assms step in \<open>auto simp: explored_def\<close>)
  then show "below B S \<subseteq> set (ts_visited st)" by (auto simp: below_def)
qed

text \<open>
  C17. The tree is always built, cyclic parent links included: within 500 nodes, every task at most once,
  remote leaves numbered -1, -2 and so on, and every node after its parent and one level below it. When
  the list is not truncated, its tasks are exactly the visible ones that hang below the roots of the
  request through visible tasks.
\<close>

theorem tree_is_complete_or_truncated:
  "\<exists>nodes truncated. BuildWithRemote B = Some (nodes, truncated) \<and> length nodes \<le> 500 \<and> distinct (local_ids nodes)
     \<and> remote_ids nodes = map (\<lambda>k. - int k - 1) [0..<length (remote_ids nodes)] \<and> parents_first nodes
     \<and> (truncated \<or> set (local_ids nodes) = below B (tk_ID ` set (root_tasks B)))"
proof -
  obtain nodes truncated where b: "BuildWithRemote B = Some (nodes, truncated)" using Build_returns by blast
  then obtain st where st: "walk_children B (agg_memo B) (Suc (length (b_tasks B))) (root_tasks B) 0 start_state = Some st"
    "nodes = ts_nodes st" "truncated = ts_truncated st" by (auto simp: BuildWithRemote_def)
  have "tree_inv B start_state" by (simp add: tree_inv_def start_state_def local_ids_def remote_ids_def)
  then have i: "tree_inv B st" by (rule walk_children_inv [OF st(1)]) (simp add: ready_def)
  have "\<not> truncated \<Longrightarrow> set (local_ids nodes) = below B (tk_ID ` set (root_tasks B))"
    using explored_all [OF walk_children_explored [OF st(1)]] i st(2,3) by (auto simp: tree_inv_def)
  then show ?thesis using b i st(2) by (auto simp: tree_inv_def MaxNodes_def)
qed

end
