(* ===== verification/TaskTreeRollup.thy ===== *)
theory TaskTreeRollup
  imports TaskTreeProps
begin




lemma visit_spec_simps [simp]:
  "ids (visit_spec B) = map tk_ID (b_tasks B)" "kids (visit_spec B) = children B" "key (visit_spec B) = tk_ID"
  "init (visit_spec B) = own_rec B" "merge (visit_spec B) = merge_child B"
  "close (visit_spec B) i rec = foldl (merge_remote B) rec (remoteKids B i)"
  by (simp_all add: visit_spec_def)
















lemma merge_simps [simp]:
  "ar_usage (merge_child B rec c crec) = addUsage (b_fadd B) (b_fzero B) (ar_usage rec) (ar_usage crec)"
  "ar_counts (merge_child B rec c crec) = (if tk_Archived c then addCounts (ar_counts rec) (ar_counts crec)
     else addCounts (addCounts (ar_counts rec) (ar_counts crec)) (countOne (factState (b_facts B) (tk_ID c))))"
  "ar_archived (merge_child B rec c crec) = ar_archived rec + ar_archived crec + (if tk_Archived c then 1 else 0)"
  "ar_usage (merge_remote B rec r) = addUsage (b_fadd B) (b_fzero B) (ar_usage rec) (remoteUsage r)"
  "ar_counts (merge_remote B rec r) = addCounts (ar_counts rec) (countOne (remoteState (rm_State r)))"
  "ar_archived (merge_remote B rec r) = ar_archived rec"
  by (simp_all add: merge_child_def merge_remote_def Let_def)














end
