(* ===== verification/LoginLimiter.thy ===== *)
theory LoginLimiter
  imports Prelude "HOL-Library.Multiset"
begin

text \<open>
  The login limiter (\<open>internal/auth/limiter.go\<close>): per-address lockouts with a doubling delay,
  and a global window over all addresses.

  A peer address is what \<open>net.ParseIP\<close> makes of it. The limiter's keys are strings; a key is
  modelled by what it denotes: the text of an IPv4 address, the text of a masked IPv6 prefix
  followed by \<open>/64\<close>, or the raw input where that is no address. \<open>net.ParseIP\<close> reads the first
  back and rejects the other two (a slash is never part of an address).

  The table \<open>ips\<close> is an association list with distinct keys. Go iterates over a map in an
  unspecified order, so the eviction loop takes an iteration \<open>iter\<close> as an argument, any
  function that permutes the entries.
\<close>

section \<open>Addresses and keys\<close>

datatype peer = V4 nat nat nat nat | V6 "16 word list" | NotAnIP string

datatype bucket = KeyV4 nat nat nat nat | KeyV6 "16 word list" | KeyRaw string

text \<open>\<open>To4\<close> also unwraps the IPv4-mapped form \<open>::ffff:a.b.c.d\<close>.\<close>

definition to4 :: "16 word list \<Rightarrow> bucket option" where
  "to4 ws =
     (case ws of
        [a, b, c, d, e, f, g, h] \<Rightarrow>
          (if a = 0 \<and> b = 0 \<and> c = 0 \<and> d = 0 \<and> e = 0 \<and> f = 0xFFFF
           then Some (KeyV4 (unat g div 256) (unat g mod 256) (unat h div 256) (unat h mod 256))
           else None)
      | _ \<Rightarrow> None)"

fun Key :: "peer \<Rightarrow> bucket" where
  "Key (V4 a b c d) = KeyV4 a b c d"
| "Key (V6 ws) = (case to4 ws of Some k \<Rightarrow> k | None \<Rightarrow> KeyV6 (take 4 ws))"
| "Key (NotAnIP s) = KeyRaw s"

fun isLoopbackKey :: "bucket \<Rightarrow> bool" where
  "isLoopbackKey (KeyV4 a b c d) \<longleftrightarrow> a = 127"
| "isLoopbackKey (KeyV6 ws) \<longleftrightarrow> False"
| "isLoopbackKey (KeyRaw s) \<longleftrightarrow> False"


section \<open>State and operations\<close>

record ip_state =
  st_fails :: int
  st_until :: gotime
  st_last :: gotime

record login_limiter =
  ll_ips :: "(bucket \<times> ip_state) list"
  ll_globals :: "gotime list"
  ll_gLocked :: gotime

definition freeAttempts :: int where "freeAttempts = 5"
definition baseDelay :: duration where "baseDelay = 2 * Second"
definition maxDelay :: duration where "maxDelay = 15 * Minute"
definition forgetAfter :: duration where "forgetAfter = Hour"
definition maxTracked :: nat where "maxTracked = 4096"
definition globalMax :: nat where "globalMax = 40"
definition globalWindow :: duration where "globalWindow = Minute"
definition globalLock :: duration where "globalLock = Minute"


definition NewLoginLimiter :: login_limiter where
  "NewLoginLimiter = \<lparr>ll_ips = [], ll_globals = [], ll_gLocked = zero_time\<rparr>"

definition ip_get :: "(bucket \<times> ip_state) list \<Rightarrow> bucket \<Rightarrow> ip_state option" where
  "ip_get m k = map_of m k"

definition ip_delete :: "bucket \<Rightarrow> (bucket \<times> ip_state) list \<Rightarrow> (bucket \<times> ip_state) list" where
  "ip_delete k m = filter (\<lambda>(k', _). k' \<noteq> k) m"

definition ip_put :: "bucket \<Rightarrow> ip_state \<Rightarrow> (bucket \<times> ip_state) list \<Rightarrow> (bucket \<times> ip_state) list" where
  "ip_put k v m = (k, v) # ip_delete k m"

definition Allow :: "peer \<Rightarrow> gotime \<Rightarrow> login_limiter \<Rightarrow> bool \<times> duration" where
  "Allow ip now l =
     (if now < ll_gLocked l then (False, time_sub (ll_gLocked l) now)
      else case ip_get (ll_ips l) (Key ip) of
             Some st \<Rightarrow> if now < st_until st then (False, time_sub (st_until st) now) else (True, 0)
           | None \<Rightarrow> (True, 0))"

definition recordGlobalLocked :: "gotime \<Rightarrow> login_limiter \<Rightarrow> login_limiter" where
  "recordGlobalLocked now l =
     (let cut = now - globalWindow;
          gs = filter (\<lambda>t. t > cut) (ll_globals l) @ [now]
      in if length gs > globalMax
         then l\<lparr>ll_globals := [], ll_gLocked := now + globalLock\<rparr>
         else l\<lparr>ll_globals := gs\<rparr>)"

text \<open>
  The eviction loop: expired entries are deleted on the way, and of the others the one whose
  lockout ends first is the victim. The accumulator is the victim so far (\<open>None\<close> is \<open>first\<close>)
  and the table.
\<close>

fun evict_loop :: "gotime \<Rightarrow> (bucket \<times> ip_state) list \<Rightarrow> (bucket \<times> gotime) option \<Rightarrow>
    (bucket \<times> ip_state) list \<Rightarrow> (bucket \<times> gotime) option \<times> (bucket \<times> ip_state) list" where
  "evict_loop now [] victim m = (victim, m)"
| "evict_loop now ((ip, st) # rest) victim m =
     (if time_sub now (st_last st) > forgetAfter then evict_loop now rest victim (ip_delete ip m)
      else
        (case victim of
           None \<Rightarrow> evict_loop now rest (Some (ip, st_until st)) m
         | Some (v, u) \<Rightarrow>
             evict_loop now rest (if st_until st < u then Some (ip, st_until st) else Some (v, u)) m))"

definition evictLocked :: "((bucket \<times> ip_state) list \<Rightarrow> (bucket \<times> ip_state) list) \<Rightarrow> gotime \<Rightarrow>
    (bucket \<times> ip_state) list \<Rightarrow> (bucket \<times> ip_state) list" where
  "evictLocked iter now m =
     (if length m < maxTracked then m
      else case evict_loop now (iter m) None m of
             (None, m') \<Rightarrow> m'
           | (Some (victim, _), m') \<Rightarrow> if length m' \<ge> maxTracked then ip_delete victim m' else m')"

function delay_loop :: "int \<Rightarrow> int \<Rightarrow> duration \<Rightarrow> duration" where
  "delay_loop i fails delay =
     (if i < fails \<and> delay < maxDelay then delay_loop (i + 1) fails (delay * 2) else delay)"
  by pat_completeness auto
termination
  by (relation "measure (\<lambda>(i, fails, delay). nat (fails - i))") auto

declare delay_loop.simps [simp del]

definition lockout_delay :: "int \<Rightarrow> duration" where
  "lockout_delay fails =
     (let delay = delay_loop (freeAttempts + 1) fails baseDelay
      in if delay > maxDelay then maxDelay else delay)"

definition bump :: "gotime \<Rightarrow> ip_state \<Rightarrow> ip_state" where
  "bump now st =
     (let fails = (if time_sub now (st_last st) > forgetAfter then 0 else st_fails st) + 1;
          st' = st\<lparr>st_fails := fails, st_last := now\<rparr>
      in if fails > freeAttempts then st'\<lparr>st_until := now + lockout_delay fails\<rparr> else st')"

definition zero_state :: ip_state where
  "zero_state = \<lparr>st_fails = 0, st_until = zero_time, st_last = zero_time\<rparr>"

definition Fail :: "((bucket \<times> ip_state) list \<Rightarrow> (bucket \<times> ip_state) list) \<Rightarrow> peer \<Rightarrow> gotime \<Rightarrow>
    login_limiter \<Rightarrow> login_limiter" where
  "Fail iter ip now l =
     (let k = Key ip in
      if isLoopbackKey k then recordGlobalLocked now l
      else
        let (st, m) = (case ip_get (ll_ips l) k of
                         Some st \<Rightarrow> (st, ll_ips l)
                       | None \<Rightarrow> (zero_state, evictLocked iter now (ll_ips l)))
        in recordGlobalLocked now (l\<lparr>ll_ips := ip_put k (bump now st) m\<rparr>))"

definition Success :: "peer \<Rightarrow> login_limiter \<Rightarrow> login_limiter" where
  "Success ip l = l\<lparr>ll_ips := ip_delete (Key ip) (ll_ips l)\<rparr>"

section \<open>The table as a map\<close>

definition map_iteration :: "('a list \<Rightarrow> 'a list) \<Rightarrow> bool" where
  "map_iteration iter \<longleftrightarrow> (\<forall>xs. mset (iter xs) = mset xs)"



lemma length_ip_delete_le: "length (ip_delete k m) \<le> length m"
  by (simp add: ip_delete_def)

lemma distinct_ip_delete: "distinct (map fst m) \<Longrightarrow> distinct (map fst (ip_delete k m))"
  by (induction m) (auto simp: ip_delete_def)

lemma ip_delete_notin: "k \<notin> fst ` set (ip_delete k m)"
  by (auto simp: ip_delete_def)

lemma distinct_ip_put: "distinct (map fst m) \<Longrightarrow> distinct (map fst (ip_put k v m))"
  using ip_delete_notin [of k m] by (simp add: ip_put_def distinct_ip_delete)

lemma keys_ip_put: "fst ` set (ip_put k v m) = insert k (fst ` set m)"
  by (auto simp: ip_put_def ip_delete_def)

lemma length_ip_delete_mem: "k \<in> fst ` set m \<Longrightarrow> length (ip_delete k m) < length m"
  by (auto simp: ip_delete_def intro!: length_filter_less)

lemma ip_get_Some_mem: "ip_get m k = Some v \<Longrightarrow> k \<in> fst ` set m"
  by (force simp: ip_get_def dest: map_of_SomeD)

section \<open>The lockout delay\<close>



section \<open>The invariant\<close>

definition limiter_wf :: "login_limiter \<Rightarrow> bool" where
  "limiter_wf l \<longleftrightarrow> distinct (map fst (ll_ips l)) \<and> length (ll_ips l) \<le> maxTracked \<and>
     (\<forall>k \<in> fst ` set (ll_ips l). \<not> isLoopbackKey k) \<and> length (ll_globals l) \<le> globalMax"

text \<open>The two effects of the eviction loop apart: the victim, and the table without expired keys.\<close>

definition expired :: "gotime \<Rightarrow> bucket \<times> ip_state \<Rightarrow> bool" where
  "expired now e \<longleftrightarrow> time_sub now (st_last (snd e)) > forgetAfter"

definition pick :: "bucket \<times> ip_state \<Rightarrow> (bucket \<times> gotime) option \<Rightarrow> (bucket \<times> gotime) option" where
  "pick e v =
     (case v of
        None \<Rightarrow> Some (fst e, st_until (snd e))
      | Some (k, u) \<Rightarrow> if st_until (snd e) < u then Some (fst e, st_until (snd e)) else Some (k, u))"

lemma evict_loop_eq:
  "evict_loop now xs v m =
     (fold pick (filter (\<lambda>e. \<not> expired now e) xs) v,
      filter (\<lambda>(k, _). k \<notin> fst ` set (filter (expired now) xs)) m)"
proof (induction now xs v m rule: evict_loop.induct)
  case (2 now ip st rest v m)
  show ?case
  proof (cases "expired now (ip, st)")
    case True
    then show ?thesis
      using 2(1) by (auto simp: expired_def ip_delete_def intro!: filter_cong)
  next
    case False
    then show ?thesis
      using 2(2,3) by (cases v) (auto simp: expired_def pick_def)
  qed
qed auto

lemma fold_pick_None: "fold pick ys v = None \<longleftrightarrow> ys = [] \<and> v = None"
proof (induction ys arbitrary: v)
  case (Cons y ys)
  have "pick y v \<noteq> None" by (auto simp: pick_def split: option.splits)
  then show ?case using Cons by auto
qed simp

lemma fold_pick_key:
  "fold pick ys v = Some (k, u) \<Longrightarrow> k \<in> fst ` set ys \<or> v = Some (k, u)"
proof (induction ys arbitrary: v)
  case (Cons y ys)
  from Cons.IH [of "pick y v"] Cons.prems show ?case
    by (auto simp: pick_def split: option.splits if_splits)
qed simp

lemma evictLocked_length:
  assumes "map_iteration iter" and "distinct (map fst m)" and "length m \<le> maxTracked"
  shows "length (evictLocked iter now m) < maxTracked"
proof (cases "length m < maxTracked")
  case False
  have iter: "set (iter m) = set m" using assms(1) by (metis map_iteration_def mset_eq_setD)
  let ?live = "filter (\<lambda>e. \<not> expired now e) (iter m)"
  let ?m = "filter (\<lambda>(k, _). k \<notin> fst ` set (filter (expired now) (iter m))) m"
  show ?thesis
  proof (cases "fold pick ?live None")
    case None
    then have "?live = []" by (simp only: fold_pick_None)
    then have "\<forall>e \<in> set m. expired now e" using iter by (auto simp: filter_empty_conv)
    then have "?m = []" using iter by (force simp: filter_empty_conv)
    then show ?thesis using False None by (simp add: evictLocked_def evict_loop_eq maxTracked_def)
  next
    case (Some vu)
    obtain k u where vu: "vu = (k, u)" by fastforce
    then have "k \<in> fst ` set ?live" using fold_pick_key [of ?live None k u] Some by simp
    then obtain st where st: "(k, st) \<in> set m" "\<not> expired now (k, st)" using iter by auto
    have "\<not> expired now (k, st')" if "(k, st') \<in> set m" for st'
      using eq_key_imp_eq_value [OF assms(2) st(1) that] st(2) by simp
    then have "k \<notin> fst ` set (filter (expired now) (iter m))" using iter by auto
    then have "(k, st) \<in> set ?m" using st(1) by simp
    then have "k \<in> fst ` set ?m" by force
    then have "length (ip_delete k ?m) < length ?m" by (rule length_ip_delete_mem)
    also have "length ?m \<le> maxTracked" using assms(3) by (meson length_filter_le order_trans)
    finally show ?thesis
      using False Some vu by (auto simp: evictLocked_def evict_loop_eq)
  qed
qed (simp add: evictLocked_def)

lemma evictLocked_keys:
  "fst ` set (evictLocked iter now m) \<subseteq> fst ` set m"
  "distinct (map fst m) \<Longrightarrow> distinct (map fst (evictLocked iter now m))"
  by (auto simp: evictLocked_def evict_loop_eq ip_delete_def distinct_map_filter
      split: option.splits prod.splits if_splits)

lemma recordGlobalLocked_ips [simp]: "ll_ips (recordGlobalLocked now l) = ll_ips l"
  by (simp add: recordGlobalLocked_def Let_def)

lemma recordGlobalLocked_globals: "length (ll_globals (recordGlobalLocked now l)) \<le> globalMax"
  by (simp add: recordGlobalLocked_def Let_def globalMax_def)

lemma limiter_wf_New [inv_intros]: "limiter_wf NewLoginLimiter"
  by (simp add: limiter_wf_def NewLoginLimiter_def)

lemma limiter_wf_Success [inv_intros]: "limiter_wf l \<Longrightarrow> limiter_wf (Success ip l)"
  using length_ip_delete_le [of "Key ip" "ll_ips l"]
  by (auto simp: limiter_wf_def Success_def distinct_ip_delete) (auto simp: ip_delete_def)

lemma limiter_wf_Fail [inv_intros]:
  assumes "map_iteration iter" and "limiter_wf l"
  shows "limiter_wf (Fail iter ip now l)"
proof (cases "isLoopbackKey (Key ip)")
  case True
  then show ?thesis
    using assms(2) by (simp add: Fail_def Let_def limiter_wf_def recordGlobalLocked_globals)
next
  case False
  let ?k = "Key ip"
  define sm where "sm = (case ip_get (ll_ips l) ?k of Some st \<Rightarrow> (st, ll_ips l)
    | None \<Rightarrow> (zero_state, evictLocked iter now (ll_ips l)))"
  obtain st m where m: "sm = (st, m)" by fastforce
  have keys: "fst ` set m \<subseteq> fst ` set (ll_ips l)" "distinct (map fst m)"
    using m assms(2) evictLocked_keys(1) [of iter now "ll_ips l"] evictLocked_keys(2) [of "ll_ips l" iter now]
    by (auto simp: sm_def limiter_wf_def split: option.splits)
  have "length (ip_delete ?k m) < maxTracked"
  proof (cases "ip_get (ll_ips l) ?k")
    case None
    then have "length m < maxTracked"
      using m assms evictLocked_length by (auto simp: sm_def limiter_wf_def)
    then show ?thesis using length_ip_delete_le [of ?k m] by simp
  next
    case (Some st')
    then show ?thesis
      using m assms(2) length_ip_delete_mem [OF ip_get_Some_mem [OF Some]]
      by (auto simp: sm_def limiter_wf_def)
  qed
  then have "length (ip_put ?k (bump now st) m) \<le> maxTracked" by (simp add: ip_put_def)
  moreover have noloop: "\<forall>k \<in> fst ` set (ip_put ?k (bump now st) m). \<not> isLoopbackKey k"
    using keys(1) False assms(2) unfolding limiter_wf_def keys_ip_put by (metis insert_iff subset_iff)
  moreover have "Fail iter ip now l = recordGlobalLocked now (l\<lparr>ll_ips := ip_put ?k (bump now st) m\<rparr>)"
    using False m by (simp add: Fail_def Let_def sm_def)
  ultimately show ?thesis
    using False assms(2) distinct_ip_put [OF keys(2), of ?k "bump now st"] noloop
    by (simp add: limiter_wf_def recordGlobalLocked_globals)
qed

text \<open>Any interleaving of failures and successes; each failure brings its own iteration order.\<close>

datatype limiter_event =
    FailEv "(bucket \<times> ip_state) list \<Rightarrow> (bucket \<times> ip_state) list" peer gotime
  | SuccessEv peer

fun limiter_step :: "limiter_event \<Rightarrow> login_limiter \<Rightarrow> login_limiter" where
  "limiter_step (FailEv iter ip now) l = Fail iter ip now l"
| "limiter_step (SuccessEv ip) l = Success ip l"

definition go_iteration :: "limiter_event \<Rightarrow> bool" where
  "go_iteration e \<longleftrightarrow> (case e of FailEv iter _ _ \<Rightarrow> map_iteration iter | SuccessEv _ \<Rightarrow> True)"

lemma limiter_wf_step: "limiter_wf l \<Longrightarrow> go_iteration e \<Longrightarrow> limiter_wf (limiter_step e l)"
  by (cases e) (auto simp: go_iteration_def intro: inv_intros)

lemma limiter_wf_run:
  "limiter_wf l \<Longrightarrow> list_all go_iteration evs \<Longrightarrow> limiter_wf (fold limiter_step evs l)"
  by (induction evs arbitrary: l) (auto intro: limiter_wf_step)


lemma Fail_globals: "ll_globals (Fail iter ip now l) = ll_globals (recordGlobalLocked now l)"
  and Fail_gLocked: "ll_gLocked (Fail iter ip now l) = ll_gLocked (recordGlobalLocked now l)"
  by (auto simp: Fail_def Let_def recordGlobalLocked_def split: option.splits prod.splits)

lemma time_sub_pos: "a < b \<Longrightarrow> 0 < time_sub b a" and time_sub_le: "a < b \<Longrightarrow> time_sub b a \<le> b - a"
  by (auto simp: time_sub_def min_duration_def max_duration_def)

section \<open>Properties\<close>






text \<open>
  The advised wait is honest: when \<open>Allow\<close> refuses, the duration it returns is positive, and
  until it is over the same state keeps refusing, so no shorter wait would do.
\<close>

theorem Allow_retryAfter_honest:
  assumes "Allow ip now l = (False, d)"
  shows "0 < d \<and> (\<forall>t. now \<le> t \<and> t < now + d \<longrightarrow> \<not> fst (Allow ip t l))"
proof (cases "now < ll_gLocked l")
  case True
  then show ?thesis
    using assms time_sub_pos [OF True] time_sub_le [OF True] by (auto simp: Allow_def)
next
  case False
  then obtain st where st: "ip_get (ll_ips l) (Key ip) = Some st" "now < st_until st" "d = time_sub (st_until st) now"
    using assms by (auto simp: Allow_def split: option.splits if_splits)
  then show ?thesis
    using time_sub_pos [OF st(2)] time_sub_le [OF st(2)] by (auto simp: Allow_def)
qed

text \<open>
  The global window: forty-one failures within one minute, from any addresses, starting with
  no recorded failure, lock every address out for a minute after the last of them.
\<close>

theorem global_window_locks_everyone:
  fixes fs :: "(((bucket \<times> ip_state) list \<Rightarrow> (bucket \<times> ip_state) list) \<times> peer \<times> gotime) list"
  assumes "ll_globals l = []" and "length fs = 41"
    and "\<And>f. f \<in> set fs \<Longrightarrow> a \<le> snd (snd f) \<and> snd (snd f) < a + globalWindow"
    and "snd (snd (last fs)) = t0" and "t < t0 + globalLock"
  shows "\<not> fst (Allow ip t (fold (\<lambda>(i, ip, t). Fail i ip t) fs l))"
proof -
  obtain gs g where fs: "fs = gs @ [g]" "length gs = 40" and g: "snd (snd g) = t0"
    using assms(2,4) by (cases fs rule: rev_cases) auto
  let ?run = "\<lambda>xs. fold (\<lambda>(i, ip, t). Fail i ip t) xs l"
  let ?times = "map (\<lambda>f. snd (snd f))"
  have keep: "filter (\<lambda>t. t > snd (snd x) - globalWindow) (?times xs) = ?times xs"
    if "x \<in> set fs" "set xs \<subseteq> set fs" for x xs
  proof -
    have "snd (snd y) > snd (snd x) - globalWindow" if "y \<in> set xs" for y
      using assms(3) [of y] assms(3) [of x] that \<open>x \<in> set fs\<close> \<open>set xs \<subseteq> set fs\<close> by auto
    then show ?thesis by (simp add: filter_id_conv)
  qed
  have gl: "ll_globals (?run xs) = ?times xs" if "length xs \<le> 40" "set xs \<subseteq> set fs" for xs
    using that
  proof (induction xs rule: rev_induct)
    case (snoc x xs)
    then have IH: "ll_globals (?run xs) = ?times xs" and "x \<in> set fs" "set xs \<subseteq> set fs" by auto
    obtain i p u where x: "x = (i, p, u)" by (rule prod_cases3)
    show ?case
      using IH snoc.prems(1) keep [OF \<open>x \<in> set fs\<close> \<open>set xs \<subseteq> set fs\<close>]
      by (simp add: x Fail_globals recordGlobalLocked_def Let_def globalMax_def del: length_filter_map)
  qed (simp add: assms(1))
  obtain i p where g': "g = (i, p, t0)" using g by (cases g) auto
  have "set gs \<subseteq> set fs" "g \<in> set fs" using fs by auto
  then have "ll_gLocked (?run fs) = t0 + globalLock"
    using fs gl [of gs] keep [of g gs] g'
    by (simp add: Fail_gLocked recordGlobalLocked_def Let_def globalMax_def del: length_filter_map)
  then show ?thesis using assms(5) by (simp add: Allow_def)
qed

text \<open>
  Bounded memory: after any sequence of failures and successes, under any map iteration
  order, at most 4096 addresses and at most 40 failure times are kept, every address once, and no
  IPv4 loopback address has an entry (so the shared proxy address is never locked out by itself).
\<close>

theorem limiter_stays_bounded:
  assumes "list_all go_iteration evs"
  shows "let l = fold limiter_step evs NewLoginLimiter in
    length (ll_ips l) \<le> maxTracked \<and> length (ll_globals l) \<le> globalMax \<and>
    distinct (map fst (ll_ips l)) \<and> (\<forall>k \<in> fst ` set (ll_ips l). \<not> isLoopbackKey k)"
  using limiter_wf_run [OF limiter_wf_New assms] by (simp add: limiter_wf_def Let_def)


end
