(* ===== verification/Cron.thy ===== *)
theory Cron
  imports Calendar GoStrings
begin

text \<open>
  The cron specs of the automation scheduler (\<open>internal/automation/cron.go\<close>): parsing a
  five-field spec into 64-bit masks, the next matching minute, and the check of the minimum
  cadence. Numbers of the parser are 64-bit \<open>int\<close>s: the stepping loop of \<open>parseCronField\<close> is
  written with its wrap-around and as a partial function, since nothing in the loop bounds the
  step; \<open>Next\<close> is total, its loop always moves forward.
\<close>

unbundle bit_operations_syntax

definition MinCronInterval :: duration where
  "MinCronInterval = 5 * Minute"

record cron =
  c_spec :: string
  c_min :: "64 word"
  c_hour :: "64 word"
  c_dom :: "64 word"
  c_mon :: "64 word"
  c_dw :: "64 word"
  domStar :: bool
  dowStar :: bool

text \<open>The errors of \<open>ParseCron\<close>, one constructor per message.\<close>

datatype cron_error =
    WantFiveFields string
  | EmptyListItem string string
  | BadStep string string
  | OutOfRange string string int int
  | NotANumber string string
  | TooFrequent string duration

definition cronMacros :: "string \<rightharpoonup> string" where
  "cronMacros = [''@hourly'' \<mapsto> ''0 * * * *'', ''@daily'' \<mapsto> ''0 0 * * *'', ''@weekly'' \<mapsto> ''0 0 * * 0'']"

definition monthNames :: "string \<rightharpoonup> int" where
  "monthNames = [''jan'' \<mapsto> 1, ''feb'' \<mapsto> 2, ''mar'' \<mapsto> 3, ''apr'' \<mapsto> 4, ''may'' \<mapsto> 5, ''jun'' \<mapsto> 6,
     ''jul'' \<mapsto> 7, ''aug'' \<mapsto> 8, ''sep'' \<mapsto> 9, ''oct'' \<mapsto> 10, ''nov'' \<mapsto> 11, ''dec'' \<mapsto> 12]"

definition dayNames :: "string \<rightharpoonup> int" where
  "dayNames = [''sun'' \<mapsto> 0, ''mon'' \<mapsto> 1, ''tue'' \<mapsto> 2, ''wed'' \<mapsto> 3, ''thu'' \<mapsto> 4, ''fri'' \<mapsto> 5, ''sat'' \<mapsto> 6]"

definition cronValue :: "string \<Rightarrow> (string \<rightharpoonup> int) \<Rightarrow> string \<Rightarrow> cron_error + int" where
  "cronValue s names what =
     (case names (ToLower s) of
        Some v \<Rightarrow> Inr v
      | None \<Rightarrow> (case Atoi s of None \<Rightarrow> Inl (NotANumber what s) | Some v \<Rightarrow> Inr v))"

text \<open>
  \<open>1 << uint(v)\<close> on \<open>uint64\<close>: a negative \<open>v\<close> converts to a huge shift count, and a count of 64 or
  more gives 0. Addition on \<open>int\<close> wraps at 64 bits.
\<close>

definition one_shl :: "int \<Rightarrow> 64 word" where
  "one_shl v = (if 0 \<le> v \<and> v < 64 then push_bit (nat v) 1 else 0)"

definition wrap64 :: "int \<Rightarrow> int" where
  "wrap64 v = (v + 2 ^ 63) mod 2 ^ 64 - 2 ^ 63"

text \<open>The loop \<open>for v := from; v <= to; v += step { set |= 1 << uint(v) }\<close>.\<close>

partial_function (option) step_loop :: "int \<Rightarrow> int \<Rightarrow> int \<Rightarrow> 64 word \<Rightarrow> 64 word option" where
  "step_loop to step v acc =
     (if v \<le> to then step_loop to step (wrap64 (v + step)) (acc OR one_shl v) else Some acc)"

text \<open>The range text and the step of one list item, and the range.\<close>

definition item_step :: "string \<Rightarrow> string \<Rightarrow> string \<Rightarrow> cron_error + (string \<times> int)" where
  "item_step part s what =
     (case IndexByte part CHR ''/'' of
        None \<Rightarrow> Inr (part, 1)
      | Some i \<Rightarrow>
          (case Atoi (drop (i + 1) part) of
             None \<Rightarrow> Inl (BadStep what s)
           | Some n \<Rightarrow> if n < 1 then Inl (BadStep what s) else Inr (take i part, n)))"

definition item_range ::
  "string \<Rightarrow> string \<Rightarrow> int \<Rightarrow> int \<Rightarrow> int \<Rightarrow> (string \<rightharpoonup> int) \<Rightarrow> string \<Rightarrow> cron_error + (int \<times> int)" where
  "item_range part rng step lo hi names what =
     (if rng = ''*'' then Inr (lo, hi)
      else if Contains rng ''-'' then
        (case CutByte rng CHR ''-'' of (a, b, _) \<Rightarrow>
          (case cronValue a names what of
             Inl e \<Rightarrow> Inl e
           | Inr from \<Rightarrow>
               (case cronValue b names what of Inl e \<Rightarrow> Inl e | Inr to \<Rightarrow> Inr (from, to))))
      else
        (case cronValue rng names what of
           Inl e \<Rightarrow> Inl e
         | Inr v \<Rightarrow> Inr (v, if step \<noteq> 1 \<or> Contains part ''/'' then hi else v)))"

fun parse_items ::
  "string list \<Rightarrow> string \<Rightarrow> int \<Rightarrow> int \<Rightarrow> (string \<rightharpoonup> int) \<Rightarrow> string \<Rightarrow> 64 word \<Rightarrow> (cron_error + 64 word) option" where
  "parse_items [] s lo hi names what acc = Some (Inr acc)"
| "parse_items (part # parts) s lo hi names what acc =
     (if part = [] then Some (Inl (EmptyListItem what s))
      else case item_step part s what of
        Inl e \<Rightarrow> Some (Inl e)
      | Inr (rng, step) \<Rightarrow>
          (case item_range part rng step lo hi names what of
             Inl e \<Rightarrow> Some (Inl e)
           | Inr (from, to) \<Rightarrow>
               if from < lo \<or> to > hi \<or> from > to then Some (Inl (OutOfRange what s lo hi))
               else case step_loop to step from acc of
                 None \<Rightarrow> None
               | Some acc' \<Rightarrow> parse_items parts s lo hi names what acc'))"

definition parseCronField ::
  "string \<Rightarrow> int \<Rightarrow> int \<Rightarrow> (string \<rightharpoonup> int) \<Rightarrow> string \<Rightarrow> (cron_error + 64 word \<times> bool) option" where
  "parseCronField s lo hi names what =
     (case parse_items (SplitByte s CHR '','') s lo hi names what 0 of
        None \<Rightarrow> None
      | Some (Inl e) \<Rightarrow> Some (Inl e)
      | Some (Inr acc) \<Rightarrow> Some (Inr (acc, s = ''*'')))"

section \<open>Matching and the next instant\<close>

definition has_bit :: "64 word \<Rightarrow> int \<Rightarrow> bool" where
  "has_bit w v \<longleftrightarrow> w AND one_shl v \<noteq> 0"

definition dayMatches :: "cron \<Rightarrow> gotime \<Rightarrow> bool" where
  "dayMatches c t =
     (let domOK = has_bit (c_dom c) (Day t); dowOK = has_bit (c_dw c) (Weekday t)
      in if domStar c \<and> dowStar c then True
         else if domStar c then dowOK
         else if dowStar c then domOK
         else domOK \<or> dowOK)"

definition matches :: "cron \<Rightarrow> gotime \<Rightarrow> bool" where
  "matches c t \<longleftrightarrow> has_bit (c_min c) (MinuteOf t) \<and> has_bit (c_hour c) (HourOf t) \<and>
     has_bit (c_mon c) (Month t) \<and> dayMatches c t"

lemma Date_forward:
  "t < Date (Year t) (Month t + 1) 1 0 0"
  "t < Date (Year t) (Month t) (Day t + 1) 0 0"
  "t < Date (Year t) (Month t) (Day t) (HourOf t + 1) 0"
  using Date_next_month(1) slot_upper [of DayLen t] slot_upper [of Hour t]
  by (simp_all add: Date_next_day Date_next_hour)

text \<open>The loop of \<open>Next\<close>; \<open>None\<close> is \<open>ok = false\<close>.\<close>

function next_loop :: "cron \<Rightarrow> gotime \<Rightarrow> gotime \<Rightarrow> gotime option" where
  "next_loop c limit t =
     (if \<not> t < limit then None
      else if \<not> has_bit (c_mon c) (Month t) then
        next_loop c limit (Date (Year t) (Month t + 1) 1 0 0)
      else if \<not> dayMatches c t then
        next_loop c limit (Date (Year t) (Month t) (Day t + 1) 0 0)
      else if \<not> has_bit (c_hour c) (HourOf t) then
        next_loop c limit (Date (Year t) (Month t) (Day t) (HourOf t + 1) 0)
      else if \<not> has_bit (c_min c) (MinuteOf t) then next_loop c limit (t + Minute)
      else Some t)"
  by pat_completeness auto

termination
  using Date_forward by (relation "measure (\<lambda>(c, limit, t). nat (limit - t))") (auto simp: nat_mono_iff)

declare next_loop.simps [simp del]

definition Next :: "cron \<Rightarrow> gotime \<Rightarrow> gotime option" where
  "Next c t = (let t' = TruncateMinute t + Minute in next_loop c (AddYears t' 8) t')"

definition max_gap :: duration where
  "max_gap = 2 ^ 62 - 1"

function minGap_loop :: "cron \<Rightarrow> gotime \<Rightarrow> int \<Rightarrow> gotime \<Rightarrow> duration \<Rightarrow> duration" where
  "minGap_loop c end n prev gap =
     (if n < 200000 then
        (case Next c prev of
           None \<Rightarrow> gap
         | Some nxt \<Rightarrow>
             if nxt > end then gap
             else let d = time_sub nxt prev in
               if d < gap then
                 (if d < MinCronInterval then d else minGap_loop c end (n + 1) nxt d)
               else minGap_loop c end (n + 1) nxt gap)
      else gap)"
  by pat_completeness auto
termination by (relation "measure (\<lambda>(c, end, n, prev, gap). nat (200000 - n))") auto

declare minGap_loop.simps [simp del]

definition scan_start :: gotime where
  "scan_start = Date 2024 1 1 0 0"

definition minGap :: "cron \<Rightarrow> duration" where
  "minGap c =
     (case Next c (scan_start - Minute) of
        None \<Rightarrow> max_gap
      | Some prev \<Rightarrow> minGap_loop c (AddYears scan_start 2) 0 prev max_gap)"

text \<open>\<open>ParseCron\<close>: the fields one after the other, the first error wins.\<close>

definition bind_field :: "(cron_error + 'a) option \<Rightarrow> ('a \<Rightarrow> (cron_error + 'b) option) \<Rightarrow> (cron_error + 'b) option" where
  "bind_field r f =
     (case r of None \<Rightarrow> None | Some (Inl e) \<Rightarrow> Some (Inl e) | Some (Inr v) \<Rightarrow> f v)"

definition fold_sunday :: "64 word \<Rightarrow> 64 word" where
  "fold_sunday dw = (if dw AND one_shl 7 \<noteq> 0 then (dw AND NOT (one_shl 7)) OR 1 else dw)"

definition check_cadence :: "cron \<Rightarrow> (cron_error + cron) option" where
  "check_cadence c =
     Some (let gap = minGap c in if gap < MinCronInterval then Inl (TooFrequent (c_spec c) gap) else Inr c)"

definition ParseCron :: "string \<Rightarrow> (cron_error + cron) option" where
  "ParseCron s0 =
     (let s1 = TrimSpace s0;
          s = (case cronMacros s1 of Some m \<Rightarrow> m | None \<Rightarrow> s1);
          f = Fields s
      in if length f \<noteq> 5 then Some (Inl (WantFiveFields s))
         else
           bind_field (parseCronField (f ! 0) 0 59 Map.empty ''minute'') (\<lambda>(mi, _).
           bind_field (parseCronField (f ! 1) 0 23 Map.empty ''hour'') (\<lambda>(ho, _).
           bind_field (parseCronField (f ! 2) 1 31 Map.empty ''day-of-month'') (\<lambda>(dom, domS).
           bind_field (parseCronField (f ! 3) 1 12 monthNames ''month'') (\<lambda>(mon, _).
           bind_field (parseCronField (f ! 4) 0 7 dayNames ''day-of-week'') (\<lambda>(dw, dowS).
           check_cadence \<lparr>c_spec = Join f '' '', c_min = mi, c_hour = ho, c_dom = dom, c_mon = mon,
             c_dw = fold_sunday dw, domStar = domS, dowStar = dowS\<rparr>))))))"

section \<open>The bits of a mask\<close>

lemma has_bit_iff: "0 \<le> v \<Longrightarrow> v < 64 \<Longrightarrow> has_bit w v \<longleftrightarrow> bit w (nat v)"
  by (auto simp: has_bit_def one_shl_def and_exp_eq_0_iff_not_bit push_bit_eq_mult)

lemma bit_one_shl: "bit (one_shl v) i \<longleftrightarrow> int i = v \<and> v < 64"
  by (auto simp: one_shl_def bit_exp_iff)

lemma wrap64_id: "- (2 ^ 63) \<le> v \<Longrightarrow> v < 2 ^ 63 \<Longrightarrow> wrap64 v = v"
  by (simp add: wrap64_def)

lemma wrap64_over: "2 ^ 63 \<le> v \<Longrightarrow> v < 2 ^ 64 \<Longrightarrow> wrap64 v = v - 2 ^ 64"
proof -
  assume v: "2 ^ 63 \<le> v" "v < 2 ^ 64"
  have "(v + 2 ^ 63) mod 2 ^ 64 = (v - 2 ^ 63 + 2 ^ 64) mod 2 ^ 64" by (simp add: add.commute)
  also have "\<dots> = (v - 2 ^ 63) mod 2 ^ 64" by (rule mod_add_self2)
  also have "\<dots> = v - 2 ^ 63" using v by simp
  finally show ?thesis by (simp add: wrap64_def)
qed

text \<open>
  Without wrap-around the loop sets the bits of the arithmetic progression from \<open>v\<close> up to \<open>to\<close>.
\<close>

lemma step_loop_bits:
  assumes "1 \<le> step" "step + to < 2 ^ 63" "0 \<le> v" "to < 64"
  shows "\<exists>w. step_loop to step v acc = Some w \<and>
    (\<forall>i. bit w i \<longleftrightarrow> bit acc i \<or> (v \<le> int i \<and> int i \<le> to \<and> step dvd (int i - v)))"
  using assms(3)
proof (induction "nat (to + 1 - v)" arbitrary: v acc rule: less_induct)
  case less
  show ?case
  proof (cases "v \<le> to")
    case False
    then show ?thesis by (auto simp: step_loop.simps [of to step v])
  next
    case True
    have w: "wrap64 (v + step) = v + step" using True assms less.prems by (intro wrap64_id) auto
    have "nat (to + 1 - (v + step)) < nat (to + 1 - v)" using True assms by auto
    from less.hyps [OF this, of "acc OR one_shl v"] obtain w' where w': "step_loop to step (v + step) (acc OR one_shl v) = Some w'"
      "\<And>i. bit w' i \<longleftrightarrow> bit (acc OR one_shl v) i \<or> (v + step \<le> int i \<and> int i \<le> to \<and> step dvd (int i - (v + step)))"
      using assms less.prems by auto
    have "step dvd (int i - v) \<Longrightarrow> v \<le> int i \<Longrightarrow> int i \<noteq> v \<Longrightarrow> v + step \<le> int i" for i
      using zdvd_imp_le [of step "int i - v"] by auto
    moreover have "step dvd (int i - (v + step)) \<longleftrightarrow> step dvd (int i - v)" for i
      by (metis diff_diff_eq dvd_diff_commute dvd_minus_add dvd_refl zdvd_zdiffD dvd_diff)
    ultimately have "bit w' i \<longleftrightarrow> bit acc i \<or> (v \<le> int i \<and> int i \<le> to \<and> step dvd (int i - v))" for i
      using w'(2) [of i] True assms by (auto simp: bit_or_iff bit_one_shl)
    then show ?thesis using w'(1) True by (auto simp: step_loop.simps [of to step v] w)
  qed
qed

text \<open>
  A step close to the largest \<open>int\<close> wraps: from \<open>v\<close> the loop goes to a negative number and comes
  back two steps of \<open>2^63 - step\<close> below \<open>v\<close>, so it still ends.
\<close>

lemma step_loop_wraps_to:
  assumes "0 < k" "k \<le> v" "v \<le> to" "to < 64" "s = 2 ^ 63 - k"
  shows "step_loop to s v acc = step_loop to s (v - 2 * k) (acc OR one_shl v)"
proof -
  let ?u = "v - k - 2 ^ 63"
  have "wrap64 (v + s) = ?u" using assms wrap64_over [of "v + s"] by simp
  moreover have "wrap64 (?u + s) = v - 2 * k" using assms wrap64_id [of "?u + s"] by simp
  moreover have "one_shl ?u = 0" "?u \<le> to" using assms by (simp_all add: one_shl_def)
  ultimately show ?thesis using assms(3)
    by (simp only: step_loop.simps [of to s v] step_loop.simps [of to s ?u] if_True or.right_neutral)
qed

lemma step_loop_small_total:
  assumes "0 < k" "k \<le> 64" "- k \<le> v" "v < k" "to < 64" "s = 2 ^ 63 - k"
  shows "\<exists>w. step_loop to s v acc = Some w"
proof -
  have "wrap64 (v + s) = v + s" using assms by (intro wrap64_id) auto
  moreover have "\<not> v + s \<le> to" using assms by simp
  ultimately show ?thesis by (auto simp: step_loop.simps [of to s v] step_loop.simps [of to s "v + s"])
qed

lemma step_loop_big_total:
  assumes "0 < k" "k \<le> 64" "to < 64" "- k \<le> v" "v \<le> to" "s = 2 ^ 63 - k"
  shows "\<exists>w. step_loop to s v acc = Some w"
  using assms(4,5)
proof (induction "nat (v + k)" arbitrary: v acc rule: less_induct)
  case less
  show ?case
  proof (cases "k \<le> v")
    case True
    then show ?thesis
      using less.hyps [of "v - 2 * k"] less.prems assms step_loop_wraps_to [of k v to s acc] by auto
  next
    case False
    then show ?thesis using step_loop_small_total [of k v to s acc] less.prems assms by auto
  qed
qed

lemma step_loop_total:
  assumes "1 \<le> step" "step < 2 ^ 63" "0 \<le> v" "v \<le> to" "to < 64"
  shows "\<exists>w. step_loop to step v acc = Some w"
proof (cases "step + to < 2 ^ 63")
  case True
  then show ?thesis using step_loop_bits [of step to v acc] assms by blast
next
  case False
  then show ?thesis using step_loop_big_total [of "2 ^ 63 - step" to v step acc] assms by auto
qed

section \<open>Parsing\<close>

lemma item_step_positive: "item_step part s what = Inr (rng, step) \<Longrightarrow> 1 \<le> step \<and> step < 2 ^ 63"
  by (auto simp: item_step_def Atoi_def Let_def split: option.splits if_splits)

lemma parse_items_total:
  assumes "0 \<le> lo" "hi < 64"
  shows "\<exists>r. parse_items parts s lo hi names what acc = Some r"
proof (induction parts arbitrary: acc)
  case (Cons part parts)
  have "\<exists>w. step_loop to step fr acc = Some w"
    if "item_step part s what = Inr (rng, step)" "\<not> (fr < lo \<or> to > hi \<or> fr > to)" for rng step fr to
    using step_loop_total [of step fr to acc] item_step_positive [OF that(1)] that(2) assms by auto
  then show ?case using Cons by (fastforce split: sum.splits prod.splits option.splits)
qed simp

lemma parseCronField_total:
  "0 \<le> lo \<Longrightarrow> hi < 64 \<Longrightarrow> \<exists>r. parseCronField s lo hi names what = Some r"
  using parse_items_total [of lo hi "SplitByte s CHR '',''" s names what 0]
  by (auto simp: parseCronField_def split: sum.splits)

lemma bind_field_total: "\<exists>v. r = Some v \<Longrightarrow> (\<And>x. \<exists>v. f x = Some v) \<Longrightarrow> \<exists>v. bind_field r f = Some v"
  by (auto simp: bind_field_def split: sum.splits)

text \<open>
  Parsing always ends: whatever the text, \<open>ParseCron\<close> returns a spec or an error. The
  stepping loop of \<open>parseCronField\<close> ends for every step that \<open>strconv.Atoi\<close> can return, also
  for those that make its 64-bit counter wrap around.
\<close>

theorem ParseCron_returns: "\<exists>r. ParseCron s = Some r"
  unfolding ParseCron_def Let_def check_cadence_def
  by (auto intro!: bind_field_total parseCronField_total split: prod.splits)

text \<open>What one list item selects: the values of its range at multiples of its step.\<close>

definition item_selects :: "string \<Rightarrow> string \<Rightarrow> int \<Rightarrow> int \<Rightarrow> (string \<rightharpoonup> int) \<Rightarrow> string \<Rightarrow> int \<Rightarrow> bool" where
  "item_selects s part lo hi names what v =
     (case item_step part s what of
        Inl e \<Rightarrow> False
      | Inr (rng, step) \<Rightarrow>
          (case item_range part rng step lo hi names what of
             Inl e \<Rightarrow> False
           | Inr (fr, to) \<Rightarrow> fr \<le> v \<and> v \<le> to \<and> step dvd (v - fr)))"

definition small_step :: "string \<Rightarrow> string \<Rightarrow> string \<Rightarrow> bool" where
  "small_step s what part =
     (case item_step part s what of Inl e \<Rightarrow> True | Inr (rng, step) \<Rightarrow> step < 2 ^ 62)"

lemma parse_items_bits:
  assumes "0 \<le> lo" "hi < 64" "\<forall>part\<in>set parts. small_step s what part"
    and "parse_items parts s lo hi names what acc = Some (Inr w)"
  shows "bit w i \<longleftrightarrow> bit acc i \<or> (\<exists>part\<in>set parts. item_selects s part lo hi names what (int i))"
  using assms(3,4)
proof (induction parts arbitrary: acc)
  case (Cons part parts)
  from Cons.prems(2) obtain rng step fr to acc' where
    p: "item_step part s what = Inr (rng, step)" "item_range part rng step lo hi names what = Inr (fr, to)"
      "lo \<le> fr" "to \<le> hi" "step_loop to step fr acc = Some acc'"
      "parse_items parts s lo hi names what acc' = Some (Inr w)"
    by (auto split: if_splits sum.splits prod.splits option.splits)
  have "step < 2 ^ 62" "1 \<le> step" using Cons.prems(1) p(1) item_step_positive [OF p(1)] by (auto simp: small_step_def)
  then obtain w' where "step_loop to step fr acc = Some w'"
    "\<forall>i. bit w' i \<longleftrightarrow> bit acc i \<or> (fr \<le> int i \<and> int i \<le> to \<and> step dvd (int i - fr))"
    using step_loop_bits [of step to fr acc] assms(1,2) p(3,4) by auto
  with p(5) have "bit acc' i \<longleftrightarrow> bit acc i \<or> item_selects s part lo hi names what (int i)"
    by (simp add: item_selects_def p(1,2))
  then show ?case using Cons.IH [OF _ p(6)] Cons.prems(1) by auto
qed simp

text \<open>
  A parsed field is the union of its list items: bit \<open>v\<close> of the mask is set exactly when one
  of the comma-separated items selects \<open>v\<close>, that is, \<open>v\<close> is in the item's range at a multiple
  of its step, and no bit outside \<open>lo..hi\<close> is set. Hypothesis: no item has a step of \<open>2^62\<close> or more.
\<close>

theorem parseCronField_meaning:
  assumes "0 \<le> lo" "hi < 64" "\<forall>part\<in>set (SplitByte s CHR '',''). small_step s what part"
    and "parseCronField s lo hi names what = Some (Inr (w, star))"
  shows "(bit w i \<longleftrightarrow> (\<exists>part\<in>set (SplitByte s CHR '',''). item_selects s part lo hi names what (int i)))
    \<and> star = (s = ''*'')"
  using parse_items_bits [OF assms(1-3), of names 0 w i] assms(4)
  by (auto simp: parseCronField_def split: option.splits sum.splits)

lemmas cron_eval = parseCronField_def step_loop.simps one_shl_def wrap64_def item_step_def item_range_def
  cronValue_def Atoi_def HasPrefix_def is_digit_char_def digit_value_def Contains_def CutByte_def

text \<open>
  A huge step wraps the loop counter: the item \<open>5/9223372036854775807\<close> of the hour field,
  which by the standard reading of cron selects hour 5 only, also selects hours 3 and 1.
\<close>

theorem huge_step_selects_other_hours:
  "parseCronField ''5/9223372036854775807'' 0 23 Map.empty ''hour'' = Some (Inr (42, False))
    \<and> bit (42 :: 64 word) 5 \<and> bit (42 :: 64 word) 3 \<and> bit (42 :: 64 word) 1
    \<and> (\<forall>v. item_selects ''5/9223372036854775807'' ''5/9223372036854775807'' 0 23 Map.empty ''hour'' v \<longleftrightarrow> v = 5)"
proof -
  have "5 \<le> v \<and> v \<le> 23 \<and> 9223372036854775807 dvd v - 5 \<longleftrightarrow> v = 5" for v :: int
    using zdvd_imp_le [of 9223372036854775807 "v - 5"] by (cases "v = 5") auto
  then show ?thesis by (auto simp: cron_eval item_selects_def)
qed

section \<open>The next matching minute\<close>

definition on_minute :: "gotime \<Rightarrow> bool" where
  "on_minute t \<longleftrightarrow> t mod Minute = 0"

definition no_match :: "cron \<Rightarrow> gotime \<Rightarrow> gotime \<Rightarrow> bool" where
  "no_match c a b \<longleftrightarrow> (\<forall>v. a \<le> v \<and> v < b \<and> on_minute v \<longrightarrow> \<not> matches c v)"

lemma no_match_trans: "no_match c a b \<Longrightarrow> no_match c b d \<Longrightarrow> no_match c a d"
  unfolding no_match_def by (meson not_less)

lemma dayMatches_same_day: "v div DayLen = t div DayLen \<Longrightarrow> dayMatches c v = dayMatches c t"
  using readers_same_day [of v t] by (simp add: dayMatches_def)

lemma HourOf_same_hour: "v div Hour = t div Hour \<Longrightarrow> HourOf v = HourOf t"
  by (simp add: HourOf_def hours_of_day)

lemma on_minute_eqI: "on_minute t \<Longrightarrow> on_minute v \<Longrightarrow> t \<le> v \<Longrightarrow> v < t + Minute \<Longrightarrow> v = t"
proof -
  assume a: "on_minute t" "on_minute v" "t \<le> v" "v < t + Minute"
  then have t: "t = t div Minute * Minute" "v = v div Minute * Minute"
    by (auto simp: on_minute_def)
  then have "v < (t div Minute + 1) * Minute" using a(4) by (simp add: distrib_right)
  then have "v div Minute = t div Minute" using slot_same [of Minute t v] a(3) by simp
  then show ?thesis using t by simp
qed

text \<open>Each jump of the loop skips only instants that do not match.\<close>

lemma skip_month: "\<not> has_bit (c_mon c) (Month t) \<Longrightarrow> no_match c t (Date (Year t) (Month t + 1) 1 0 0)"
  using Date_next_month(2) by (auto simp: no_match_def matches_def)

lemma skip_day: "\<not> dayMatches c t \<Longrightarrow> no_match c t (Date (Year t) (Month t) (Day t + 1) 0 0)"
  by (auto simp only: no_match_def matches_def Date_next_day DayLen_pos dest!: slot_same [OF DayLen_pos(1)] dayMatches_same_day)

lemma skip_hour:
  "\<not> has_bit (c_hour c) (HourOf t) \<Longrightarrow> no_match c t (Date (Year t) (Month t) (Day t) (HourOf t + 1) 0)"
  by (auto simp only: no_match_def matches_def Date_next_hour dest!: slot_same [OF DayLen_pos(2)] HourOf_same_hour)

lemma skip_minute: "on_minute t \<Longrightarrow> \<not> has_bit (c_min c) (MinuteOf t) \<Longrightarrow> no_match c t (t + Minute)"
  using on_minute_eqI [of t] by (auto simp: no_match_def matches_def)

definition first_match :: "cron \<Rightarrow> gotime \<Rightarrow> gotime \<Rightarrow> gotime option \<Rightarrow> bool" where
  "first_match c limit t r \<longleftrightarrow>
     (case r of
        None \<Rightarrow> no_match c t limit
      | Some u \<Rightarrow> t \<le> u \<and> u < limit \<and> on_minute u \<and> matches c u \<and> no_match c t u)"

lemma first_match_skip: "no_match c t u \<Longrightarrow> t < u \<Longrightarrow> first_match c limit u r \<Longrightarrow> first_match c limit t r"
  by (auto simp: first_match_def split: option.splits intro: no_match_trans)

lemma next_loop_first_match: "on_minute t \<Longrightarrow> first_match c limit t (next_loop c limit t)"
proof (induction c limit t rule: next_loop.induct)
  case (1 c limit t)
  have al: "on_minute (Date y m d h mi)" "on_minute (t + Minute)" for y m d h mi
    using "1.prems" by (simp_all add: on_minute_def Date_aligned)
  consider (late) "\<not> t < limit" | (mon) "t < limit" "\<not> has_bit (c_mon c) (Month t)"
    | (day) "t < limit" "has_bit (c_mon c) (Month t)" "\<not> dayMatches c t"
    | (hour) "t < limit" "has_bit (c_mon c) (Month t)" "dayMatches c t" "\<not> has_bit (c_hour c) (HourOf t)"
    | (min) "t < limit" "has_bit (c_mon c) (Month t)" "dayMatches c t" "has_bit (c_hour c) (HourOf t)"
        "\<not> has_bit (c_min c) (MinuteOf t)"
    | (hit) "t < limit" "matches c t" by (auto simp: matches_def)
  then show ?case
  proof cases
    case late
    then show ?thesis by (auto simp: next_loop.simps [of c limit t] first_match_def no_match_def)
  next
    case mon
    then show ?thesis using "1.IH"(1) al first_match_skip [OF skip_month Date_forward(1)]
      by (simp add: next_loop.simps [of c limit t])
  next
    case day
    then show ?thesis using "1.IH"(2) al first_match_skip [OF skip_day Date_forward(2)]
      by (simp add: next_loop.simps [of c limit t])
  next
    case hour
    then show ?thesis using "1.IH"(3) al first_match_skip [OF skip_hour Date_forward(3)]
      by (simp add: next_loop.simps [of c limit t])
  next
    case min
    then show ?thesis using "1.IH"(4) al first_match_skip [OF skip_minute [OF "1.prems"]]
      by (simp add: next_loop.simps [of c limit t])
  next
    case hit
    then show ?thesis using "1.prems"
      by (auto simp: next_loop.simps [of c limit t] first_match_def no_match_def matches_def)
  qed
qed

lemma TruncateMinute_next: "on_minute (TruncateMinute t + Minute)" "t < TruncateMinute t + Minute"
  using pos_mod_bound [of Minute t] by (simp_all add: on_minute_def TruncateMinute_def mod_add_eq)

lemma after_iff_next_minute: "on_minute v \<Longrightarrow> t < v \<longleftrightarrow> TruncateMinute t + Minute \<le> v"
proof
  assume v: "on_minute v" and "t < v"
  let ?T = "TruncateMinute t"
  have T: "on_minute ?T" "?T \<le> v" using \<open>t < v\<close> pos_mod_sign [OF DayLen_pos(3), of t]
    unfolding TruncateMinute_def on_minute_def by (simp, linarith)
  have "v \<noteq> ?T" using \<open>t < v\<close> pos_mod_sign [OF DayLen_pos(3), of t] unfolding TruncateMinute_def by linarith
  with on_minute_eqI [OF T(1) v T(2)] show "?T + Minute \<le> v" by linarith
qed (use TruncateMinute_next(2) [of t] in linarith)

lemma first_match_unique: "first_match c l t r \<Longrightarrow> first_match c l t r' \<Longrightarrow> r = r'"
  unfolding first_match_def no_match_def by (auto split: option.splits) (meson not_less linorder_neqE)+

lemma Next_iff_first_match:
  "Next c t = x \<longleftrightarrow> first_match c (AddYears (TruncateMinute t + Minute) 8) (TruncateMinute t + Minute) x"
proof -
  let ?s = "TruncateMinute t + Minute"
  have "first_match c (AddYears ?s 8) ?s (Next c t)"
    unfolding Next_def Let_def by (rule next_loop_first_match [OF TruncateMinute_next(1)])
  then show ?thesis using first_match_unique by blast
qed

lemma Next_Some_D: "Next c t = Some r \<Longrightarrow> t < r \<and> on_minute r \<and> matches c r"
  using TruncateMinute_next(2) [of t] by (auto simp: Next_iff_first_match first_match_def)

text \<open>
  C14. \<open>Next\<close> is exact: it returns \<open>r\<close> if and only if \<open>r\<close> is a full minute strictly after \<open>t\<close>
  and within eight years of it that matches the spec, and no full minute between \<open>t\<close> and \<open>r\<close>
  matches; the jumps over months, days and hours lose nothing. It reports that there is none if
  and only if no full minute of the next eight years matches.
\<close>

theorem Next_least_match:
  "(Next c t = Some r \<longleftrightarrow>
      t < r \<and> r < AddYears (TruncateMinute t + Minute) 8 \<and> on_minute r \<and> matches c r
      \<and> (\<forall>v. t < v \<and> v < r \<and> on_minute v \<longrightarrow> \<not> matches c v))
   \<and> (Next c t = None \<longleftrightarrow>
      (\<forall>v. t < v \<and> v < AddYears (TruncateMinute t + Minute) 8 \<and> on_minute v \<longrightarrow> \<not> matches c v))"
proof -
  have "(\<forall>v. t < v \<and> v < b \<and> on_minute v \<longrightarrow> \<not> matches c v) \<longleftrightarrow> no_match c (TruncateMinute t + Minute) b" for b
    unfolding no_match_def using after_iff_next_minute by blast
  then show ?thesis by (auto simp: first_match_def after_iff_next_minute Next_iff_first_match)
qed

text \<open>The week's first minute of 2024-01-01, a Monday, by the spec \<open>1 0 * * 1\<close>.\<close>

definition monday_cron :: cron where
  "monday_cron = \<lparr>c_spec = ''1 0 * * 1'', c_min = 2, c_hour = 1, c_dom = 4294967294, c_mon = 8190, c_dw = 2,
     domStar = True, dowStar = False\<rparr>"

theorem Next_least_match_witness:
  "Next monday_cron (Date 2024 1 1 0 0) = Some (Date 2024 1 1 0 1)
    \<and> Date 2024 1 1 0 0 < Date 2024 1 1 0 1 \<and> on_minute (Date 2024 1 1 0 1) \<and> matches monday_cron (Date 2024 1 1 0 1)"
proof -
  have "Next monday_cron (Date 2024 1 1 0 0) = Some (Date 2024 1 1 0 1)" by code_simp
  then show ?thesis
    using Next_least_match [of monday_cron "Date 2024 1 1 0 0" "Date 2024 1 1 0 1"] by simp
qed

section \<open>The minimum cadence\<close>

text \<open>The matches from the start of 2024 on, one after the other.\<close>

fun fires :: "cron \<Rightarrow> nat \<Rightarrow> gotime option" where
  "fires c 0 = Next c (scan_start - Minute)"
| "fires c (Suc k) = Option.bind (fires c k) (Next c)"

lemma time_sub_lt_MinCronInterval: "time_sub a b < MinCronInterval \<longleftrightarrow> a - b < MinCronInterval"
  by (auto simp: time_sub_def MinCronInterval_def duration_defs min_duration_def max_duration_def)

lemma minGap_loop_le: "minGap_loop c e n prev gap \<le> gap"
proof (induction c e n prev gap rule: minGap_loop.induct)
  case (1 c e n prev gap)
  then show ?case
    by (subst minGap_loop.simps) (fastforce simp: Let_def split: option.splits)
qed

text \<open>
  The scan returns less than the minimum exactly when one of the gaps it sees is less.
\<close>

lemma minGap_loop_sees:
  assumes "MinCronInterval \<le> minGap_loop c e n prev gap" "Next c prev = Some q" "n < 200000" "q \<le> e"
  shows "MinCronInterval \<le> q - prev \<and> (\<exists>gap'. MinCronInterval \<le> minGap_loop c e (n + 1) q gap')"
  using assms time_sub_lt_MinCronInterval [of q prev] minGap_loop_le [of c e n prev gap]
  by (auto simp: minGap_loop.simps [of c e n prev gap] Let_def split: if_splits)

lemma minGap_fires:
  assumes "MinCronInterval \<le> minGap c" "k < 200000" "fires c k = Some p" "Next c p = Some q"
    and "q \<le> AddYears scan_start 2"
  shows "MinCronInterval \<le> q - p \<and>
    (\<exists>gap. MinCronInterval \<le> minGap_loop c (AddYears scan_start 2) (int k + 1) q gap)"
  using assms(2-5)
proof (induction k arbitrary: p q)
  case 0
  then have "MinCronInterval \<le> minGap_loop c (AddYears scan_start 2) 0 p max_gap"
    using assms(1) by (simp add: minGap_def)
  then show ?case using minGap_loop_sees [of c "AddYears scan_start 2" 0 p max_gap q] 0 by simp
next
  case (Suc k)
  from Suc.prems(2) obtain p' where p': "fires c k = Some p'" "Next c p' = Some p"
    by (auto simp: bind_eq_Some_conv)
  have "p < q" using Next_Some_D Suc.prems(3) by blast
  then obtain gap where "MinCronInterval \<le> minGap_loop c (AddYears scan_start 2) (int k + 1) p gap"
    using Suc.IH [OF _ p'] Suc.prems by auto
  then show ?case
    using minGap_loop_sees [of c "AddYears scan_start 2" "int k + 1" p gap q] Suc.prems by (simp add: add.commute)
qed

text \<open>Conversely, if any two matches of the two scanned years are far enough apart, the scan accepts.\<close>

lemma minGap_loop_geI:
  assumes far: "\<And>p q. on_minute q \<Longrightarrow> matches c p \<Longrightarrow> matches c q \<Longrightarrow> s \<le> p \<Longrightarrow> p < q \<Longrightarrow> q \<le> e \<Longrightarrow> on_minute p \<Longrightarrow>
      MinCronInterval \<le> q - p"
  shows "on_minute prev \<Longrightarrow> matches c prev \<Longrightarrow> s \<le> prev \<Longrightarrow> MinCronInterval \<le> gap \<Longrightarrow>
    MinCronInterval \<le> minGap_loop c e n prev gap"
  using far
proof (induction c e n prev gap rule: minGap_loop.induct)
  case (1 c e n prev gap)
  show ?case
  proof (cases "n < 200000 \<and> (\<exists>q. Next c prev = Some q \<and> q \<le> e)")
    case False
    then show ?thesis using "1.prems" by (subst minGap_loop.simps) (auto split: option.splits)
  next
    case True
    then obtain q where q: "n < 200000" "Next c prev = Some q" "q \<le> e" by auto
    note N = Next_Some_D [OF q(2)]
    have d: "\<not> time_sub q prev < MinCronInterval"
      using "1.prems"(5) [of q prev] "1.prems"(1-4) N q(3) by (simp add: time_sub_lt_MinCronInterval)
    note IH = "1.IH" [OF q(1) q(2) _ refl]
    have "s \<le> q" using N "1.prems"(3) by simp
    then show ?thesis
      using IH(1) IH(2) N q d "1.prems" by (subst minGap_loop.simps) (auto simp: Let_def)
  qed
qed

lemma AddYears_scan: "AddYears scan_start 2 = Date 2026 1 1 0 0" "on_minute scan_start"
  "scan_start - Minute < scan_start"
proof -
  show "AddYears scan_start 2 = Date 2026 1 1 0 0" unfolding scan_start_def by code_simp
qed (simp_all add: scan_start_def on_minute_def Date_aligned)

lemma Next_before_scan: "Next c (scan_start - Minute) = Some p \<Longrightarrow> scan_start \<le> p"
proof -
  assume n: "Next c (scan_start - Minute) = Some p"
  have "TruncateMinute (scan_start - Minute) + Minute = scan_start"
    using AddYears_scan(2) by (simp add: TruncateMinute_def on_minute_def)
  then show ?thesis using n by (auto simp: Next_iff_first_match first_match_def)
qed

lemma minGap_geI:
  assumes "\<And>p q. on_minute p \<Longrightarrow> on_minute q \<Longrightarrow> matches c p \<Longrightarrow> matches c q \<Longrightarrow> scan_start \<le> p \<Longrightarrow> p < q \<Longrightarrow>
      q \<le> Date 2026 1 1 0 0 \<Longrightarrow> MinCronInterval \<le> q - p"
  shows "MinCronInterval \<le> minGap c"
proof (cases "Next c (scan_start - Minute)")
  case None
  then show ?thesis by (simp add: minGap_def max_gap_def MinCronInterval_def duration_defs)
next
  case (Some p)
  then show ?thesis
    using minGap_loop_geI [of c scan_start "AddYears scan_start 2" p max_gap 0] assms Next_Some_D [OF Some]
      Next_before_scan [OF Some]
    by (simp add: minGap_def max_gap_def MinCronInterval_def duration_defs AddYears_scan)
qed

lemma check_cadence_accepts: "check_cadence c = Some (Inr d) \<longleftrightarrow> d = c \<and> MinCronInterval \<le> minGap c"
  by (auto simp: check_cadence_def Let_def)

lemma ParseCron_accepted: "ParseCron s = Some (Inr c) \<Longrightarrow> MinCronInterval \<le> minGap c"
  unfolding ParseCron_def Let_def
  by (auto simp: bind_field_def check_cadence_accepts split: if_splits option.splits sum.splits prod.splits)

text \<open>
  The cadence check of \<open>ParseCron\<close> does what it can see: of an accepted spec, two consecutive
  matches of the scanned years 2024 and 2025 are at least \<open>MinCronInterval\<close>, five minutes, apart
  (among the first 200000 of them, the bound of the scan).
\<close>

theorem accepted_spec_cadence:
  assumes "ParseCron s = Some (Inr c)" "k < 200000" "fires c k = Some p" "Next c p = Some q"
    and "q \<le> AddYears scan_start 2"
  shows "MinCronInterval \<le> q - p"
  using minGap_fires [OF ParseCron_accepted [OF assms(1)] assms(2-5)] by blast

definition newyear_cron :: cron where
  "newyear_cron = \<lparr>c_spec = ''0 0,1 1 1 0'', c_min = 1, c_hour = 3, c_dom = 2, c_mon = 2, c_dw = 1,
     domStar = False, dowStar = False\<rparr>"

lemma has_bit_1: "0 \<le> v \<Longrightarrow> v < 64 \<Longrightarrow> has_bit 1 v \<longleftrightarrow> v = 0"
  by (auto simp: has_bit_iff bit_1_iff)

lemma newyear_on_the_hour: "matches newyear_cron t \<Longrightarrow> t div Minute mod 60 = 0"
  using reader_bounds [of t] by (simp add: matches_def newyear_cron_def has_bit_1 MinuteOf_minutes)

lemma on_minute_diff: "on_minute p \<Longrightarrow> on_minute q \<Longrightarrow> q - p = (q div Minute - p div Minute) * Minute"
  by (auto simp: on_minute_def left_diff_distrib)

lemma minutes_less: "on_minute p \<Longrightarrow> on_minute q \<Longrightarrow> p < q \<longleftrightarrow> p div Minute < q div Minute"
proof -
  assume "on_minute p" "on_minute q"
  then have "0 < q - p \<longleftrightarrow> 0 < (q div Minute - p div Minute) * Minute" using on_minute_diff by metis
  then show ?thesis using DayLen_pos(3) by (auto simp: zero_less_mult_iff simp del: DayLen_pos)
qed

lemma multiples_of_60: "a mod 60 = 0 \<Longrightarrow> b mod 60 = 0 \<Longrightarrow> a < b \<Longrightarrow> 5 \<le> b - a" for a b :: int
  by presburger

lemma none_within_hour: "m mod 60 = 0 \<Longrightarrow> a mod 60 = 0 \<Longrightarrow> a < m \<Longrightarrow> m < a + 60 \<Longrightarrow> False" for a m :: int
  by presburger

lemma newyear_accepted: "MinCronInterval \<le> minGap newyear_cron"
proof (rule minGap_geI)
  fix p q assume p: "on_minute p" "on_minute q" "matches newyear_cron p" "matches newyear_cron q" "p < q"
  from p(1,2,5) have "p div Minute < q div Minute" by (simp add: minutes_less)
  with newyear_on_the_hour [OF p(3)] newyear_on_the_hour [OF p(4)] have "5 \<le> q div Minute - p div Minute"
    by (rule multiples_of_60)
  then have "5 * Minute \<le> (q div Minute - p div Minute) * Minute" by (intro mult_right_mono) (simp_all add: less_imp_le)
  then show "MinCronInterval \<le> q - p" using on_minute_diff [OF p(1,2)] by (simp add: MinCronInterval_def)
qed

lemma ParseCron_newyear: "ParseCron ''0 0,1 1 1 0'' = Some (Inr newyear_cron)"
proof -
  have "TrimSpace ''0 0,1 1 1 0'' = ''0 0,1 1 1 0''" "Fields ''0 0,1 1 1 0'' = [''0'', ''0,1'', ''1'', ''1'', ''0'']"
    by code_simp+
  moreover have "parseCronField ''0'' 0 59 Map.empty ''minute'' = Some (Inr (1, False))"
    "parseCronField ''0,1'' 0 23 Map.empty ''hour'' = Some (Inr (3, False))"
    "parseCronField ''1'' 1 31 Map.empty ''day-of-month'' = Some (Inr (2, False))"
    by (simp_all add: cron_eval)
  moreover have "ToLower ''1'' = ''1''" "ToLower ''0'' = ''0''" by code_simp+
  then have "parseCronField ''1'' 1 12 monthNames ''month'' = Some (Inr (2, False))"
    "parseCronField ''0'' 0 7 dayNames ''day-of-week'' = Some (Inr (1, False))"
    by (simp_all add: cron_eval monthNames_def dayNames_def)
  moreover have "fold_sunday 1 = 1" by (simp add: fold_sunday_def one_shl_def)
  ultimately show ?thesis
    using newyear_accepted
    by (simp add: ParseCron_def cronMacros_def bind_field_def check_cadence_accepts newyear_cron_def)
qed

lemma newyear_Next: "Next newyear_cron (Date 2024 1 1 0 0) = Some (Date 2024 1 1 1 0)"
proof -
  have m: "matches newyear_cron (Date 2024 1 1 1 0)" by code_simp
  have s: "TruncateMinute (Date 2024 1 1 0 0) + Minute = Date 2024 1 1 0 1" by code_simp
  have l: "Date 2024 1 1 1 0 < AddYears (Date 2024 1 1 0 1) 8" "Date 2024 1 1 0 1 \<le> Date 2024 1 1 1 0" by code_simp+
  have e: "Date 2024 1 1 0 1 div Minute = Date 2024 1 1 0 0 div Minute + 1"
    "Date 2024 1 1 1 0 div Minute = Date 2024 1 1 0 0 div Minute + 60" "Date 2024 1 1 0 0 div Minute mod 60 = 0" by code_simp+
  have "no_match newyear_cron (Date 2024 1 1 0 1) (Date 2024 1 1 1 0)"
    unfolding no_match_def
  proof (intro allI impI notI)
    fix v assume v: "Date 2024 1 1 0 1 \<le> v \<and> v < Date 2024 1 1 1 0 \<and> on_minute v" "matches newyear_cron v"
    then have "Date 2024 1 1 0 1 div Minute \<le> v div Minute" "v div Minute < Date 2024 1 1 1 0 div Minute"
      using zdiv_mono1 [of _ v Minute] minutes_less [of v "Date 2024 1 1 1 0"]
      by (simp_all add: on_minute_def Date_aligned)
    then show False
      using none_within_hour [OF newyear_on_the_hour [OF v(2)] e(3)] by (simp add: e)
  qed
  then show ?thesis using m l by (simp add: Next_iff_first_match first_match_def s on_minute_def Date_aligned)
qed

text \<open>
  The spec \<open>0,58 0,23 1 3 1\<close>: at 00:00, 00:58, 23:00 and 23:58 of the first of March and of the
  Mondays of March. Two matches are close only when the first of March is a Sunday.
\<close>

definition march_cron :: cron where
  "march_cron = \<lparr>c_spec = ''0,58 0,23 1 3 1'', c_min = 288230376151711745, c_hour = 8388609, c_dom = 2,
     c_mon = 8, c_dw = 2, domStar = False, dowStar = False\<rparr>"

lemma march_masks:
  "0 \<le> v \<Longrightarrow> v < 64 \<Longrightarrow> has_bit 288230376151711745 v \<longleftrightarrow> v = 0 \<or> v = 58"
  "0 \<le> v \<Longrightarrow> v < 64 \<Longrightarrow> has_bit 8388609 v \<longleftrightarrow> v = 0 \<or> v = 23"
  "0 \<le> v \<Longrightarrow> v < 64 \<Longrightarrow> has_bit 2 v \<longleftrightarrow> v = 1"
  "0 \<le> v \<Longrightarrow> v < 64 \<Longrightarrow> has_bit 8 v \<longleftrightarrow> v = 3"
proof -
  have m: "(288230376151711745 :: 64 word) = one_shl 0 OR one_shl 58" "(8388609 :: 64 word) = one_shl 0 OR one_shl 23"
    "(2 :: 64 word) = one_shl 1" "(8 :: 64 word) = one_shl 3" by (simp_all add: one_shl_def)
  show "has_bit 288230376151711745 v \<longleftrightarrow> v = 0 \<or> v = 58" "has_bit 8388609 v \<longleftrightarrow> v = 0 \<or> v = 23"
    "has_bit 2 v \<longleftrightarrow> v = 1" "has_bit 8 v \<longleftrightarrow> v = 3" if "0 \<le> v" "v < 64"
    using that unfolding m by (auto simp: has_bit_iff bit_or_iff bit_one_shl)
qed

lemma march_matches:
  "matches march_cron t \<longleftrightarrow> (MinuteOf t = 0 \<or> MinuteOf t = 58) \<and> (HourOf t = 0 \<or> HourOf t = 23)
     \<and> Month t = 3 \<and> (Day t = 1 \<or> Weekday t = 1)"
  using reader_bounds [of t] Day_bounds [of t] month_bounds(1,2) [of t]
  by (simp add: matches_def dayMatches_def march_cron_def march_masks)

text \<open>Two of the four minutes of the day are less than five minutes apart only across midnight.\<close>

lemma march_close_hours:
  fixes h k r s :: int
  assumes "r = 0 \<or> r = 58" "s = 0 \<or> s = 58" "60 * h + r < 60 * k + s" "60 * k + s < 60 * h + r + 5"
  shows "k = h + 1"
proof -
  consider "k \<le> h - 1" | "k = h" | "k = h + 1" | "h + 2 \<le> k" by linarith
  then show ?thesis using assms by cases auto
qed

lemma march_close:
  fixes m n :: int
  assumes "m mod 60 = 0 \<or> m mod 60 = 58" "m div 60 mod 24 = 0 \<or> m div 60 mod 24 = 23"
    and "n mod 60 = 0 \<or> n mod 60 = 58" "n div 60 mod 24 = 0 \<or> n div 60 mod 24 = 23"
    and "m < n" "n < m + 5"
  shows "n div 60 div 24 = m div 60 div 24 + 1"
proof -
  have hk: "n div 60 = m div 60 + 1"
    using march_close_hours [OF assms(1,3), of "m div 60" "n div 60"] assms(5,6) by (simp only: mult_div_mod_eq)
  then have "(m div 60 + 1) mod 24 = 0"
    using assms(2,4) mod_succ [of 24 "m div 60"] by (simp only: hk) (auto split: if_splits)
  then show ?thesis using div_succ [of 24 "m div 60"] by (simp only: hk) simp
qed

text \<open>
  In the scanned years the first of March is a Friday and a Saturday, so the days of two close
  matches would have to be a Monday and a first of March in a row, which they are not.
\<close>

lemma march_week:
  fixes a :: int
  assumes "a mod 7 = 5 \<or> a mod 7 = 4" "dq = dp + 1" "1 \<le> dp"
    and "dp = 1 \<or> (a + dp) mod 7 = 1" "dq = 1 \<or> (a + dq) mod 7 = 1"
  shows False
proof (cases "dp = 1")
  case True
  then have "(a + 1 + 1) mod 7 = 1" using assms by (simp add: add.assoc)
  then show False using assms(1) mod_succ [of 7 "a + 1"] mod_succ [of 7 a] by (auto split: if_splits)
next
  case False
  then have "(a + dp) mod 7 = 1" "(a + dp + 1) mod 7 = 1" using assms by (auto simp: add.assoc)
  then show False using mod_succ [of 7 "a + dp"] by simp
qed

lemma march_days_apart:
  assumes "scan_start \<le> p" "q \<le> Date 2026 1 1 0 0" "p \<le> q" "q div DayLen = p div DayLen + 1"
    and "Month p = 3" "Day p = 1 \<or> Weekday p = 1" "Month q = 3" "Day q = 1 \<or> Weekday q = 1"
  shows False
proof -
  have b: "scan_start div DayLen = 738885" "Date 2026 1 1 0 0 div DayLen = 739616" by code_simp+
  have yy: "days_before_year 2024 = 738885" "days_before_year 2026 = 739616" "days_before_year 2027 = 739981"
    "days_before_year 2025 = 739251" "days_before_month 2024 3 = 60" "days_before_month 2025 3 = 59"
    by code_simp+
  have y: "Year v = 2024 \<or> Year v = 2025" if v: "scan_start \<le> v" "v \<le> Date 2026 1 1 0 0" "Month v = 3" for v
  proof -
    have vd: "738885 \<le> v div DayLen" "v div DayLen \<le> 739616"
      using zdiv_mono1 [OF v(1) DayLen_pos(1)] zdiv_mono1 [OF v(2) DayLen_pos(1)] by (simp_all add: b)
    have "59 \<le> days_before_month (Year v) 3" by (simp add: days_before_month_def)
    then have "days_before_year (Year v) < 739616" using month_bounds(3) [of v] v(3) vd by simp
    moreover have "738885 < days_before_year (Year v + 1)"
      using year_of_day_spec(2) [of "v div DayLen"] vd(1) by (simp add: Year_def)
    ultimately show ?thesis
      using days_before_year_mono [of 2026 "Year v"] days_before_year_mono [of "Year v + 1" 2024] yy by linarith
  qed
  have d: "v div DayLen = days_before_year (Year v) + days_before_month (Year v) 3 + Day v - 1" if "Month v = 3" for v
    using Day_eq [of v] that by simp
  have w: "Weekday v = (days_before_year (Year v) + days_before_month (Year v) 3 + Day v) mod 7" if "Month v = 3" for v
    using d [OF that] by (simp add: Weekday_def)
  have yr: "Year p = 2024 \<or> Year p = 2025" "Year q = 2024 \<or> Year q = 2025"
    using y [of p] y [of q] assms(1-3,5,7) by simp_all
  then consider "Year p = 2024" "Year q = 2024" | "Year p = 2025" "Year q = 2025" | "Year p \<noteq> Year q" by auto
  then show False
  proof cases
    case 1
    have "Day q = Day p + 1" using assms(4) d [OF assms(5)] d [OF assms(7)] 1 by (simp add: yy)
    then show ?thesis
      using march_week [of 738945 "Day q" "Day p", OF _ _ Day_bounds(1)] assms(6,8) 1 w [OF assms(5)] w [OF assms(7)]
      by (simp only: yy) simp
  next
    case 2
    have "Day q = Day p + 1" using assms(4) d [OF assms(5)] d [OF assms(7)] 2 by (simp add: yy)
    then show ?thesis
      using march_week [of 739310 "Day q" "Day p", OF _ _ Day_bounds(1)] assms(6,8) 2 w [OF assms(5)] w [OF assms(7)]
      by (simp only: yy) simp
  next
    case 3
    with yr have "Year p = 2024 \<and> Year q = 2025 \<or> Year p = 2025 \<and> Year q = 2024" by argo
    then show ?thesis using assms(4) d [OF assms(5)] d [OF assms(7)] Day_bounds [of p] Day_bounds [of q]
      by (elim disjE conjE) (simp_all add: yy)
  qed
qed

lemma march_accepted: "MinCronInterval \<le> minGap march_cron"
proof (rule minGap_geI, rule ccontr)
  fix p q assume p: "on_minute p" "on_minute q" "matches march_cron p" "matches march_cron q" "p < q"
    "scan_start \<le> p" "q \<le> Date 2026 1 1 0 0" and far: "\<not> MinCronInterval \<le> q - p"
  have "(q div Minute - p div Minute) * Minute < 5 * Minute"
    using far on_minute_diff [OF p(1,2)] by (simp add: MinCronInterval_def)
  then have "q div Minute < p div Minute + 5" using mult_less_cancel_right_pos [OF DayLen_pos(3)] by (simp only: diff_less_eq add.commute)
  moreover have "p div Minute < q div Minute" using p(1,2,5) by (simp add: minutes_less)
  ultimately have "q div DayLen = p div DayLen + 1"
    using march_close [of "p div Minute" "q div Minute"] p(3,4)
    by (simp add: march_matches MinuteOf_minutes HourOf_minutes day_minutes)
  then show False using march_days_apart [of p q] p by (simp add: march_matches)
qed

lemma ParseCron_march: "ParseCron ''0,58 0,23 1 3 1'' = Some (Inr march_cron)"
proof -
  have "TrimSpace ''0,58 0,23 1 3 1'' = ''0,58 0,23 1 3 1''"
    "Fields ''0,58 0,23 1 3 1'' = [''0,58'', ''0,23'', ''1'', ''3'', ''1'']" by code_simp+
  moreover have "parseCronField ''0,58'' 0 59 Map.empty ''minute'' = Some (Inr (288230376151711745, False))"
    "parseCronField ''0,23'' 0 23 Map.empty ''hour'' = Some (Inr (8388609, False))"
    "parseCronField ''1'' 1 31 Map.empty ''day-of-month'' = Some (Inr (2, False))"
    by (simp_all add: cron_eval)
  moreover have "ToLower ''1'' = ''1''" "ToLower ''3'' = ''3''" by code_simp+
  then have "parseCronField ''3'' 1 12 monthNames ''month'' = Some (Inr (8, False))"
    "parseCronField ''1'' 0 7 dayNames ''day-of-week'' = Some (Inr (2, False))"
    by (simp_all add: cron_eval monthNames_def dayNames_def)
  moreover have "fold_sunday 2 = 2" by (simp add: fold_sunday_def one_shl_def)
  ultimately show ?thesis
    using march_accepted
    by (simp add: ParseCron_def cronMacros_def bind_field_def check_cadence_accepts march_cron_def)
qed

text \<open>
  The two scanned years do not suffice: \<open>0,58 0,23 1 3 1\<close> is accepted, yet it fires at 23:58
  on Sunday 1 March 2026 and again at 00:00 on Monday 2 March, two minutes later. The comment of
  \<open>minGap\<close> takes every field to be periodic over a year; the day of the week is not.
\<close>

theorem accepted_spec_can_fire_two_minutes_apart:
  "ParseCron ''0,58 0,23 1 3 1'' = Some (Inr march_cron)
    \<and> matches march_cron (Date 2026 3 1 23 58)
    \<and> Next march_cron (Date 2026 3 1 23 58) = Some (Date 2026 3 1 23 58 + 2 * Minute)
    \<and> 2 * Minute < MinCronInterval"
proof -
  have s: "TruncateMinute (Date 2026 3 1 23 58) + Minute = Date 2026 3 1 23 59" by code_simp
  have n: "Date 2026 3 1 23 58 + 2 * Minute = Date 2026 3 2 0 0" "Date 2026 3 1 23 59 + Minute = Date 2026 3 2 0 0"
    "Date 2026 3 2 0 0 < AddYears (Date 2026 3 1 23 59) 8" by code_simp+
  have m: "matches march_cron (Date 2026 3 1 23 58)" "matches march_cron (Date 2026 3 2 0 0)"
    "\<not> has_bit (c_min march_cron) (MinuteOf (Date 2026 3 1 23 59))" by code_simp+
  have "no_match march_cron (Date 2026 3 1 23 59) (Date 2026 3 2 0 0)"
    using skip_minute [OF _ m(3)] by (simp add: n on_minute_def Date_aligned)
  moreover have "Date 2026 3 1 23 59 \<le> Date 2026 3 2 0 0" unfolding n(2) [symmetric] by (simp add: less_imp_le)
  ultimately have "Next march_cron (Date 2026 3 1 23 58) = Some (Date 2026 3 2 0 0)"
    using m(2) n(3) by (simp add: Next_iff_first_match first_match_def s on_minute_def Date_aligned)
  then show ?thesis using ParseCron_march m(1) n(1) by (simp add: MinCronInterval_def)
qed

end
