(* ===== verification/PermSplit.thy ===== *)
theory PermSplit
  imports GoStrings
begin

text \<open>
  The shell splitter of the permission policy (\<open>internal/permpolicy/split.go\<close> and
  \<open>split_winshell.go\<close>). A command is scanned byte by byte into simple commands (segments);
  whatever the scanner cannot analyse is reported in \<open>Unparsed\<close>, and the policy then asks a human.

  A scanner is a record threaded through the operations, with the two fields it shares with the
  enclosing scan through its pointer to \<open>Parsed\<close> (\<open>Unparsed\<close>, \<open>HeredocBytes\<close>). Source text is a
  list of bytes and positions are indices into it; \<open>slice\<close> is \<open>src[a:b]\<close>. Substitutions,
  subshells and \<open>sh -c\<close> scripts are scanned by a scanner of their own: the operations take that
  nested scan as the argument \<open>nested\<close>, and \<open>scan\<close> ties the knot by recursion on the nesting
  levels that are left (\<open>maxNestDepth\<close> is 8).
\<close>

definition maxCommandBytes :: nat where
  "maxCommandBytes = 65536"

definition maxNestDepth :: nat where
  "maxNestDepth = 8"

record redirect_token =
  r_Op :: string
  r_Target :: string

record segment =
  Argv :: "string list"
  Env :: "string list"
  Redirects :: "redirect_token list"
  Dynamic :: bool
  PipeNext :: bool
  Raw :: string
  Inspected :: bool

definition empty_segment :: segment where
  "empty_segment = \<lparr>Argv = [], Env = [], Redirects = [], Dynamic = False, PipeNext = False, Raw = [], Inspected = False\<rparr>"

record heredoc_body =
  hb_Bytes :: nat
  hb_Text :: string

record parsed =
  Segments :: "segment list"
  Normalized :: string
  HeredocBytes :: nat
  Unparsed :: "string list"
  p_bodies :: "heredoc_body list"

record shell_word =
  w_val :: string
  w_started :: bool
  w_quoted :: bool
  w_dynamic :: bool
  w_brace :: bool

definition empty_word :: shell_word where
  "empty_word = \<lparr>w_val = [], w_started = False, w_quoted = False, w_dynamic = False, w_brace = False\<rparr>"

text \<open>A heredoc operator whose body has not been read yet.\<close>

record heredoc =
  opStart :: nat
  opEnd :: nat
  h_tag :: string
  stripTabs :: bool

definition marker :: "heredoc \<Rightarrow> nat \<Rightarrow> string" where
  "marker h n = ''<<'' @ h_tag h @ '' [heredoc '' @ Itoa n @ '' bytes]''"

record body_rec =
  b_pos :: int
  b_body :: heredoc_body

record edit =
  e_start :: int
  e_end :: int
  e_text :: string

datatype dialect = DialectNone | DialectPS | DialectCmd

definition dialect_String :: "dialect \<Rightarrow> string" where
  "dialect_String d = (case d of DialectPS \<Rightarrow> ''PowerShell'' | DialectCmd \<Rightarrow> ''cmd'' | DialectNone \<Rightarrow> ''sh'')"

record scanner =
  sc_src :: string
  sc_i :: nat
  sc_unparsed :: "string list"
  sc_hbytes :: nat
  sc_w :: shell_word
  sc_cur :: "segment option"
  sc_segs :: "segment list"
  sc_spans :: "(int \<times> nat) list"
  sc_segStart :: int
  sc_pending :: "heredoc list"
  sc_bodies :: "body_rec list"
  sc_edits :: "edit list"
  sc_win :: bool
  sc_dialect :: dialect
  sc_depth :: nat
  sc_redacted :: bool
  sc_redactAt :: nat
  sc_redactMsg :: string
  sc_inner :: "segment list"

definition newline :: char where
  "newline = CHR 0x0A"

definition new_scanner :: "string \<Rightarrow> bool \<Rightarrow> dialect \<Rightarrow> nat \<Rightarrow> string list \<Rightarrow> nat \<Rightarrow> scanner" where
  "new_scanner src win d depth up hb =
     \<lparr>sc_src = src, sc_i = 0, sc_unparsed = up, sc_hbytes = hb, sc_w = empty_word, sc_cur = None, sc_segs = [],
      sc_spans = [], sc_segStart = -1, sc_pending = [], sc_bodies = [], sc_edits = [], sc_win = win,
      sc_dialect = d, sc_depth = depth, sc_redacted = False, sc_redactAt = 0, sc_redactMsg = [], sc_inner = []\<rparr>"

section \<open>Character and word classes\<close>

definition isDigit :: "char \<Rightarrow> bool" where
  "isDigit c = byte_in 48 57 c"

definition allDigits :: "string \<Rightarrow> bool" where
  "allDigits b = (b \<noteq> [] \<and> list_all isDigit b)"

definition is_alpha :: "char \<Rightarrow> bool" where
  "is_alpha c = (byte_in 97 122 c \<or> byte_in 65 90 c)"

fun env_name_from :: "nat \<Rightarrow> string \<Rightarrow> bool" where
  "env_name_from j [] = True"
| "env_name_from j (c # cs) =
     ((c = CHR ''_'' \<or> is_alpha c \<or> j > 0 \<and> isDigit c) \<and> env_name_from (j + 1) cs)"

definition isEnvAssign :: "string \<Rightarrow> bool" where
  "isEnvAssign w =
     (case IndexByte w CHR ''='' of
        None \<Rightarrow> False
      | Some i \<Rightarrow> if i = 0 then False else env_name_from 0 (take i w))"

definition isSpaceOrEOL :: "char \<Rightarrow> bool" where
  "isSpaceOrEOL c = (c \<in> {CHR '' '', CHR 0x09, CHR 0x0D, newline, CHR '';'', CHR 0x00})"

definition isShellEval :: "string \<Rightarrow> bool" where
  "isShellEval w = (w = ''eval'' \<or> w = ''source'' \<or> w = ''.'')"

definition isCFlag :: "string \<Rightarrow> bool" where
  "isCFlag w = (length w > 1 \<and> w ! 0 = CHR ''-'' \<and> w ! 1 \<noteq> CHR ''-'' \<and> CHR ''c'' \<in> set w)"

definition base_name :: "string \<Rightarrow> string" where
  "base_name name = (case LastIndexByte name CHR ''/'' of None \<Rightarrow> name | Some i \<Rightarrow> drop (i + 1) name)"

definition isShell :: "string \<Rightarrow> bool" where
  "isShell name = (base_name name \<in> {''bash'', ''sh'', ''zsh'', ''dash'', ''ksh''})"

definition winLiteralBackslashNext :: "char \<Rightarrow> bool" where
  "winLiteralBackslashNext c =
     (is_alpha c \<or> isDigit c \<or> c \<in> {CHR ''.'', CHR ''_'', CHR ''-'', CHR '':'', CHR ''%'', CHR ''@'', CHR ''+'', CHR '','', CHR ''=''})"

definition is_wrapper :: "string \<Rightarrow> bool" where
  "is_wrapper w = (w \<in> {''command'', ''builtin'', ''nohup'', ''time'', ''exec'', ''env''})"

definition skips_wrapper_arg :: "string \<Rightarrow> string \<Rightarrow> bool" where
  "skips_wrapper_arg w a = (HasPrefix a ''-'' \<or> (w = ''env'' \<and> isEnvAssign a))"

function effectiveIndex :: "string list \<Rightarrow> nat" where
  "effectiveIndex [] = 0"
| "effectiveIndex (w # ws) =
     (if is_wrapper w then
        (let k = length (takeWhile (skips_wrapper_arg w) ws) in 1 + k + effectiveIndex (drop k ws))
      else 0)"
  by pat_completeness auto
termination by (relation "measure length") auto

section \<open>Script hosts of Windows\<close>

definition psRunsText :: "string \<Rightarrow> bool" where
  "psRunsText w = (w \<in> {''invoke-expression'', ''iex'', ''invoke-command'', ''icm'', ''start-process'', ''saps'', ''start''})"

definition cmdRunsText :: "string \<Rightarrow> bool" where
  "cmdRunsText w = (w \<in> {''if'', ''for'', ''else'', ''call'', ''start'', ''goto''})"

fun LastIndexAny :: "string \<Rightarrow> char set \<Rightarrow> nat option" where
  "LastIndexAny [] cs = None"
| "LastIndexAny (x # xs) cs =
     (case LastIndexAny xs cs of Some i \<Rightarrow> Some (i + 1) | None \<Rightarrow> if x \<in> cs then Some 0 else None)"

definition winShellDialect :: "string \<Rightarrow> dialect" where
  "winShellDialect name0 =
     (let name1 = (case LastIndexAny name0 {CHR ''/'', CHR 0x5C} of None \<Rightarrow> name0 | Some i \<Rightarrow> drop (i + 1) name0);
          name = TrimSuffix (ToLower name1) ''.exe''
      in if name = ''powershell'' \<or> name = ''pwsh'' then DialectPS
         else if name = ''cmd'' then DialectCmd else DialectNone)"

definition noCommand :: string where
  "noCommand = ''script host command flag with no command (it would read stdin)''"

definition payload_special :: string where
  "payload_special = CHR '' '' # CHR 0x09 # '';&|<>(){}''"

fun quote_parts :: "string list \<Rightarrow> string list option" where
  "quote_parts [] = Some []"
| "quote_parts (p # ps) =
     (if ContainsAny p payload_special then
        (if Contains p [CHR 0x22] then None
         else map_option (\<lambda>out. ([CHR 0x22] @ p @ [CHR 0x22]) # out) (quote_parts ps))
      else map_option (\<lambda>out. p # out) (quote_parts ps))"

text \<open>\<open>joinPayload\<close> returns the payload and the reason it is refused, empty if it is not.\<close>

definition joinPayload :: "string list \<Rightarrow> string \<times> string" where
  "joinPayload parts =
     (case parts of
        [] \<Rightarrow> ([], noCommand)
      | [p] \<Rightarrow> if TrimSpace p = [] \<or> p = ''-'' then ([], noCommand) else (p, [])
      | _ \<Rightarrow>
          (case quote_parts parts of
             None \<Rightarrow> ([], ''script host command words mix quotes and operators'')
           | Some out \<Rightarrow> (Join out '' '', [])))"

definition psNoValue :: "string \<Rightarrow> bool" where
  "psNoValue f = (f \<in> {''noprofile'', ''nop'', ''noninteractive'', ''noni'', ''nologo'', ''nol'', ''noexit'', ''nox'',
     ''mta'', ''sta'', ''login'', ''l''})"

definition psWithValue :: "string list" where
  "psWithValue = [''executionpolicy'', ''windowstyle'', ''version'', ''inputformat'', ''outputformat'',
     ''workingdirectory'', ''configurationname'', ''psconsolefile'', ''settingsfile'', ''custompipename'']"

definition psWithValueShort :: "string \<Rightarrow> bool" where
  "psWithValueShort f = (f \<in> {''ep'', ''w'', ''v'', ''wd'', ''o'', ''of'', ''in''})"

definition optionIs :: "string \<Rightarrow> string \<Rightarrow> nat \<Rightarrow> bool" where
  "optionIs f name mn = (length f \<ge> mn \<and> HasPrefix name f)"

definition psTakesValue :: "string \<Rightarrow> bool" where
  "psTakesValue f = (psWithValueShort f \<or> list_ex (\<lambda>name. optionIs f name 2) psWithValue)"

definition ps_flag :: "string \<Rightarrow> string" where
  "ps_flag a = ToLower (TrimLeft a ''-'')"

text \<open>The result of the payload search: the words, whether a payload was found, and the reason to refuse it.\<close>

type_synonym payload = "string list \<times> bool \<times> string"

fun psPayload_from :: "string list \<Rightarrow> payload" where
  "psPayload_from [] = ([], False, [])"
| "psPayload_from (a # as) =
     (if a = ''-'' then ([], True, ''PowerShell reads its command from stdin'')
      else if length a < 2 \<or> a ! 0 \<noteq> CHR ''-'' then
        (if list_ex (\<lambda>w. length w > 1 \<and> w ! 0 = CHR ''-'' \<and> optionIs (ps_flag w) ''command'' 1) as
         then ([], True, ''PowerShell arguments are ambiguous (a -Command after the command text)'')
         else (a # as, True, []))
      else
        (let f = ps_flag a in
         if f = ''e'' \<or> f = ''ec'' \<or> optionIs f ''encodedcommand'' 2
         then ([], True, ''PowerShell -EncodedCommand cannot be decoded'')
         else if optionIs f ''command'' 1 then (as, True, [])
         else if optionIs f ''file'' 1 then ([], False, [])
         else if psNoValue f then psPayload_from as
         else if psTakesValue f then (case as of [] \<Rightarrow> ([], False, []) | _ # as' \<Rightarrow> psPayload_from as')
         else ([], True, ''unknown PowerShell option '' @ a)))"

definition psPayload :: "string list \<Rightarrow> payload" where
  "psPayload argv = psPayload_from (drop 1 argv)"

fun cmdPayload_from :: "string list \<Rightarrow> payload" where
  "cmdPayload_from [] = ([], False, [])"
| "cmdPayload_from (a # as) =
     (if length a < 2 \<or> a ! 0 \<noteq> CHR ''/'' then ([], False, [])
      else
        (let c = ToLower a ! 1 in
         if c \<in> {CHR ''c'', CHR ''k'', CHR ''r''} then
           (let out = (if drop 2 a \<noteq> [] then [drop 2 a] else []) @ as in
            if list_ex (\<lambda>w. ContainsAny w [CHR 0x0D, newline]) out
            then ([], True, ''cmd command line contains a newline'')
            else (out, True, []))
         else if c = CHR ''v'' then ([], True, ''cmd delayed expansion option '' @ a)
         else if c \<in> set ''qdauseft'' then cmdPayload_from as
         else ([], True, ''unknown cmd option '' @ a)))"

definition cmdPayload :: "string list \<Rightarrow> payload" where
  "cmdPayload argv = cmdPayload_from (drop 1 argv)"

section \<open>Rendering with the heredoc edits\<close>

definition slice :: "string \<Rightarrow> nat \<Rightarrow> nat \<Rightarrow> string" where
  "slice s a b = take (b - a) (drop a s)"

text \<open>\<open>sort.SliceStable\<close> by start offset; \<open>sort_key\<close> is stable.\<close>

definition sortedEdits :: "edit list \<Rightarrow> edit list" where
  "sortedEdits es = sort_key e_start es"

fun elide_loop :: "string \<Rightarrow> int \<Rightarrow> int \<Rightarrow> edit list \<Rightarrow> string" where
  "elide_loop src pos lim [] = slice src (nat pos) (nat lim)"
| "elide_loop src pos lim (e # es) =
     (if e_start e < pos \<or> e_end e > lim then elide_loop src pos lim es
      else slice src (nat pos) (nat (e_start e)) @ e_text e @ elide_loop src (e_end e) lim es)"

definition elided :: "scanner \<Rightarrow> int \<Rightarrow> nat \<Rightarrow> string" where
  "elided s base lim = TrimSpace (elide_loop (sc_src s) base (int lim) (sortedEdits (sc_edits s)))"

definition sort_edits :: "scanner \<Rightarrow> scanner" where
  "sort_edits s = s\<lparr>sc_edits := sortedEdits (sc_edits s)\<rparr>"

definition redactedText :: string where
  "redactedText = ''[redacted: the command has a heredoc whose tag is not valid UTF-8]''"

definition redactedScriptText :: string where
  "redactedScriptText = ''[redacted: the command has a heredoc inside a quoted shell script]''"

definition redactedOversizeText :: string where
  "redactedOversizeText = ''[redacted: the command is too large to show]''"

definition redactText :: "scanner \<Rightarrow> string" where
  "redactText s = (if sc_redactMsg s \<noteq> [] then sc_redactMsg s else redactedText)"

fun render_loop :: "string \<Rightarrow> int \<Rightarrow> edit list \<Rightarrow> string" where
  "render_loop src pos [] = drop (nat pos) src"
| "render_loop src pos (e # es) =
     (if e_start e < pos then
        (if e_end e \<le> pos \<or> e_text e \<noteq> [newline] then render_loop src pos es
         else if e_end e > int (length src) then render_loop src pos es
         else render_loop src (e_end e) es)
      else if e_end e > int (length src) then render_loop src pos es
      else slice src (nat pos) (nat (e_start e)) @ e_text e @ render_loop src (e_end e) es)"

definition normalized :: "scanner \<Rightarrow> string" where
  "normalized s =
     (if sc_redacted s then redactText s
      else if sc_edits s = [] then TrimSpace (sc_src s)
      else TrimSpace (render_loop (sc_src s) 0 (sortedEdits (sc_edits s))))"

definition orderedBodies :: "scanner \<Rightarrow> heredoc_body list" where
  "orderedBodies s = map b_body (sort_key b_pos (sc_bodies s))"

section \<open>Scanner operations\<close>

definition peek :: "scanner \<Rightarrow> nat \<Rightarrow> char" where
  "peek s k = (if sc_i s + k < length (sc_src s) then sc_src s ! (sc_i s + k) else CHR 0x00)"

definition unparsed :: "string \<Rightarrow> scanner \<Rightarrow> scanner" where
  "unparsed reason s =
     (if length (sc_unparsed s) < 8 then s\<lparr>sc_unparsed := sc_unparsed s @ [reason]\<rparr> else s)"

definition advance :: "nat \<Rightarrow> scanner \<Rightarrow> scanner" where
  "advance k s = s\<lparr>sc_i := sc_i s + k\<rparr>"

definition seg :: "scanner \<Rightarrow> segment" where
  "seg s = (case sc_cur s of None \<Rightarrow> empty_segment | Some g \<Rightarrow> g)"

definition set_seg :: "segment \<Rightarrow> scanner \<Rightarrow> scanner" where
  "set_seg g s = s\<lparr>sc_cur := Some g\<rparr>"

definition put_byte :: "char \<Rightarrow> scanner \<Rightarrow> scanner" where
  "put_byte c s = s\<lparr>sc_w := (sc_w s)\<lparr>w_val := w_val (sc_w s) @ [c]\<rparr>\<rparr>"

definition mark_dynamic :: "scanner \<Rightarrow> scanner" where
  "mark_dynamic s = s\<lparr>sc_w := (sc_w s)\<lparr>w_dynamic := True\<rparr>\<rparr>"

definition mark_quoted :: "scanner \<Rightarrow> scanner" where
  "mark_quoted s = s\<lparr>sc_w := (sc_w s)\<lparr>w_quoted := True\<rparr>\<rparr>"

definition mark_brace :: "scanner \<Rightarrow> scanner" where
  "mark_brace s = s\<lparr>sc_w := (sc_w s)\<lparr>w_brace := True\<rparr>\<rparr>"

text \<open>The first byte of a word opens it, and the segment with it.\<close>

definition start_word :: "scanner \<Rightarrow> scanner" where
  "start_word s =
     (if w_started (sc_w s) then s
      else s\<lparr>sc_w := (sc_w s)\<lparr>w_started := True\<rparr>,
             sc_segStart := (if sc_segStart s < 0 then int (sc_i s) else sc_segStart s)\<rparr>)"

text \<open>The reasons for which the name of a command makes it opaque.\<close>

definition check_argv0 :: "string \<Rightarrow> scanner \<Rightarrow> scanner" where
  "check_argv0 val s =
     (if val = ''eval'' then unparsed ''eval re-parses its argument as a command'' s
      else if val = ''source'' \<or> val = ''.'' then unparsed (val @ '' runs text the splitter cannot see'') s
      else if HasPrefix val ''$'' \<or> HasPrefix val [CHR 0x60] then
        unparsed (''command name '' @ val @ '' is an expansion'') s
      else if sc_dialect s = DialectPS \<and> psRunsText (ToLower val) then
        unparsed (''PowerShell '' @ val @ '' runs text the splitter cannot see'') s
      else if sc_dialect s = DialectCmd \<and> (HasPrefix val ''%'' \<or> HasPrefix val ''!'') then
        unparsed (''cmd command name '' @ val @ '' is an expansion'') s
      else if sc_dialect s = DialectCmd \<and> cmdRunsText (ToLower val) then
        unparsed (''cmd '' @ val @ '' runs a nested command the splitter cannot see'') s
      else s)"

definition add_arg :: "string \<Rightarrow> scanner \<Rightarrow> scanner" where
  "add_arg val s =
     (let cur = seg s;
          s1 = (if Argv cur = [] then check_argv0 val s else s);
          argv = Argv cur @ [val];
          s2 = set_seg (cur\<lparr>Argv := argv\<rparr>) s1
      in if length argv > 1 \<and> effectiveIndex argv = length argv - 1 \<and> isShellEval val
         then unparsed (val @ '' runs text the splitter cannot see'') s2 else s2)"

definition endWord :: "scanner \<Rightarrow> scanner" where
  "endWord s =
     (let w = sc_w s; s1 = s\<lparr>sc_w := empty_word\<rparr>; val = w_val w in
      if \<not> w_started w then s1
      else
        let s2 = (if Argv (seg s1) = [] \<and> \<not> w_quoted w \<and> isEnvAssign val
                  then set_seg ((seg s1)\<lparr>Env := Env (seg s1) @ [val]\<rparr>) s1
                  else add_arg val s1)
        in if w_dynamic w \<or> (w_brace w \<and> val \<noteq> ''{'' \<and> val \<noteq> ''}'' \<and> val \<noteq> ''{}'')
           then set_seg ((seg s2)\<lparr>Dynamic := True\<rparr>) s2 else s2)"

section \<open>Groups and substitutions\<close>

text \<open>Past a double-quoted section of a group: \<open>i\<close> is the offset after the opening quote.\<close>

function skip_quoted :: "string \<Rightarrow> nat \<Rightarrow> nat" where
  "skip_quoted src i =
     (if i < length src \<and> src ! i \<noteq> CHR 0x22
      then skip_quoted src (if src ! i = CHR 0x5C then i + 2 else i + 1)
      else i + 1)"
  by pat_completeness auto
termination by (relation "measure (\<lambda>(src, i). length src - i)") auto

declare skip_quoted.simps [simp del]

lemma skip_quoted_gt: "i < skip_quoted src i"
proof (induction src i rule: skip_quoted.induct)
  case (1 src i)
  then show ?case by (auto simp: skip_quoted.simps [of src i] split: if_splits)
qed

text \<open>The byte after the closing single quote of the section that opens at \<open>i\<close>.\<close>

definition skip_single :: "string \<Rightarrow> nat \<Rightarrow> nat option" where
  "skip_single src i = map_option (\<lambda>j. i + j + 2) (IndexByte (drop (i + 1) src) CHR 0x27)"

lemma skip_single_gt: "skip_single src i = Some j \<Longrightarrow> i < j"
  by (auto simp: skip_single_def)

text \<open>
  The end of a group: \<open>opens\<close> and \<open>closes\<close> are its brackets, \<open>depth\<close> the brackets open. The result
  is the offset of the bracket that closes the group, or \<open>None\<close> if it does not close.
\<close>

function group_end :: "string \<Rightarrow> char set \<Rightarrow> char set \<Rightarrow> nat \<Rightarrow> nat \<Rightarrow> nat option" where
  "group_end src opens closes i depth =
     (if i < length src then
        (let c = src ! i in
         if c = CHR 0x5C then group_end src opens closes (i + 2) depth
         else if c = CHR 0x27 then
           (case skip_single src i of None \<Rightarrow> None | Some j \<Rightarrow> group_end src opens closes j depth)
         else if c = CHR 0x22 then group_end src opens closes (skip_quoted src (i + 1)) depth
         else if c \<in> opens then group_end src opens closes (i + 1) (depth + 1)
         else if c \<in> closes then
           (if depth = 0 then Some i else group_end src opens closes (i + 1) (depth - 1))
         else group_end src opens closes (i + 1) depth)
      else None)"
  by pat_completeness auto
termination
proof (relation "measure (\<lambda>(src, opens, closes, i, depth). length src - i)", goal_cases)
  case (4 src opens closes i depth x)
  then show ?case using skip_quoted_gt [of "i + 1" src] by auto
qed (auto dest: skip_single_gt)

declare group_end.simps [simp del]

text \<open>\<open>captureGroup\<close> and \<open>captureBacktick\<close>: the inner text, the offset after the group, and whether it closed.\<close>

type_synonym capture = "string \<times> nat \<times> bool"

definition captureGroup :: "string \<Rightarrow> nat \<Rightarrow> nat \<Rightarrow> capture" where
  "captureGroup src i openLen =
     (let start = i + openLen in
      case group_end src {CHR ''(''} {CHR '')''} start 0 of
        Some j \<Rightarrow> (slice src start j, j + 1, True)
      | None \<Rightarrow> (drop start src, length src, False))"

function backtick_end :: "string \<Rightarrow> nat \<Rightarrow> nat option" where
  "backtick_end src i =
     (if i < length src then
        (if src ! i = CHR 0x5C then backtick_end src (i + 2)
         else if src ! i = CHR 0x60 then Some i
         else backtick_end src (i + 1))
      else None)"
  by pat_completeness auto
termination by (relation "measure (\<lambda>(src, i). length src - i)") auto

declare backtick_end.simps [simp del]

definition captureBacktick :: "string \<Rightarrow> nat \<Rightarrow> capture" where
  "captureBacktick src i =
     (case backtick_end src (i + 1) of
        Some j \<Rightarrow> (slice src (i + 1) j, j + 1, True)
      | None \<Rightarrow> (drop (i + 1) src, length src, False))"

section \<open>Nested scans\<close>

type_synonym nested_scan = "scanner \<Rightarrow> scanner"

fun map_bodies :: "string \<Rightarrow> int \<Rightarrow> body_rec list \<Rightarrow> body_rec list" where
  "map_bodies src at [] = []"
| "map_bodies src at (b # bs) =
     b\<lparr>b_pos := (if at < 0 then (case Index src (hb_Text (b_body b)) of None \<Rightarrow> int (length src) | Some i \<Rightarrow> int i)
                 else b_pos b + at)\<rparr> # map_bodies src at bs"

fun map_edit_list :: "string \<Rightarrow> int \<Rightarrow> edit list \<Rightarrow> scanner \<Rightarrow> scanner" where
  "map_edit_list in_src at [] s = s"
| "map_edit_list in_src at (e # es) s =
     (if at \<ge> 0 then
        map_edit_list in_src at es
          (s\<lparr>sc_edits := sc_edits s @ [\<lparr>e_start = e_start e + at, e_end = e_end e + at, e_text = e_text e\<rparr>]\<rparr>)
      else if e_text e \<noteq> [newline] then map_edit_list in_src at es s
      else case Index (sc_src s) (slice in_src (nat (e_start e)) (nat (e_end e))) of
          None \<Rightarrow> s\<lparr>sc_redacted := True, sc_redactAt := 0, sc_redactMsg := redactedScriptText\<rparr>
        | Some i \<Rightarrow>
            map_edit_list in_src at es
              (s\<lparr>sc_edits := sc_edits s @ [\<lparr>e_start = int i, e_end = int i + e_end e - e_start e, e_text = [newline]\<rparr>]\<rparr>))"

definition mapEdits :: "scanner \<Rightarrow> int \<Rightarrow> scanner \<Rightarrow> scanner" where
  "mapEdits inn at s =
     map_edit_list (sc_src inn) at (sc_edits inn)
       (s\<lparr>sc_bodies := sc_bodies s @ map_bodies (sc_src s) at (sc_bodies inn)\<rparr>)"

definition blank_cutset :: string where
  "blank_cutset = [CHR '' '', CHR 0x09, CHR 0x0D, newline]"

definition inner_scanner :: "string \<Rightarrow> dialect \<Rightarrow> scanner \<Rightarrow> scanner" where
  "inner_scanner txt d s =
     new_scanner (TrimSpace txt) (sc_win s) d (sc_depth s + 1) (sc_unparsed s) (sc_hbytes s)"

text \<open>The state of the enclosing scan after the nested scan \<open>inn\<close> has ended.\<close>

definition absorb :: "scanner \<Rightarrow> int \<Rightarrow> scanner \<Rightarrow> scanner" where
  "absorb inn at s =
     (let s1 = mapEdits inn at (s\<lparr>sc_unparsed := sc_unparsed inn, sc_hbytes := sc_hbytes inn\<rparr>);
          s2 = (if sc_redacted inn \<and> \<not> sc_redacted s1 then s1\<lparr>sc_redacted := True, sc_redactAt := 0\<rparr> else s1)
      in s2\<lparr>sc_inner := sc_inner s2 @ sc_segs inn @ sc_inner inn\<rparr>)"

definition recurseAs :: "nested_scan \<Rightarrow> string \<Rightarrow> dialect \<Rightarrow> int \<Rightarrow> scanner \<Rightarrow> scanner \<times> nat" where
  "recurseAs nested txt d at s =
     (if sc_depth s \<ge> maxNestDepth then (unparsed ''nesting too deep'' s, 0)
      else
        (let at' = (if at \<ge> 0 then at + int (length txt) - int (length (TrimLeft txt blank_cutset)) else at);
             inn = nested (inner_scanner txt d s)
         in (absorb inn at' s, length (sc_segs inn) + length (sc_inner inn))))"

definition recurseAt :: "nested_scan \<Rightarrow> string \<Rightarrow> int \<Rightarrow> scanner \<Rightarrow> scanner" where
  "recurseAt nested txt at s =
     (if sc_depth s \<ge> maxNestDepth then unparsed ''nesting too deep'' s
      else fst (recurseAs nested txt (sc_dialect s) at s))"

definition recurse :: "nested_scan \<Rightarrow> string \<Rightarrow> scanner \<Rightarrow> scanner" where
  "recurse nested txt s = recurseAt nested txt (-1) s"

text \<open>\<open>dollar\<close> tells a \<open>$(\<close> substitution from a backtick one.\<close>

definition substitution :: "nested_scan \<Rightarrow> bool \<Rightarrow> scanner \<Rightarrow> scanner" where
  "substitution nested dollar s0 =
     (let s1 = mark_dynamic (start_word s0);
          start = sc_i s0;
          (txt, after, ok) = (if dollar then captureGroup (sc_src s0) start 2 else captureBacktick (sc_src s0) start);
          s2 = s1\<lparr>sc_w := (sc_w s1)\<lparr>w_val := w_val (sc_w s1) @ slice (sc_src s0) start after\<rparr>, sc_i := after\<rparr>
      in if \<not> ok then unparsed (if dollar then ''unclosed $('' else ''unclosed backtick'') s2
         else recurseAt nested txt (int start + (if dollar then 2 else 1)) s2)"

definition subshellGroup :: "nested_scan \<Rightarrow> scanner \<Rightarrow> scanner" where
  "subshellGroup nested s =
     (let open_at = sc_i s;
          (txt, after, ok) = captureGroup (sc_src s) open_at 1;
          s1 = s\<lparr>sc_i := after\<rparr>;
          s2 = (if \<not> ok then unparsed ''unclosed ('' s1 else s1)
      in recurseAt nested txt (int open_at + 1) s2)"

definition braceGroup :: "nested_scan \<Rightarrow> scanner \<Rightarrow> scanner" where
  "braceGroup nested s =
     (let start = sc_i s + 1 in
      case group_end (sc_src s) {CHR ''{'', CHR ''(''} {CHR ''}'', CHR '')''} start 0 of
        Some j \<Rightarrow> (recurseAt nested (slice (sc_src s) start j) (int start) s)\<lparr>sc_i := j + 1\<rparr>
      | None \<Rightarrow>
          (recurseAt nested (drop start (sc_src s)) (int start) (unparsed ''unclosed {'' s))
            \<lparr>sc_i := length (sc_src s)\<rparr>)"

section \<open>What the operations leave alone\<close>

lemma unparsed_frame [simp]:
  "sc_src (unparsed r s) = sc_src s" "sc_i (unparsed r s) = sc_i s" "sc_dialect (unparsed r s) = sc_dialect s"
  "sc_depth (unparsed r s) = sc_depth s" "sc_win (unparsed r s) = sc_win s"
  by (simp_all add: unparsed_def)

lemma map_edit_list_frame [simp]:
  "sc_src (map_edit_list t at es s) = sc_src s" "sc_i (map_edit_list t at es s) = sc_i s"
  "sc_dialect (map_edit_list t at es s) = sc_dialect s" "sc_depth (map_edit_list t at es s) = sc_depth s"
  "sc_win (map_edit_list t at es s) = sc_win s"
  by (induction t at es s rule: map_edit_list.induct) (auto split: option.splits)

lemma absorb_frame [simp]:
  "sc_src (absorb inn at s) = sc_src s" "sc_i (absorb inn at s) = sc_i s"
  "sc_dialect (absorb inn at s) = sc_dialect s" "sc_depth (absorb inn at s) = sc_depth s"
  "sc_win (absorb inn at s) = sc_win s"
  by (simp_all add: absorb_def mapEdits_def Let_def)

lemma recurseAt_frame [simp]:
  "sc_src (recurseAt nested txt at s) = sc_src s" "sc_i (recurseAt nested txt at s) = sc_i s"
  "sc_dialect (recurseAt nested txt at s) = sc_dialect s" "sc_depth (recurseAt nested txt at s) = sc_depth s"
  "sc_win (recurseAt nested txt at s) = sc_win s"
  by (simp_all add: recurseAt_def recurseAs_def Let_def)

lemma group_end_bounds: "group_end src opens closes i depth = Some j \<Longrightarrow> i \<le> j \<and> j < length src"
proof (induction src opens closes i depth rule: group_end.induct)
  case (1 src opens closes i depth)
  show ?case
    using "1.prems" "1.IH" skip_quoted_gt [of "i + 1" src]
    by (subst (asm) group_end.simps) (fastforce simp: Let_def split: if_splits option.splits dest: skip_single_gt)
qed

lemma backtick_end_bounds: "backtick_end src i = Some j \<Longrightarrow> i \<le> j \<and> j < length src"
proof (induction src i rule: backtick_end.induct)
  case (1 src i)
  then show ?case by (fastforce simp: backtick_end.simps [of src i] split: if_splits)
qed

lemma captureGroup_bounds:
  "captureGroup src i k = (txt, after, ok) \<Longrightarrow> i + k \<le> length src \<Longrightarrow> i + k \<le> after \<and> after \<le> length src"
  by (auto simp: captureGroup_def Let_def split: option.splits dest!: group_end_bounds)

lemma captureBacktick_bounds:
  "captureBacktick src i = (txt, after, ok) \<Longrightarrow> i < length src \<Longrightarrow> i < after \<and> after \<le> length src"
  by (auto simp: captureBacktick_def split: option.splits dest!: backtick_end_bounds)

lemma start_word_frame [simp]:
  "sc_src (start_word s) = sc_src s" "sc_i (start_word s) = sc_i s" "sc_dialect (start_word s) = sc_dialect s"
  "sc_depth (start_word s) = sc_depth s" "sc_win (start_word s) = sc_win s"
  by (simp_all add: start_word_def)

lemma substitution_frame [simp]:
  "sc_src (substitution nested k s) = sc_src s" "sc_dialect (substitution nested k s) = sc_dialect s"
  "sc_depth (substitution nested k s) = sc_depth s" "sc_win (substitution nested k s) = sc_win s"
  by (simp_all add: substitution_def Let_def mark_dynamic_def split: prod.splits)

lemma substitution_progress:
  assumes "sc_i s + (if k then 2 else 1) \<le> length (sc_src s)"
  shows "sc_i s < sc_i (substitution nested k s) \<and> sc_i (substitution nested k s) \<le> length (sc_src s)"
  using assms captureGroup_bounds [of "sc_src s" "sc_i s" 2] captureBacktick_bounds [of "sc_src s" "sc_i s"]
  by (fastforce simp: substitution_def Let_def mark_dynamic_def split: prod.splits if_splits)

section \<open>Words\<close>

definition cur_byte :: "scanner \<Rightarrow> char" where
  "cur_byte s = sc_src s ! sc_i s"

definition at_end :: "scanner \<Rightarrow> bool" where
  "at_end s \<longleftrightarrow> length (sc_src s) \<le> sc_i s"

text \<open>One turn of the loop of \<open>scanDoubleQuoted\<close>, and whether the section ended.\<close>

definition dq_step :: "nested_scan \<Rightarrow> scanner \<Rightarrow> bool \<times> scanner" where
  "dq_step nested s =
     (let c = cur_byte s; next = peek s 1; more = sc_i s + 1 < length (sc_src s) in
      if c = CHR 0x22 then
        (if sc_dialect s = DialectPS \<and> peek s 1 = CHR 0x22 then (False, advance 2 (put_byte (CHR 0x22) s))
         else (True, advance 1 s))
      else if c = CHR 0x5C \<and> more \<and> sc_dialect s = DialectNone
          \<and> next \<in> {CHR 0x22, CHR 0x5C, CHR ''$'', CHR 0x60} then (False, advance 2 (put_byte next s))
      else if c = CHR 0x5C \<and> more \<and> sc_dialect s = DialectNone \<and> next = newline then (False, advance 2 s)
      else if c = CHR ''$'' \<and> more \<and> next = CHR ''('' then (False, substitution nested True s)
      else if c = CHR 0x60 \<and> sc_dialect s = DialectPS then
        (False, advance 1 (put_byte c (mark_dynamic (unparsed ''PowerShell backtick escape'' s))))
      else if c = CHR 0x60 then (False, substitution nested False s)
      else if c = CHR ''$'' \<or> (sc_dialect s = DialectCmd \<and> (c = CHR ''%'' \<or> c = CHR ''!'')) then
        (False, advance 1 (put_byte c (mark_dynamic s)))
      else (False, advance 1 (put_byte c s)))"

lemma byte_ops_frame [simp]:
  "sc_src (put_byte c s) = sc_src s" "sc_i (put_byte c s) = sc_i s" "sc_dialect (put_byte c s) = sc_dialect s"
  "sc_src (mark_dynamic s) = sc_src s" "sc_i (mark_dynamic s) = sc_i s" "sc_dialect (mark_dynamic s) = sc_dialect s"
  "sc_src (mark_quoted s) = sc_src s" "sc_i (mark_quoted s) = sc_i s" "sc_dialect (mark_quoted s) = sc_dialect s"
  "sc_src (mark_brace s) = sc_src s" "sc_i (mark_brace s) = sc_i s" "sc_dialect (mark_brace s) = sc_dialect s"
  "sc_src (advance k s) = sc_src s" "sc_i (advance k s) = sc_i s + k" "sc_dialect (advance k s) = sc_dialect s"
  "sc_depth (put_byte c s) = sc_depth s" "sc_depth (mark_dynamic s) = sc_depth s" "sc_depth (mark_quoted s) = sc_depth s"
  "sc_depth (mark_brace s) = sc_depth s" "sc_depth (advance k s) = sc_depth s"
  by (simp_all add: put_byte_def mark_dynamic_def mark_quoted_def mark_brace_def advance_def)

lemma peek_not_end: "peek s k \<noteq> CHR 0x00 \<Longrightarrow> sc_i s + k < length (sc_src s)"
  by (auto simp: peek_def split: if_splits)

text \<open>A step that moves forward within the text and leaves the text and the mode of the scan alone.\<close>

definition moves :: "scanner \<Rightarrow> scanner \<Rightarrow> bool" where
  "moves s s' \<longleftrightarrow> sc_src s' = sc_src s \<and> sc_dialect s' = sc_dialect s \<and> sc_depth s' = sc_depth s
     \<and> sc_i s < sc_i s' \<and> sc_i s' \<le> length (sc_src s)"

lemma moves_if: "(c \<Longrightarrow> moves s a) \<Longrightarrow> (\<not> c \<Longrightarrow> moves s b) \<Longrightarrow> moves s (if c then a else b)"
  by simp

lemma moves_snd_if: "(c \<Longrightarrow> moves s (snd a)) \<Longrightarrow> (\<not> c \<Longrightarrow> moves s (snd b)) \<Longrightarrow> moves s (snd (if c then a else b))"
  by simp

lemma moves_substitution:
  "sc_i s + (if k then 2 else 1) \<le> length (sc_src s) \<Longrightarrow> moves s (substitution nested k s)"
  using substitution_progress by (simp add: moves_def)

lemma dq_step_moves: "sc_i s < length (sc_src s) \<Longrightarrow> moves s (snd (dq_step nested s))"
  unfolding dq_step_def Let_def
  by (intro moves_snd_if)
    (use peek_not_end [of s 1] substitution_progress [of s True nested] substitution_progress [of s False nested]
      in \<open>auto simp: moves_def\<close>)

lemma dq_step_progress:
  assumes "dq_step nested s = (fin, s')" "sc_i s < length (sc_src s)"
  shows "sc_src s' = sc_src s \<and> sc_dialect s' = sc_dialect s \<and> sc_depth s' = sc_depth s
    \<and> sc_i s < sc_i s' \<and> sc_i s' \<le> length (sc_src s)"
  using dq_step_moves [of s nested] assms by (simp add: moves_def)

function scanDoubleQuoted :: "nested_scan \<Rightarrow> scanner \<Rightarrow> scanner" where
  "scanDoubleQuoted nested s =
     (if at_end s then unparsed ''unbalanced double quote'' s
      else case dq_step nested s of (fin, s') \<Rightarrow> if fin then s' else scanDoubleQuoted nested s')"
  by pat_completeness auto
termination
proof (relation "measure (\<lambda>(nested, s). length (sc_src s) - sc_i s)", goal_cases)
  case (2 nested s fin s')
  then show ?case using dq_step_progress [of nested s fin s'] by (auto simp: at_end_def)
qed simp

declare scanDoubleQuoted.simps [simp del]

text \<open>The loop over a single-quoted section.\<close>

function single_quoted :: "scanner \<Rightarrow> scanner" where
  "single_quoted s =
     (if at_end s then s
      else if cur_byte s = CHR 0x27 then
        (if sc_dialect s = DialectPS \<and> peek s 1 = CHR 0x27 then single_quoted (advance 2 (put_byte (CHR 0x27) s))
         else s)
      else single_quoted (advance 1 (put_byte (cur_byte s) s)))"
  by pat_completeness auto
termination by (relation "measure (\<lambda>s. length (sc_src s) - sc_i s)") (auto simp: at_end_def)

declare single_quoted.simps [simp del]

definition word_backslash :: "scanner \<Rightarrow> scanner" where
  "word_backslash s =
     (if sc_dialect s \<noteq> DialectNone \<or> (sc_win s \<and> winLiteralBackslashNext (peek s 1)) then
        advance 1 (put_byte (CHR 0x5C) s)
      else if sc_i s + 1 < length (sc_src s) then advance 2 (put_byte (sc_src s ! (sc_i s + 1)) s)
      else put_byte (CHR 0x5C) (advance 1 s))"

definition word_plain :: "scanner \<Rightarrow> scanner" where
  "word_plain s =
     (let c = cur_byte s;
          s1 = (if c \<in> {CHR ''$'', CHR 0x60, CHR ''*'', CHR ''?'', CHR ''[''} then mark_dynamic s else s);
          s2 = (if sc_dialect s = DialectCmd then
                  (if c = CHR ''%'' \<or> c = CHR ''!'' then mark_dynamic s1
                   else if c = CHR ''^'' then unparsed ''cmd caret escape'' s1 else s1)
                else s1);
          s3 = (if c = CHR ''{'' then mark_brace s2 else s2)
      in advance 1 (put_byte c s3))"

definition wordChar :: "nested_scan \<Rightarrow> scanner \<Rightarrow> scanner" where
  "wordChar nested s0 =
     (let c = cur_byte s0 in
      if c = CHR 0x5C \<and> peek s0 1 = newline \<and> sc_dialect s0 = DialectNone then advance 2 s0
      else
        (let s = start_word s0 in
         if c = CHR 0x27 then
           (if sc_dialect s = DialectCmd then advance 1 (put_byte c s)
            else
              (let s1 = single_quoted (advance 1 (mark_quoted s)) in
               if at_end s1 then unparsed ''unbalanced single quote'' s1 else advance 1 s1))
         else if c = CHR 0x22 then scanDoubleQuoted nested (advance 1 (mark_quoted s))
         else if c = CHR 0x5C then word_backslash s
         else word_plain s))"

lemma single_quoted_frame:
  "sc_src (single_quoted s) = sc_src s \<and> sc_dialect (single_quoted s) = sc_dialect s \<and> sc_depth (single_quoted s) = sc_depth s
    \<and> sc_i s \<le> sc_i (single_quoted s) \<and> (sc_i s \<le> length (sc_src s) \<longrightarrow> sc_i (single_quoted s) \<le> length (sc_src s))"
proof (induction s rule: single_quoted.induct)
  case (1 s)
  then show ?case using peek_not_end [of s 1] by (auto simp: single_quoted.simps [of s] at_end_def)
qed

lemma scanDoubleQuoted_frame:
  "sc_src (scanDoubleQuoted nested s) = sc_src s \<and> sc_dialect (scanDoubleQuoted nested s) = sc_dialect s
    \<and> sc_depth (scanDoubleQuoted nested s) = sc_depth s
    \<and> sc_i s \<le> sc_i (scanDoubleQuoted nested s)
    \<and> (sc_i s \<le> length (sc_src s) \<longrightarrow> sc_i (scanDoubleQuoted nested s) \<le> length (sc_src s))"
proof (induction nested s rule: scanDoubleQuoted.induct)
  case (1 nested s)
  show ?case
  proof (cases "at_end s")
    case True
    then show ?thesis by (simp add: scanDoubleQuoted.simps [of nested s])
  next
    case False
    obtain fin s' where st: "dq_step nested s = (fin, s')" by fastforce
    note p = dq_step_progress [OF st]
    show ?thesis
      using "1.IH" [OF False st [symmetric]] p False st
      by (cases fin) (auto simp: scanDoubleQuoted.simps [of nested s] at_end_def)
  qed
qed

lemma wordChar_progress:
  assumes "sc_i s < length (sc_src s)"
  shows "sc_src (wordChar nested s) = sc_src s \<and> sc_dialect (wordChar nested s) = sc_dialect s
    \<and> sc_depth (wordChar nested s) = sc_depth s
    \<and> sc_i s < sc_i (wordChar nested s) \<and> sc_i (wordChar nested s) \<le> length (sc_src s)"
  using assms peek_not_end [of s 1] single_quoted_frame [of "advance 1 (mark_quoted (start_word s))"]
    scanDoubleQuoted_frame [of nested "advance 1 (mark_quoted (start_word s))"]
  by (auto simp: wordChar_def word_backslash_def word_plain_def Let_def newline_def at_end_def not_le)

text \<open>The bytes that end a redirect target.\<close>

definition ends_target :: "char \<Rightarrow> bool" where
  "ends_target c = (c \<in> {CHR '' '', CHR 0x09, CHR 0x0D, newline, CHR '';'', CHR ''&'', CHR ''|'', CHR ''<'', CHR ''>''})"

function scanWord :: "nested_scan \<Rightarrow> scanner \<Rightarrow> scanner" where
  "scanWord nested s =
     (if at_end s then s
      else if ends_target (cur_byte s) then s
      else scanWord nested (wordChar nested s))"
  by pat_completeness auto
termination
proof (relation "measure (\<lambda>(nested, s). length (sc_src s) - sc_i s)", goal_cases)
  case (2 nested s)
  then show ?case using wordChar_progress [of s nested] by (auto simp: at_end_def)
qed simp

declare scanWord.simps [simp del]

lemma scanWord_frame:
  "sc_src (scanWord nested s) = sc_src s \<and> sc_dialect (scanWord nested s) = sc_dialect s
    \<and> sc_depth (scanWord nested s) = sc_depth s \<and> sc_i s \<le> sc_i (scanWord nested s)
    \<and> (sc_i s \<le> length (sc_src s) \<longrightarrow> sc_i (scanWord nested s) \<le> length (sc_src s))"
proof (induction nested s rule: scanWord.induct)
  case (1 nested s)
  then show ?case using wordChar_progress [of s nested] by (auto simp: scanWord.simps [of nested s] at_end_def)
qed

section \<open>Redirections\<close>

function fd_digits :: "scanner \<Rightarrow> string \<Rightarrow> scanner \<times> string" where
  "fd_digits s op =
     (if isDigit (peek s 0) \<and> \<not> at_end s then fd_digits (advance 1 s) (op @ [peek s 0]) else (s, op))"
  by pat_completeness auto
termination by (relation "measure (\<lambda>(s, op). length (sc_src s) - sc_i s)") (auto simp: at_end_def)

declare fd_digits.simps [simp del]

definition redirect_fd :: "scanner \<Rightarrow> scanner \<times> string" where
  "redirect_fd s =
     (let w = sc_w s in
      if w_started w \<and> \<not> w_quoted w \<and> allDigits (w_val w) then (s\<lparr>sc_w := empty_word\<rparr>, w_val w)
      else fd_digits (endWord s) [])"

text \<open>Consume the byte \<open>c\<close> if it comes next.\<close>

definition eat :: "char \<Rightarrow> scanner \<times> string \<Rightarrow> scanner \<times> string" where
  "eat c st = (case st of (s, op) \<Rightarrow> if peek s 0 = c then (advance 1 s, op @ [c]) else (s, op))"

definition redirect_sign :: "scanner \<times> string \<Rightarrow> scanner \<times> string" where
  "redirect_sign st =
     (case st of (s, op) \<Rightarrow>
        if peek s 0 = CHR ''&'' then
          (let st1 = eat (CHR ''&'') st; st2 = eat (CHR ''>'') st1
           in if peek (fst st1) 0 = CHR ''>'' then eat (CHR ''>'') st2 else st2)
        else if peek s 0 = CHR ''<'' then
          (let st1 = eat (CHR ''<'') st;
               st2 = eat (CHR ''<'') st1;
               st3 = (if peek (fst st1) 0 = CHR ''<'' then eat (CHR ''<'') st2 else st2)
           in if HasSuffix (snd st3) ''<<'' then eat (CHR ''-'') st3 else st3)
        else if peek s 0 = CHR ''>'' then
          (let st1 = eat (CHR ''>'') st in eat (CHR ''>'') st1)
        else st)"

definition redirect_dup :: "scanner \<times> string \<Rightarrow> scanner \<times> string" where
  "redirect_dup st =
     (case st of (s, op) \<Rightarrow>
        if HasSuffix op ''>'' \<and> peek s 0 = CHR ''&'' then
          (let s1 = advance 1 s; op1 = op @ ''&'' in
           if isDigit (peek s1 0) then (advance 1 s1, op1 @ [peek s1 0]) else (s1, op1))
        else st)"

function skip_blanks :: "scanner \<Rightarrow> scanner" where
  "skip_blanks s =
     (if peek s 0 \<in> {CHR '' '', CHR 0x09, CHR 0x0D} \<and> \<not> at_end s then skip_blanks (advance 1 s) else s)"
  by pat_completeness auto
termination by (relation "measure (\<lambda>s. length (sc_src s) - sc_i s)") (auto simp: at_end_def)

declare skip_blanks.simps [simp del]

definition is_heredoc_op :: "string \<Rightarrow> bool" where
  "is_heredoc_op op \<longleftrightarrow> Contains op ''<<'' \<and> op \<noteq> ''<<<''"

text \<open>The target word of a redirection: the target, and the scanner after it.\<close>

definition redirect_target :: "nested_scan \<Rightarrow> nat \<Rightarrow> string \<Rightarrow> scanner \<Rightarrow> scanner \<times> string" where
  "redirect_target nested start op s0 =
     (let s = scanWord nested (skip_blanks s0); here = is_heredoc_op op in
      if \<not> w_started (sc_w s) then (unparsed (''redirect '' @ op @ '' without a target'') s, [])
      else
        (let target = w_val (sc_w s);
             s1 = (if w_dynamic (sc_w s) \<and> \<not> here then set_seg ((seg s)\<lparr>Dynamic := True\<rparr>) s else s);
             s2 = (if here \<and> \<not> utf8_valid target then
                     (let s' = unparsed ''heredoc tag is not valid UTF-8'' s1 in
                      if \<not> sc_redacted s' then s'\<lparr>sc_redacted := True, sc_redactAt := start\<rparr> else s')
                   else s1);
             s3 = (if here then
                     s2\<lparr>sc_pending := sc_pending s2 @
                       [\<lparr>opStart = start, opEnd = sc_i s2, h_tag = target, stripTabs = Contains op ''<<-''\<rparr>]\<rparr>
                   else s2)
         in (s3\<lparr>sc_w := empty_word\<rparr>, target)))"

definition redirect_op :: "scanner \<Rightarrow> scanner \<times> string" where
  "redirect_op s =
     (case redirect_dup (redirect_sign (redirect_fd s)) of (s1, op) \<Rightarrow>
        (if (HasSuffix op ''<'' \<or> HasSuffix op ''>'') \<and> peek s1 0 = CHR ''('' then unparsed ''process substitution'' s1
         else s1, op))"

definition redirect :: "nested_scan \<Rightarrow> scanner \<Rightarrow> scanner" where
  "redirect nested s =
     (let start = sc_i s;
          (s1, op) = redirect_op s;
          (s2, target) =
            (if Contains op ''&'' \<and> isDigit (last op) then (s1, []) else redirect_target nested start op s1);
          tok = \<lparr>r_Op = (if is_heredoc_op op then ''<<'' else op), r_Target = target\<rparr>;
          s3 = s2\<lparr>sc_segStart := (if sc_segStart s2 < 0 then int start else sc_segStart s2)\<rparr>
      in set_seg ((seg s3)\<lparr>Redirects := Redirects (seg s3) @ [tok]\<rparr>) s3)"

section \<open>Segments\<close>

definition winShellScript :: "nested_scan \<Rightarrow> string list \<Rightarrow> dialect \<Rightarrow> scanner \<Rightarrow> scanner" where
  "winShellScript nested argv d s =
     (let (parts, found, reason) = (if d = DialectPS then psPayload argv else cmdPayload argv) in
      if \<not> found then s
      else
        (let reason1 = (if reason = [] \<and> Dynamic (seg s)
                        then dialect_String d @ '' command built from an outer-shell expansion'' else reason);
             (payload, reason2) = (if reason1 = [] then joinPayload parts else ([], reason1))
         in if reason2 \<noteq> [] then unparsed reason2 s
            else
              (case recurseAs nested payload d (-1) s of (s1, n) \<Rightarrow>
                 if n = 0 \<and> length (sc_unparsed s1) = length (sc_unparsed s)
                 then unparsed (''no command found in the '' @ dialect_String d @ '' script'') s1
                 else set_seg ((seg s1)\<lparr>Inspected := True\<rparr>) s1)))"

text \<open>The words after the first \<open>-c\<close> flag, and the script among them.\<close>

fun after_c_flag :: "string list \<Rightarrow> string list option" where
  "after_c_flag [] = None"
| "after_c_flag (a # as) = (if isCFlag a then Some as else after_c_flag as)"

definition shellScript :: "nested_scan \<Rightarrow> scanner \<Rightarrow> scanner" where
  "shellScript nested s =
     (case Argv (seg s) of
        [] \<Rightarrow> s
      | name # args \<Rightarrow>
          if winShellDialect name \<noteq> DialectNone then winShellScript nested (name # args) (winShellDialect name) s
          else if \<not> isShell name then s
          else case after_c_flag args of
              None \<Rightarrow> s
            | Some rest \<Rightarrow>
                (case dropWhile (\<lambda>a. HasPrefix a ''-'') rest of
                   [] \<Rightarrow> unparsed ''shell -c with non-literal command'' s
                 | script # _ \<Rightarrow>
                     if ContainsAny script [CHR ''$'', CHR 0x60] then unparsed ''shell -c with non-literal command'' s
                     else recurse nested script s))"

definition closeSeg :: "nested_scan \<Rightarrow> bool \<Rightarrow> scanner \<Rightarrow> scanner" where
  "closeSeg nested pipe s0 =
     (let s1 = endWord s0 in
      case sc_cur s1 of
        None \<Rightarrow> s1\<lparr>sc_segStart := -1\<rparr>
      | Some _ \<Rightarrow>
          (let s2 = shellScript nested s1;
               g = (seg s2)\<lparr>PipeNext := (pipe \<or> PipeNext (seg s2))\<rparr>;
               s3 = (if Argv g \<noteq> [] \<or> Env g \<noteq> [] \<or> Redirects g \<noteq> [] then
                       (sort_edits s2)\<lparr>sc_spans := sc_spans s2 @ [(sc_segStart s2, sc_i s2)],
                          sc_segs := sc_segs s2 @ [g\<lparr>Raw := elided s2 (sc_segStart s2) (sc_i s2)\<rparr>]\<rparr>
                     else s2)
           in s3\<lparr>sc_cur := None, sc_segStart := -1\<rparr>))"

section \<open>Heredoc bodies\<close>

text \<open>The offset after the body and its terminator, the length of the body, and whether it was terminated.\<close>

function heredoc_loop :: "string \<Rightarrow> string \<Rightarrow> bool \<Rightarrow> nat \<Rightarrow> nat \<Rightarrow> nat \<times> nat \<times> bool" where
  "heredoc_loop src tag strip bodyStart i =
     (let rest = drop i src;
          (line0, next) = (case IndexByte rest newline of
             None \<Rightarrow> (rest, length src) | Some e \<Rightarrow> (take e rest, i + e + 1));
          line = (if strip then TrimLeft line0 [CHR 0x09] else line0)
      in if line = tag then (next, i - bodyStart, True)
         else if next \<ge> length src then (next, length src - bodyStart, False)
         else heredoc_loop src tag strip bodyStart next)"
  by pat_completeness auto
termination
  by (relation "measure (\<lambda>(src, tag, strip, bodyStart, i). length src - i)") (auto split: option.splits)

declare heredoc_loop.simps [simp del]

definition heredocBody :: "scanner \<Rightarrow> string \<Rightarrow> bool \<Rightarrow> nat \<times> nat \<times> bool" where
  "heredocBody s tag strip = heredoc_loop (sc_src s) tag strip (sc_i s) (sc_i s)"

definition consume_body :: "heredoc \<Rightarrow> scanner \<Rightarrow> scanner" where
  "consume_body h s =
     (let bodyStart = sc_i s;
          (bodyEnd, n, ok) = heredocBody s (h_tag h) (stripTabs h);
          s1 = s\<lparr>sc_i := bodyEnd, sc_hbytes := sc_hbytes s + n\<rparr>;
          s2 = (if \<not> ok then unparsed ''heredoc terminator not found'' s1 else s1);
          s3 = s2\<lparr>sc_edits := sc_edits s2 @ [\<lparr>e_start = int (opStart h), e_end = int (opEnd h), e_text = marker h n\<rparr>]\<rparr>;
          s4 = (if bodyStart + n \<le> length (sc_src s) then
                  s3\<lparr>sc_bodies := sc_bodies s3 @
                    [\<lparr>b_pos = int (opStart h), b_body = \<lparr>hb_Bytes = n, hb_Text = slice (sc_src s) bodyStart (bodyStart + n)\<rparr>\<rparr>]\<rparr>
                else s3)
      in if bodyStart > opEnd h \<and> bodyStart \<le> length (sc_src s)
         then s4\<lparr>sc_edits := sc_edits s4 @ [\<lparr>e_start = int bodyStart - 1, e_end = int bodyEnd, e_text = [newline]\<rparr>]\<rparr>
         else s4)"

definition consumeHeredocBodies :: "scanner \<Rightarrow> scanner" where
  "consumeHeredocBodies s = (fold consume_body (sc_pending s) s)\<lparr>sc_pending := []\<rparr>"

section \<open>The main loop\<close>

definition ps_background :: "scanner \<Rightarrow> scanner" where
  "ps_background s =
     (if sc_dialect s = DialectPS \<and> (w_started (sc_w s) \<or> (case sc_cur s of None \<Rightarrow> False | Some g \<Rightarrow> Argv g \<noteq> []))
      then unparsed ''PowerShell background operator'' s else s)"

definition run_step :: "nested_scan \<Rightarrow> scanner \<Rightarrow> scanner" where
  "run_step nested s =
     (let c = cur_byte s; ps = (sc_dialect s = DialectPS); idle = (\<not> w_started (sc_w s) \<and> sc_cur s = None) in
      if c \<in> {CHR '' '', CHR 0x09, CHR 0x0D} then advance 1 (endWord s)
      else if c = newline then consumeHeredocBodies (advance 1 (closeSeg nested False s))
      else if c = CHR '';'' then advance 1 (closeSeg nested False s)
      else if c = CHR ''&'' then
        (if peek s 1 = CHR ''&'' then advance 2 (closeSeg nested False s)
         else if peek s 1 = CHR ''>'' then redirect nested s
         else advance 1 (closeSeg nested False (ps_background s)))
      else if c = CHR ''|'' \<and> peek s 1 = CHR ''|'' then advance 2 (closeSeg nested False s)
      else if c = CHR ''|'' then
        (let s1 = closeSeg nested True s in if peek s1 1 = CHR ''&'' then advance 2 s1 else advance 1 s1)
      else if c = CHR ''$'' \<and> peek s 1 = CHR ''('' then substitution nested True s
      else if c = CHR 0x60 \<and> ps then wordChar nested (unparsed ''PowerShell backtick escape'' s)
      else if c = CHR 0x60 then substitution nested False s
      else if ps \<and> \<not> w_started (sc_w s) \<and> (c = CHR ''#'' \<or> c = CHR ''@'') then
        wordChar nested (unparsed ''PowerShell comment or splat'' s)
      else if ps \<and> c = CHR ''<'' then
        wordChar nested (unparsed ''PowerShell has no < redirection (or this is a <# comment)'' s)
      else if ps \<and> (c = CHR ''{'' \<or> c = CHR ''}'') then
        wordChar nested (unparsed ''PowerShell script block'' s)
      else if c = CHR ''('' \<and> idle then subshellGroup nested s
      else if (c = CHR ''('' \<or> c = CHR '')'') \<and> sc_dialect s \<noteq> DialectNone then
        wordChar nested (unparsed (dialect_String (sc_dialect s) @ '' parenthesised expression'') s)
      else if c = CHR ''{'' \<and> idle \<and> isSpaceOrEOL (peek s 1) then braceGroup nested s
      else if c = CHR ''>'' \<or> c = CHR ''<'' \<or> (isDigit c \<and> peek s 1 = CHR ''>'' \<and> \<not> w_started (sc_w s)) then
        redirect nested s
      else wordChar nested s)"

lemma set_seg_frame [simp]:
  "sc_src (set_seg g s) = sc_src s" "sc_i (set_seg g s) = sc_i s" "sc_dialect (set_seg g s) = sc_dialect s"
  "sc_depth (set_seg g s) = sc_depth s"
  by (simp_all add: set_seg_def)

lemma check_argv0_frame [simp]:
  "sc_src (check_argv0 v s) = sc_src s" "sc_i (check_argv0 v s) = sc_i s" "sc_dialect (check_argv0 v s) = sc_dialect s"
  "sc_depth (check_argv0 v s) = sc_depth s"
  by (simp_all add: check_argv0_def)

lemma add_arg_frame [simp]:
  "sc_src (add_arg v s) = sc_src s" "sc_i (add_arg v s) = sc_i s" "sc_dialect (add_arg v s) = sc_dialect s"
  "sc_depth (add_arg v s) = sc_depth s"
  by (simp_all add: add_arg_def Let_def)

lemma endWord_frame [simp]:
  "sc_src (endWord s) = sc_src s" "sc_i (endWord s) = sc_i s" "sc_dialect (endWord s) = sc_dialect s"
  "sc_depth (endWord s) = sc_depth s"
  by (simp_all add: endWord_def Let_def)

lemma recurseAs_frame [simp]:
  "sc_src (fst (recurseAs nested txt d at s)) = sc_src s" "sc_i (fst (recurseAs nested txt d at s)) = sc_i s"
  "sc_dialect (fst (recurseAs nested txt d at s)) = sc_dialect s" "sc_depth (fst (recurseAs nested txt d at s)) = sc_depth s"
  by (simp_all add: recurseAs_def Let_def)

lemma winShellScript_frame [simp]:
  "sc_src (winShellScript nested argv d s) = sc_src s" "sc_i (winShellScript nested argv d s) = sc_i s"
  "sc_dialect (winShellScript nested argv d s) = sc_dialect s" "sc_depth (winShellScript nested argv d s) = sc_depth s"
  by (simp_all add: winShellScript_def Let_def case_prod_beta)

lemma shellScript_frame [simp]:
  "sc_src (shellScript nested s) = sc_src s" "sc_i (shellScript nested s) = sc_i s"
  "sc_dialect (shellScript nested s) = sc_dialect s" "sc_depth (shellScript nested s) = sc_depth s"
  by (simp_all add: shellScript_def recurse_def split: list.splits option.splits)

lemma closeSeg_frame [simp]:
  "sc_src (closeSeg nested p s) = sc_src s" "sc_i (closeSeg nested p s) = sc_i s"
  "sc_dialect (closeSeg nested p s) = sc_dialect s" "sc_depth (closeSeg nested p s) = sc_depth s"
  by (simp_all add: closeSeg_def sort_edits_def Let_def split: option.splits)

text \<open>A step that does not move back.\<close>

definition keeps :: "scanner \<Rightarrow> scanner \<Rightarrow> bool" where
  "keeps s s' \<longleftrightarrow> sc_src s' = sc_src s \<and> sc_dialect s' = sc_dialect s \<and> sc_depth s' = sc_depth s \<and> sc_i s \<le> sc_i s'
     \<and> (sc_i s \<le> length (sc_src s) \<longrightarrow> sc_i s' \<le> length (sc_src s))"

lemma keeps_refl [simp]: "keeps s s"
  by (simp add: keeps_def)

lemma keeps_trans [trans]: "keeps a b \<Longrightarrow> keeps b c \<Longrightarrow> keeps a c"
  by (simp add: keeps_def)

lemma keeps_moves: "keeps a b \<Longrightarrow> moves b c \<Longrightarrow> moves a c"
  by (simp add: keeps_def moves_def)

lemma moves_keeps: "moves a b \<Longrightarrow> keeps b c \<Longrightarrow> moves a c"
  by (auto simp: keeps_def moves_def)

lemma heredoc_loop_bounds:
  "i \<le> length src \<Longrightarrow> bodyStart \<le> i \<Longrightarrow> heredoc_loop src tag strip bodyStart i = (j, n, ok) \<Longrightarrow>
   i \<le> j \<and> j \<le> length src \<and> bodyStart + n \<le> j"
proof (induction src tag strip bodyStart i rule: heredoc_loop.induct)
  case (1 src tag strip bodyStart i)
  let ?r = "case IndexByte (drop i src) newline of None \<Rightarrow> (drop i src, length src) | Some e \<Rightarrow> (take e (drop i src), i + e + 1)"
  obtain line0 nx where r: "?r = (line0, nx)" by fastforce
  have nx: "i \<le> nx" "nx \<le> length src"
    using r "1.prems"(1) IndexByte_Some [of "drop i src" newline] by (auto split: option.splits)
  show ?case
    using "1.prems" "1.IH" [OF refl r [symmetric] refl refl] nx
    by (subst (asm) heredoc_loop.simps) (auto simp: Let_def r split: if_splits)
qed

lemma consume_body_keeps: "sc_i s \<le> length (sc_src s) \<Longrightarrow> keeps s (consume_body h s)"
proof -
  assume i: "sc_i s \<le> length (sc_src s)"
  obtain j n ok where h: "heredocBody s (h_tag h) (stripTabs h) = (j, n, ok)" by (metis prod_cases3)
  then have "sc_i s \<le> j \<and> j \<le> length (sc_src s)"
    using heredoc_loop_bounds [OF i order_refl] by (auto simp: heredocBody_def)
  then show ?thesis by (simp add: consume_body_def Let_def h keeps_def)
qed

lemma fold_consume_keeps: "sc_i s \<le> length (sc_src s) \<Longrightarrow> keeps s (fold consume_body hs s)"
proof (induction hs arbitrary: s)
  case (Cons h hs)
  note k = consume_body_keeps [OF Cons.prems, of h]
  then have "sc_i (consume_body h s) \<le> length (sc_src (consume_body h s))" using Cons.prems by (simp add: keeps_def)
  from Cons.IH [OF this] k show ?case by (auto intro: keeps_trans)
qed simp

lemma consumeHeredocBodies_keeps: "sc_i s \<le> length (sc_src s) \<Longrightarrow> keeps s (consumeHeredocBodies s)"
  using fold_consume_keeps [of s "sc_pending s"] by (simp add: consumeHeredocBodies_def keeps_def)

lemma fd_digits_keeps: "keeps s (fst (fd_digits s op))"
proof (induction s op rule: fd_digits.induct)
  case (1 s op)
  show ?case
  proof (cases "isDigit (peek s 0) \<and> \<not> at_end s")
    case True
    have "keeps s (advance 1 s)" using True by (simp add: keeps_def at_end_def)
    then show ?thesis using "1.IH" [OF True] True by (auto simp: fd_digits.simps [of s op] intro: keeps_trans)
  next
    case False
    then have "fd_digits s op = (s, op)" by (subst fd_digits.simps) auto
    then show ?thesis by simp
  qed
qed

lemma eat_keeps: "keeps (fst st) (fst (eat c st))" if "c \<noteq> CHR 0x00"
proof (cases st)
  case (Pair s op)
  then show ?thesis using that peek_not_end [of s 0] by (auto simp: eat_def keeps_def)
qed

lemma eat_moves: "peek (fst st) 0 = c \<Longrightarrow> c \<noteq> CHR 0x00 \<Longrightarrow> moves (fst st) (fst (eat c st))"
proof (cases st)
  case (Pair s op)
  assume "peek (fst st) 0 = c" "c \<noteq> CHR 0x00"
  then show ?thesis using Pair peek_not_end [of s 0] by (auto simp: eat_def moves_def)
qed

text \<open>After the file descriptor the operator sign is still ahead, and \<open>redirect_sign\<close> moves past it.\<close>

lemma redirect_sign_moves:
  assumes "peek (fst st) 0 \<in> {CHR ''&'', CHR ''<'', CHR ''>''}"
  shows "moves (fst st) (fst (redirect_sign st))"
proof -
  have more: "keeps (fst x) (fst (eat c x))" if "c \<in> {CHR ''&'', CHR ''<'', CHR ''>'', CHR ''-''}" for c x
    using that by (intro eat_keeps) auto
  have more_if: "keeps (fst x) (fst (if b then eat c x else x))" if "c \<in> {CHR ''&'', CHR ''<'', CHR ''>'', CHR ''-''}" for b c x
    using more [OF that] by simp
  obtain s op where st: "st = (s, op)" by fastforce
  consider (amp) "peek s 0 = CHR ''&''" | (lt) "peek s 0 = CHR ''<''" | (gt) "peek s 0 = CHR ''>''"
    using assms st by auto
  then show ?thesis
  proof cases
    case amp
    let ?a = "eat (CHR ''&'') st" let ?b = "eat (CHR ''>'') ?a"
    have "redirect_sign st = (if peek (fst ?a) 0 = CHR ''>'' then eat (CHR ''>'') ?b else ?b)"
      using amp st by (simp add: redirect_sign_def Let_def)
    moreover have "moves (fst st) (fst ?a)" using amp st by (intro eat_moves) auto
    moreover have "keeps (fst ?a) (fst (if peek (fst ?a) 0 = CHR ''>'' then eat (CHR ''>'') ?b else ?b))"
      by (rule keeps_trans [OF more more_if]) simp_all
    ultimately show ?thesis by (simp only:) (rule moves_keeps)
  next
    case lt
    let ?a = "eat (CHR ''<'') st" let ?b = "eat (CHR ''<'') ?a"
    let ?c = "if peek (fst ?a) 0 = CHR ''<'' then eat (CHR ''<'') ?b else ?b"
    have "redirect_sign st = (if HasSuffix (snd ?c) ''<<'' then eat (CHR ''-'') ?c else ?c)"
      using lt st by (simp add: redirect_sign_def Let_def)
    moreover have "moves (fst st) (fst ?a)" using lt st by (intro eat_moves) auto
    moreover have "keeps (fst ?a) (fst (if HasSuffix (snd ?c) ''<<'' then eat (CHR ''-'') ?c else ?c))"
      by (rule keeps_trans [OF more keeps_trans [OF more_if more_if]]) simp_all
    ultimately show ?thesis by (simp only:) (rule moves_keeps)
  next
    case gt
    have "redirect_sign st = eat (CHR ''>'') (eat (CHR ''>'') st)"
      using gt st by (simp add: redirect_sign_def Let_def)
    moreover have "moves (fst st) (fst (eat (CHR ''>'') st))" using gt st by (intro eat_moves) auto
    moreover have "keeps (fst (eat (CHR ''>'') st)) (fst (eat (CHR ''>'') (eat (CHR ''>'') st)))" by (rule more) simp
    ultimately show ?thesis by (simp only:) (rule moves_keeps)
  qed
qed

lemma redirect_dup_keeps: "keeps (fst st) (fst (redirect_dup st))"
proof (cases st)
  case (Pair s op)
  have "\<not> isDigit (CHR 0x00)" by (simp add: isDigit_def byte_in_def)
  then have "isDigit (peek (advance 1 s) 0) \<Longrightarrow> sc_i s + 2 \<le> length (sc_src s)"
    using peek_not_end [of "advance 1 s" 0] by (cases "peek (advance 1 s) 0 = CHR 0x00") auto
  then show ?thesis using Pair peek_not_end [of s 0] by (auto simp: redirect_dup_def keeps_def Let_def)
qed

text \<open>\<open>redirect\<close> is called on an operator sign, or on a digit that is followed by \<open>>\<close>.\<close>

definition at_redirect :: "scanner \<Rightarrow> bool" where
  "at_redirect s \<longleftrightarrow> (cur_byte s = CHR ''&'' \<and> peek s 1 = CHR ''>'') \<or> cur_byte s = CHR ''>'' \<or> cur_byte s = CHR ''<''
     \<or> (isDigit (cur_byte s) \<and> peek s 1 = CHR ''>'' \<and> \<not> w_started (sc_w s))"

lemma redirect_fd_sign:
  assumes "sc_i s < length (sc_src s)" "at_redirect s"
  shows "keeps s (fst (redirect_fd s)) \<and> peek (fst (redirect_fd s)) 0 \<in> {CHR ''&'', CHR ''<'', CHR ''>''}"
proof (cases "w_started (sc_w s) \<and> \<not> w_quoted (sc_w s) \<and> allDigits (w_val (sc_w s))")
  case True
  then have "cur_byte s \<in> {CHR ''&'', CHR ''<'', CHR ''>''}" using assms(2) by (auto simp: at_redirect_def)
  then show ?thesis using True assms(1) by (simp add: redirect_fd_def Let_def keeps_def peek_def cur_byte_def)
next
  case False
  have nd: "\<not> isDigit (CHR ''&'')" "\<not> isDigit (CHR ''>'')" "\<not> isDigit (CHR ''<'')" by (simp_all add: isDigit_def byte_in_def)
  have p: "peek (endWord s) 0 = cur_byte s" "peek (advance 1 (endWord s)) 0 = peek s 1"
    using assms(1) by (simp_all add: peek_def cur_byte_def)
  have e: "redirect_fd s = fd_digits (endWord s) []" using False by (auto simp: redirect_fd_def Let_def)
  have k: "keeps s (endWord s)" by (simp add: keeps_def)
  have "peek (fst (fd_digits (endWord s) [])) 0 \<in> {CHR ''&'', CHR ''<'', CHR ''>''}"
  proof (cases "isDigit (cur_byte s)")
    case True
    then have "peek s 1 = CHR ''>''" using assms(2) nd by (auto simp: at_redirect_def)
    then show ?thesis
      using True p assms(1) nd by (subst fd_digits.simps, simp add: at_end_def, subst fd_digits.simps, simp)
  next
    case False
    then show ?thesis using p assms(2) by (subst fd_digits.simps) (auto simp: at_redirect_def)
  qed
  then show ?thesis using e keeps_trans [OF k fd_digits_keeps] by simp
qed

lemma redirect_op_moves: "sc_i s < length (sc_src s) \<Longrightarrow> at_redirect s \<Longrightarrow> moves s (fst (redirect_op s))"
proof -
  assume a: "sc_i s < length (sc_src s)" "at_redirect s"
  let ?r = "redirect_dup (redirect_sign (redirect_fd s))"
  have "moves s (fst ?r)"
    using redirect_fd_sign [OF a] redirect_sign_moves [of "redirect_fd s"] redirect_dup_keeps [of "redirect_sign (redirect_fd s)"]
    by (blast intro: keeps_moves moves_keeps)
  then show ?thesis by (simp add: redirect_op_def case_prod_beta moves_def)
qed

lemma skip_blanks_keeps: "keeps s (skip_blanks s)"
proof (induction s rule: skip_blanks.induct)
  case (1 s)
  show ?case
  proof (cases "peek s 0 \<in> {CHR '' '', CHR 0x09, CHR 0x0D} \<and> \<not> at_end s")
    case True
    have "keeps s (advance 1 s)" using True by (simp add: keeps_def at_end_def)
    then show ?thesis using "1.IH" [OF True] True by (auto simp: skip_blanks.simps [of s] intro: keeps_trans)
  next
    case False
    then have "skip_blanks s = s" by (subst skip_blanks.simps) auto
    then show ?thesis by simp
  qed
qed

lemma redirect_target_keeps: "keeps s (fst (redirect_target nested start op s))"
proof -
  have "keeps s (scanWord nested (skip_blanks s))"
    using scanWord_frame [of nested "skip_blanks s"] skip_blanks_keeps [of s] by (auto simp: keeps_def)
  then show ?thesis by (simp add: redirect_target_def Let_def keeps_def)
qed

lemma redirect_moves: "sc_i s < length (sc_src s) \<Longrightarrow> at_redirect s \<Longrightarrow> moves s (redirect nested s)"
proof -
  assume "sc_i s < length (sc_src s)" "at_redirect s"
  note m = redirect_op_moves [OF this]
  have "moves s (fst (redirect_target nested (sc_i s) (snd (redirect_op s)) (fst (redirect_op s))))"
    using moves_keeps [OF m redirect_target_keeps] .
  with m show ?thesis by (simp add: redirect_def Let_def case_prod_beta moves_def)
qed

lemma subshellGroup_moves: "sc_i s < length (sc_src s) \<Longrightarrow> moves s (subshellGroup nested s)"
  using captureGroup_bounds [of "sc_src s" "sc_i s" 1]
  by (fastforce simp: subshellGroup_def Let_def moves_def split: prod.splits)

lemma braceGroup_moves: "sc_i s < length (sc_src s) \<Longrightarrow> moves s (braceGroup nested s)"
  by (auto simp: braceGroup_def Let_def moves_def split: option.splits dest!: group_end_bounds)

lemma wordChar_moves: "sc_i s < length (sc_src s) \<Longrightarrow> moves s (wordChar nested s)"
  using wordChar_progress by (simp add: moves_def)

lemma wordChar_unparsed_moves: "sc_i s < length (sc_src s) \<Longrightarrow> moves s (wordChar nested (unparsed r s))"
  using wordChar_moves [of "unparsed r s" nested] by (simp add: moves_def)

lemma advance_moves:
  "sc_i s + k \<le> length (sc_src s) \<Longrightarrow> 0 < k \<Longrightarrow> moves s (advance k s)"
  by (simp add: moves_def)

lemma closeSeg_advance_moves:
  "sc_i s + k \<le> length (sc_src s) \<Longrightarrow> 0 < k \<Longrightarrow> moves s (advance k (closeSeg nested p s))"
  by (simp add: moves_def)

lemma newline_moves:
  "sc_i s < length (sc_src s) \<Longrightarrow> moves s (consumeHeredocBodies (advance 1 (closeSeg nested False s)))"
  using moves_keeps [OF closeSeg_advance_moves [of s 1] consumeHeredocBodies_keeps] by simp

lemma background_moves: "sc_i s < length (sc_src s) \<Longrightarrow> moves s (advance 1 (closeSeg nested False (ps_background s)))"
  by (simp add: moves_def ps_background_def)

lemma endWord_advance_moves: "sc_i s < length (sc_src s) \<Longrightarrow> moves s (advance 1 (endWord s))"
  by (simp add: moves_def)

lemma peek_closeSeg [simp]: "peek (closeSeg nested p s) k = peek s k"
  by (simp add: peek_def)

lemma peek_two: "peek s (Suc 0) = c \<Longrightarrow> c \<noteq> CHR 0x00 \<Longrightarrow> Suc (Suc (sc_i s)) \<le> length (sc_src s)"
  using peek_not_end [of s 1] by simp

lemmas step_moves = closeSeg_advance_moves newline_moves background_moves moves_substitution wordChar_moves
  wordChar_unparsed_moves subshellGroup_moves braceGroup_moves redirect_moves endWord_advance_moves

lemma run_step_moves: "sc_i s < length (sc_src s) \<Longrightarrow> moves s (run_step nested s)"
  unfolding run_step_def Let_def
  by (intro moves_if step_moves) (auto simp: at_redirect_def dest: peek_two)

function run_loop :: "nested_scan \<Rightarrow> scanner \<Rightarrow> scanner" where
  "run_loop nested s = (if at_end s then s else run_loop nested (run_step nested s))"
  by pat_completeness auto
termination
proof (relation "measure (\<lambda>(nested, s). length (sc_src s) - sc_i s)", goal_cases)
  case (2 nested s)
  then show ?case using run_step_moves [of s nested] by (auto simp: at_end_def moves_def)
qed simp

declare run_loop.simps [simp del]

definition run :: "nested_scan \<Rightarrow> scanner \<Rightarrow> scanner" where
  "run nested s = closeSeg nested False (run_loop nested s)"

definition final_raw :: "scanner \<Rightarrow> int \<times> nat \<Rightarrow> segment \<Rightarrow> segment" where
  "final_raw s span g =
     g\<lparr>Raw := (if sc_redacted s \<and> fst span \<ge> int (sc_redactAt s) then redactText s
               else elided s (fst span) (snd span))\<rparr>"

definition finish :: "scanner \<Rightarrow> scanner" where
  "finish s0 =
     (let s = consumeHeredocBodies s0
      in s\<lparr>sc_segs := map2 (final_raw s) (sc_spans s) (sc_segs s),
           sc_edits := (if sc_segs s = [] then sc_edits s else sortedEdits (sc_edits s))\<rparr>)"

text \<open>
  A scan with \<open>n\<close> levels of nesting left. At level 0 nothing is scanned: \<open>recurseAs\<close> refuses to go
  deeper than \<open>maxNestDepth\<close> before it would be asked to.
\<close>

primrec scan :: "nested_scan \<Rightarrow> nat \<Rightarrow> nested_scan" where
  "scan base 0 = base"
| "scan base (Suc n) = (\<lambda>s. finish (run (scan base n) s))"

definition splitCommand :: "string \<Rightarrow> bool \<Rightarrow> parsed" where
  "splitCommand cmd win =
     (if length cmd > maxCommandBytes then
        \<lparr>Segments = [], Normalized = TrimSpace cmd, HeredocBytes = 0, Unparsed = [''input exceeds 64 KiB''], p_bodies = []\<rparr>
      else
        (let s = scan id (maxNestDepth + 1) (new_scanner cmd win DialectNone 0 [] 0);
             up = (if length (sc_segs s) + length (sc_inner s) = 0 \<and> sc_unparsed s = [] \<and> TrimSpace cmd \<noteq> []
                   then [''no command found''] else sc_unparsed s)
         in \<lparr>Segments = sc_segs s @ sc_inner s, Normalized = normalized s, HeredocBytes = sc_hbytes s, Unparsed = up,
             p_bodies = (if sc_redacted s then [] else orderedBodies s)\<rparr>))"

definition SplitCommand :: "string \<Rightarrow> parsed" where
  "SplitCommand cmd = splitCommand cmd False"

definition ElideHeredocs :: "string \<Rightarrow> string \<times> heredoc_body list" where
  "ElideHeredocs cmd =
     (if length cmd > maxCommandBytes then (redactedOversizeText, [])
      else (Normalized (SplitCommand cmd), p_bodies (SplitCommand cmd)))"

end
