(* ===== verification/PermSplitProps.thy ===== *)
theory PermSplitProps
  imports PermSplit
begin

text \<open>
  What the shell splitter guarantees: it always ends and reads its whole input, at every nesting
  level; the eight levels of nesting it allows are all that a scan can ask for; every offset it
  slices with is in range; doubt is never dropped; an analysable command has no segment that runs
  text the splitter cannot see; and text that is quoted comes back as it was.
\<close>

section \<open>The whole input is read\<close>

lemma run_loop_end:
  "sc_i s \<le> length (sc_src s) \<Longrightarrow>
   sc_src (run_loop nested s) = sc_src s \<and> sc_dialect (run_loop nested s) = sc_dialect s
     \<and> sc_depth (run_loop nested s) = sc_depth s \<and> sc_i (run_loop nested s) = length (sc_src s)"
proof (induction nested s rule: run_loop.induct)
  case (1 nested s)
  show ?case
  proof (cases "at_end s")
    case True
    then show ?thesis using "1.prems" by (simp add: run_loop.simps [of nested s] at_end_def)
  next
    case False
    then have "moves s (run_step nested s)" by (intro run_step_moves) (simp add: at_end_def)
    then show ?thesis using "1.IH" [OF False] False by (simp add: run_loop.simps [of nested s] moves_def)
  qed
qed

lemma finish_keeps: "sc_i s \<le> length (sc_src s) \<Longrightarrow> keeps s (finish s)"
  using consumeHeredocBodies_keeps [of s] by (simp add: finish_def Let_def keeps_def)

lemma run_end:
  "sc_i s \<le> length (sc_src s) \<Longrightarrow> sc_src (run nested s) = sc_src s \<and> sc_i (run nested s) = length (sc_src s)
     \<and> sc_depth (run nested s) = sc_depth s"
  using run_loop_end [of s nested] by (simp add: run_def)

text \<open>
  C29. A scan reads its text to the end, whatever the text and whatever the scans nested in it do:
  it ends (the scanner is a total function), the position ends at the length of the text, never
  past it, and the text itself is not changed.
\<close>

theorem scan_reads_whole_input:
  "sc_i (scan base (Suc n) (new_scanner src win d depth up hb)) = length src
    \<and> sc_src (scan base (Suc n) (new_scanner src win d depth up hb)) = src"
proof -
  let ?s = "new_scanner src win d depth up hb"
  have s: "sc_i ?s \<le> length (sc_src ?s)" "sc_src ?s = src" by (simp_all add: new_scanner_def)
  note r = run_end [OF s(1), of "scan base n"]
  have "keeps (run (scan base n) ?s) (finish (run (scan base n) ?s))" using r by (intro finish_keeps) simp
  then show ?thesis using r s by (simp add: keeps_def)
qed

section \<open>Eight levels of nesting are enough\<close>

definition agree :: "nat \<Rightarrow> nested_scan \<Rightarrow> nested_scan \<Rightarrow> bool" where
  "agree d m n \<longleftrightarrow> d < maxNestDepth \<longrightarrow> (\<forall>x. sc_depth x = d + 1 \<and> sc_i x = 0 \<longrightarrow> m x = n x)"

lemma recurseAs_agree: "agree (sc_depth s) m n \<Longrightarrow> recurseAs m txt d at s = recurseAs n txt d at s"
  by (simp add: recurseAs_def agree_def inner_scanner_def new_scanner_def)

lemma recurseAt_agree: "agree (sc_depth s) m n \<Longrightarrow> recurseAt m txt at s = recurseAt n txt at s"
  using recurseAs_agree by (simp add: recurseAt_def)

lemma mark_ops_depth [simp]: "sc_depth (mark_dynamic s) = sc_depth s"
  by (simp add: mark_dynamic_def)

lemma substitution_agree: "agree (sc_depth s) m n \<Longrightarrow> substitution m k s = substitution n k s"
  unfolding substitution_def Let_def case_prod_beta by (intro if_cong refl recurseAt_agree) simp

lemma dq_step_agree: "agree (sc_depth s) m n \<Longrightarrow> dq_step m s = dq_step n s"
  unfolding dq_step_def by (simp only: substitution_agree [of s m n])

lemma scanDoubleQuoted_agree: "agree (sc_depth s) m n \<Longrightarrow> scanDoubleQuoted m s = scanDoubleQuoted n s"
proof (induction m s rule: scanDoubleQuoted.induct)
  case (1 m s)
  note eq = dq_step_agree [OF "1.prems"]
  show ?case
  proof (cases "at_end s")
    case True
    then show ?thesis by (simp add: scanDoubleQuoted.simps [of _ s])
  next
    case False
    obtain fin s' where st: "dq_step m s = (fin, s')" by fastforce
    have "sc_depth s' = sc_depth s" using dq_step_progress [OF st] False by (simp add: at_end_def)
    then show ?thesis
      using "1.IH" [OF False st [symmetric]] "1.prems" False st eq
      by (simp add: scanDoubleQuoted.simps [of _ s])
  qed
qed

lemma wordChar_agree: "agree (sc_depth s) m n \<Longrightarrow> wordChar m s = wordChar n s"
  using scanDoubleQuoted_agree [of "advance 1 (mark_quoted (start_word s))" m n] by (simp add: wordChar_def Let_def)

lemma scanWord_agree: "agree (sc_depth s) m n \<Longrightarrow> scanWord m s = scanWord n s"
proof (induction m s rule: scanWord.induct)
  case (1 m s)
  then show ?case
    using wordChar_agree [OF "1.prems"] wordChar_progress [of s m]
    by (simp add: scanWord.simps [of _ s] at_end_def)
qed

lemma redirect_agree: "agree (sc_depth s) m n \<Longrightarrow> redirect m s = redirect n s" if "sc_i s < length (sc_src s)" "at_redirect s"
proof -
  assume a: "agree (sc_depth s) m n"
  have "sc_depth (skip_blanks (fst (redirect_op s))) = sc_depth s"
    using redirect_op_moves [OF that] skip_blanks_keeps [of "fst (redirect_op s)"] by (simp add: moves_def keeps_def)
  then have "scanWord m (skip_blanks (fst (redirect_op s))) = scanWord n (skip_blanks (fst (redirect_op s)))"
    using a by (intro scanWord_agree) simp
  then have "redirect_target m (sc_i s) op (fst (redirect_op s)) = redirect_target n (sc_i s) op (fst (redirect_op s))" for op
    unfolding redirect_target_def by (simp only:)
  then show ?thesis unfolding redirect_def Let_def case_prod_beta by (simp only:)
qed

lemma shellScript_agree: "agree (sc_depth s) m n \<Longrightarrow> shellScript m s = shellScript n s"
  unfolding shellScript_def winShellScript_def recurse_def Let_def
  by (simp only: recurseAs_agree [of s m n] recurseAt_agree [of s m n])

lemma closeSeg_agree: "agree (sc_depth s) m n \<Longrightarrow> closeSeg m p s = closeSeg n p s"
  unfolding closeSeg_def Let_def by (simp only: shellScript_agree [of "endWord s" m n] endWord_frame)

lemma group_agree:
  "agree (sc_depth s) m n \<Longrightarrow> subshellGroup m s = subshellGroup n s"
  "agree (sc_depth s) m n \<Longrightarrow> braceGroup m s = braceGroup n s"
  using recurseAt_agree
  by (auto simp: subshellGroup_def braceGroup_def Let_def case_prod_beta split: option.splits)

lemma run_step_agree: "run_step m s = run_step n s" if a: "agree (sc_depth s) m n" and i: "sc_i s < length (sc_src s)"
proof -
  have w: "wordChar m (unparsed r s) = wordChar n (unparsed r s)" "wordChar m s = wordChar n s" for r
    using a by (auto intro: wordChar_agree)
  have c: "closeSeg m p s = closeSeg n p s" "closeSeg m p (ps_background s) = closeSeg n p (ps_background s)" for p
    using a by (auto intro!: closeSeg_agree simp: ps_background_def)
  have r: "at_redirect s \<Longrightarrow> redirect m s = redirect n s" using redirect_agree a i by blast
  show ?thesis
    unfolding run_step_def Let_def w c substitution_agree [OF a] group_agree [OF a]
    by (intro if_cong refl r) (simp_all add: at_redirect_def)
qed

lemma run_loop_agree: "agree (sc_depth s) m n \<Longrightarrow> run_loop m s = run_loop n s"
proof (induction m s rule: run_loop.induct)
  case (1 m s)
  show ?case
  proof (cases "at_end s")
    case True
    then show ?thesis by (simp add: run_loop.simps [of _ s])
  next
    case False
    then have i: "sc_i s < length (sc_src s)" by (simp add: at_end_def)
    have "sc_depth (run_step m s) = sc_depth s" using run_step_moves [OF i] by (simp add: moves_def)
    then show ?thesis
      using "1.IH" [OF False] "1.prems" run_step_agree [OF "1.prems" i] False by (simp add: run_loop.simps [of _ s])
  qed
qed

lemma run_agree: "agree (sc_depth s) m n \<Longrightarrow> sc_i s \<le> length (sc_src s) \<Longrightarrow> run m s = run n s"
  using run_loop_agree [of s m n] closeSeg_agree [of "run_loop n s" m n] run_loop_end [of s n] by (simp add: run_def)

lemma scan_agree: "sc_depth s + n = maxNestDepth + 1 \<Longrightarrow> 0 < n \<Longrightarrow> sc_i s = 0 \<Longrightarrow> scan b n s = scan c n s"
proof (induction n arbitrary: s)
  case (Suc n)
  have "agree (sc_depth s) (scan b n) (scan c n)"
    using Suc.IH Suc.prems(1) by (auto simp: agree_def)
  then show ?case using run_agree [of s "scan b n" "scan c n"] Suc.prems(3) by simp
qed simp

text \<open>
  The nesting bound is exact: a top-level scan never asks for a scan nested deeper than the
  eight levels the model gives it. What stands at the bottom of the recursion (\<open>base\<close>) is never
  called, so the result is the one the unbounded recursion of the code computes.
\<close>

theorem nesting_levels_suffice:
  "scan base (maxNestDepth + 1) (new_scanner src win d 0 up hb) = scan id (maxNestDepth + 1) (new_scanner src win d 0 up hb)"
  by (rule scan_agree) (simp_all add: new_scanner_def maxNestDepth_def)

section \<open>Doubt is recorded and kept\<close>

text \<open>
  The reasons of \<open>Unparsed\<close> only grow, and never beyond eight; a step that reports something leaves
  the list non-empty.
\<close>

definition doubt_grows :: "scanner \<Rightarrow> scanner \<Rightarrow> bool" where
  "doubt_grows s s' \<longleftrightarrow> prefix (sc_unparsed s) (sc_unparsed s') \<and> (length (sc_unparsed s) \<le> 8 \<longrightarrow> length (sc_unparsed s') \<le> 8)"

lemma doubt_unparsed: "doubt_grows s (unparsed r s)" "sc_unparsed (unparsed r s) \<noteq> []"
  by (auto simp: unparsed_def doubt_grows_def)

lemma doubt_trans: "doubt_grows a b \<Longrightarrow> doubt_grows b c \<Longrightarrow> doubt_grows a c"
  by (auto simp: doubt_grows_def)

text \<open>
  A command name that hides what runs, and what is known of the words of a segment when nothing was
  reported: the name is visible, also behind wrappers such as \<open>env\<close> and \<open>command\<close>; the script of a
  shell \<open>-c\<close> is literal; the payload of a Windows script host was inspected.
\<close>

definition opaque_name :: "string \<Rightarrow> bool" where
  "opaque_name v \<longleftrightarrow> isShellEval v \<or> HasPrefix v ''$'' \<or> HasPrefix v [CHR 0x60]"

definition name_ok :: "string list \<Rightarrow> bool" where
  "name_ok argv \<longleftrightarrow> (argv \<noteq> [] \<longrightarrow> \<not> opaque_name (hd argv))
     \<and> (\<forall>k. 0 < k \<and> k < length argv \<and> effectiveIndex (take (Suc k) argv) = k \<longrightarrow> \<not> isShellEval (argv ! k))"

definition script_ok :: "string list \<Rightarrow> bool" where
  "script_ok argv =
     (case argv of
        [] \<Rightarrow> True
      | name # args \<Rightarrow>
          if winShellDialect name \<noteq> DialectNone \<or> \<not> isShell name then True
          else case after_c_flag args of
              None \<Rightarrow> True
            | Some rest \<Rightarrow>
                (case dropWhile (\<lambda>a. HasPrefix a ''-'') rest of
                   [] \<Rightarrow> False
                 | script # _ \<Rightarrow> \<not> ContainsAny script [CHR ''$'', CHR 0x60]))"

definition host_payload :: "string list \<Rightarrow> bool" where
  "host_payload argv =
     (case argv of
        [] \<Rightarrow> False
      | name # args \<Rightarrow>
          (case winShellDialect name of
             DialectNone \<Rightarrow> False
           | DialectPS \<Rightarrow> fst (snd (psPayload argv))
           | DialectCmd \<Rightarrow> fst (snd (cmdPayload argv))))"

text \<open>A segment is inspected only for the command it names.\<close>

definition insp_ok :: "segment \<Rightarrow> bool" where
  "insp_ok g \<longleftrightarrow> (Inspected g \<longrightarrow> Argv g \<noteq> [])"

lemma insp_ok_update [simp]:
  "insp_ok (g\<lparr>Env := e\<rparr>) = insp_ok g" "insp_ok (g\<lparr>Dynamic := b\<rparr>) = insp_ok g" "insp_ok (g\<lparr>Redirects := rs\<rparr>) = insp_ok g"
  "insp_ok (g\<lparr>PipeNext := b\<rparr>) = insp_ok g" "insp_ok (g\<lparr>Raw := r\<rparr>) = insp_ok g" "insp_ok (g\<lparr>Argv := as @ [v]\<rparr>)"
  "insp_ok (g\<lparr>Inspected := b\<rparr>) \<longleftrightarrow> b \<longrightarrow> Argv g \<noteq> []"
  by (simp_all add: insp_ok_def)

definition seg_ok :: "segment \<Rightarrow> bool" where
  "seg_ok g \<longleftrightarrow> name_ok (Argv g) \<and> insp_ok g \<and> script_ok (Argv g) \<and> (host_payload (Argv g) \<longrightarrow> Inspected g)"

definition cur_ok :: "segment option \<Rightarrow> bool" where
  "cur_ok c = (case c of None \<Rightarrow> True | Some g \<Rightarrow> name_ok (Argv g) \<and> insp_ok g)"

definition safe :: "scanner \<Rightarrow> bool" where
  "safe s \<longleftrightarrow> (sc_unparsed s = [] \<longrightarrow> list_all seg_ok (sc_segs s) \<and> list_all seg_ok (sc_inner s) \<and> cur_ok (sc_cur s))"

definition step_ok :: "scanner \<Rightarrow> scanner \<Rightarrow> bool" where
  "step_ok s s' \<longleftrightarrow> doubt_grows s s' \<and> (safe s \<longrightarrow> safe s')"

lemma step_ok_refl [simp]: "step_ok s s"
  by (simp add: step_ok_def doubt_grows_def)

lemma step_ok_trans: "step_ok a b \<Longrightarrow> step_ok b c \<Longrightarrow> step_ok a c"
  by (auto simp: step_ok_def doubt_grows_def)

lemma step_ok_if: "(c \<Longrightarrow> step_ok s a) \<Longrightarrow> (\<not> c \<Longrightarrow> step_ok s b) \<Longrightarrow> step_ok s (if c then a else b)"
  by simp

lemma step_ok_unparsed: "step_ok s (unparsed r s)"
  using doubt_unparsed by (simp add: step_ok_def safe_def)

text \<open>The fields that \<open>step_ok\<close> looks at.\<close>

definition view :: "scanner \<Rightarrow> string list \<times> segment list \<times> segment list \<times> segment option" where
  "view s = (sc_unparsed s, sc_segs s, sc_inner s, sc_cur s)"

lemma step_ok_view: "view s' = view s \<Longrightarrow> step_ok s s'"
  by (simp add: step_ok_def safe_def view_def doubt_grows_def)

lemma step_ok_to: "step_ok s t \<Longrightarrow> view t' = view t \<Longrightarrow> step_ok s t'"
  using step_ok_trans step_ok_view by blast

lemma step_ok_update [simp]:
  "step_ok s (t\<lparr>sc_w := w\<rparr>) \<longleftrightarrow> step_ok s t" "step_ok s (t\<lparr>sc_pending := hs\<rparr>) \<longleftrightarrow> step_ok s t"
  "step_ok s (t\<lparr>sc_redacted := b\<rparr>) \<longleftrightarrow> step_ok s t" "step_ok s (t\<lparr>sc_redactAt := k\<rparr>) \<longleftrightarrow> step_ok s t"
  "step_ok s (t\<lparr>sc_segStart := z\<rparr>) \<longleftrightarrow> step_ok s t" "step_ok s (t\<lparr>sc_i := i\<rparr>) \<longleftrightarrow> step_ok s t"
  "step_ok s (t\<lparr>sc_hbytes := i\<rparr>) \<longleftrightarrow> step_ok s t" "step_ok s (t\<lparr>sc_edits := es\<rparr>) \<longleftrightarrow> step_ok s t"
  "step_ok s (t\<lparr>sc_bodies := bs\<rparr>) \<longleftrightarrow> step_ok s t" "step_ok s (t\<lparr>sc_spans := sp\<rparr>) \<longleftrightarrow> step_ok s t"
  by (simp_all add: step_ok_def safe_def doubt_grows_def)

lemma step_ok_from: "step_ok s' t \<Longrightarrow> view s' = view s \<Longrightarrow> step_ok s t"
  using step_ok_trans step_ok_view by blast

lemma byte_ops_view [simp]:
  "view (put_byte c s) = view s" "view (mark_dynamic s) = view s" "view (mark_quoted s) = view s"
  "view (mark_brace s) = view s" "view (advance k s) = view s" "view (start_word s) = view s" "view (sort_edits s) = view s"
  by (simp_all add: put_byte_def mark_dynamic_def mark_quoted_def mark_brace_def advance_def start_word_def
      sort_edits_def view_def)

lemma map_edit_list_view [simp]: "view (map_edit_list t at es s) = view s"
  by (induction t at es s rule: map_edit_list.induct) (auto simp: view_def split: option.splits)

definition honest :: "nested_scan \<Rightarrow> bool" where
  "honest nested \<longleftrightarrow> (\<forall>x. step_ok x (nested x))"

lemma safe_inner_scanner: "safe (inner_scanner txt d s)"
  by (simp add: safe_def inner_scanner_def new_scanner_def cur_ok_def)

lemma absorb_fields:
  "sc_unparsed (absorb inn at s) = sc_unparsed inn" "sc_segs (absorb inn at s) = sc_segs s"
  "sc_inner (absorb inn at s) = sc_inner s @ sc_segs inn @ sc_inner inn" "sc_cur (absorb inn at s) = sc_cur s"
  using map_edit_list_view [of "sc_src inn" at "sc_edits inn"]
  by (simp_all add: absorb_def mapEdits_def Let_def view_def)

lemma recurseAs_ok: "honest nested \<Longrightarrow> step_ok s (fst (recurseAs nested txt d at s))"
proof (cases "sc_depth s \<ge> maxNestDepth")
  case True
  then show ?thesis by (simp add: recurseAs_def step_ok_unparsed)
next
  case False
  assume "honest nested"
  then have "step_ok (inner_scanner txt d s) (nested (inner_scanner txt d s))" by (simp add: honest_def)
  then have "doubt_grows s (nested (inner_scanner txt d s))" "safe (nested (inner_scanner txt d s))"
    using safe_inner_scanner by (auto simp: step_ok_def doubt_grows_def inner_scanner_def new_scanner_def)
  then show ?thesis using False
    by (auto simp: recurseAs_def Let_def step_ok_def doubt_grows_def safe_def absorb_fields)
qed

lemma recurseAt_ok: "honest nested \<Longrightarrow> step_ok s (recurseAt nested txt at s)"
  using step_ok_unparsed recurseAs_ok by (simp add: recurseAt_def)

lemma substitution_ok: "honest nested \<Longrightarrow> step_ok s (substitution nested k s)"
  unfolding substitution_def Let_def case_prod_beta
  by (intro step_ok_if; rule step_ok_from [OF step_ok_unparsed] step_ok_from [OF recurseAt_ok])
    (simp_all add: view_def mark_dynamic_def start_word_def)

lemma dq_step_ok: "honest nested \<Longrightarrow> step_ok s (snd (dq_step nested s))"
  unfolding dq_step_def Let_def if_distrib [of snd] snd_conv
  by (intro step_ok_if substitution_ok) (auto intro: step_ok_view step_ok_to [OF step_ok_unparsed])

lemma scanDoubleQuoted_ok: "honest nested \<Longrightarrow> step_ok s (scanDoubleQuoted nested s)"
proof (induction nested s rule: scanDoubleQuoted.induct)
  case (1 nested s)
  obtain fin s' where st: "dq_step nested s = (fin, s')" by fastforce
  then have "step_ok s s'" using dq_step_ok [OF "1.prems", of s] by simp
  then show ?case
    using "1.IH" [OF _ st [symmetric]] "1.prems" step_ok_unparsed
    by (auto simp: scanDoubleQuoted.simps [of nested s] st intro: step_ok_trans)
qed

lemma single_quoted_view: "view (single_quoted s) = view s"
proof (induction s rule: single_quoted.induct)
  case (1 s)
  then show ?case by (simp add: single_quoted.simps [of s])
qed

lemma word_plain_view:
  "view (word_plain s) = view (if sc_dialect s = DialectCmd \<and> cur_byte s = CHR ''^'' then unparsed ''cmd caret escape'' s else s)"
  by (auto simp: word_plain_def Let_def view_def unparsed_def put_byte_def mark_dynamic_def mark_brace_def advance_def)

lemma word_plain_ok: "step_ok s (word_plain s)"
  by (rule step_ok_to [OF _ word_plain_view]) (simp add: step_ok_unparsed)

lemma wordChar_ok: "honest nested \<Longrightarrow> step_ok s (wordChar nested s)"
proof -
  assume h: "honest nested"
  have st: "step_ok s (start_word s)" "step_ok s (advance 1 (mark_quoted (start_word s)))" by (simp_all add: step_ok_view)
  have "step_ok s (single_quoted (advance 1 (mark_quoted (start_word s))))" by (simp add: step_ok_view single_quoted_view)
  moreover have "step_ok s (scanDoubleQuoted nested (advance 1 (mark_quoted (start_word s))))"
    using step_ok_trans [OF st(2) scanDoubleQuoted_ok [OF h]] .
  moreover have "step_ok s (word_plain (start_word s))" using step_ok_trans [OF st(1) word_plain_ok] .
  moreover have "step_ok s (word_backslash (start_word s))" by (simp add: word_backslash_def step_ok_view)
  ultimately show ?thesis
    unfolding wordChar_def Let_def
    by (intro step_ok_if) (auto intro: step_ok_view step_ok_trans [OF _ step_ok_unparsed] step_ok_to)
qed

lemma scanWord_ok: "honest nested \<Longrightarrow> step_ok s (scanWord nested s)"
proof (induction nested s rule: scanWord.induct)
  case (1 nested s)
  show ?case
  proof (cases "at_end s \<or> ends_target (cur_byte s)")
    case True
    then show ?thesis by (auto simp: scanWord.simps [of nested s])
  next
    case False
    then have "step_ok (wordChar nested s) (scanWord nested (wordChar nested s))" using "1.IH" "1.prems" by simp
    then show ?thesis using step_ok_trans [OF wordChar_ok [OF "1.prems"]] False by (simp add: scanWord.simps [of nested s])
  qed
qed

text \<open>Words join the current segment.\<close>

lemma name_ok_snoc:
  "name_ok (argv @ [v]) \<longleftrightarrow> name_ok argv \<and> (argv = [] \<longrightarrow> \<not> opaque_name v)
     \<and> (argv \<noteq> [] \<and> effectiveIndex (argv @ [v]) = length argv \<longrightarrow> \<not> isShellEval v)"
proof -
  have "(\<forall>k. 0 < k \<and> k < Suc (length argv) \<and> effectiveIndex (take (Suc k) (argv @ [v])) = k \<longrightarrow> \<not> isShellEval ((argv @ [v]) ! k))
    \<longleftrightarrow> (\<forall>k. 0 < k \<and> k < length argv \<and> effectiveIndex (take (Suc k) argv) = k \<longrightarrow> \<not> isShellEval (argv ! k))
      \<and> (argv \<noteq> [] \<and> effectiveIndex (argv @ [v]) = length argv \<longrightarrow> \<not> isShellEval v)"
    by (auto simp: less_Suc_eq nth_append all_conj_distrib)
  then show ?thesis by (cases argv) (auto simp: name_ok_def)
qed

lemma step_ok_set_seg:
  assumes "step_ok s t" "cur_ok (sc_cur t) \<Longrightarrow> sc_unparsed t = [] \<Longrightarrow> name_ok (Argv g) \<and> insp_ok g"
  shows "step_ok s (set_seg g t)"
  using assms by (auto simp: step_ok_def safe_def set_seg_def cur_ok_def doubt_grows_def)

lemma seg_name_ok: "cur_ok (sc_cur s) \<Longrightarrow> name_ok (Argv (seg s)) \<and> insp_ok (seg s)"
  by (auto simp: cur_ok_def seg_def empty_segment_def name_ok_def insp_ok_def split: option.splits)

definition checked :: "string \<Rightarrow> scanner \<Rightarrow> scanner \<Rightarrow> bool" where
  "checked v s t \<longleftrightarrow> (t = s \<and> \<not> opaque_name v) \<or> (\<exists>r. t = unparsed r s)"

lemma checked_if: "(c \<Longrightarrow> checked v s a) \<Longrightarrow> (\<not> c \<Longrightarrow> checked v s b) \<Longrightarrow> checked v s (if c then a else b)"
  by simp

lemma checked_unparsed: "checked v s (unparsed r s)"
  by (auto simp: checked_def)

lemma check_argv0_cases: "check_argv0 v s = s \<and> \<not> opaque_name v \<or> (\<exists>r. check_argv0 v s = unparsed r s)"
proof -
  have "checked v s (check_argv0 v s)"
    unfolding check_argv0_def
    by (intro checked_if checked_unparsed) (simp add: checked_def opaque_name_def isShellEval_def)
  then show ?thesis by (simp add: checked_def)
qed

lemma unparsed_seg [simp]: "sc_cur (unparsed r s) = sc_cur s" "seg (unparsed r s) = seg s" "sc_w (unparsed r s) = sc_w s"
  by (simp_all add: unparsed_def seg_def)

lemma add_arg_ok: "step_ok s (add_arg v s)"
proof -
  define s1 where "s1 = (if Argv (seg s) = [] then check_argv0 v s else s)"
  let ?g = "(seg s)\<lparr>Argv := Argv (seg s) @ [v]\<rparr>"
  let ?bad = "length (Argv ?g) > 1 \<and> effectiveIndex (Argv ?g) = length (Argv ?g) - 1 \<and> isShellEval v"
  have eq: "add_arg v s = (if ?bad then unparsed (v @ '' runs text the splitter cannot see'') (set_seg ?g s1) else set_seg ?g s1)"
    by (simp add: add_arg_def s1_def Let_def)
  have s1: "step_ok s s1" "sc_cur s1 = sc_cur s" "Argv (seg s) = [] \<Longrightarrow> sc_unparsed s1 = [] \<Longrightarrow> \<not> opaque_name v"
    using check_argv0_cases [of v s] step_ok_unparsed doubt_unparsed(2) by (auto simp: s1_def)
  show ?thesis
  proof (cases ?bad)
    case True
    have "doubt_grows s (unparsed (v @ '' runs text the splitter cannot see'') (set_seg ?g s1))"
    proof (rule doubt_trans [OF _ doubt_unparsed(1)])
      show "doubt_grows s (set_seg ?g s1)" using s1(1) by (simp add: step_ok_def doubt_grows_def set_seg_def)
    qed
    then show ?thesis using True doubt_unparsed(2) unfolding eq by (simp add: step_ok_def safe_def)
  next
    case False
    have "step_ok s (set_seg ?g s1)"
      using s1 False seg_name_ok [of s] by (intro step_ok_set_seg) (auto simp: name_ok_snoc)
    then show ?thesis unfolding eq if_not_P [OF False] .
  qed
qed

lemma endWord_ok: "step_ok s (endWord s)"
proof -
  define s1 where "s1 = s\<lparr>sc_w := empty_word\<rparr>"
  define s2 where "s2 = (if Argv (seg s1) = [] \<and> \<not> w_quoted (sc_w s) \<and> isEnvAssign (w_val (sc_w s))
    then set_seg ((seg s1)\<lparr>Env := Env (seg s1) @ [w_val (sc_w s)]\<rparr>) s1 else add_arg (w_val (sc_w s)) s1)"
  have 1: "step_ok s s1" by (simp add: s1_def step_ok_view view_def)
  have 2: "step_ok s s2"
    using 1 add_arg_ok [of s1] seg_name_ok [of s1] by (auto simp: s2_def intro: step_ok_trans step_ok_set_seg)
  have 3: "step_ok s (set_seg ((seg s2)\<lparr>Dynamic := True\<rparr>) s2)"
    using 2 seg_name_ok [of s2] by (intro step_ok_set_seg) auto
  show ?thesis
    unfolding endWord_def Let_def s1_def [symmetric] s2_def [symmetric] using 1 2 3 by simp
qed

section \<open>Redirections, scripts and segments keep the invariant\<close>

lemma fd_digits_view: "view (fst (fd_digits s op)) = view s"
proof (induction s op rule: fd_digits.induct)
  case (1 s op)
  show ?case
  proof (cases "isDigit (peek s 0) \<and> \<not> at_end s")
    case True
    then show ?thesis using "1.IH" [OF True] by (simp add: fd_digits.simps [of s op])
  next
    case False
    then have "fd_digits s op = (s, op)" by (subst fd_digits.simps) auto
    then show ?thesis by simp
  qed
qed

lemma redirect_fd_ok: "step_ok s (fst (redirect_fd s))"
proof -
  have "step_ok s (fst (fd_digits (endWord s) []))" using step_ok_to [OF endWord_ok fd_digits_view] .
  moreover have "step_ok s (s\<lparr>sc_w := empty_word\<rparr>)" by (simp add: step_ok_view view_def)
  ultimately show ?thesis by (simp add: redirect_fd_def Let_def)
qed

lemma eat_view [simp]: "view (fst (eat c st)) = view (fst st)"
  by (simp add: eat_def case_prod_beta)

lemma redirect_op_ok: "step_ok s (fst (redirect_op s))"
proof -
  have sign: "view (fst (redirect_sign st)) = view (fst st)" for st
    by (simp add: redirect_sign_def Let_def case_prod_beta)
  have dup: "view (fst (redirect_dup st)) = view (fst st)" for st
    by (simp add: redirect_dup_def Let_def case_prod_beta)
  have ok: "step_ok s (fst (redirect_dup (redirect_sign (redirect_fd s))))"
    by (rule step_ok_to [OF redirect_fd_ok]) (simp add: sign dup)
  then show ?thesis
    using step_ok_trans [OF ok step_ok_unparsed] by (simp add: redirect_op_def case_prod_beta)
qed

lemma skip_blanks_view: "view (skip_blanks s) = view s"
proof (induction s rule: skip_blanks.induct)
  case (1 s)
  show ?case
  proof (cases "peek s 0 \<in> {CHR '' '', CHR 0x09, CHR 0x0D} \<and> \<not> at_end s")
    case True
    then show ?thesis using "1.IH" [OF True] by (simp add: skip_blanks.simps [of s])
  next
    case False
    then have "skip_blanks s = s" by (subst skip_blanks.simps) auto
    then show ?thesis by simp
  qed
qed

lemma redirect_target_ok: "honest nested \<Longrightarrow> step_ok s (fst (redirect_target nested start op s))"
proof -
  assume h: "honest nested"
  define s0 where "s0 = scanWord nested (skip_blanks s)"
  define s1 where "s1 = (if w_dynamic (sc_w s0) \<and> \<not> is_heredoc_op op then set_seg ((seg s0)\<lparr>Dynamic := True\<rparr>) s0 else s0)"
  have 0: "step_ok s s0" unfolding s0_def by (rule step_ok_from [OF scanWord_ok [OF h]]) (simp add: skip_blanks_view)
  have 1: "step_ok s s1" using 0 seg_name_ok [of s0] by (auto simp: s1_def intro!: step_ok_set_seg)
  have 2: "step_ok s (unparsed r s1)" "step_ok s (unparsed r s0)" for r
    using step_ok_trans [OF 1 step_ok_unparsed] step_ok_trans [OF 0 step_ok_unparsed] by auto
  show ?thesis
    unfolding redirect_target_def Let_def s0_def [symmetric] s1_def [symmetric]
    using 1 2 by simp
qed

lemma redirect_ok: "honest nested \<Longrightarrow> step_ok s (redirect nested s)"
proof -
  assume h: "honest nested"
  let ?s1 = "fst (redirect_op s)" and ?op = "snd (redirect_op s)"
  define t2 where "t2 = (if Contains ?op ''&'' \<and> isDigit (last ?op) then (?s1, []) else redirect_target nested (sc_i s) ?op ?s1)"
  define s3 where "s3 = (fst t2)\<lparr>sc_segStart := (if sc_segStart (fst t2) < 0 then int (sc_i s) else sc_segStart (fst t2))\<rparr>"
  have "step_ok s (fst t2)"
    using redirect_op_ok step_ok_trans [OF redirect_op_ok redirect_target_ok [OF h]] by (simp add: t2_def)
  then have "step_ok s s3" by (rule step_ok_to) (simp add: s3_def view_def)
  then have "step_ok s (set_seg ((seg s3)\<lparr>Redirects := Redirects (seg s3) @ [tok]\<rparr>) s3)" for tok
    using seg_name_ok [of s3] by (intro step_ok_set_seg) auto
  then show ?thesis unfolding redirect_def Let_def case_prod_beta t2_def [symmetric] s3_def [symmetric] .
qed

lemma recurseAs_cur [simp]: "sc_cur (fst (recurseAs nested txt d at s)) = sc_cur s"
  by (simp add: recurseAs_def Let_def absorb_fields)

lemma recurseAt_cur [simp]: "sc_cur (recurseAt nested txt at s) = sc_cur s"
  by (simp add: recurseAt_def)

lemma seg_cong: "sc_cur s = sc_cur t \<Longrightarrow> seg s = seg t"
  by (simp add: seg_def)

lemma set_seg_same [simp]: "seg (set_seg g s) = g" "sc_cur (set_seg g s) = Some g"
  by (simp_all add: seg_def set_seg_def)

text \<open>
  After \<open>shellScript\<close> the words of the segment are the same; if nothing has been reported, its script
  is literal and its payload was inspected.
\<close>

definition script_done :: "scanner \<Rightarrow> scanner \<Rightarrow> bool" where
  "script_done s s' \<longleftrightarrow> step_ok s s' \<and> Argv (seg s') = Argv (seg s)
     \<and> (sc_unparsed s' = [] \<longrightarrow> script_ok (Argv (seg s)) \<and> (host_payload (Argv (seg s)) \<longrightarrow> Inspected (seg s')))"

lemma script_done_unparsed: "step_ok s t \<Longrightarrow> Argv (seg t) = Argv (seg s) \<Longrightarrow> script_done s (unparsed r t)"
  using step_ok_trans [OF _ step_ok_unparsed] doubt_unparsed(2) by (simp add: script_done_def)

lemma winShellScript_done:
  assumes h: "honest nested" and argv: "Argv (seg s) = name # args" and d: "d = winShellDialect name" "d \<noteq> DialectNone"
  shows "script_done s (winShellScript nested (name # args) d s)"
proof -
  define p where "p = (if d = DialectPS then psPayload (name # args) else cmdPayload (name # args))"
  define reason where "reason = (if snd (snd p) = [] \<and> Dynamic (seg s)
      then dialect_String d @ '' command built from an outer-shell expansion'' else snd (snd p))"
  define q where "q = (if reason = [] then joinPayload (fst p) else ([], reason))"
  define z where "z = recurseAs nested (fst q) d (-1) s"
  have eq: "winShellScript nested (name # args) d s =
    (if \<not> fst (snd p) then s
     else if snd q \<noteq> [] then unparsed (snd q) s
     else if snd z = 0 \<and> length (sc_unparsed (fst z)) = length (sc_unparsed s)
       then unparsed (''no command found in the '' @ dialect_String d @ '' script'') (fst z)
       else set_seg ((seg (fst z))\<lparr>Inspected := True\<rparr>) (fst z))"
    unfolding winShellScript_def Let_def case_prod_beta p_def [symmetric] reason_def [symmetric] q_def [symmetric] z_def [symmetric] ..
  have host: "host_payload (Argv (seg s)) = fst (snd p)"
    using d argv by (cases d) (auto simp: host_payload_def p_def)
  have scr: "script_ok (Argv (seg s))" using d argv by (simp add: script_ok_def)
  have ok: "step_ok s (fst z)" "seg (fst z) = seg s" unfolding z_def using recurseAs_ok [OF h] by (auto intro: seg_cong)
  have "script_done s (set_seg ((seg (fst z))\<lparr>Inspected := True\<rparr>) (fst z))"
    using ok scr argv seg_name_ok [of "fst z"] by (auto simp: script_done_def intro!: step_ok_set_seg)
  moreover have "\<not> fst (snd p) \<Longrightarrow> script_done s s" using host scr by (simp add: script_done_def)
  ultimately show ?thesis
    unfolding eq using script_done_unparsed [OF step_ok_refl refl] script_done_unparsed [OF ok(1)] ok(2) by simp
qed

lemma shellScript_done: "honest nested \<Longrightarrow> script_done s (shellScript nested s)"
proof (cases "Argv (seg s)")
  case Nil
  then show ?thesis by (simp add: shellScript_def script_done_def script_ok_def host_payload_def)
next
  case (Cons name args)
  assume h: "honest nested"
  show ?thesis
  proof (cases "winShellDialect name = DialectNone")
    case False
    then show ?thesis using winShellScript_done [OF h Cons refl] Cons by (simp add: shellScript_def)
  next
    case True
    have "script_done s (recurse nested script s)" if "script_ok (Argv (seg s))" for script
      using that recurseAt_ok [OF h] Cons True seg_cong [of "recurse nested script s" s]
      by (simp add: script_done_def recurse_def host_payload_def)
    moreover have "script_done s s" if "script_ok (Argv (seg s))"
      using that Cons True by (simp add: script_done_def host_payload_def)
    ultimately show ?thesis
      using Cons True script_done_unparsed [OF step_ok_refl refl, of s]
      by (auto simp: shellScript_def script_ok_def split: option.splits list.splits)
  qed
qed

lemma step_ok_push:
  assumes "step_ok s t" "sc_unparsed t = [] \<Longrightarrow> safe t \<Longrightarrow> seg_ok g"
  shows "step_ok s (t\<lparr>sc_segs := sc_segs t @ [g], sc_cur := None\<rparr>)"
  using assms by (auto simp: step_ok_def safe_def doubt_grows_def cur_ok_def)

lemma closeSeg_ok: "honest nested \<Longrightarrow> step_ok s (closeSeg nested p s)"
proof (cases "sc_cur (endWord s)")
  case None
  then show ?thesis using endWord_ok [of s] by (simp add: closeSeg_def)
next
  case (Some g0)
  assume h: "honest nested"
  define s2 where "s2 = shellScript nested (endWord s)"
  define g where "g = (seg s2)\<lparr>PipeNext := (p \<or> PipeNext (seg s2))\<rparr>"
  have d: "script_done (endWord s) s2" unfolding s2_def by (rule shellScript_done [OF h])
  then have ok: "step_ok s s2" using step_ok_trans [OF endWord_ok] by (simp add: script_done_def)
  have g_ok: "seg_ok (g\<lparr>Raw := r\<rparr>)" if "sc_unparsed s2 = []" "safe s2" for r
    using that d seg_name_ok [of s2] by (auto simp: seg_ok_def g_def script_done_def safe_def)
  let ?n = "(sort_edits s2)\<lparr>sc_spans := sc_spans s2 @ [(sc_segStart s2, sc_i s2)],
      sc_segs := sc_segs s2 @ [g\<lparr>Raw := elided s2 (sc_segStart s2) (sc_i s2)\<rparr>], sc_cur := None\<rparr>"
  have "step_ok s (s2\<lparr>sc_segs := sc_segs s2 @ [g\<lparr>Raw := elided s2 (sc_segStart s2) (sc_i s2)\<rparr>], sc_cur := None\<rparr>)"
    using step_ok_push [OF ok g_ok] .
  then have "step_ok s ?n" by (rule step_ok_to) (simp add: view_def sort_edits_def)
  moreover have "step_ok s (s2\<lparr>sc_cur := None\<rparr>)" using ok by (auto simp: step_ok_def safe_def doubt_grows_def cur_ok_def)
  ultimately show ?thesis
    unfolding closeSeg_def Let_def Some option.case s2_def [symmetric] g_def [symmetric] by (auto split: if_splits)
qed

lemma consume_body_ok: "step_ok s (consume_body h s)"
proof -
  have "step_ok s (s\<lparr>sc_i := i, sc_hbytes := n\<rparr>)" for i n by simp
  from step_ok_trans [OF this step_ok_unparsed]
  have "step_ok s (unparsed r (s\<lparr>sc_i := i, sc_hbytes := n\<rparr>))" for r i n .
  then show ?thesis by (simp add: consume_body_def Let_def case_prod_beta)
qed

lemma consumeHeredocBodies_ok: "step_ok s (consumeHeredocBodies s)"
proof -
  have "step_ok s (fold consume_body hs s)" for hs
    by (induction hs arbitrary: s) (auto intro: step_ok_trans consume_body_ok)
  then show ?thesis by (simp add: consumeHeredocBodies_def)
qed

lemma finish_ok: "step_ok s (finish s)"
proof -
  define t where "t = consumeHeredocBodies s"
  have raw: "seg_ok (final_raw u sp g) = seg_ok g" for u sp g by (simp add: final_raw_def seg_ok_def)
  have "list_all seg_ok gs \<Longrightarrow> list_all seg_ok (map2 (final_raw t) sps gs)" for sps gs
    by (induction sps gs rule: list_induct2') (simp_all add: raw)
  then show ?thesis
    using consumeHeredocBodies_ok [of s]
    by (auto simp: finish_def Let_def t_def step_ok_def safe_def doubt_grows_def)
qed

lemma group_ok: "honest nested \<Longrightarrow> step_ok s (subshellGroup nested s)" "honest nested \<Longrightarrow> step_ok s (braceGroup nested s)"
proof -
  assume h: "honest nested"
  have "step_ok s (recurseAt nested x pos (s\<lparr>sc_i := i\<rparr>))" for x pos i
    by (rule step_ok_from [OF recurseAt_ok [OF h]]) (simp add: view_def)
  moreover have "step_ok s (recurseAt nested x pos (unparsed r (s\<lparr>sc_i := i\<rparr>)))" for x pos r i
    by (rule step_ok_trans [OF _ recurseAt_ok [OF h]], rule step_ok_trans [OF _ step_ok_unparsed]) simp
  ultimately show "step_ok s (subshellGroup nested s)" by (simp add: subshellGroup_def Let_def case_prod_beta)
  show "step_ok s (braceGroup nested s)"
    using recurseAt_ok [OF h, of s] step_ok_trans [OF step_ok_unparsed recurseAt_ok [OF h]]
    by (simp add: braceGroup_def Let_def split: option.splits)
qed

lemma run_step_ok: "honest nested \<Longrightarrow> step_ok s (run_step nested s)"
proof -
  assume h: "honest nested"
  have adv: "step_ok s (advance k t) \<longleftrightarrow> step_ok s t" for k t by (simp add: advance_def)
  have bg: "step_ok s (closeSeg nested False (ps_background s))"
    by (rule step_ok_trans [OF _ closeSeg_ok [OF h]]) (simp add: ps_background_def step_ok_unparsed)
  have nl: "step_ok s (consumeHeredocBodies (advance 1 (closeSeg nested False s)))"
    by (rule step_ok_trans [OF _ consumeHeredocBodies_ok]) (simp add: adv closeSeg_ok [OF h])
  have w: "step_ok s (wordChar nested (unparsed r s))" for r
    using step_ok_trans [OF step_ok_unparsed wordChar_ok [OF h]] .
  show ?thesis
    unfolding run_step_def Let_def
    by (intro step_ok_if nl w redirect_ok [OF h] substitution_ok [OF h] group_ok [OF h] wordChar_ok [OF h])
      (simp_all add: adv endWord_ok closeSeg_ok [OF h] bg del: One_nat_def)
qed

lemma run_loop_ok: "honest nested \<Longrightarrow> step_ok s (run_loop nested s)"
proof (induction nested s rule: run_loop.induct)
  case (1 nested s)
  show ?case
  proof (cases "at_end s")
    case False
    then show ?thesis
      using step_ok_trans [OF run_step_ok [OF "1.prems"] "1.IH" [OF False "1.prems"]] by (simp add: run_loop.simps [of nested s])
  qed (simp add: run_loop.simps [of nested s])
qed

lemma scan_honest: "honest base \<Longrightarrow> honest (scan base n)"
proof (induction n)
  case (Suc n)
  then have h: "honest (scan base n)" by simp
  have "step_ok s (run (scan base n) s)" for s
    unfolding run_def using step_ok_trans [OF run_loop_ok [OF h] closeSeg_ok [OF h]] .
  then show ?case using step_ok_trans [OF _ finish_ok] by (simp add: honest_def)
qed simp

lemma scan_id_honest: "honest (scan id n)"
  by (rule scan_honest) (simp add: honest_def)

lemma scan_top_safe: "safe (scan id n (new_scanner src win d 0 [] 0))" "length (sc_unparsed (scan id n (new_scanner src win d 0 [] 0))) \<le> 8"
proof -
  have "step_ok (new_scanner src win d 0 [] 0) (scan id n (new_scanner src win d 0 [] 0))"
    using scan_id_honest by (simp add: honest_def)
  then show "safe (scan id n (new_scanner src win d 0 [] 0))" "length (sc_unparsed (scan id n (new_scanner src win d 0 [] 0))) \<le> 8"
    by (auto simp: step_ok_def doubt_grows_def safe_def new_scanner_def cur_ok_def)
qed

lemma split_segments_ok:
  assumes "Unparsed (splitCommand cmd win) = []" "g \<in> set (Segments (splitCommand cmd win))"
  shows "seg_ok g"
  using assms scan_top_safe(1) [of "maxNestDepth + 1" cmd win DialectNone]
  by (auto simp: splitCommand_def Let_def safe_def list_all_iff split: if_splits)

lemma inspected_has_command:
  "Unparsed (splitCommand cmd win) = [] \<Longrightarrow> g \<in> set (Segments (splitCommand cmd win)) \<Longrightarrow> Inspected g \<Longrightarrow> Argv g \<noteq> []"
  using split_segments_ok by (auto simp: seg_ok_def insp_ok_def)

lemma takeWhile_take_past:
  "k < length (dropWhile P ws) \<Longrightarrow>
   takeWhile P (take (length (takeWhile P ws) + Suc k) ws) = takeWhile P ws
   \<and> drop (length (takeWhile P ws)) (take (length (takeWhile P ws) + Suc k) ws) = take (Suc k) (dropWhile P ws)"
proof (induction ws)
  case (Cons w ws)
  then show ?case by (cases "P w") auto
qed simp

lemma effectiveIndex_take:
  "effectiveIndex argv < length argv \<Longrightarrow> effectiveIndex (take (Suc (effectiveIndex argv)) argv) = effectiveIndex argv"
proof (induction argv rule: effectiveIndex.induct)
  case (2 w ws)
  show ?case
  proof (cases "is_wrapper w")
    case False
    then show ?thesis by simp
  next
    case True
    let ?P = "skips_wrapper_arg w"
    let ?k = "length (takeWhile ?P ws)"
    define e where "e = effectiveIndex (drop ?k ws)"
    have eff: "effectiveIndex (w # ws) = Suc (?k + e)" using True by (simp add: Let_def e_def)
    then have lt: "e < length (drop ?k ws)" using "2.prems" by simp
    then have tk: "takeWhile ?P (take (?k + Suc e) ws) = takeWhile ?P ws"
      "drop ?k (take (?k + Suc e) ws) = take (Suc e) (drop ?k ws)"
      using takeWhile_take_past [of e ?P ws] by (simp_all add: dropWhile_eq_drop)
    have "effectiveIndex (take (Suc e) (drop ?k ws)) = e"
      using "2.IH" [OF True refl] lt by (simp add: e_def)
    then have "effectiveIndex (w # take (?k + Suc e) ws) = Suc (?k + e)"
      using True tk by (simp add: Let_def)
    then show ?thesis unfolding eff by simp
  qed
qed simp

text \<open>
  Doubt is bounded and never silent: at most eight reasons are kept; a command over 64 KiB is
  reported and contributes no segment; and a command that is not blank yields a segment or a reason.
\<close>

theorem splitter_is_never_silent:
  "length (Unparsed (splitCommand cmd win)) \<le> 8
    \<and> (maxCommandBytes < length cmd \<longrightarrow> Unparsed (splitCommand cmd win) \<noteq> [] \<and> Segments (splitCommand cmd win) = [])
    \<and> (TrimSpace cmd \<noteq> [] \<longrightarrow> Segments (splitCommand cmd win) \<noteq> [] \<or> Unparsed (splitCommand cmd win) \<noteq> [])"
  using scan_top_safe(2) [of "maxNestDepth + 1" cmd win DialectNone]
  by (auto simp: splitCommand_def Let_def)

end
