(* ===== verification/PermSplitQuote.thy ===== *)
theory PermSplitQuote
  imports PermSplitProps
begin

text \<open>
  The round trip of the splitter: a list of commands whose words are written in single quotes,
  joined by blanks and by the operators \<open>;\<close>, \<open>&&\<close>, \<open>||\<close> and \<open>|\<close>, is split into exactly those commands
  and those words. No text inside single quotes can end the word, start another command or add a
  redirection. The lemmas execute the scanner symbolically on such a text, one word or operator at
  a time.
\<close>

section \<open>Rendering\<close>

definition quote_word :: "string \<Rightarrow> string" where
  "quote_word w = CHR 0x27 # w @ [CHR 0x27]"

fun render_words :: "string list \<Rightarrow> string" where
  "render_words [] = []"
| "render_words [w] = quote_word w"
| "render_words (w # v # vs) = quote_word w @ CHR '' '' # render_words (v # vs)"

datatype cmd_sep = Semi | AndAnd | OrOr | Pipe

definition sep_text :: "cmd_sep \<Rightarrow> string" where
  "sep_text sp = (case sp of Semi \<Rightarrow> '';'' | AndAnd \<Rightarrow> ''&&'' | OrOr \<Rightarrow> ''||'' | Pipe \<Rightarrow> ''|'')"

fun render_commands :: "(string list \<times> cmd_sep) list \<Rightarrow> string list \<Rightarrow> string" where
  "render_commands [] final = render_words final"
| "render_commands ((argv, sp) # cs) final = render_words argv @ sep_text sp @ render_commands cs final"

text \<open>Words that the splitter can quote and a command that it can analyse on its own.\<close>

definition plain_argv :: "string list \<Rightarrow> bool" where
  "plain_argv argv \<longleftrightarrow> argv \<noteq> [] \<and> list_all (\<lambda>w. CHR 0x27 \<notin> set w) argv
     \<and> (\<forall>k < length argv. name_ok (take (Suc k) argv))
     \<and> winShellDialect (hd argv) = DialectNone \<and> \<not> isShell (hd argv)"

definition plain_segment :: "string list \<Rightarrow> bool \<Rightarrow> segment" where
  "plain_segment argv pipe = empty_segment\<lparr>Argv := argv, PipeNext := pipe, Raw := render_words argv\<rparr>"

definition segment_list :: "(string list \<times> cmd_sep) list \<Rightarrow> string list \<Rightarrow> segment list" where
  "segment_list cs final = map (\<lambda>(argv, sp). plain_segment argv (sp = Pipe)) cs @ [plain_segment final False]"

section \<open>Quoted text is not blank at its ends\<close>

lemma space_len_quote: "space_len space_encodings (CHR 0x27 # xs) = 0" "space_len (map rev space_encodings) (CHR 0x27 # xs) = 0"
  by (simp_all add: space_len_def space_encodings_literal HasPrefix_def)

lemma TrimSpace_quoted: "TrimSpace (CHR 0x27 # xs @ [CHR 0x27]) = CHR 0x27 # xs @ [CHR 0x27]"
  by (simp add: TrimSpace_def trim_spaces.simps [of space_encodings "CHR 0x27 # xs @ [CHR 0x27]"]
      trim_spaces.simps [of "map rev space_encodings" "CHR 0x27 # rev xs @ [CHR 0x27]"] space_len_quote)

lemma render_words_ends: "argv \<noteq> [] \<Longrightarrow> \<exists>xs. render_words argv = CHR 0x27 # xs @ [CHR 0x27]"
proof (induction argv rule: render_words.induct)
  case (3 w v vs)
  then obtain xs where "render_words (v # vs) = CHR 0x27 # xs @ [CHR 0x27]" by auto
  then show ?case by (auto simp: quote_word_def)
qed (auto simp: quote_word_def)

lemma TrimSpace_render_words: "argv \<noteq> [] \<Longrightarrow> TrimSpace (render_words argv) = render_words argv"
  using render_words_ends [of argv] TrimSpace_quoted by auto

lemma render_commands_ends:
  "list_all (\<lambda>(argv, sp). argv \<noteq> []) cs \<Longrightarrow> final \<noteq> [] \<Longrightarrow> \<exists>xs. render_commands cs final = CHR 0x27 # xs @ [CHR 0x27]"
proof (induction cs final rule: render_commands.induct)
  case (1 final)
  then show ?case using render_words_ends by simp
next
  case (2 argv sp cs final)
  then obtain xs ys where "render_words argv = CHR 0x27 # xs @ [CHR 0x27]" "render_commands cs final = CHR 0x27 # ys @ [CHR 0x27]"
    using render_words_ends [of argv] by auto
  then show ?case by (auto simp del: render_words.simps)
qed

section \<open>Scanning a quoted word\<close>

lemma drop_step: "drop i xs = y # ys \<Longrightarrow> i < length xs \<and> xs ! i = y \<and> drop (Suc i) xs = ys"
  by (metis Cons_nth_drop_Suc drop_all leI list.distinct(1) list.inject)

lemma drop_appendD: "drop i xs = ys @ zs \<Longrightarrow> drop (i + length ys) xs = zs"
  by (metis add.commute append_eq_conv_conj drop_drop)

lemma single_quoted_reads:
  "drop (sc_i s) (sc_src s) = w @ CHR 0x27 # rest \<Longrightarrow> CHR 0x27 \<notin> set w \<Longrightarrow> sc_dialect s \<noteq> DialectPS \<Longrightarrow>
   single_quoted s = s\<lparr>sc_i := sc_i s + length w, sc_w := (sc_w s)\<lparr>w_val := w_val (sc_w s) @ w\<rparr>\<rparr>"
proof (induction w arbitrary: s)
  case Nil
  then show ?case using drop_step [of "sc_i s" "sc_src s"] by (simp add: single_quoted.simps [of s] at_end_def cur_byte_def)
next
  case (Cons c w)
  let ?t = "advance 1 (put_byte c s)"
  have st: "sc_i s < length (sc_src s)" "sc_src s ! sc_i s = c" "drop (Suc (sc_i s)) (sc_src s) = w @ CHR 0x27 # rest"
    using Cons.prems(1) drop_step [of "sc_i s" "sc_src s"] by auto
  have "single_quoted s = single_quoted ?t"
    using st Cons.prems(2) by (subst single_quoted.simps) (auto simp: at_end_def cur_byte_def)
  also have "\<dots> = ?t\<lparr>sc_i := sc_i ?t + length w, sc_w := (sc_w ?t)\<lparr>w_val := w_val (sc_w ?t) @ w\<rparr>\<rparr>"
    using st Cons.prems(2,3) by (intro Cons.IH) simp_all
  finally show ?case by (simp add: advance_def put_byte_def)
qed

definition qword :: "string \<Rightarrow> shell_word" where
  "qword w = \<lparr>w_val = w, w_started = True, w_quoted = True, w_dynamic = False, w_brace = False\<rparr>"

text \<open>The scanner between two words of the command \<open>argv\<close>, at offset \<open>i\<close>, with the word \<open>w\<close> open.\<close>

definition mid :: "string \<Rightarrow> bool \<Rightarrow> string list \<Rightarrow> int \<Rightarrow> nat \<Rightarrow> shell_word \<Rightarrow> segment list \<Rightarrow> (int \<times> nat) list \<Rightarrow> scanner" where
  "mid src win argv st i w segs spans =
     (new_scanner src win DialectNone 0 [] 0)\<lparr>sc_i := i, sc_w := w,
       sc_cur := (if argv = [] then None else Some (empty_segment\<lparr>Argv := argv\<rparr>)),
       sc_segs := segs, sc_spans := spans, sc_segStart := st\<rparr>"

lemma mid_fields [simp]:
  "sc_src (mid src win argv st i w segs spans) = src" "sc_i (mid src win argv st i w segs spans) = i"
  "sc_dialect (mid src win argv st i w segs spans) = DialectNone" "sc_w (mid src win argv st i w segs spans) = w"
  "sc_segStart (mid src win argv st i w segs spans) = st" "sc_unparsed (mid src win argv st i w segs spans) = []"
  "sc_segs (mid src win argv st i w segs spans) = segs" "sc_spans (mid src win argv st i w segs spans) = spans"
  "sc_edits (mid src win argv st i w segs spans) = []" "sc_pending (mid src win argv st i w segs spans) = []"
  "sc_inner (mid src win argv st i w segs spans) = []" "sc_redacted (mid src win argv st i w segs spans) = False"
  "sc_bodies (mid src win argv st i w segs spans) = []" "sc_hbytes (mid src win argv st i w segs spans) = 0"
  "seg (mid src win argv st i w segs spans) = empty_segment\<lparr>Argv := argv\<rparr>"
  by (simp_all add: mid_def new_scanner_def seg_def empty_segment_def)

lemma mid_update:
  "(mid src win argv st i w segs spans)\<lparr>sc_w := w'\<rparr> = mid src win argv st i w' segs spans"
  "(mid src win argv st i w segs spans)\<lparr>sc_i := j\<rparr> = mid src win argv st j w segs spans"
  "argv' \<noteq> [] \<Longrightarrow> set_seg (empty_segment\<lparr>Argv := argv'\<rparr>) (mid src win argv st i w segs spans) = mid src win argv' st i w segs spans"
  by (simp_all add: mid_def new_scanner_def set_seg_def)

lemma qword_fields [simp]:
  "w_val (qword w) = w" "w_started (qword w)" "w_quoted (qword w)" "\<not> w_dynamic (qword w)" "\<not> w_brace (qword w)"
  by (simp_all add: qword_def)

lemma run_loop_step: "sc_i s < length (sc_src s) \<Longrightarrow> run_loop nested s = run_loop nested (run_step nested s)"
  by (subst run_loop.simps) (simp add: at_end_def)

lemma run_quoted_word:
  assumes "drop i src = quote_word w @ rest" "CHR 0x27 \<notin> set w"
  shows "run_loop nested (mid src win argv st i empty_word segs spans) =
    run_loop nested (mid src win argv (if st < 0 then int i else st) (i + length (quote_word w)) (qword w) segs spans)"
proof -
  let ?s = "mid src win argv st i empty_word segs spans"
  have src: "i < length src" "src ! i = CHR 0x27" "drop (Suc i) src = w @ CHR 0x27 # rest"
    using assms(1) drop_step [of i src] by (auto simp: quote_word_def)
  have c: "cur_byte ?s = CHR 0x27" using src by (simp add: cur_byte_def)
  have "run_step nested ?s = wordChar nested ?s"
    unfolding run_step_def Let_def c by (simp add: newline_def isDigit_def byte_in_def)
  also have "\<dots> = mid src win argv (if st < 0 then int i else st) (i + length (quote_word w)) (qword w) segs spans"
  proof -
    let ?t = "advance 1 (mark_quoted (start_word ?s))"
    have t: "single_quoted ?t = ?t\<lparr>sc_i := sc_i ?t + length w, sc_w := (sc_w ?t)\<lparr>w_val := w_val (sc_w ?t) @ w\<rparr>\<rparr>"
      using src assms(2) by (intro single_quoted_reads) simp_all
    have "Suc (i + length w) < length src"
      using arg_cong [OF src(3), of length] by simp
    then show ?thesis
      using c t by (simp add: wordChar_def Let_def at_end_def quote_word_def qword_def empty_word_def mid_def
          new_scanner_def start_word_def mark_quoted_def advance_def)
  qed
  finally show ?thesis using run_loop_step [of ?s] src(1) by simp
qed

text \<open>Closing the open word adds it to the command.\<close>

lemma endWord_mid:
  assumes "name_ok (argv @ [w])"
  shows "endWord (mid src win argv st i (qword w) segs spans) = mid src win (argv @ [w]) st i empty_word segs spans"
proof -
  let ?s = "mid src win argv st i empty_word segs spans"
  have "argv = [] \<Longrightarrow> check_argv0 w ?s = ?s"
    using assms by (simp add: name_ok_def opaque_name_def isShellEval_def check_argv0_def)
  moreover have "\<not> (argv \<noteq> [] \<and> effectiveIndex (argv @ [w]) = length argv \<and> isShellEval w)"
    using assms by (auto simp: name_ok_snoc)
  ultimately have "add_arg w ?s = mid src win (argv @ [w]) st i empty_word segs spans"
    by (auto simp: add_arg_def Let_def mid_update)
  then show ?thesis by (simp add: endWord_def Let_def mid_update)
qed

lemma run_blank:
  assumes "drop i src = CHR '' '' # rest" "name_ok (argv @ [w])"
  shows "run_loop nested (mid src win argv st i (qword w) segs spans) =
    run_loop nested (mid src win (argv @ [w]) st (i + 1) empty_word segs spans)"
proof -
  let ?s = "mid src win argv st i (qword w) segs spans"
  have src: "i < length src" "src ! i = CHR '' ''" using assms(1) drop_step [of i src] by auto
  then have "run_step nested ?s = advance 1 (endWord ?s)" by (simp add: run_step_def cur_byte_def)
  also have "\<dots> = mid src win (argv @ [w]) st (i + 1) empty_word segs spans"
    by (simp add: endWord_mid [OF assms(2)] advance_def mid_update)
  finally show ?thesis using run_loop_step [of ?s] src(1) by simp
qed

section \<open>Commands\<close>

lemma run_words:
  assumes "ws \<noteq> []" "drop i src = render_words ws @ rest" "list_all (\<lambda>w. CHR 0x27 \<notin> set w) ws"
    and "\<forall>k < length ws. name_ok (argv @ take (Suc k) ws)"
  shows "run_loop nested (mid src win argv st i empty_word segs spans) =
    run_loop nested (mid src win (argv @ butlast ws) (if st < 0 then int i else st) (i + length (render_words ws))
      (qword (last ws)) segs spans)"
  using assms
proof (induction ws arbitrary: argv st i rule: render_words.induct)
  case (2 w)
  then show ?case using run_quoted_word [of i src w rest] by simp
next
  case (3 w v vs)
  let ?st = "if st < 0 then int i else st" and ?j = "i + length (quote_word w)"
  have src: "drop i src = quote_word w @ CHR '' '' # render_words (v # vs) @ rest" using "3.prems"(2) by simp
  have d1: "drop ?j src = CHR '' '' # render_words (v # vs) @ rest" using drop_appendD [OF src] .
  then have d2: "drop (?j + 1) src = render_words (v # vs) @ rest" using drop_step by fastforce
  have n: "name_ok (argv @ [w])" using "3.prems"(4) by (metis append_Nil length_greater_0_conv list.distinct(1) take0 take_Suc_Cons)
  have "run_loop nested (mid src win argv st i empty_word segs spans) = run_loop nested (mid src win (argv @ [w]) ?st (?j + 1) empty_word segs spans)"
    using run_quoted_word [OF src] run_blank [OF d1 n] "3.prems"(3) by simp
  also have "\<dots> = run_loop nested (mid src win ((argv @ [w]) @ butlast (v # vs)) (if ?st < 0 then int (?j + 1) else ?st)
      (?j + 1 + length (render_words (v # vs))) (qword (last (v # vs))) segs spans)"
    using "3.prems"(3,4) by (intro "3.IH" d2) (auto simp: list_all_iff dest: spec [of _ "Suc _"])
  finally show ?case by (simp add: algebra_simps)
qed simp

definition analysable :: "string list \<Rightarrow> bool" where
  "analysable argv \<longleftrightarrow> winShellDialect (hd argv) = DialectNone \<and> \<not> isShell (hd argv)"

lemma closeSeg_mid:
  assumes "name_ok (argv @ [w])" "analysable (argv @ [w])"
  shows "closeSeg nested p (mid src win argv st i (qword w) segs spans) =
    mid src win [] (-1) i empty_word
      (segs @ [empty_segment\<lparr>Argv := argv @ [w], PipeNext := p, Raw := TrimSpace (slice src (nat st) i)\<rparr>]) (spans @ [(st, i)])"
proof -
  let ?s = "mid src win (argv @ [w]) st i empty_word segs spans"
  have "shellScript nested ?s = ?s"
    using assms(2) by (cases "argv @ [w]") (auto simp: shellScript_def analysable_def)
  moreover have "sc_cur ?s = Some (empty_segment\<lparr>Argv := argv @ [w]\<rparr>)" by (simp add: mid_def)
  moreover have "elided ?s st i = TrimSpace (slice src (nat st) i)" by (simp add: elided_def sortedEdits_def)
  ultimately show ?thesis
    unfolding closeSeg_def Let_def endWord_mid [OF assms(1)]
    by (simp add: empty_segment_def) (simp add: mid_def new_scanner_def sort_edits_def sortedEdits_def)
qed

lemma run_sep:
  assumes "drop i src = sep_text sp @ CHR 0x27 # rest" "name_ok (argv @ [w])" "analysable (argv @ [w])"
  shows "run_loop nested (mid src win argv st i (qword w) segs spans) =
    run_loop nested (mid src win [] (-1) (i + length (sep_text sp)) empty_word
      (segs @ [empty_segment\<lparr>Argv := argv @ [w], PipeNext := (sp = Pipe), Raw := TrimSpace (slice src (nat st) i)\<rparr>]) (spans @ [(st, i)]))"
proof -
  let ?s = "mid src win argv st i (qword w) segs spans"
  have src: "i < length src" using assms(1) drop_step [of i src] by (cases sp) (auto simp: sep_text_def)
  have "run_step nested ?s = advance (length (sep_text sp)) (closeSeg nested (sp = Pipe) ?s)"
  proof (cases sp)
    case Semi
    then show ?thesis using assms(1) drop_step [of i src]
      by (simp add: run_step_def Let_def cur_byte_def sep_text_def newline_def)
  next
    case AndAnd
    then have "src ! i = CHR ''&''" "peek ?s 1 = CHR ''&''"
      using assms(1) drop_step [of i src] drop_step [of "Suc i" src] by (auto simp: sep_text_def peek_def)
    then show ?thesis using AndAnd by (simp add: run_step_def Let_def cur_byte_def sep_text_def newline_def numeral_2_eq_2)
  next
    case OrOr
    then have "src ! i = CHR ''|''" "peek ?s 1 = CHR ''|''"
      using assms(1) drop_step [of i src] drop_step [of "Suc i" src] by (auto simp: sep_text_def peek_def)
    then show ?thesis using OrOr by (simp add: run_step_def Let_def cur_byte_def sep_text_def newline_def numeral_2_eq_2)
  next
    case Pipe
    then have "src ! i = CHR ''|''" "peek ?s 1 = CHR 0x27"
      using assms(1) drop_step [of i src] drop_step [of "Suc i" src] by (auto simp: sep_text_def peek_def)
    then show ?thesis using Pipe by (simp add: run_step_def Let_def cur_byte_def sep_text_def newline_def)
  qed
  also have "\<dots> = mid src win [] (-1) (i + length (sep_text sp)) empty_word
      (segs @ [empty_segment\<lparr>Argv := argv @ [w], PipeNext := (sp = Pipe), Raw := TrimSpace (slice src (nat st) i)\<rparr>]) (spans @ [(st, i)])"
    by (simp add: closeSeg_mid [OF assms(2,3)] advance_def mid_update)
  finally show ?thesis using run_loop_step [of ?s] src by simp
qed

text \<open>The spans of the closed segments locate their text.\<close>

definition located :: "string \<Rightarrow> (int \<times> nat) list \<Rightarrow> segment list \<Rightarrow> bool" where
  "located src = list_all2 (\<lambda>(a, b) g. TrimSpace (slice src (nat a) b) = Raw g)"

lemma located_snoc: "located src sps gs \<Longrightarrow> TrimSpace (slice src (nat a) b) = Raw g \<Longrightarrow> located src (sps @ [(a, b)]) (gs @ [g])"
  by (auto simp: located_def intro: list_all2_appendI)

lemma plain_argv_split:
  assumes "plain_argv ws"
  shows "ws \<noteq> []" "list_all (\<lambda>w. CHR 0x27 \<notin> set w) ws" "name_ok (butlast ws @ [last ws])" "analysable (butlast ws @ [last ws])"
    "\<forall>k < length ws. name_ok (take (Suc k) ws)"
proof -
  show "name_ok (butlast ws @ [last ws])"
    using assms unfolding plain_argv_def by (metis append_butlast_last_id diff_less length_greater_0_conv less_one Suc_diff_1 take_all_iff order_refl)
qed (use assms in \<open>auto simp: plain_argv_def analysable_def\<close>)

lemma slice_at: "drop i src = xs @ rest \<Longrightarrow> slice src i (i + length xs) = xs"
  by (simp add: slice_def)

lemma run_command:
  assumes "plain_argv ws" "drop i src = render_words ws @ rest"
  shows "run_loop nested (mid src win [] (-1) i empty_word segs spans) =
    run_loop nested (mid src win (butlast ws) (int i) (i + length (render_words ws)) (qword (last ws)) segs spans)"
  using run_words [OF plain_argv_split(1) [OF assms(1)] assms(2) plain_argv_split(2) [OF assms(1)], of "[]"]
    plain_argv_split(5) [OF assms(1)] by simp

lemma run_commands:
  assumes "list_all (\<lambda>(argv, sp). plain_argv argv) cs" "plain_argv final"
    and "drop i src = render_commands cs final" "located src spans segs"
  shows "\<exists>spans'. run nested (mid src win [] (-1) i empty_word segs spans) =
      mid src win [] (-1) (length src) empty_word (segs @ segment_list cs final) spans'
    \<and> located src spans' (segs @ segment_list cs final)"
  using assms(1,3,4)
proof (induction cs arbitrary: i segs spans)
  case Nil
  let ?j = "i + length (render_words final)"
  have src: "drop i src = render_words final @ []" using Nil.prems(2) by simp
  have j: "?j = length src" using arg_cong [OF src, of length] render_words_ends [OF plain_argv_split(1) [OF assms(2)]] by auto
  note p = plain_argv_split [OF assms(2)]
  have raw: "TrimSpace (slice src i ?j) = render_words final"
    using slice_at [OF src] TrimSpace_render_words [OF p(1)] by simp
  let ?m = "mid src win (butlast final) (int i) ?j (qword (last final)) segs spans"
  have "run_loop nested (mid src win [] (-1) i empty_word segs spans) = run_loop nested ?m" by (rule run_command [OF assms(2) src])
  also have "\<dots> = ?m" using j by (subst run_loop.simps) (simp add: at_end_def)
  finally have "run nested (mid src win [] (-1) i empty_word segs spans) =
      mid src win [] (-1) (length src) empty_word (segs @ segment_list [] final) (spans @ [(int i, ?j)])"
    using closeSeg_mid [OF p(3,4), of nested False src win "int i" ?j segs spans] raw j p(1)
    by (simp add: run_def segment_list_def plain_segment_def)
  moreover have "located src (spans @ [(int i, ?j)]) (segs @ segment_list [] final)"
    unfolding segment_list_def using Nil.prems(3) raw by (auto simp: plain_segment_def intro!: located_snoc)
  ultimately show ?case by blast
next
  case (Cons c cs)
  obtain argv sp where c: "c = (argv, sp)" by fastforce
  note p = plain_argv_split [of argv]
  have pl: "plain_argv argv" "list_all (\<lambda>(argv, sp). plain_argv argv) cs" using Cons.prems(1) c by auto
  have src: "drop i src = render_words argv @ sep_text sp @ render_commands cs final" using Cons.prems(2) c by simp
  let ?j = "i + length (render_words argv)"
  let ?k = "?j + length (sep_text sp)"
  have d1: "drop ?j src = sep_text sp @ render_commands cs final" using drop_appendD [OF src] .
  have d2: "drop ?k src = render_commands cs final" using drop_appendD [OF d1] .
  obtain xs where xs: "render_commands cs final = CHR 0x27 # xs"
    using render_commands_ends [of cs final] pl(2) plain_argv_split(1) [OF assms(2)] p(1)
    by (fastforce simp: list_all_iff plain_argv_def)
  let ?g = "plain_segment argv (sp = Pipe)"
  have raw: "TrimSpace (slice src i ?j) = render_words argv"
    using slice_at [OF src] TrimSpace_render_words [OF p(1) [OF pl(1)]] by simp
  have step: "run_loop nested (mid src win [] (-1) i empty_word segs spans) =
      run_loop nested (mid src win [] (-1) ?k empty_word (segs @ [?g]) (spans @ [(int i, ?j)]))"
    using run_command [OF pl(1) src] run_sep [OF d1 [unfolded xs] p(3,4) [OF pl(1)], of nested win "int i" segs spans]
      raw p(1) [OF pl(1)] by (simp add: plain_segment_def)
  have "located src (spans @ [(int i, ?j)]) (segs @ [?g])"
    using Cons.prems(3) raw by (intro located_snoc) (simp_all add: plain_segment_def)
  from Cons.IH [OF pl(2) d2 this] show ?case
    using step c by (simp add: run_def segment_list_def)
qed

lemma finish_mid:
  assumes "located src spans segs"
  shows "finish (mid src win [] (-1) i empty_word segs spans) = mid src win [] (-1) i empty_word segs spans"
proof -
  let ?s = "mid src win [] (-1) i empty_word segs spans"
  have c: "consumeHeredocBodies ?s = ?s" by (simp add: consumeHeredocBodies_def mid_def new_scanner_def)
  have "final_raw ?s (a, b) g = g" if "TrimSpace (slice src (nat a) b) = Raw g" for a b g
    using that by (simp add: final_raw_def elided_def sortedEdits_def)
  then have "map2 (final_raw ?s) sps gs = gs" if "located src sps gs" for sps gs
    using that by (induction sps gs rule: list_induct2') (auto simp: located_def)
  from this [OF assms] show ?thesis unfolding finish_def Let_def c by (simp add: mid_def new_scanner_def sortedEdits_def)
qed

lemma split_quoted:
  assumes "list_all (\<lambda>(argv, sp). plain_argv argv) cs" "plain_argv final" "length (render_commands cs final) \<le> maxCommandBytes"
  shows "splitCommand (render_commands cs final) win =
    \<lparr>Segments = segment_list cs final, Normalized = render_commands cs final, HeredocBytes = 0, Unparsed = [], p_bodies = []\<rparr>"
proof -
  let ?t = "render_commands cs final"
  let ?s = "mid ?t win [] (-1) 0 empty_word [] []"
  have s: "new_scanner ?t win DialectNone 0 [] 0 = ?s" by (simp add: mid_def new_scanner_def)
  obtain spans where r: "run (scan id maxNestDepth) ?s = mid ?t win [] (-1) (length ?t) empty_word (segment_list cs final) spans"
    "located ?t spans (segment_list cs final)"
    using run_commands [OF assms(1,2), of 0 ?t "[]" "[]" "scan id maxNestDepth" win] by (auto simp: located_def)
  have sc: "scan id (maxNestDepth + 1) ?s = mid ?t win [] (-1) (length ?t) empty_word (segment_list cs final) spans"
    using r finish_mid [OF r(2)] by simp
  have "TrimSpace ?t = ?t"
    using render_commands_ends [of cs final] assms(1,2) TrimSpace_quoted by (fastforce simp: list_all_iff plain_argv_def)
  then show ?thesis
    using assms(3) unfolding splitCommand_def s Let_def sc
    by (simp add: normalized_def orderedBodies_def segment_list_def)
qed

text \<open>
  C5. Quoting round trip: commands whose words are written in single quotes are split into exactly
  those commands and words, with \<open>PipeNext\<close> exactly where a pipe stands, no redirection, nothing
  dynamic and nothing reported; the text shown is the text given. Hypotheses: no word contains a
  single quote, no command name is one that the splitter reports or recurses into, and the text is
  within the size limit.
\<close>

theorem quoted_commands_round_trip:
  assumes "list_all (\<lambda>(argv, sp). plain_argv argv) cs" "plain_argv final" "length (render_commands cs final) \<le> maxCommandBytes"
  shows "SplitCommand (render_commands cs final) =
    \<lparr>Segments = segment_list cs final, Normalized = render_commands cs final, HeredocBytes = 0, Unparsed = [], p_bodies = []\<rparr>"
  unfolding SplitCommand_def by (rule split_quoted [OF assms])

lemma plain_demo: "plain_argv [''ls'', ''a; rm -rf /'']" "plain_argv [''wc'']"
proof -
  have "winShellDialect ''ls'' = DialectNone" "winShellDialect ''wc'' = DialectNone" by code_simp+
  then show "plain_argv [''ls'', ''a; rm -rf /'']" "plain_argv [''wc'']"
    by (simp_all add: plain_argv_def name_ok_def opaque_name_def isShellEval_def HasPrefix_def is_wrapper_def less_Suc_eq
        isShell_def base_name_def)
qed

lemma demo_length: "length (render_commands [([''ls'', ''a; rm -rf /''], Pipe)] [''wc'']) \<le> maxCommandBytes"
  by (simp add: quote_word_def sep_text_def maxCommandBytes_def)

theorem quoted_commands_round_trip_witness:
  "Segments (SplitCommand (render_commands [([''ls'', ''a; rm -rf /''], Pipe)] [''wc''])) =
     [plain_segment [''ls'', ''a; rm -rf /''] True, plain_segment [''wc''] False]"
  using quoted_commands_round_trip [of "[([''ls'', ''a; rm -rf /''], Pipe)]" "[''wc'']"] plain_demo demo_length
  by (simp add: segment_list_def)



end
