(* ===== verification/PermSplitHere.thy ===== *)
theory PermSplitHere
  imports PermSplitQuote
begin

text \<open>
  Plain words, and the reading of here-strings: the scanner executed symbolically on unquoted words and
  on a here-string whose operator carries a file descriptor.
\<close>

definition plain_byte :: "char \<Rightarrow> bool" where
  "plain_byte c \<longleftrightarrow> c \<notin> {CHR '' '', CHR 0x09, CHR 0x0D, newline, CHR '';'', CHR ''&'', CHR ''|'', CHR ''$'', CHR 0x60, CHR ''('', CHR '')'',
     CHR ''{'', CHR ''}'', CHR ''<'', CHR ''>'', CHR 0x27, CHR 0x22, CHR 0x5C, CHR ''*'', CHR ''?'', CHR ''[''}"

lemma wordChar_plain:
  assumes "plain_byte (cur_byte s)" "sc_dialect s = DialectNone"
  shows "wordChar nested s = advance 1 (put_byte (cur_byte s) (start_word s))"
proof -
  have "cur_byte (start_word s) = cur_byte s" by (simp add: cur_byte_def)
  with assms show ?thesis unfolding wordChar_def word_plain_def Let_def plain_byte_def by simp
qed

lemma run_step_plain:
  assumes "plain_byte (cur_byte s)" "sc_dialect s = DialectNone" "\<not> (isDigit (cur_byte s) \<and> peek s 1 = CHR ''>'')"
  shows "run_step nested s = advance 1 (put_byte (cur_byte s) (start_word s))"
proof -
  have "run_step nested s = wordChar nested s"
    using assms unfolding run_step_def Let_def plain_byte_def by auto
  then show ?thesis using wordChar_plain assms by simp
qed

definition pword :: "string \<Rightarrow> shell_word" where
  "pword w = \<lparr>w_val = w, w_started = True, w_quoted = False, w_dynamic = False, w_brace = False\<rparr>"

lemma run_plain_bytes:
  assumes "drop i src = xs @ rest" "xs \<noteq> []" "list_all (\<lambda>c. plain_byte c \<and> \<not> isDigit c) xs"
    and "w = empty_word \<and> pre = [] \<or> w = pword pre \<and> 0 \<le> st"
  shows "run_loop nested (mid src win argv st i w segs spans) =
    run_loop nested (mid src win argv (if st < 0 then int i else st) (i + length xs) (pword (pre @ xs)) segs spans)"
  using assms
proof (induction xs arbitrary: i w pre st)
  case (Cons c xs)
  let ?s = "mid src win argv st i w segs spans" and ?st = "if st < 0 then int i else st"
  have src: "i < length src" "src ! i = c" "drop (Suc i) src = xs @ rest" using Cons.prems(1) drop_step [of i src] by auto
  then have c: "cur_byte ?s = c" by (simp add: cur_byte_def)
  have "run_step nested ?s = advance 1 (put_byte c (start_word ?s))"
    using run_step_plain [of ?s nested] Cons.prems(3) c by simp
  also have "\<dots> = mid src win argv ?st (Suc i) (pword (pre @ [c])) segs spans"
    using Cons.prems(4) by (auto simp: advance_def put_byte_def start_word_def pword_def empty_word_def mid_def new_scanner_def)
  finally have st: "run_loop nested ?s = run_loop nested (mid src win argv ?st (Suc i) (pword (pre @ [c])) segs spans)"
    using run_loop_step [of ?s] src(1) by simp
  show ?case
  proof (cases "xs = []")
    case False
    then show ?thesis using st Cons.IH [OF src(3) False, of "pword (pre @ [c])" "pre @ [c]" ?st] Cons.prems(3) by simp
  qed (use st in simp)
qed simp

lemma endWord_mid_plain:
  assumes "name_ok (argv @ [w])" "\<not> isEnvAssign w"
  shows "endWord (mid src win argv st i (pword w) segs spans) = mid src win (argv @ [w]) st i empty_word segs spans"
proof -
  have "endWord (mid src win argv st i (pword w) segs spans) = endWord (mid src win argv st i (qword w) segs spans)"
    using assms(2) by (simp add: endWord_def Let_def mid_update pword_def)
  then show ?thesis using endWord_mid [OF assms(1)] by simp
qed

lemma redirect_herestring:
  assumes src: "drop i src = ''<<<E'' @ newline # rest" and that: "0 \<le> st"
  shows "redirect nested (mid src win argv st i (pword ''0'') segs spans) = 
    (mid src win argv st (i + 4) empty_word segs spans)\<lparr>
      sc_cur := Some (empty_segment\<lparr>Argv := argv, Redirects := [\<lparr>r_Op = ''<<'', r_Target = ''E''\<rparr>]\<rparr>),
      sc_pending := [\<lparr>opStart = i, opEnd = i + 4, h_tag = ''E'', stripTabs = False\<rparr>]\<rparr>"
proof -
  let ?s = "mid src win argv st i (pword ''0'') segs spans"
  let ?m = "\<lambda>j w. mid src win argv st j w segs spans"
  have n: "i < length src" "Suc i < length src" "Suc (Suc i) < length src" "Suc (Suc (Suc i)) < length src" "Suc (Suc (Suc (Suc i))) < length src"
    "src ! i = CHR ''<''" "src ! Suc i = CHR ''<''" "src ! Suc (Suc i) = CHR ''<''" "src ! Suc (Suc (Suc i)) = CHR ''E''"
    "src ! Suc (Suc (Suc (Suc i))) = newline"
    using src drop_step [of i src] drop_step [of "Suc i" src] drop_step [of "Suc (Suc i)" src] drop_step [of "Suc (Suc (Suc i))" src]
      drop_step [of "Suc (Suc (Suc (Suc i)))" src] by auto
  have pk: "peek (?m i w) 0 = CHR ''<''" "peek (?m (Suc i) w) 0 = CHR ''<''" "peek (?m (Suc (Suc i)) w) 0 = CHR ''<''"
     "peek (?m (Suc (Suc (Suc i))) w) 0 = CHR ''E''" for w
    using n by (simp_all add: peek_def)
  have fd: "redirect_fd ?s = (?m i empty_word, ''0'')"
    by (simp add: redirect_fd_def Let_def pword_def allDigits_def isDigit_def byte_in_def mid_update)
  have sg: "redirect_sign (?m i empty_word, ''0'') = (?m (Suc (Suc (Suc i))) empty_word, ''0<<<'')"
    by (simp add: redirect_sign_def Let_def eat_def pk advance_def mid_update HasSuffix_def HasPrefix_def)
  have op: "redirect_op ?s = (?m (Suc (Suc (Suc i))) empty_word, ''0<<<'')"
    unfolding redirect_op_def fd sg by (simp add: redirect_dup_def HasSuffix_def HasPrefix_def pk)
  have sb: "skip_blanks (?m (Suc (Suc (Suc i))) empty_word) = ?m (Suc (Suc (Suc i))) empty_word"
    by (subst skip_blanks.simps) (simp add: pk)
  have w1: "wordChar nested (?m (Suc (Suc (Suc i))) empty_word) = ?m (Suc (Suc (Suc (Suc i)))) (pword ''E'')"
    using that n wordChar_plain [of "?m (Suc (Suc (Suc i))) empty_word" nested]
    by (simp add: cur_byte_def plain_byte_def newline_def)
       (simp add: start_word_def put_byte_def advance_def pword_def empty_word_def mid_def new_scanner_def)
  have sw: "scanWord nested (?m (Suc (Suc (Suc i))) empty_word) = ?m (Suc (Suc (Suc (Suc i)))) (pword ''E'')"
    using n by (simp add: scanWord.simps [of nested "?m (Suc (Suc (Suc i))) empty_word"] w1
      scanWord.simps [of nested "?m (Suc (Suc (Suc (Suc i)))) (pword ''E'')"] at_end_def cur_byte_def ends_target_def newline_def)
  have h: "is_heredoc_op ''0<<<''" by code_simp
  have u: "utf8_valid ''E''" by code_simp
  have m: "\<not> Contains ''0<<<'' ''<<-''" "\<not> Contains ''0<<<'' ''&''" by code_simp+
  have tg: "redirect_target nested i ''0<<<'' (?m (Suc (Suc (Suc i))) empty_word) =
    ((?m (i + 4) empty_word)\<lparr>sc_pending := [\<lparr>opStart = i, opEnd = i + 4, h_tag = ''E'', stripTabs = False\<rparr>]\<rparr>, ''E'')"
    unfolding redirect_target_def Let_def sb sw using h u m by (simp add: pword_def) (simp add: mid_def new_scanner_def eval_nat_numeral)
  show ?thesis
    unfolding redirect_def Let_def op mid_fields prod.case
    using m h that by (simp add: tg) (simp add: mid_def new_scanner_def set_seg_def seg_def empty_segment_def)
qed

definition hidden_text :: "string \<Rightarrow> string" where
  "hidden_text body = ''cat 0<<<E'' @ newline # body @ newline # ''E''"

lemma IndexByte_append: "c \<notin> set xs \<Longrightarrow> IndexByte (xs @ c # ys) c = Some (length xs)"
  by (induction xs) auto

lemma heredoc_loop_one_line:
  assumes "drop i src = body @ newline # ''E''" "newline \<notin> set body" "body \<noteq> ''E''"
  shows "heredoc_loop src ''E'' False i i = (length src, length body + 1, True)"
proof -
  have len: "length src = i + length body + 2" using arg_cong [OF assms(1), of length] by simp
  have d: "drop (i + length body + 1) src = ''E''"
    using drop_appendD [of i src "body @ [newline]" "''E''"] assms(1) by simp
  have ix: "IndexByte (body @ newline # ''E'') newline = Some (length body)" using IndexByte_append [OF assms(2)] .
  have "heredoc_loop src ''E'' False i i = heredoc_loop src ''E'' False i (i + length body + 1)"
    using assms(1,3) len by (subst heredoc_loop.simps) (simp add: ix)
  also have "\<dots> = (length src, length body + 1, True)"
    using d len by (subst heredoc_loop.simps) (simp add: newline_def)
  finally show ?thesis .
qed

lemma name_ok_cat: "name_ok [''cat'']" "\<not> isEnvAssign ''cat''" "analysable [''cat'']"
proof -
  show "analysable [''cat'']" unfolding analysable_def by code_simp
  show "name_ok [''cat'']" by (simp add: name_ok_def opaque_name_def isShellEval_def HasPrefix_def)
  show "\<not> isEnvAssign ''cat''" by code_simp
qed

definition cat_segment :: segment where
  "cat_segment = empty_segment\<lparr>Argv := [''cat''], Redirects := [\<lparr>r_Op = ''<<'', r_Target = ''E''\<rparr>]\<rparr>"

lemma run_hidden:
  fixes body defines "src \<equiv> hidden_text body"
  assumes "newline \<notin> set body" "body \<noteq> ''E''"
  shows "\<exists>s. run_loop nested (mid src win [] (-1) 0 empty_word [] []) = s \<and> sc_unparsed s = [] \<and> sc_inner s = []
    \<and> sc_cur s = None \<and> sc_w s = empty_word \<and> sc_spans s = [(0, 9)] \<and> (\<exists>r. sc_segs s = [cat_segment\<lparr>Raw := r\<rparr>]) \<and> sc_pending s = []"
proof -
  let ?m = "\<lambda>argv st i w. mid src win argv st i w [] []"
  have d0: "drop 0 src = ''cat'' @ '' 0<<<E'' @ newline # body @ newline # ''E''"
    and d3: "drop 3 src = CHR '' '' # ''0<<<E'' @ newline # body @ newline # ''E''"
    and d4: "src ! 4 = CHR ''0''" "src ! 5 = CHR ''<''" "4 < length src" "5 < length src"
    and d5: "drop 5 src = ''<<<E'' @ newline # body @ newline # ''E''"
    and d9: "src ! 9 = newline" "9 < length src"
    and d10: "drop 10 src = body @ newline # ''E''"
    by (simp_all add: src_def hidden_text_def)
  have "run_loop nested (?m [] (-1) 0 empty_word) = run_loop nested (?m [] 0 3 (pword ''cat''))"
    using run_plain_bytes [OF d0, of empty_word "[]" "-1" nested win "[]" "[]" "[]"]
    by (simp add: plain_byte_def newline_def isDigit_def byte_in_def numeral_3_eq_3)
  also have "\<dots> = run_loop nested (?m [''cat''] 0 4 empty_word)"
  proof -
    have src3: "3 < length src" "src ! 3 = CHR '' ''" using d3 drop_step [of 3 src] by auto
    then have "run_step nested (?m [] 0 3 (pword ''cat'')) = advance 1 (endWord (?m [] 0 3 (pword ''cat'')))"
      by (simp add: run_step_def cur_byte_def)
    also have "\<dots> = ?m [''cat''] 0 4 empty_word"
      using endWord_mid_plain [of "[]" "''cat''" src win 0 3 "[]" "[]"] name_ok_cat by (simp add: advance_def mid_update)
    finally show ?thesis using run_loop_step [of "?m [] 0 3 (pword ''cat'')"] src3 by simp
  qed
  also have "\<dots> = run_loop nested (?m [''cat''] 0 5 (pword ''0''))"
  proof -
    let ?s = "?m [''cat''] 0 4 empty_word"
    have "run_step nested ?s = advance 1 (put_byte (CHR ''0'') (start_word ?s))"
      using d4 run_step_plain [of ?s nested] by (simp add: cur_byte_def plain_byte_def newline_def peek_def)
    also have "\<dots> = ?m [''cat''] 0 5 (pword ''0'')"
      by (simp add: advance_def put_byte_def start_word_def pword_def empty_word_def mid_def new_scanner_def)
    finally show ?thesis using run_loop_step [of ?s] d4 by simp
  qed
  also have "\<dots> = run_loop nested (redirect nested (?m [''cat''] 0 5 (pword ''0'')))"
  proof -
    let ?s = "?m [''cat''] 0 5 (pword ''0'')"
    have c: "cur_byte ?s = CHR ''<''" using d4 by (simp add: cur_byte_def)
    have "run_step nested ?s = redirect nested ?s"
      unfolding run_step_def Let_def c by (simp add: newline_def)
    then show ?thesis using run_loop_step [of ?s] d4 by simp
  qed
  finally have 1: "run_loop nested (?m [] (-1) 0 empty_word) = run_loop nested (redirect nested (?m [''cat''] 0 5 (pword ''0'')))" .
  define s9 where "s9 = redirect nested (?m [''cat''] 0 5 (pword ''0''))"
  have s9: "s9 = (?m [''cat''] 0 9 empty_word)\<lparr>sc_cur := Some cat_segment,
      sc_pending := [\<lparr>opStart = 5, opEnd = 9, h_tag = ''E'', stripTabs = False\<rparr>]\<rparr>"
    unfolding s9_def by (simp add: redirect_herestring [OF d5] cat_segment_def)
  have c9: "cur_byte s9 = newline" "sc_i s9 < length (sc_src s9)" using d9 by (simp_all add: s9 cur_byte_def) 
  have e9: "endWord s9 = s9" by (simp add: s9 endWord_def Let_def empty_word_def)
  have g9: "seg s9 = cat_segment" "sc_cur s9 = Some cat_segment" by (simp_all add: s9 seg_def)
  have sh: "shellScript nested s9 = s9"
    using name_ok_cat(3) by (simp add: shellScript_def g9 cat_segment_def analysable_def)
  define s10 where "s10 = advance 1 (closeSeg nested False s9)"
  have s10: "s10 = (?m [] (-1) 10 empty_word)\<lparr>sc_segs := [cat_segment\<lparr>Raw := elided s9 0 9\<rparr>], sc_spans := [(0, 9)],
      sc_pending := [\<lparr>opStart = 5, opEnd = 9, h_tag = ''E'', stripTabs = False\<rparr>]\<rparr>"
    unfolding s10_def closeSeg_def Let_def e9 sh g9 option.case
    by (simp add: cat_segment_def empty_segment_def advance_def sort_edits_def sortedEdits_def)
       (simp add: s9 mid_def new_scanner_def sortedEdits_def)
  have hb: "heredocBody s10 ''E'' False = (length src, length body + 1, True)"
    using heredoc_loop_one_line [OF d10 assms(2,3)] by (simp add: heredocBody_def s10)
  have "run_step nested s9 = consumeHeredocBodies s10"
    unfolding run_step_def Let_def c9 s10_def by (simp add: newline_def)
  moreover have "at_end (consumeHeredocBodies s10)"
    by (simp add: s10 consumeHeredocBodies_def consume_body_def Let_def hb [unfolded s10] at_end_def)
  ultimately have 2: "run_loop nested s9 = consumeHeredocBodies s10"
    using run_loop_step [OF c9(2), of nested] by (simp add: run_loop.simps [of nested "consumeHeredocBodies s10"])
  show ?thesis
    unfolding 1 s9_def [symmetric] 2
    by (simp add: s10 consumeHeredocBodies_def consume_body_def Let_def hb [unfolded s10]) (auto simp: mid_def new_scanner_def)
qed


text \<open>
  C36. A here-string with a file descriptor hides the lines after it. In a shell \<open>cat 0<<<E\<close> feeds the
  text \<open>E\<close> to \<open>cat\<close> and the next line is a command of its own; \<open>redirect\<close> compares the whole operator,
  descriptor included, with \<open><<<\<close>, so it takes \<open>0<<<E\<close> for a heredoc and swallows every line up to the
  next \<open>E\<close> as its body. Whatever the next line is, it yields no segment and no doubt is reported.
\<close>

theorem fd_herestring_hides_next_line:
  assumes "newline \<notin> set body" "body \<noteq> ''E''" "length (hidden_text body) \<le> maxCommandBytes"
  shows "map Argv (Segments (SplitCommand (hidden_text body))) = [[''cat'']]
    \<and> Unparsed (SplitCommand (hidden_text body)) = []"
proof -
  let ?src = "hidden_text body"
  let ?n = "scan id maxNestDepth"
  let ?s = "mid ?src False [] (-1) 0 empty_word [] []"
  have s: "new_scanner ?src False DialectNone 0 [] 0 = ?s" by (simp add: mid_def new_scanner_def)
  define t where "t = run_loop ?n ?s"
  obtain r where t: "sc_unparsed t = []" "sc_inner t = []" "sc_cur t = None" "sc_w t = empty_word" "sc_spans t = [(0, 9)]"
    "sc_segs t = [cat_segment\<lparr>Raw := r\<rparr>]" "sc_pending t = []"
    unfolding t_def using run_hidden [OF assms(1,2), of ?n False] by auto
  have "endWord t = t" using t(4) by (simp add: endWord_def Let_def empty_word_def)
  then have "run ?n ?s = t\<lparr>sc_segStart := -1\<rparr>" unfolding run_def closeSeg_def Let_def t_def [symmetric] by (simp add: t)
  then have "scan id (maxNestDepth + 1) ?s = finish (t\<lparr>sc_segStart := -1\<rparr>)" by simp
  moreover have "map Argv (sc_segs (finish (t\<lparr>sc_segStart := -1\<rparr>))) = [[''cat'']]" "sc_inner (finish (t\<lparr>sc_segStart := -1\<rparr>)) = []"
    "sc_unparsed (finish (t\<lparr>sc_segStart := -1\<rparr>)) = []" "sc_segs (finish (t\<lparr>sc_segStart := -1\<rparr>)) \<noteq> []"
    using t by (simp_all add: finish_def Let_def consumeHeredocBodies_def final_raw_def cat_segment_def)
  ultimately show ?thesis
    using assms(3) unfolding SplitCommand_def splitCommand_def s Let_def by simp
qed

theorem fd_herestring_hides_next_line_witness:
  "map Argv (Segments (SplitCommand (hidden_text ''rm -rf /''))) = [[''cat'']]
    \<and> Unparsed (SplitCommand (hidden_text ''rm -rf /'')) = []"
proof -
  have "newline \<notin> set ''rm -rf /''" "length (hidden_text ''rm -rf /'') \<le> maxCommandBytes"
    by (simp_all add: newline_def hidden_text_def maxCommandBytes_def)
  then show ?thesis using fd_herestring_hides_next_line [of "''rm -rf /''"] by simp
qed

end
