(* ===== verification/PermPath.thy ===== *)
theory PermPath
  imports GoPath PermSplit
begin

text \<open>
  The path layer of the permission policy (\<open>platform_path.go\<close>, \<open>paths.go\<close> and \<open>segpaths.go\<close> of
  \<open>internal/permpolicy\<close>).

  A \<open>platform\<close> is the path flavour, POSIX or Windows. Its file system (\<open>pathFS\<close>), environment and
  temporary directories come from the operating system, so they are fields the model is
  parametric in, and so are three functions of the Go library that need the Unicode tables: the
  lower-casing and case folding of a whole path, and the text of a formatted error. A file mode
  is its 32 bits, tested by \<open>IsLink\<close> of \<open>internal/fsutil\<close>.
\<close>

datatype fs_error = ErrNotExist | ErrOther string

record path_fs =
  fs_Resolve :: "string \<Rightarrow> fs_error + string"
  fs_Lstat :: "string \<Rightarrow> 32 word option"
  fs_Readlink :: "string \<Rightarrow> fs_error + string"

datatype path_error =
    NulByte string
  | NoHome string
  | Unrepresentable string
  | RelativeWithoutCwd string
  | FsFailure string fs_error
  | TooManyHops string
  | ReadlinkFailure string string fs_error

record platform =
  windows :: bool
  pl_fs :: path_fs
  getenv :: "string \<Rightarrow> string"
  tempDirs :: "string list"
  pl_lower :: "string \<Rightarrow> string"
  pl_fold :: "string \<Rightarrow> string \<Rightarrow> bool"
  error_text :: "path_error \<Rightarrow> string"

text \<open>\<open>os.TempDir\<close> and \<open>os.UserHomeDir\<close> on Unix read \<open>TMPDIR\<close> and \<open>HOME\<close>.\<close>

definition posixTempDirs :: "(string \<Rightarrow> string) \<Rightarrow> string list" where
  "posixTempDirs env =
     [if env ''TMPDIR'' = [] then ''/tmp'' else env ''TMPDIR'', ''/tmp'', ''/private/tmp'', ''/var/tmp'']"

definition posixPlatform :: "path_fs \<Rightarrow> (string \<Rightarrow> string) \<Rightarrow> platform" where
  "posixPlatform fs env =
     \<lparr>windows = False, pl_fs = fs, getenv = env, tempDirs = posixTempDirs env,
      pl_lower = id, pl_fold = (=), error_text = (\<lambda>e. [])\<rparr>"

definition bslash :: char where
  "bslash = CHR 0x5C"

definition sep :: "platform \<Rightarrow> char" where
  "sep pl = (if windows pl then bslash else slash)"

definition isLetter :: "char \<Rightarrow> bool" where
  "isLetter b = (byte_in 97 122 b \<or> byte_in 65 90 b)"

definition winReserved :: "string \<Rightarrow> bool" where
  "winReserved w = (w \<in> {''CON'', ''PRN'', ''AUX'', ''NUL'',
     ''COM1'', ''COM2'', ''COM3'', ''COM4'', ''COM5'', ''COM6'', ''COM7'', ''COM8'', ''COM9'',
     ''LPT1'', ''LPT2'', ''LPT3'', ''LPT4'', ''LPT5'', ''LPT6'', ''LPT7'', ''LPT8'', ''LPT9''})"

definition winComponentOK :: "string \<Rightarrow> bool" where
  "winComponentOK c =
     (if c \<in> {[], ''.'', ''..''} then True
      else if ContainsAny c [CHR ''<'', CHR ''>'', CHR ''|'', CHR 0x22, CHR ''*'', CHR ''?'', CHR '':''] then False
      else if TrimBytes c ''.'' = [] then True
      else if HasSuffix c ''.'' \<or> HasSuffix c '' '' then False
      else \<not> winReserved (ToUpper (case IndexByte c CHR ''.'' of Some i \<Rightarrow> take i c | None \<Rightarrow> c)))"

definition winComponentsOK :: "string \<Rightarrow> bool" where
  "winComponentsOK rest = list_all winComponentOK (SplitByte rest bslash)"

text \<open>\<open>is_drive\<close> is the test \<open>len(p) >= 2 && isLetter(p[0]) && p[1] == ':'\<close>.\<close>

definition is_drive :: "string \<Rightarrow> bool" where
  "is_drive p = (2 \<le> length p \<and> isLetter (p ! 0) \<and> p ! 1 = CHR '':'')"

definition strip_verbatim :: "string \<Rightarrow> string option" where
  "strip_verbatim p =
     (if 8 \<le> length p \<and> EqualFold_ascii (take 8 p) [bslash, bslash, CHR ''?'', bslash, CHR ''U'', CHR ''N'', CHR ''C'', bslash]
      then Some ([bslash, bslash] @ drop 8 p)
      else if HasPrefix p [bslash, bslash, CHR ''?'', bslash] then
        (let q = drop 4 p in if length q < 3 \<or> \<not> is_drive q \<or> q ! 2 \<noteq> bslash then None else Some q)
      else Some p)"

definition strip_msys :: "string \<Rightarrow> string" where
  "strip_msys p =
     (if HasPrefix (ToLower p) ''/cygdrive/'' \<and> 11 \<le> length p \<and> isLetter (p ! 10) \<and> (length p = 11 \<or> p ! 11 = slash)
      then p ! 10 # '':/'' @ TrimPrefix (drop 11 p) [slash]
      else if 2 \<le> length p \<and> p ! 0 = slash \<and> isLetter (p ! 1) \<and> (length p = 2 \<or> p ! 2 = slash)
      then p ! 1 # '':/'' @ TrimPrefix (drop 2 p) [slash]
      else p)"

definition place_windows :: "string \<Rightarrow> string option" where
  "place_windows p =
     (if HasPrefix p [bslash, bslash] then
        (let parts = SplitByte3 (drop 2 p) bslash in
         if length parts < 2 \<or> parts ! 0 = [] \<or> parts ! 1 = [] then None
         else if \<not> winComponentOK (parts ! 0) \<or> \<not> winComponentOK (parts ! 1) then None
         else if length parts = 3 \<and> \<not> winComponentsOK (parts ! 2) then None
         else Some p)
      else if is_drive p then
        (if length p = 2 \<or> p ! 2 \<noteq> bslash then None
         else if \<not> winComponentsOK (drop 3 p) then None
         else Some (ToUpper (take 1 p) @ [CHR '':'', bslash] @ drop 3 p))
      else if HasPrefix p [bslash] then None
      else if \<not> winComponentsOK p then None
      else Some p)"

definition normalize :: "platform \<Rightarrow> string \<Rightarrow> string option" where
  "normalize pl p =
     (if \<not> windows pl then Some p
      else (case strip_verbatim p of
              None \<Rightarrow> None
            | Some p \<Rightarrow>
                (if HasPrefix p [bslash, bslash, CHR ''.'', bslash] \<or> HasPrefix p ''//./'' \<or> HasPrefix p ''//?/'' then None
                 else place_windows (replace_byte slash bslash (strip_msys p)))))"

definition winSplit :: "string \<Rightarrow> string \<times> bool \<times> string list" where
  "winSplit p =
     (let parts = SplitByte3 (drop 2 p) bslash;
          (vol, rooted, rest) =
            (if HasPrefix p [bslash, bslash] then
               (if 2 \<le> length parts \<and> parts ! 0 \<noteq> [] \<and> parts ! 1 \<noteq> []
                then ([bslash, bslash] @ parts ! 0 @ [bslash] @ parts ! 1, True, if length parts = 3 then parts ! 2 else [])
                else ([], False, p))
             else if is_drive p then (take 2 p, HasPrefix (drop 2 p) [bslash], drop 2 p)
             else ([], HasPrefix p [bslash], p))
      in (vol, rooted, filter (\<lambda>c. c \<noteq> []) (SplitByte rest bslash)))"

definition winBuild :: "string \<Rightarrow> bool \<Rightarrow> string list \<Rightarrow> string" where
  "winBuild vol rooted comps =
     (let body = Join comps [bslash] in
      if HasPrefix vol [bslash, bslash] then (if body = [] then vol else vol @ [bslash] @ body)
      else if rooted then vol @ [bslash] @ body
      else if body = [] then (if vol \<noteq> [] then vol else ''.'')
      else vol @ body)"

definition isAbs :: "platform \<Rightarrow> string \<Rightarrow> bool" where
  "isAbs pl p =
     (if \<not> windows pl then path_IsAbs p
      else (let (vol, rooted, comps) = winSplit (replace_byte slash bslash p) in vol \<noteq> [] \<and> rooted))"

definition clean :: "platform \<Rightarrow> string \<Rightarrow> string" where
  "clean pl p =
     (if \<not> windows pl then path_Clean p
      else if p = [] then ''.''
      else (let (vol, rooted, comps) = winSplit (replace_byte slash bslash p)
            in winBuild vol rooted (clean_comps rooted comps)))"

fun join_elems :: "platform \<Rightarrow> string \<Rightarrow> string list \<Rightarrow> string" where
  "join_elems pl acc [] = acc"
| "join_elems pl acc (e # es) =
     (if e = [] then join_elems pl acc es
      else if acc = [] \<or> isAbs pl e then join_elems pl e es
      else join_elems pl (acc @ [bslash] @ e) es)"

definition pl_join :: "platform \<Rightarrow> string list \<Rightarrow> string" where
  "pl_join pl elem =
     (if \<not> windows pl then path_Join elem
      else (let acc = join_elems pl [] elem in if acc = [] then [] else clean pl acc))"

definition dir :: "platform \<Rightarrow> string \<Rightarrow> string" where
  "dir pl p =
     (if \<not> windows pl then path_Dir p
      else (let c = clean pl p; (vol, rooted, comps) = winSplit c
            in if comps = [] then c else winBuild vol rooted (butlast comps)))"

definition base :: "platform \<Rightarrow> string \<Rightarrow> string" where
  "base pl p =
     (if \<not> windows pl then path_Base p
      else (let c = clean pl p; (vol, rooted, comps) = winSplit c
            in if comps = [] then (if c = ''.'' then ''.'' else [bslash]) else last comps))"

definition volume :: "platform \<Rightarrow> string \<Rightarrow> string" where
  "volume pl p = (if \<not> windows pl then [] else fst (winSplit (clean pl p)))"

definition pl_under :: "platform \<Rightarrow> string \<Rightarrow> string \<Rightarrow> bool" where
  "pl_under pl p root =
     (let lower = (if windows pl then pl_lower pl else id);
          p = lower (clean pl p); root = lower (clean pl root)
      in if p = root then True
         else if HasSuffix root [sep pl] then HasPrefix p root
         else HasPrefix p (root @ [sep pl]))"

definition pl_eq :: "platform \<Rightarrow> string \<Rightarrow> string \<Rightarrow> bool" where
  "pl_eq pl a b = (if windows pl then pl_fold pl (clean pl a) (clean pl b) else clean pl a = clean pl b)"

definition launcher_exts :: "string list" where
  "launcher_exts = [''.exe'', ''.com'', ''.cmd'', ''.bat'']"

definition cmdName :: "platform \<Rightarrow> string \<Rightarrow> string" where
  "cmdName pl argv0 =
     (if \<not> windows pl then path_Base argv0
      else (let name = ToLower (after_last_any argv0 [slash, bslash])
            in case find (HasSuffix name) launcher_exts of
                 Some ext \<Rightarrow> TrimSuffix name ext
               | None \<Rightarrow> name))"

definition isNullDevice :: "platform \<Rightarrow> string \<Rightarrow> bool" where
  "isNullDevice pl w =
     (if \<not> windows pl then w = ''/dev/null''
      else EqualFold_ascii w ''nul'' \<or> EqualFold_ascii w ''/dev/null''
        \<or> EqualFold_ascii w (replace_byte slash bslash ''/dev/null''))"

section \<open>Resolution\<close>

unbundle bit_operations_syntax

definition ModeSymlink :: "32 word" where "ModeSymlink = push_bit 27 1"

definition ModeIrregular :: "32 word" where "ModeIrregular = push_bit 19 1"

definition IsLink :: "32 word \<Rightarrow> bool" where
  "IsLink mode = (mode AND (ModeSymlink OR ModeIrregular) \<noteq> 0)"

definition maxLinkHops :: nat where
  "maxLinkHops = 40"

definition homeDir :: "platform \<Rightarrow> string option" where
  "homeDir pl =
     (let h = getenv pl (if windows pl then ''USERPROFILE'' else ''HOME'') in if h = [] then None else Some h)"

definition posixHomeForms :: "string list" where
  "posixHomeForms = [''~'', ''$HOME'', ''${HOME}'']"

definition winHomeForms :: "string list" where
  "winHomeForms = [''~'', ''$HOME'', ''${HOME}'', ''$USERPROFILE'', ''${USERPROFILE}'', ''%USERPROFILE%'',
     ''%userprofile%'', ''$env:USERPROFILE'']"

definition homeForms :: "platform \<Rightarrow> string list" where
  "homeForms pl = (if windows pl then winHomeForms else posixHomeForms)"

text \<open>\<open>home_form p form\<close>: \<open>p\<close> is the form itself, or the form before a separator.\<close>

definition home_form :: "platform \<Rightarrow> string \<Rightarrow> string \<Rightarrow> bool" where
  "home_form pl p form =
     (HasPrefix p form \<and> (case drop (length form) p of [] \<Rightarrow> True | c # cs \<Rightarrow> c = slash \<or> windows pl \<and> c = bslash))"

definition expandHome :: "platform \<Rightarrow> string \<Rightarrow> path_error + string" where
  "expandHome pl p =
     (case find (home_form pl p) (homeForms pl) of
        None \<Rightarrow> Inr p
      | Some form \<Rightarrow>
          (case homeDir pl of
             None \<Rightarrow> Inl (NoHome p)
           | Some home \<Rightarrow> Inr (pl_join pl [home, drop (length form) p])))"

text \<open>The tail is stacked deepest first, so it is joined back from its last entry down.\<close>

definition join_tail :: "platform \<Rightarrow> string \<Rightarrow> string list \<Rightarrow> string" where
  "join_tail pl r tail = foldr (\<lambda>t acc. pl_join pl [acc, t]) tail r"

text \<open>
  Cleaning a path only removes bytes from it, apart from the turn of slashes into backslashes and
  the path \<open>.\<close>; so does taking its parent. This is what ends the walk up to an existing ancestor.
\<close>

text \<open>The three shapes a Windows path has.\<close>

lemma winSplit_cases:
  assumes "winSplit p = (vol, rooted, comps)"
  obtains (unc) rest where "HasPrefix vol [bslash, bslash]" "rooted" "comps = filter (\<lambda>c. c \<noteq> []) (SplitByte rest bslash)"
      "p = vol \<and> rest = [] \<or> p = vol @ [bslash] @ rest"
    | (rooted) rest where "\<not> HasPrefix vol [bslash, bslash]" "rooted" "comps = filter (\<lambda>c. c \<noteq> []) (SplitByte rest bslash)"
      "p = vol @ [bslash] @ rest"
    | (relative) rest where "\<not> HasPrefix vol [bslash, bslash]" "\<not> rooted" "comps = filter (\<lambda>c. c \<noteq> []) (SplitByte rest bslash)"
      "p = vol @ rest"
proof -
  let ?parts = "SplitByte3 (drop 2 p) bslash"
  have empty: "\<not> HasPrefix [] [bslash, bslash]" by (simp add: HasPrefix_def)
  consider (a) "HasPrefix p [bslash, bslash]" "2 \<le> length ?parts" "?parts ! 0 \<noteq> []" "?parts ! 1 \<noteq> []"
    | (b) "HasPrefix p [bslash, bslash]" "\<not> (2 \<le> length ?parts \<and> ?parts ! 0 \<noteq> [] \<and> ?parts ! 1 \<noteq> [])"
    | (c) "\<not> HasPrefix p [bslash, bslash]" "is_drive p"
    | (d) "\<not> HasPrefix p [bslash, bslash]" "\<not> is_drive p" by blast
  then show thesis
  proof cases
    case a
    have "p = [bslash, bslash] @ drop 2 p" using HasPrefix_drop [OF a(1)] by (simp add: numeral_2_eq_2)
    then show thesis using SplitByte3_cases [OF a(2)] a assms
      by (intro unc [of "if length ?parts = 3 then ?parts ! 2 else []"])
         (auto simp: winSplit_def Let_def HasPrefix_def split: if_splits)
  next
    case b
    then show thesis using assms empty by (intro relative [of p]) (auto simp: winSplit_def Let_def split: if_splits)
  next
    case c
    have d: "p = take 2 p @ drop 2 p" by simp
    have "\<not> HasPrefix (take 2 p) [bslash, bslash]" using c(1) by (simp add: HasPrefix_def)
    then show thesis
      using assms c d HasPrefix_drop [of "drop 2 p" "[bslash]"]
      by (cases "HasPrefix (drop 2 p) [bslash]")
         (auto simp: winSplit_def Let_def intro: rooted [of "drop (Suc (Suc (Suc 0))) p"] relative [of "drop 2 p"])
  next
    case d
    show thesis
    proof (cases "HasPrefix p [bslash]")
      case True
      then obtain q where "p = bslash # q" by (cases p) (auto simp: HasPrefix_def)
      then show thesis using assms empty d True by (intro rooted [of q]) (auto simp: winSplit_def Let_def)
    next
      case False
      then show thesis using assms empty d by (intro relative [of p]) (auto simp: winSplit_def Let_def)
    qed
  qed
qed


lemma winBuild_subseq:
  assumes "winSplit p = (vol, rooted, comps)" "subseq out comps"
  shows "winBuild vol rooted out = ''.'' \<or> subseq (winBuild vol rooted out) p"
  using assms(1)
proof (cases rule: winSplit_cases)
  case (unc rest)
  then have "subseq (Join out [bslash]) rest" using assms(2) filter_ne_subseq_Join by simp
  then show ?thesis using unc by (auto simp: winBuild_def Let_def intro: subseq_append_mono list_emb_append2)
next
  case (rooted rest)
  then have "subseq (Join out [bslash]) rest" using assms(2) filter_ne_subseq_Join by simp
  then show ?thesis using rooted by (auto simp: winBuild_def Let_def intro: subseq_append_mono list_emb_append2)
next
  case (relative rest)
  then have "subseq (Join out [bslash]) rest" using assms(2) filter_ne_subseq_Join by simp
  then show ?thesis using relative by (auto simp: winBuild_def Let_def intro: subseq_append_mono list_emb_append2)
qed

lemma winBuild_ne [simp]: "winBuild vol rooted out \<noteq> []"
  by (auto simp: winBuild_def Let_def HasPrefix_def)

lemma dot_parts:
  "path_Dir ''.'' = ''.''" "winSplit ''.'' = ([], False, [''.''])" "replace_byte slash bslash ''.'' = ''.''"
  "clean_comps False [''.''] = []" "winBuild [] False [] = ''.''"
  by code_simp+

lemma dir_dot: "dir pl ''.'' = ''.''"
  using dot_parts by (simp add: dir_def clean_def)

lemma clean_subseq: "clean pl p = ''.'' \<or> subseq (clean pl p) (if windows pl then replace_byte slash bslash p else p)"
proof (cases "windows pl \<and> p \<noteq> []")
  case True
  obtain vol rooted comps where "winSplit (replace_byte slash bslash p) = (vol, rooted, comps)" by (metis prod_cases3)
  with winBuild_subseq [OF this clean_comps_subseq] True show ?thesis by (simp add: clean_def)
qed (use path_Clean_subseq in \<open>auto simp: clean_def\<close>)

lemma dir_subseq: "dir pl p = ''.'' \<or> subseq (dir pl p) (if windows pl then replace_byte slash bslash p else p)"
proof (cases "windows pl")
  case True
  obtain vol rooted comps where s: "winSplit (clean pl p) = (vol, rooted, comps)" by (metis prod_cases3)
  have "dir pl p = ''.'' \<or> subseq (dir pl p) (clean pl p)"
    using winBuild_subseq [OF s subseq_butlast] by (simp add: dir_def s True)
  moreover have "dir pl p = ''.''" if "clean pl p = ''.''"
    using that True dot_parts by (simp add: dir_def)
  ultimately show ?thesis using clean_subseq [of pl p] True by (auto intro: subseq_order.order_trans)
next
  case False
  have "subseq (case LastIndexByte p slash of None \<Rightarrow> [] | Some i \<Rightarrow> take (Suc i) p) p"
    by (auto split: option.splits intro: prefix_imp_subseq take_is_prefix)
  then show ?thesis using False path_Clean_subseq [of "case LastIndexByte p slash of None \<Rightarrow> [] | Some i \<Rightarrow> take (Suc i) p"]
    by (auto simp: dir_def path_Dir_def intro: subseq_order.order_trans)
qed

definition path_rank :: "string \<Rightarrow> nat" where
  "path_rank cur = (if cur = ''.'' then 0 else Suc (length cur))"

definition slash_count :: "string \<Rightarrow> nat" where
  "slash_count cur = length (filter (\<lambda>c. c = slash) cur)"

lemma no_slash_count: "slash_count (replace_byte slash bslash p) = 0"
  by (auto simp: slash_count_def replace_byte_def filter_empty_conv slash_def bslash_def)

lemma dir_rank:
  assumes "dir pl p \<noteq> p"
  shows "path_rank (dir pl p) < path_rank p \<or> path_rank (dir pl p) = path_rank p \<and> slash_count (dir pl p) < slash_count p"
proof (cases "dir pl p = ''.''")
  case True
  then show ?thesis using assms dir_dot [of pl] by (auto simp: path_rank_def)
next
  case False
  let ?q = "if windows pl then replace_byte slash bslash p else p"
  have p: "p \<noteq> ''.''" using False dir_dot [of pl] by auto
  have sub: "subseq (dir pl p) ?q" using dir_subseq [of pl p] False by simp
  have len: "length ?q = length p" by (simp add: replace_byte_def)
  show ?thesis
  proof (cases "length (dir pl p) = length p")
    case True
    then have q: "dir pl p = ?q" using subseq_same_length [OF sub] len by simp
    then have w: "windows pl" using assms by (auto split: if_splits)
    then have "slash \<in> set p" using q assms by (auto simp: replace_byte_def intro: map_idI)
    then have "slash_count p \<noteq> 0" by (auto simp: slash_count_def filter_empty_conv)
    then show ?thesis using w q no_slash_count [of p] True p False by (simp add: path_rank_def)
  next
    case n: False
    then have "length (dir pl p) < length p" using list_emb_length [OF sub] len by simp
    then show ?thesis using p False by (simp add: path_rank_def)
  qed
qed

function resolve_loop :: "platform \<Rightarrow> string \<Rightarrow> string \<Rightarrow> string list \<Rightarrow> nat \<Rightarrow> path_error + string" where
  "resolve_loop pl p cur tail hops =
     (case fs_Resolve (pl_fs pl) cur of
        Inr resolved \<Rightarrow> Inr (join_tail pl resolved tail)
      | Inl e \<Rightarrow>
          if e \<noteq> ErrNotExist then Inl (FsFailure p e)
          else if (case fs_Lstat (pl_fs pl) cur of Some mode \<Rightarrow> IsLink mode | None \<Rightarrow> False) then
            (if hops \<ge> maxLinkHops then Inl (TooManyHops p)
             else (case fs_Readlink (pl_fs pl) cur of
                     Inl e \<Rightarrow> Inl (ReadlinkFailure p cur e)
                   | Inr target \<Rightarrow>
                       (let target = (if isAbs pl target then target else pl_join pl [dir pl cur, target])
                        in resolve_loop pl p (clean pl (join_tail pl target tail)) [] (hops + 1))))
          else if dir pl cur = cur then Inl (FsFailure p e)
          else resolve_loop pl p (dir pl cur) (tail @ [base pl cur]) hops)"
  by pat_completeness auto
termination
proof (relation "measures [\<lambda>(pl, p, cur, tail, hops). Suc maxLinkHops - hops,
    \<lambda>(pl, p, cur, tail, hops). path_rank cur,
    \<lambda>(pl, p, cur, tail, hops). slash_count cur]", goal_cases)
  case (3 pl p cur tail hops x)
  then have "dir pl cur \<noteq> cur" by simp
  from dir_rank [OF this] show ?case by auto
qed auto

declare resolve_loop.simps [simp del]

definition resolve :: "platform \<Rightarrow> string \<Rightarrow> string \<Rightarrow> path_error + string" where
  "resolve pl p0 cwd =
     (if IndexByte p0 (CHR 0x00) \<noteq> None then Inl (NulByte p0)
      else (case expandHome pl p0 of
              Inl e \<Rightarrow> Inl e
            | Inr p \<Rightarrow>
                (case normalize pl p of
                   None \<Rightarrow> Inl (Unrepresentable p)
                 | Some norm \<Rightarrow>
                     if isAbs pl norm then (let p = clean pl norm in resolve_loop pl p p [] 0)
                     else if cwd = [] then Inl (RelativeWithoutCwd norm)
                     else (case normalize pl cwd of
                             None \<Rightarrow> Inl (Unrepresentable cwd)
                           | Some ncwd \<Rightarrow> (let p = clean pl (pl_join pl [ncwd, norm]) in resolve_loop pl p p [] 0)))))"

definition within :: "platform \<Rightarrow> string \<Rightarrow> string list \<Rightarrow> bool" where
  "within pl resolved roots =
     list_ex (\<lambda>root. case resolve pl root [] of Inl e \<Rightarrow> False | Inr r \<Rightarrow> pl_under pl resolved r) roots"

section \<open>The paths of a segment\<close>

definition hasPercentVar :: "string \<Rightarrow> bool" where
  "hasPercentVar w =
     (case IndexByte w CHR ''%'' of None \<Rightarrow> False | Some i \<Rightarrow> IndexByte (drop (i + 1) w) CHR ''%'' \<noteq> None)"

definition dynamicWord :: "platform \<Rightarrow> string \<Rightarrow> bool" where
  "dynamicWord pl w =
     (ContainsAny w [CHR ''$'', CHR 0x60, CHR ''*'', CHR ''?'', CHR ''[''] \<or> windows pl \<and> hasPercentVar w)"

definition is_unrepresentable :: "path_error \<Rightarrow> bool" where
  "is_unrepresentable e = (case e of Unrepresentable p \<Rightarrow> True | _ \<Rightarrow> False)"

definition nonPathWord :: "platform \<Rightarrow> string \<Rightarrow> path_error \<Rightarrow> bool" where
  "nonPathWord pl w err =
     (if \<not> windows pl \<or> \<not> is_unrepresentable err then False
      else if \<not> Contains w [bslash]
          \<and> (case IndexByte w CHR '':'' of Some i \<Rightarrow> 2 \<le> i \<and> \<not> Contains (take i w) [slash] | None \<Rightarrow> False) then True
      else if ContainsAny w [slash, bslash] then False
      else \<not> is_drive w)"

definition add_path :: "string list \<Rightarrow> string \<Rightarrow> string list" where
  "add_path out resolved = (if resolved \<in> set out then out else out @ [resolved])"

text \<open>What a word of the command contributes: a flag nothing, \<open>--flag=value\<close> its value.\<close>

definition flag_value :: "string \<Rightarrow> string" where
  "flag_value w =
     (if HasPrefix w ''-'' then (case IndexByte w CHR ''='' of None \<Rightarrow> [] | Some eq \<Rightarrow> drop (eq + 1) w) else w)"

fun word_paths_from :: "platform \<Rightarrow> string \<Rightarrow> string list \<Rightarrow> string list \<Rightarrow> path_error + string list" where
  "word_paths_from pl cwd out [] = Inr out"
| "word_paths_from pl cwd out (w0 # ws) =
     (let w = flag_value w0 in
      if w = [] \<or> dynamicWord pl w then word_paths_from pl cwd out ws
      else (case resolve pl w cwd of
              Inr r \<Rightarrow> word_paths_from pl cwd (add_path out r) ws
            | Inl err \<Rightarrow> if nonPathWord pl w err then word_paths_from pl cwd out ws else Inl err))"

fun redirect_paths_from :: "platform \<Rightarrow> string \<Rightarrow> string list \<Rightarrow> redirect_token list \<Rightarrow> path_error + string list" where
  "redirect_paths_from pl cwd out [] = Inr out"
| "redirect_paths_from pl cwd out (rd # rds) =
     (let t = r_Target rd in
      if t \<in> {[], ''&1'', ''&2'', ''-'', ''/dev/null''} \<or> isNullDevice pl t \<or> dynamicWord pl t
      then redirect_paths_from pl cwd out rds
      else (case resolve pl t cwd of
              Inr r \<Rightarrow> redirect_paths_from pl cwd (add_path out r) rds
            | Inl err \<Rightarrow> Inl err))"

definition segmentPaths :: "platform \<Rightarrow> segment \<Rightarrow> string \<Rightarrow> path_error + string list" where
  "segmentPaths pl g cwd =
     (case word_paths_from pl cwd [] (drop 1 (Argv g)) of
        Inl err \<Rightarrow> Inl err
      | Inr out \<Rightarrow> redirect_paths_from pl cwd out (Redirects g))"

end
