(* ===== verification/PermPathProps.thy ===== *)
theory PermPathProps
  imports PermPath
begin

text \<open>
  What the path comparison of the policy means: on POSIX, a path is under a root exactly when the
  components of the root are a prefix of its own.
\<close>

lemma SplitByte_append_sep: "SplitByte (a @ c # b) c = SplitByte a c @ SplitByte b c"
proof (induction a)
  case (Cons x a)
  then show ?case by (cases "SplitByte a c") (auto split: list.splits)
qed simp

lemma SplitByte_no_sep: "c \<notin> set s \<Longrightarrow> SplitByte s c = [s]"
  by (induction s) auto

lemma SplitByte_parts: "x \<in> set (SplitByte s c) \<Longrightarrow> c \<notin> set x"
  by (induction s arbitrary: x) (auto split: if_splits list.splits)

lemma SplitByte_Join: "xs \<noteq> [] \<Longrightarrow> \<forall>x\<in>set xs. c \<notin> set x \<Longrightarrow> SplitByte (Join xs [c]) c = xs"
proof (induction xs)
  case (Cons x xs)
  then show ?case by (cases xs) (simp_all add: SplitByte_no_sep SplitByte_append_sep)
qed simp

lemma Join_append: "xs \<noteq> [] \<Longrightarrow> ys \<noteq> [] \<Longrightarrow> Join (xs @ ys) [c] = Join xs [c] @ c # Join ys [c]"
proof (induction xs)
  case (Cons x xs)
  then show ?case by (cases xs) (simp_all add: Join_Cons_ne)
qed simp

definition components :: "string \<Rightarrow> string list" where
  "components p = clean_comps True (SplitByte p slash)"

lemma clean_step_ne: "\<forall>x\<in>set out. x \<noteq> [] \<Longrightarrow> \<forall>x\<in>set (clean_step r out c). x \<noteq> []"
  by (auto simp: clean_step_def dest: in_set_butlastD)

lemma components_ok: "x \<in> set (components p) \<Longrightarrow> slash \<notin> set x \<and> x \<noteq> []"
proof -
  have ne: "\<forall>x\<in>set out. x \<noteq> [] \<Longrightarrow> \<forall>x\<in>set (foldl (clean_step True) out cs). x \<noteq> []" for out cs
  proof (induction cs arbitrary: out)
    case (Cons c cs)
    show ?case using Cons.IH [OF clean_step_ne [OF Cons.prems]] by simp
  qed simp
  assume x: "x \<in> set (components p)"
  then have "x \<in> set (SplitByte p slash)"
    using list_emb_set [OF clean_comps_subseq [of True "SplitByte p slash"]] unfolding components_def by blast
  moreover have "x \<noteq> []" using x ne [of "[]" "SplitByte p slash"] by (simp add: components_def clean_comps_def)
  ultimately show ?thesis using SplitByte_parts by blast
qed

lemma clean_absolute:
  "\<not> windows pl \<Longrightarrow> path_IsAbs p \<Longrightarrow> clean pl p = slash # Join (components p) [slash]"
  by (simp add: clean_def path_Clean_def components_def)

lemma Join_last_ne:
  assumes "xs \<noteq> []" "\<forall>x\<in>set xs. slash \<notin> set x \<and> x \<noteq> []"
  shows "Join xs [slash] \<noteq> [] \<and> last (Join xs [slash]) \<noteq> slash"
  using assms
proof (induction xs)
  case (Cons x xs)
  then show ?case by (cases xs) (auto dest: last_in_set)
qed simp

lemma HasSuffix_single: "HasSuffix s [c] \<longleftrightarrow> s \<noteq> [] \<and> last s = c"
  by (cases s rule: rev_cases) (auto simp: HasSuffix_def HasPrefix_def)

lemma Join_prefix_iff:
  assumes "rs \<noteq> []" "\<forall>x\<in>set rs. slash \<notin> set x \<and> x \<noteq> []" "\<forall>x\<in>set ps. slash \<notin> set x \<and> x \<noteq> []"
  shows "Join ps [slash] = Join rs [slash] \<or> prefix (Join rs [slash] @ [slash]) (Join ps [slash]) \<longleftrightarrow> prefix rs ps"
proof
  assume L: "Join ps [slash] = Join rs [slash] \<or> prefix (Join rs [slash] @ [slash]) (Join ps [slash])"
  have ne: "ps \<noteq> []" using L Join_last_ne [OF assms(1,2)] by auto
  have ps: "SplitByte (Join ps [slash]) slash = ps" using SplitByte_Join [OF ne] assms(3) by blast
  have rs: "SplitByte (Join rs [slash]) slash = rs" using SplitByte_Join [OF assms(1)] assms(2) by blast
  from L show "prefix rs ps"
  proof
    assume "Join ps [slash] = Join rs [slash]"
    then have "ps = rs" using ps rs by (metis (no_types))
    then show ?thesis by simp
  next
    assume "prefix (Join rs [slash] @ [slash]) (Join ps [slash])"
    then obtain x where "Join ps [slash] = Join rs [slash] @ slash # x" by (auto simp: prefix_def)
    then have "ps = rs @ SplitByte x slash" using ps rs SplitByte_append_sep [of "Join rs [slash]" slash x] by simp
    then show ?thesis by simp
  qed
next
  assume "prefix rs ps"
  then obtain qs where "ps = rs @ qs" by (auto simp: prefix_def)
  then show "Join ps [slash] = Join rs [slash] \<or> prefix (Join rs [slash] @ [slash]) (Join ps [slash])"
    using Join_append [OF assms(1), of qs slash] by (cases "qs = []") auto
qed

text \<open>
  C33. On POSIX an absolute path is under an absolute root exactly when, after both are cleaned, the
  components of the root are the first components of the path: \<open>/a/bc\<close> is not under \<open>/a/b\<close>, a root is
  under itself, everything is under \<open>/\<close>, and \<open>..\<close> cannot climb out.
\<close>

theorem under_is_component_prefix:
  assumes "\<not> windows pl" "path_IsAbs p" "path_IsAbs root"
  shows "pl_under pl p root \<longleftrightarrow> prefix (components root) (components p)"
proof -
  note c = clean_absolute [OF assms(1,2)] clean_absolute [OF assms(1,3)]
  note ok = components_ok [of _ p] components_ok [of _ root]
  show ?thesis
  proof (cases "components root = []")
    case True
    then show ?thesis
      unfolding pl_under_def Let_def c by (simp add: assms(1) sep_def HasSuffix_single HasPrefix_def)
  next
    case False
    have "\<not> HasSuffix (slash # Join (components root) [slash]) [slash]"
      using Join_last_ne [OF False] ok(2) by (auto simp: HasSuffix_single)
    moreover have "HasPrefix (slash # Join (components p) [slash]) ((slash # Join (components root) [slash]) @ [slash])
        \<longleftrightarrow> prefix (Join (components root) [slash] @ [slash]) (Join (components p) [slash])"
      by (simp add: HasPrefix_iff_prefix)
    ultimately show ?thesis
      using Join_prefix_iff [OF False, of "components p"] ok
      unfolding pl_under_def Let_def c by (simp add: assms(1) sep_def) blast
  qed
qed

definition demo_posix :: platform where
  "demo_posix = posixPlatform \<lparr>fs_Resolve = Inr, fs_Lstat = (\<lambda>p. None), fs_Readlink = (\<lambda>p. Inl ErrNotExist)\<rparr> (\<lambda>k. [])"

theorem under_is_component_prefix_witness:
  "\<not> pl_under demo_posix ''/a/bc'' ''/a/b''"
proof -
  have "\<not> windows demo_posix" by (simp add: demo_posix_def posixPlatform_def)
  moreover have "path_IsAbs ''/a/bc''" "path_IsAbs ''/a/b''" by (simp_all add: path_IsAbs_def HasPrefix_def slash_def)
  moreover have "components ''/a/bc'' = [''a'', ''bc'']" "components ''/a/b'' = [''a'', ''b'']" by code_simp+
  ultimately show ?thesis using under_is_component_prefix [of demo_posix "''/a/bc''" "''/a/b''"] by simp
qed

end
