(* ===== verification/PermFloor.thy ===== *)
theory PermFloor
  imports PermPath
begin

text \<open>
  The compiled-in floor of the permission policy (\<open>request.go\<close>, \<open>floor.go\<close>, \<open>floor_env.go\<close> and
  \<open>floor_paths.go\<close> of \<open>internal/permpolicy\<close>): the rules no policy file can override.

  A \<open>floor_seg\<close> is one segment seen through its wrappers. The patterns the code matches with
  package \<open>regexp\<close> are written out as tests on the bytes of a word.
\<close>

type_synonym policy_action = string

definition ActionAllow :: policy_action where
  "ActionAllow = ''allow''"

definition ActionDeny :: policy_action where
  "ActionDeny = ''deny''"

definition ActionAsk :: policy_action where
  "ActionAsk = ''ask''"

lemmas action_defs = ActionAllow_def ActionDeny_def ActionAsk_def

record request =
  Tool :: string
  Command :: string
  Paths :: "string list"
  Cwd :: string
  Worktree :: string
  TaskBranch :: string
  Seat :: string
  Workspace :: string
  Truncated :: bool
  Doubt :: string
  Home :: string
  SmindHome :: string
  RunID :: string
  RequestID :: string
  TaskID :: int
  WorkspaceID :: int
  plat :: platform

text \<open>\<open>plat\<close> is what \<open>pl()\<close> returns: the flavour set on the request, else the host's.\<close>

record floor_hit =
  hit_ID :: string
  hit_Reason :: string

definition floorReasons :: "(string \<times> string) list" where
  "floorReasons =
    [(''no-stash'', ''git stash hides work from the task branch''),
     (''no-force-push'', ''force pushes and ref deletions rewrite shared history''),
     (''no-merge'', ''merging, tagging and releasing belong to the human''),
     (''no-install-state'', ''the install state, credentials and the daemon are off limits''),
     (''no-secrets'', ''secrets and environment dumps must not reach the transcript''),
     (''no-destructive-outside'', ''destructive commands must stay inside the task worktree''),
     (''no-curl-sh'', ''downloaded code must not run unreviewed''),
     (''no-real-home-tests'', ''tests must run against a temporary HOME, not the real one''),
     (''no-add-all'', ''stage named files, never the whole tree'')]"

definition floorHit :: "string \<Rightarrow> floor_hit option" where
  "floorHit i = Some \<lparr>hit_ID = i, hit_Reason = (case map_of floorReasons i of Some r \<Rightarrow> r | None \<Rightarrow> [])\<rparr>"

record floor_seg =
  fl_req :: request
  fl_seg :: segment
  fl_argv :: "string list"
  assigns :: "string list"
  unsets :: "string list"
  wrappers :: "string list"
  fl_cwd :: string

definition fl_pl :: "floor_seg \<Rightarrow> platform" where
  "fl_pl fs = plat (fl_req fs)"

definition seg_name :: "floor_seg \<Rightarrow> string" where
  "seg_name fs = cmdName (fl_pl fs) (hd (fl_argv fs))"

function skipFlags :: "string list \<Rightarrow> string list \<Rightarrow> string list" where
  "skipFlags rest withValue =
     (case rest of
        [] \<Rightarrow> []
      | w # ws \<Rightarrow>
          (if w = ''--'' then ws
           else if \<not> HasPrefix w ''-'' \<or> w = ''-'' then rest
           else if w \<in> set withValue then skipFlags (drop 2 rest) withValue
           else skipFlags ws withValue))"
  by pat_completeness auto
termination by (relation "measure (\<lambda>(rest, v). length rest)") auto

declare skipFlags.simps [simp del]

function unwrapEnv :: "floor_seg \<Rightarrow> string list \<Rightarrow> floor_seg \<times> string list" where
  "unwrapEnv fs rest =
     (case rest of
        [] \<Rightarrow> (fs, [])
      | w # ws \<Rightarrow>
          (if w = ''--'' then (fs, ws)
           else if w = ''-u'' \<or> w = ''--unset'' then
             unwrapEnv (fs\<lparr>unsets := unsets fs @ take 1 ws\<rparr>) (drop 2 rest)
           else if HasPrefix w ''--unset='' then
             unwrapEnv (fs\<lparr>unsets := unsets fs @ [drop (length ''--unset='') w]\<rparr>) ws
           else if HasPrefix w ''-u'' \<and> \<not> HasPrefix w ''--'' then
             unwrapEnv (fs\<lparr>unsets := unsets fs @ [drop 2 w]\<rparr>) ws
           else if w = ''-C'' \<or> w = ''--chdir'' then unwrapEnv fs (drop 2 rest)
           else if w = ''-S'' \<or> w = ''--split-string'' then
             (if length rest < 2 then (fs, []) else (fs, Fields (rest ! 1) @ drop 2 rest))
           else if HasPrefix w ''-'' then unwrapEnv fs ws
           else if isEnvAssign w then unwrapEnv (fs\<lparr>assigns := assigns fs @ [w]\<rparr>) ws
           else (fs, rest)))"
  by pat_completeness auto
termination by (relation "measure (\<lambda>(fs, rest). length rest)") auto

declare unwrapEnv.simps [simp del]

text \<open>One pass of the loop of \<open>unwrap\<close>: \<open>None\<close> when the command is not a wrapper.\<close>

definition unwrap_step :: "floor_seg \<Rightarrow> floor_seg option" where
  "unwrap_step fs =
     (let name = seg_name fs; rest = tl (fl_argv fs);
          peeled = (\<lambda>fs rest. Some (fs\<lparr>wrappers := wrappers fs @ [name], fl_argv := rest\<rparr>))
      in if name = ''env'' then (let (fs', r) = unwrapEnv fs rest in peeled fs' r)
         else if name \<in> {''command'', ''nohup'', ''time'', ''builtin''} then peeled fs (skipFlags rest [])
         else if name = ''exec'' then peeled fs (skipFlags rest [''-a''])
         else if name = ''nice'' then peeled fs (skipFlags rest [''-n'', ''--adjustment''])
         else if name = ''timeout'' then peeled fs (drop 1 (skipFlags rest [''-s'', ''-k'']))
         else if name = ''xargs'' then
           peeled fs (skipFlags rest [''-I'', ''-n'', ''-L'', ''-P'', ''-d'', ''-E'', ''-s'', ''-a'', ''-R'', ''-S''])
         else None)"

fun unwrap :: "nat \<Rightarrow> floor_seg \<Rightarrow> floor_seg" where
  "unwrap 0 fs = fs"
| "unwrap (Suc n) fs =
     (if fl_argv fs = [] then fs
      else (case unwrap_step fs of None \<Rightarrow> fs | Some fs' \<Rightarrow> unwrap n fs'))"

definition newFloorSeg :: "request \<Rightarrow> segment \<Rightarrow> string \<Rightarrow> floor_seg" where
  "newFloorSeg req g cwd =
     unwrap 16 \<lparr>fl_req = req, fl_seg = g, fl_argv = Argv g, assigns = Env g, unsets = [], wrappers = [], fl_cwd = cwd\<rparr>"

section \<open>Words and options\<close>

fun nonFlags_from :: "bool \<Rightarrow> string list \<Rightarrow> string list" where
  "nonFlags_from rest [] = []"
| "nonFlags_from rest (a # as) =
     (if rest then a # nonFlags_from rest as
      else if a = ''--'' then nonFlags_from True as
      else if \<not> HasPrefix a ''-'' \<or> a = ''-'' then a # nonFlags_from rest as
      else nonFlags_from rest as)"

definition nonFlags :: "string list \<Rightarrow> string list" where
  "nonFlags args = nonFlags_from False args"

definition longOpt :: "string \<Rightarrow> string list \<Rightarrow> bool" where
  "longOpt arg names =
     (if \<not> HasPrefix arg ''--'' \<or> length arg = 2 then False
      else (let name = fst (CutByte (drop 2 arg) CHR ''='') in list_ex (\<lambda>n. HasPrefix (drop 2 n) name) names))"

definition shortCluster :: "string \<Rightarrow> string \<Rightarrow> bool" where
  "shortCluster arg letters =
     (1 < length arg \<and> arg ! 0 = CHR ''-'' \<and> arg ! 1 \<noteq> CHR ''-'' \<and> ContainsAny (drop 1 arg) letters)"

definition floorHome :: "request \<Rightarrow> string" where
  "floorHome req =
     (if Home req \<noteq> [] then Home req else (case homeDir (plat req) of Some h \<Rightarrow> h | None \<Rightarrow> []))"

text \<open>\<open>None\<close> is a word the floor cannot place; the engine asks about it.\<close>

definition resolveFloor :: "request \<Rightarrow> string \<Rightarrow> string \<Rightarrow> string option" where
  "resolveFloor req w cwd =
     (if w = [] then None
      else (let pl = plat req; home = floorHome req;
                expanded = (case find (home_form pl w) (homeForms pl) of
                   None \<Rightarrow> Some w
                 | Some form \<Rightarrow> if home = [] then None else Some (home @ drop (length form) w))
            in case expanded of
                 None \<Rightarrow> None
               | Some w \<Rightarrow>
                   if dynamicWord pl w then None
                   else (case resolve pl w cwd of Inl e \<Rightarrow> None | Inr r \<Rightarrow> Some r)))"

definition chdir :: "floor_seg \<Rightarrow> string \<Rightarrow> string \<Rightarrow> string" where
  "chdir fs cwd d = (case resolveFloor (fl_req fs) d cwd of Some r \<Rightarrow> r | None \<Rightarrow> [])"

definition isCd :: "floor_seg \<Rightarrow> bool" where
  "isCd fs =
     (if \<not> windows (fl_pl fs) then hd (fl_argv fs) = ''cd''
      else seg_name fs \<in> {''cd'', ''chdir'', ''pushd'', ''set-location'', ''sl''})"

definition cwdAfter :: "floor_seg \<Rightarrow> string" where
  "cwdAfter fs =
     (if fl_argv fs = [] \<or> \<not> isCd fs then fl_cwd fs
      else (let argv = tl (fl_argv fs);
                argv = (if windows (fl_pl fs) \<and> argv \<noteq> [] \<and> EqualFold_ascii (hd argv) ''/d'' then tl argv else argv)
            in case nonFlags argv of
                 [] \<Rightarrow> floorHome (fl_req fs)
               | a # as \<Rightarrow> chdir fs (fl_cwd fs) a))"

section \<open>Git, gh and publishing\<close>

record git_call =
  g_sub :: string
  g_args :: "string list"
  g_cwd :: string

function parseGit_from :: "floor_seg \<Rightarrow> string \<Rightarrow> string list \<Rightarrow> git_call option" where
  "parseGit_from fs cwd rest =
     (case rest of
        [] \<Rightarrow> None
      | w # ws \<Rightarrow>
          (if w = ''-C'' then parseGit_from fs (case ws of [] \<Rightarrow> cwd | d # _ \<Rightarrow> chdir fs cwd d) (drop 2 rest)
           else if w \<in> {''-c'', ''--git-dir'', ''--work-tree'', ''--namespace'', ''--exec-path''}
             then parseGit_from fs cwd (drop 2 rest)
           else if HasPrefix w ''-'' then parseGit_from fs cwd ws
           else Some \<lparr>g_sub = w, g_args = ws, g_cwd = cwd\<rparr>))"
  by pat_completeness auto
termination by (relation "measure (\<lambda>(fs, cwd, rest). length rest)") auto

declare parseGit_from.simps [simp del]

definition parseGit :: "floor_seg \<Rightarrow> git_call option" where
  "parseGit fs =
     (if fl_argv fs = [] \<or> seg_name fs \<noteq> ''git'' then None
      else parseGit_from fs (fl_cwd fs) (tl (fl_argv fs)))"

definition forcePush :: "string list \<Rightarrow> bool" where
  "forcePush args =
     list_ex (\<lambda>a. longOpt a [''--force'', ''--force-with-lease'', ''--force-if-includes'', ''--mirror'', ''--delete'']
       \<or> shortCluster a ''fd'' \<or> HasPrefix a ''+'' \<or> HasPrefix a '':'' \<and> 1 < length a) args"

definition protected_ref :: "string \<Rightarrow> bool" where
  "protected_ref a0 =
     (if a0 = ''tag'' \<or> Contains a0 ''refs/tags/'' then True
      else (let a = TrimPrefix a0 ''+'';
                a = (case LastIndexByte a CHR '':'' of Some i \<Rightarrow> drop (i + 1) a | None \<Rightarrow> a)
            in TrimPrefix a ''refs/heads/'' \<in> {''develop'', ''master'', ''main''}))"

definition pushesProtected :: "string list \<Rightarrow> bool" where
  "pushesProtected args =
     (list_ex (\<lambda>a. longOpt a [''--tags'', ''--follow-tags'']) args \<or> list_ex protected_ref (nonFlags args))"

definition createsTag :: "string list \<Rightarrow> bool" where
  "createsTag args =
     (if list_ex (\<lambda>a. a = ''-l'' \<or> a = ''-d'' \<or> a = ''-v'' \<or> HasPrefix a ''-n''
          \<or> longOpt a [''--list'', ''--delete'', ''--verify'', ''--contains'', ''--no-contains'', ''--merged'',
              ''--no-merged'', ''--points-at'']) args
      then False else nonFlags args \<noteq> [])"

definition addsAll :: "string list \<Rightarrow> bool" where
  "addsAll args =
     (list_ex (\<lambda>a. longOpt a [''--all'', ''--update''] \<or> shortCluster a ''Au'') args
      \<or> list_ex (\<lambda>a. a \<in> {''.'', ''./'', '':/'', ''*''}) (nonFlags args))"

definition containsWord :: "string list \<Rightarrow> string \<Rightarrow> bool" where
  "containsWord words want = list_ex (\<lambda>w. w = want) words"

definition ghRules :: "floor_seg \<Rightarrow> floor_hit option" where
  "ghRules fs =
     (if fl_argv fs = [] \<or> seg_name fs \<noteq> ''gh'' then None
      else (let args = tl (fl_argv fs); words = nonFlags args in
        if containsWord words ''pr'' \<and> containsWord words ''merge'' then floorHit ''no-merge''
        else if containsWord words ''release'' then floorHit ''no-merge''
        else if containsWord words ''api'' then
          (if list_ex (\<lambda>a. Contains a ''/merge'') args then floorHit ''no-merge'' else None)
        else if containsWord words ''workflow'' \<and> containsWord words ''run'' then
          (if list_ex (\<lambda>a. Contains (ToLower a) ''release'') args then floorHit ''no-merge'' else None)
        else None))"

definition publishRules :: "floor_seg \<Rightarrow> floor_hit option" where
  "publishRules fs =
     (if fl_argv fs \<noteq> [] \<and> seg_name fs \<in> {''npm'', ''yarn'', ''pnpm'', ''bun'', ''cargo''}
         \<and> containsWord (take 2 (nonFlags (tl (fl_argv fs)))) ''publish''
      then floorHit ''no-merge'' else None)"

definition git_sub_rules :: "git_call \<Rightarrow> floor_hit option" where
  "git_sub_rules g =
     (if g_sub g = ''stash'' then floorHit ''no-stash''
      else if g_sub g = ''merge'' then floorHit ''no-merge''
      else if g_sub g = ''push'' then
        (if forcePush (g_args g) then floorHit ''no-force-push''
         else if pushesProtected (g_args g) then floorHit ''no-merge'' else None)
      else if g_sub g = ''tag'' then (if createsTag (g_args g) then floorHit ''no-merge'' else None)
      else if g_sub g = ''add'' then (if addsAll (g_args g) then floorHit ''no-add-all'' else None)
      else None)"

definition gitRules :: "floor_seg \<Rightarrow> floor_hit option" where
  "gitRules fs =
     (case ghRules fs of
        Some h \<Rightarrow> Some h
      | None \<Rightarrow>
          (case publishRules fs of
             Some h \<Rightarrow> Some h
           | None \<Rightarrow> (case parseGit fs of None \<Rightarrow> None | Some g \<Rightarrow> git_sub_rules g)))"

section \<open>Downloads, environment and home\<close>

definition isFetcher :: "floor_seg \<Rightarrow> bool" where
  "isFetcher fs =
     (fl_argv fs \<noteq> [] \<and>
      (let name = seg_name fs in
       name \<in> {''curl'', ''wget'', ''fetch''}
       \<or> name \<in> {''iwr'', ''irm'', ''invoke-webrequest'', ''invoke-restmethod'', ''bitsadmin''} \<and> windows (fl_pl fs)))"

definition isInterpreter :: "floor_seg \<Rightarrow> bool" where
  "isInterpreter fs =
     (fl_argv fs \<noteq> [] \<and>
      (let name = seg_name fs in
       if name \<in> {''sh'', ''bash'', ''zsh'', ''dash'', ''ksh'', ''node'', ''perl'', ''ruby'', ''source'', ''.''} then True
       else if name \<in> {''iex'', ''invoke-expression'', ''powershell'', ''pwsh'', ''cmd'', ''cscript'', ''wscript'', ''mshta''}
         then windows (fl_pl fs)
       else HasPrefix name ''python''))"

definition is_word_byte :: "char \<Rightarrow> bool" where
  "is_word_byte c = (is_alpha c \<or> isDigit c \<or> c = CHR ''_'')"

text \<open>\<open>\b(w1|w2|...)\b\<close>, for words that start and end with a word byte.\<close>

definition matches_word :: "string list \<Rightarrow> string \<Rightarrow> bool" where
  "matches_word words s =
     list_ex (\<lambda>i. (i = 0 \<or> \<not> is_word_byte (s ! (i - 1)))
       \<and> list_ex (\<lambda>w. HasPrefix (drop i s) w
           \<and> (i + length w = length s \<or> \<not> is_word_byte (s ! (i + length w)))) words) [0..<length s]"

definition winFetchWord :: "string list" where
  "winFetchWord = [''iwr'', ''irm'', ''invoke-webrequest'', ''invoke-restmethod'', ''curl'', ''wget'', ''downloadstring'']"

definition winEvalWord :: "string list" where
  "winEvalWord = [''iex'', ''invoke-expression'']"

definition winFetchAndEval :: "floor_seg list \<Rightarrow> bool" where
  "winFetchAndEval segs =
     (let ws = map ToLower (concat (map fl_argv segs))
      in list_ex (matches_word winFetchWord) ws \<and> list_ex (matches_word winEvalWord) ws)"

fun piped_fetch :: "floor_seg list \<Rightarrow> bool" where
  "piped_fetch (a # b # segs) =
     (isFetcher a \<and> PipeNext (fl_seg a) \<and> isInterpreter b \<or> piped_fetch (b # segs))"
| "piped_fetch _ = False"

definition curlShell :: "floor_seg list \<Rightarrow> bool" where
  "curlShell segs =
     (if segs \<noteq> [] \<and> windows (fl_pl (hd segs)) \<and> winFetchAndEval segs then True
      else if piped_fetch segs then True
      else if \<not> list_ex isFetcher segs then False
      else list_ex (\<lambda>fs. isInterpreter fs \<and> Dynamic (fl_seg fs)
             \<and> list_ex (\<lambda>a. a = ''-c'' \<or> shortCluster a ''c'') (tl (fl_argv fs))) segs)"

definition isHomeVar :: "floor_seg \<Rightarrow> string \<Rightarrow> bool" where
  "isHomeVar fs name =
     (if windows (fl_pl fs) then ToUpper name \<in> {''HOME'', ''SMIND_HOME''} \<or> EqualFold_ascii name ''USERPROFILE''
      else name \<in> {''HOME'', ''SMIND_HOME''})"

section \<open>Protected paths\<close>

definition envOr :: "platform \<Rightarrow> string \<Rightarrow> string list \<Rightarrow> string" where
  "envOr pl d keys = (case find (\<lambda>v. v \<noteq> []) (map (getenv pl) keys) of Some v \<Rightarrow> v | None \<Rightarrow> d)"

definition win_path :: "string \<Rightarrow> string" where
  "win_path p = replace_byte slash bslash p"

definition installRoots :: "request \<Rightarrow> string list" where
  "installRoots req =
     (let pl = plat req; home = floorHome req in
      [pl_join pl [home, ''.smind''], pl_join pl [home, ''.claude''], pl_join pl [home, ''.claude.json''],
       pl_join pl [home, ''.config''], pl_join pl [home, ''.ssh''], pl_join pl [home, ''.gnupg''],
       pl_join pl [home, ''Library'', ''Keychains''], pl_join pl [home, ''Library'', ''LaunchAgents'']]
      @ (if windows pl then
           [pl_join pl [home, ''AppData''],
            envOr pl (win_path ''C:/Windows'') [''SystemRoot'', ''windir''],
            envOr pl (win_path ''C:/Program Files'') [''ProgramFiles''],
            envOr pl (win_path ''C:/Program Files (x86)'') [''ProgramFiles(x86)''],
            envOr pl (win_path ''C:/ProgramData'') [''ProgramData'']]
         else [])
      @ (if SmindHome req \<noteq> [] then [SmindHome req] else []))"

definition tempRoots :: "platform \<Rightarrow> string list" where
  "tempRoots pl = tempDirs pl"

definition inInstallState :: "request \<Rightarrow> string \<Rightarrow> bool" where
  "inInstallState req resolved =
     (let pl = plat req; home = floorHome req; roots = installRoots req in
      if Worktree req \<noteq> [] \<and> within pl resolved [Worktree req] then False
      else if home = [] then False
      else within pl resolved
        (if windows pl \<and> within pl resolved (tempRoots pl)
         then filter (\<lambda>r. \<not> pl_eq pl r (pl_join pl [home, ''AppData''])) roots
         else roots))"

definition outsideWorktree :: "request \<Rightarrow> string \<Rightarrow> bool" where
  "outsideWorktree req resolved =
     (let pl = plat req in
      if \<not> windows pl \<and> resolved \<in> {''/dev/null'', ''/dev/stdout'', ''/dev/stderr''} then False
      else if Worktree req \<noteq> [] \<and> within pl resolved [Worktree req] then False
      else \<not> within pl resolved (tempRoots pl))"

definition realHomeValue :: "floor_seg \<Rightarrow> string \<Rightarrow> bool" where
  "realHomeValue fs val =
     (let pl = fl_pl fs; req = fl_req fs; home = floorHome req in
      if val = [] then True
      else if list_ex (home_form pl val) (homeForms pl) then True
      else (case resolveFloor req val (fl_cwd fs) of
              None \<Rightarrow> False
            | Some resolved \<Rightarrow>
                if home = [] then False
                else if (case resolveFloor req home [] of Some h \<Rightarrow> pl_eq pl resolved h | None \<Rightarrow> False) then True
                else within pl resolved
                  (take 1 (installRoots req) @ (if SmindHome req \<noteq> [] then [SmindHome req] else []))))"

text \<open>The assignments \<open>realHomeRules\<close> judges: those of the segment and, by command, those in its words.\<close>

definition env_drive :: string where
  "env_drive = ''$env:''"

definition home_assigns :: "floor_seg \<Rightarrow> string list" where
  "home_assigns fs =
     assigns fs @
     (case fl_argv fs of
        [] \<Rightarrow> []
      | argv0 # args \<Rightarrow>
          (if windows (fl_pl fs) \<and> length env_drive < length argv0
              \<and> EqualFold_ascii (take (length env_drive) argv0) env_drive \<and> Contains argv0 ''=''
           then [drop (length env_drive) argv0] else [])
          @ (if seg_name fs = ''export'' \<or> windows (fl_pl fs) \<and> seg_name fs \<in> {''set'', ''setx''}
             then filter isEnvAssign args else []))"

definition realHomeRules :: "floor_seg \<Rightarrow> floor_hit option" where
  "realHomeRules fs =
     (if fl_argv fs \<noteq> [] \<and> seg_name fs = ''unset'' \<and> list_ex (isHomeVar fs) (tl (fl_argv fs))
        \<or> list_ex (isHomeVar fs) (unsets fs)
        \<or> list_ex (\<lambda>a. let (name, val, found) = CutByte a CHR ''='' in isHomeVar fs name \<and> realHomeValue fs val)
            (home_assigns fs)
      then floorHit ''no-real-home-tests'' else None)"

definition envRules :: "floor_seg \<Rightarrow> floor_hit option" where
  "envRules fs = realHomeRules fs"

record word_path =
  wp_raw :: string
  wp_resolved :: "string option"

text \<open>\<open>wp_resolved\<close> is the pair \<open>resolved, ok\<close> of the code: \<open>None\<close> when \<open>ok\<close> is false.\<close>

definition cmdSwitchCmds :: "string list" where
  "cmdSwitchCmds = [''del'', ''erase'', ''rd'', ''rmdir'', ''copy'', ''xcopy'', ''move'', ''robocopy'', ''ren'', ''rename'',
     ''attrib'', ''icacls'', ''takeown'', ''cacls'', ''mklink'', ''dir'', ''type'']"

definition cmdSwitchWord :: "string \<Rightarrow> bool" where
  "cmdSwitchWord w =
     (case w of
        a # b # cs \<Rightarrow> a = slash \<and> (isLetter b \<or> b = CHR ''?'')
          \<and> list_all (\<lambda>c. isLetter c \<or> isDigit c \<or> c = CHR '':'') cs
      | _ \<Rightarrow> False)"

definition cmdSwitch :: "floor_seg \<Rightarrow> string \<Rightarrow> bool" where
  "cmdSwitch fs w =
     (windows (fl_pl fs) \<and> fl_argv fs \<noteq> [] \<and> seg_name fs \<in> set cmdSwitchCmds \<and> cmdSwitchWord w)"

definition place :: "floor_seg \<Rightarrow> string \<Rightarrow> word_path" where
  "place fs w = \<lparr>wp_raw = w, wp_resolved = resolveFloor (fl_req fs) w (fl_cwd fs)\<rparr>"

definition skip_target :: "floor_seg \<Rightarrow> string \<Rightarrow> bool" where
  "skip_target fs t = (t \<in> {[], ''&1'', ''&2'', ''-''} \<or> isNullDevice (fl_pl fs) t)"

definition wordPaths :: "floor_seg \<Rightarrow> word_path list" where
  "wordPaths fs =
     map (place fs) (filter (\<lambda>w. \<not> (w = [] \<or> isNullDevice (fl_pl fs) w \<or> cmdSwitch fs w))
       (map flag_value (drop 1 (fl_argv fs))
        @ filter (\<lambda>t. \<not> skip_target fs t) (map r_Target (Redirects (fl_seg fs)))))"

definition daemonPort :: "string \<Rightarrow> bool" where
  "daemonPort w =
     list_ex (\<lambda>i. (i = 0 \<or> w ! (i - 1) \<in> {CHR '':'', slash})
       \<and> (HasPrefix (drop i w) ''4648'' \<or> HasPrefix (drop i w) ''4870'')
       \<and> (i + 4 = length w \<or> w ! (i + 4) \<in> {slash, CHR ''?''})) [0..<length w]"

definition mentionsSmind :: "string list \<Rightarrow> bool" where
  "mentionsSmind args = list_ex (\<lambda>a. Contains (ToLower a) ''smind'') args"

definition install_command :: "floor_seg \<Rightarrow> bool" where
  "install_command fs =
     (fl_argv fs \<noteq> [] \<and>
      (let name = seg_name fs; args = tl (fl_argv fs); win = windows (fl_pl fs) in
       name \<in> {''pkill'', ''killall'', ''kill''}
       \<or> name \<in> {''taskkill'', ''stop-process'', ''spps''} \<and> win
       \<or> name = ''smind'' \<and> (case nonFlags args of [] \<Rightarrow> False | w # _ \<Rightarrow> w = ''service'')
       \<or> name \<in> {''launchctl'', ''systemctl'', ''service''} \<and> mentionsSmind args
       \<or> name \<in> {''sc'', ''net'', ''nssm'', ''schtasks'', ''start-service'', ''stop-service'', ''restart-service'',
                  ''set-service'', ''new-service'', ''remove-service''} \<and> win \<and> mentionsSmind args
       \<or> name = ''brew'' \<and> containsWord args ''services'' \<and> mentionsSmind args))"

definition installRules :: "floor_seg \<Rightarrow> word_path list \<Rightarrow> floor_hit option" where
  "installRules fs words =
     (if install_command fs \<or> list_ex daemonPort (Argv (fl_seg fs))
        \<or> list_ex (\<lambda>w. case wp_resolved w of Some r \<Rightarrow> inInstallState (fl_req fs) r | None \<Rightarrow> False) words
      then floorHit ''no-install-state'' else None)"

section \<open>Secrets\<close>

definition procEnviron :: "string \<Rightarrow> bool" where
  "procEnviron p =
     (HasPrefix p ''/proc/'' \<and> HasSuffix p ''/environ''
      \<and> (let mid = take (length p - length ''/proc/'' - length ''/environ'') (drop (length ''/proc/'') p)
         in mid \<noteq> [] \<and> slash \<notin> set mid))"

definition secretName :: "platform \<Rightarrow> string \<Rightarrow> bool" where
  "secretName pl w =
     (let w' = (if windows pl then replace_byte bslash slash w else w);
          b = (if windows pl then ToLower (after_last_any w [slash, bslash]) else path_Base (path_Clean w))
      in procEnviron (path_Clean w')
         \<or> b \<in> {''.env'', ''.netrc'', ''credentials''}
         \<or> HasPrefix b ''.env.'' \<or> HasSuffix b ''.pem'' \<or> HasSuffix b ''.key''
         \<or> HasPrefix b ''id_rsa'' \<or> HasPrefix b ''id_ed25519'')"

definition winSecretReaders :: "string list" where
  "winSecretReaders = [''type'', ''get-content'', ''gc'', ''select-string'', ''sls'', ''findstr'', ''copy-item'', ''cpi'',
     ''copy'', ''xcopy'', ''robocopy'', ''more'', ''get-item'', ''gi'', ''certutil'']"

definition secretReaders :: "string list" where
  "secretReaders = [''cat'', ''less'', ''more'', ''head'', ''tail'', ''grep'', ''sed'', ''awk'', ''cp'', ''base64'', ''xxd'',
     ''strings'', ''bat'']"

definition secretWords :: "floor_seg \<Rightarrow> word_path list \<Rightarrow> floor_hit option" where
  "secretWords fs words =
     (if list_ex (\<lambda>w. secretName (fl_pl fs) (wp_raw w)
          \<or> (case wp_resolved w of Some r \<Rightarrow> secretName (fl_pl fs) r | None \<Rightarrow> False)) words
      then floorHit ''no-secrets'' else None)"

definition winSecretCmd :: "floor_seg \<Rightarrow> string \<Rightarrow> string list \<Rightarrow> bool" where
  "winSecretCmd fs name args =
     (if \<not> windows (fl_pl fs) then False
      else if name = ''cmdkey'' then list_ex (\<lambda>a. HasPrefix (ToLower a) ''/l'') args
      else if name \<in> {''get-credential'', ''vaultcmd''} then True
      else if name \<in> {''get-childitem'', ''gci'', ''ls'', ''dir'', ''get-item'', ''gi''}
        then list_ex (\<lambda>a. HasPrefix (ToLower a) ''env:'') args
      else False)"

definition secret_command :: "floor_seg \<Rightarrow> string \<Rightarrow> string list \<Rightarrow> word_path list \<Rightarrow> floor_hit option" where
  "secret_command fs name args words =
     (let hit = (\<lambda>b. if b then floorHit ''no-secrets'' else None) in
      if name = ''printenv'' then hit True
      else if name \<in> {''set'', ''export''} then hit (args = [] \<or> name = ''export'' \<and> containsWord args ''-p'')
      else if name \<in> {''declare'', ''typeset''} then hit (list_ex (\<lambda>a. shortCluster a ''xp'') args)
      else if name = ''gh'' then
        (let w = nonFlags args in
         hit (2 \<le> length w \<and> w ! 0 = ''auth''
           \<and> (w ! 1 = ''token'' \<or> w ! 1 = ''status'' \<and> (containsWord args ''-t'' \<or> containsWord args ''--show-token''))))
      else if name \<in> {''cmdkey'', ''get-credential'', ''vaultcmd'', ''get-childitem'', ''gci'', ''ls'', ''dir'', ''get-item'', ''gi''} then
        (if winSecretCmd fs name args then hit True
         else if windows (fl_pl fs) \<and> name \<in> set winSecretReaders then secretWords fs words
         else None)
      else if name = ''security'' then
        (case nonFlags args of [] \<Rightarrow> None | w # _ \<Rightarrow> hit (HasPrefix w ''find-'' \<or> w = ''dump-keychain''))
      else if name \<notin> set secretReaders \<and> \<not> (windows (fl_pl fs) \<and> name \<in> set winSecretReaders) then None
      else secretWords fs words)"

definition secretRules :: "floor_seg \<Rightarrow> word_path list \<Rightarrow> floor_hit option" where
  "secretRules fs words =
     (case fl_argv fs of
        [] \<Rightarrow> if wrappers fs \<noteq> [] \<and> last (wrappers fs) = ''env'' then floorHit ''no-secrets'' else None
      | argv0 # args \<Rightarrow> secret_command fs (seg_name fs) args words)"

section \<open>Destructive commands\<close>

definition mutators :: "string list" where
  "mutators = [''cp'', ''mv'', ''rm'', ''tee'', ''touch'', ''mkdir'', ''ln'', ''chmod'', ''chown'', ''dd'', ''install'',
     ''truncate'', ''rsync'', ''sed'', ''perl'', ''curl'', ''wget'', ''tar'', ''unzip'']"

definition winMutators :: "string list" where
  "winMutators = [''remove-item'', ''ri'', ''del'', ''erase'', ''rd'', ''rmdir'', ''set-content'', ''add-content'', ''out-file'',
     ''new-item'', ''ni'', ''copy-item'', ''cpi'', ''move-item'', ''mi'', ''rename-item'', ''rni'', ''clear-content'', ''copy'',
     ''xcopy'', ''move'', ''robocopy'', ''ren'', ''rename'', ''mklink'', ''attrib'', ''icacls'', ''takeown'', ''cacls'',
     ''tee-object'', ''set-acl'']"

definition winCopyMove :: "string list" where
  "winCopyMove = [''copy-item'', ''cpi'', ''copy'', ''xcopy'', ''move-item'', ''mi'', ''move'', ''robocopy'', ''mklink'']"

text \<open>The word after the first word that satisfies \<open>P\<close> and is not the last one.\<close>

fun word_after :: "(string \<Rightarrow> bool) \<Rightarrow> string list \<Rightarrow> string option" where
  "word_after P (a # b # ws) = (if P a then Some b else word_after P (b # ws))"
| "word_after P _ = None"

definition last_only :: "word_path list \<Rightarrow> word_path list" where
  "last_only plain = (if plain = [] then [] else [last plain])"

definition winCopyDest :: "floor_seg \<Rightarrow> word_path list \<Rightarrow> word_path list" where
  "winCopyDest fs plain =
     (case word_after (\<lambda>a. let l = ToLower a in HasPrefix l ''-destination'' \<or> l = ''-dest'' \<or> l = ''-dst'') (fl_argv fs) of
        Some w \<Rightarrow> [place fs w]
      | None \<Rightarrow> last_only plain)"

text \<open>The flags of \<open>inPlaceTargets\<close>: in place, script given as an option, and the words to skip.\<close>

fun in_place_scan :: "bool \<times> bool \<times> string list \<Rightarrow> string list \<Rightarrow> bool \<times> bool \<times> string list" where
  "in_place_scan (inPlace, scriptOpt, skip) [] = (inPlace, scriptOpt, skip)"
| "in_place_scan (inPlace, scriptOpt, skip) (a # as) =
     in_place_scan
      (if a = ''--in-place'' \<or> HasPrefix a ''--in-place='' then (True, scriptOpt, skip)
       else if a \<in> {''-e'', ''-f'', ''--expression'', ''--file''} then (inPlace, True, skip @ take 1 as)
       else if shortCluster a ''i'' then (True, scriptOpt \<or> shortCluster a ''e'' \<or> shortCluster a ''f'', skip)
       else (inPlace, scriptOpt, skip)) as"

definition inPlaceTargets :: "floor_seg \<Rightarrow> word_path list \<Rightarrow> word_path list" where
  "inPlaceTargets fs plain =
     (let (inPlace, scriptOpt, skip) = in_place_scan (False, False, []) (tl (fl_argv fs));
          files = filter (\<lambda>w. wp_raw w \<notin> set skip) plain
      in if \<not> inPlace then [] else if scriptOpt then files else drop 1 files)"

definition flag_short :: "string \<Rightarrow> string list \<Rightarrow> string \<Rightarrow> string list" where
  "flag_short a as f =
     (if a = f \<and> as \<noteq> [] then [hd as]
      else if length f < length a \<and> HasPrefix a f \<and> \<not> HasPrefix a ''--'' then [drop (length f) a] else [])"

definition flag_long :: "string \<Rightarrow> string list \<Rightarrow> string \<Rightarrow> string list" where
  "flag_long a as f =
     (if a = f \<and> as \<noteq> [] then [hd as]
      else (case CutPrefix a (f @ ''='') of Some v \<Rightarrow> [v] | None \<Rightarrow> []))"

fun flag_values :: "string list \<Rightarrow> string list \<Rightarrow> string list \<Rightarrow> string list" where
  "flag_values shorts longs [] = []"
| "flag_values shorts longs (a # as) =
     concat (map (flag_short a as) shorts) @ concat (map (flag_long a as) longs) @ flag_values shorts longs as"

definition flagTargets :: "floor_seg \<Rightarrow> string list \<Rightarrow> string list \<Rightarrow> word_path list" where
  "flagTargets fs shorts longs = map (place fs) (flag_values shorts longs (tl (fl_argv fs)))"

definition destinations :: "floor_seg \<Rightarrow> string \<Rightarrow> word_path list \<Rightarrow> word_path list" where
  "destinations fs name words =
     (let plain = filter (\<lambda>w. \<not> HasPrefix (wp_raw w) ''-'' \<and> \<not> cmdSwitch fs (wp_raw w)) words in
      if windows (fl_pl fs) \<and> name \<in> set winCopyMove then winCopyDest fs plain
      else if name \<in> {''cp'', ''install'', ''ln''} then
        (case word_after (\<lambda>a. a = ''-t'' \<or> a = ''--target-directory'') (fl_argv fs) of
           Some w \<Rightarrow> [place fs w]
         | None \<Rightarrow> last_only plain)
      else if name = ''rsync'' then last_only plain
      else if name \<in> {''sed'', ''perl''} then inPlaceTargets fs plain
      else if name = ''curl'' then flagTargets fs [''-o''] [''--output'']
      else if name = ''wget'' then flagTargets fs [''-O'', ''-P''] [''--output-document'', ''--directory-prefix'']
      else if name = ''tar'' then flagTargets fs [''-C''] [''--directory'']
      else if name = ''unzip'' then flagTargets fs [''-d''] []
      else if name = ''dd'' then map (place fs) (List.map_filter (\<lambda>a. CutPrefix a ''of='') (tl (fl_argv fs)))
      else plain)"

definition destroysTree :: "git_call \<Rightarrow> bool" where
  "destroysTree g =
     (g_sub g = ''clean'' \<or> g_sub g = ''reset'' \<and> containsWord (g_args g) ''--hard''
      \<or> g_sub g \<in> {''checkout'', ''restore''} \<and> containsWord (nonFlags (g_args g)) ''.'')"

text \<open>A target that is not shown to stay inside: placed outside, or not placed and not dynamic.\<close>

definition bad_target :: "floor_seg \<Rightarrow> word_path \<Rightarrow> bool" where
  "bad_target fs w =
     (case wp_resolved w of
        Some r \<Rightarrow> outsideWorktree (fl_req fs) r
      | None \<Rightarrow> \<not> (dynamicWord (fl_pl fs) (wp_raw w) \<and> \<not> HasPrefix (wp_raw w) ''$HOME'' \<and> \<not> HasPrefix (wp_raw w) ''${HOME}''))"

definition redirectRules :: "floor_seg \<Rightarrow> floor_hit option" where
  "redirectRules fs =
     (if list_ex (\<lambda>rd. Contains (r_Op rd) ''>'' \<and> \<not> skip_target fs (r_Target rd) \<and> bad_target fs (place fs (r_Target rd)))
          (Redirects (fl_seg fs))
      then floorHit ''no-destructive-outside'' else None)"

definition destructiveRules :: "floor_seg \<Rightarrow> word_path list \<Rightarrow> floor_hit option" where
  "destructiveRules fs words =
     (if fl_argv fs = [] then redirectRules fs
      else (let name = seg_name fs in
        if name \<in> {''sudo'', ''doas''} then floorHit ''no-destructive-outside''
        else if (name \<in> set mutators \<or> windows (fl_pl fs) \<and> name \<in> set winMutators)
            \<and> list_ex (bad_target fs) (destinations fs name words) then floorHit ''no-destructive-outside''
        else if (case parseGit fs of
                   Some g \<Rightarrow> destroysTree g \<and> (g_cwd g = [] \<or> outsideWorktree (fl_req fs) (g_cwd g))
                 | None \<Rightarrow> False) then floorHit ''no-destructive-outside''
        else redirectRules fs))"

definition pathRules :: "floor_seg \<Rightarrow> floor_hit option" where
  "pathRules fs =
     (let words = wordPaths fs in
      case installRules fs words of
        Some h \<Rightarrow> Some h
      | None \<Rightarrow> (case secretRules fs words of Some h \<Rightarrow> Some h | None \<Rightarrow> destructiveRules fs words))"

section \<open>The two entry points\<close>

definition start_cwd :: "request \<Rightarrow> string" where
  "start_cwd req = (if Cwd req = [] then Worktree req else Cwd req)"

definition seg_rules :: "floor_seg \<Rightarrow> floor_hit option" where
  "seg_rules fs =
     (case gitRules fs of
        Some h \<Rightarrow> Some h
      | None \<Rightarrow> (case pathRules fs of Some h \<Rightarrow> Some h | None \<Rightarrow> envRules fs))"

fun floor_loop :: "request \<Rightarrow> string \<Rightarrow> segment list \<Rightarrow> floor_hit option" where
  "floor_loop req cwd [] = None"
| "floor_loop req cwd (g # gs) =
     (let fs = newFloorSeg req g cwd in
      case seg_rules fs of Some h \<Rightarrow> Some h | None \<Rightarrow> floor_loop req (cwdAfter fs) gs)"

definition CheckFloor :: "request \<Rightarrow> segment list \<Rightarrow> floor_hit option" where
  "CheckFloor req gs =
     (let cwd = start_cwd req;
          cwd = (if cwd = [] then [] else (case resolveFloor req cwd [] of Some r \<Rightarrow> r | None \<Rightarrow> []))
      in if curlShell (map (\<lambda>g. newFloorSeg req g cwd) gs) then floorHit ''no-curl-sh''
         else floor_loop req cwd gs)"

definition writing_tools :: "string list" where
  "writing_tools = [''Edit'', ''Write'', ''MultiEdit'', ''NotebookEdit'']"

definition path_floor :: "request \<Rightarrow> string \<Rightarrow> floor_hit option" where
  "path_floor req p =
     (let pl = plat req; writes = Tool req \<in> set writing_tools in
      case resolveFloor req p (start_cwd req) of
        None \<Rightarrow>
          if secretName pl p then floorHit ''no-secrets''
          else if writes \<and> windows pl \<and> \<not> dynamicWord pl p \<and> \<not> isNullDevice pl p then floorHit ''no-destructive-outside''
          else None
      | Some r \<Rightarrow>
          if secretName pl p \<or> secretName pl r then floorHit ''no-secrets''
          else if inInstallState req r then floorHit ''no-install-state''
          else if writes \<and> outsideWorktree req r then floorHit ''no-destructive-outside''
          else None)"

fun paths_floor :: "request \<Rightarrow> string list \<Rightarrow> floor_hit option" where
  "paths_floor req [] = None"
| "paths_floor req (p # ps) = (case path_floor req p of Some h \<Rightarrow> Some h | None \<Rightarrow> paths_floor req ps)"

definition CheckFloorPaths :: "request \<Rightarrow> floor_hit option" where
  "CheckFloorPaths req = (if Tool req = ''Bash'' then None else paths_floor req (Paths req))"

end
