(* ===== verification/PermLoad.thy ===== *)
theory PermLoad
  imports PermFloor
begin

text \<open>
  The policy file (\<open>internal/permpolicy/load.go\<close>): its data model, the structural checks on the
  YAML tree, the checks on every rule, and the probe of every allow against the floor.

  The YAML library is not part of the repository and SHA-256 is opaque to the policy, so both are
  parameters: the record \<open>policy_lib\<close> holds the parser, the decoder into rules and the digest. A
  message is a value of \<open>load_msg\<close> that carries the values the code formats into its text.
\<close>

definition MaxPolicyBytes :: nat where "MaxPolicyBytes = 262144"
definition MaxRules :: nat where "MaxRules = 200"
definition MaxWhy :: nat where "MaxWhy = 160"
definition maxListLen :: nat where "maxListLen = 64"
definition maxRuleIDLen :: nat where "maxRuleIDLen = 64"

record args_match =
  AllowOnly :: "string list"
  DenyFlags :: "string list"

record command_match =
  Argv0 :: string
  Subcommand :: string
  Args :: args_match

record paths_match =
  Within :: "string list"

record rule_match =
  Seats :: "string list"
  Workspaces :: "string list"
  m_Tool :: string
  m_Command :: "command_match option"
  m_Paths :: "paths_match option"

record rule =
  rule_ID :: string
  rule_Action :: policy_action
  rule_Why :: string
  rule_Match :: rule_match

record policy =
  pol_Version :: int
  pol_Rules :: "rule list"
  pol_Sha :: string

record policy_doc =
  doc_Version :: int
  doc_Rules :: "rule list"

datatype yaml_kind = DocumentNode | SequenceNode | MappingNode | ScalarNode | AliasNode

datatype yaml_node =
  YNode (y_kind: yaml_kind) (y_anchor: string) (y_tagged: bool) (y_value: string) (y_content: "yaml_node list")

record policy_lib =
  yaml_Unmarshal :: "string \<Rightarrow> string + yaml_node"
  yaml_Decode :: "string \<Rightarrow> string + policy_doc"
  sha256_hex :: "string \<Rightarrow> string"

datatype load_msg =
    Oversize nat
  | YamlMessage string
  | BadVersion int
  | TooManyRules nat
  | DeniedByFloor string
  | NoAnchors
  | NoTags
  | NoMergeKeys
  | DuplicateKey
  | NoRegex
  | InvalidID string
  | DuplicateID string
  | UnknownAction string
  | WhyRequired
  | WhyTooLong nat
  | WhyControl
  | HasWildcard string
  | NotMcpTool string
  | CommandNeedsBash
  | UnknownPlaceholder string string
  | NotAFlag string
  | ListTooLong nat
  | NotAbsolute string
  | HasDotDot string
  | AllowNeedsTool
  | AllowNeedsArgv0
  | AllowNeedsScope string

record load_error =
  le_Path :: string
  le_Msg :: load_msg

definition le :: "string \<Rightarrow> load_msg \<Rightarrow> load_error option" where
  "le p msg = Some \<lparr>le_Path = p, le_Msg = msg\<rparr>"

text \<open>The first error of a sequence of checks, which is where the code returns.\<close>

fun first_error :: "load_error option list \<Rightarrow> load_error option" where
  "first_error [] = None"
| "first_error (Some e # es) = Some e"
| "first_error (None # es) = first_error es"

definition indexed :: "string \<Rightarrow> nat \<Rightarrow> string" where
  "indexed p i = p @ ''['' @ Itoa i @ '']''"

section \<open>The YAML subset\<close>

definition orRoot :: "string \<Rightarrow> string" where
  "orRoot p = (if p = [] then ''policy'' else p)"

definition joinPath :: "string \<Rightarrow> string \<Rightarrow> string" where
  "joinPath p k = (if p = [] then k else p @ ''.'' @ k)"

fun walkPolicyYAML :: "yaml_node \<Rightarrow> string \<Rightarrow> load_error option"
  and walk_mapping :: "yaml_node list \<Rightarrow> string \<Rightarrow> string list \<Rightarrow> load_error option"
  and walk_sequence :: "yaml_node list \<Rightarrow> string \<Rightarrow> nat \<Rightarrow> load_error option"
  and walk_document :: "yaml_node list \<Rightarrow> string \<Rightarrow> load_error option"
where
  "walkPolicyYAML (YNode kind anchor tagged v content) p =
     (if kind = AliasNode \<or> anchor \<noteq> [] then le (orRoot p) NoAnchors
      else if tagged then le (orRoot p) NoTags
      else if kind = MappingNode then walk_mapping content p []
      else if kind = SequenceNode then walk_sequence content p 0
      else if kind = DocumentNode then walk_document content p
      else None)"
| "walk_mapping (k # n # rest) p seen =
     (let key = y_value k in
      if key = ''<<'' then le (orRoot p) NoMergeKeys
      else if key \<in> set seen then le (joinPath p key) DuplicateKey
      else if key \<in> {''regex'', ''regexp'', ''pattern'', ''matches''} then le (joinPath p key) NoRegex
      else (case walkPolicyYAML n (joinPath p key) of
              Some e \<Rightarrow> Some e
            | None \<Rightarrow> walk_mapping rest p (key # seen)))"
| "walk_mapping [k] p seen = None"
| "walk_mapping [] p seen = None"
| "walk_sequence [] p i = None"
| "walk_sequence (c # cs) p i =
     (case walkPolicyYAML c (indexed p i) of Some e \<Rightarrow> Some e | None \<Rightarrow> walk_sequence cs p (i + 1))"
| "walk_document [] p = None"
| "walk_document (c # cs) p = (case walkPolicyYAML c p of Some e \<Rightarrow> Some e | None \<Rightarrow> walk_document cs p)"

definition strictPolicyYAML :: "policy_lib \<Rightarrow> string \<Rightarrow> load_error option" where
  "strictPolicyYAML lib data =
     (case yaml_Unmarshal lib data of
        Inl msg \<Rightarrow> le ''policy'' (YamlMessage (TrimPrefix msg ''yaml: ''))
      | Inr doc \<Rightarrow> walkPolicyYAML doc [])"

section \<open>The rules\<close>

definition mutatingTools :: "string list" where
  "mutatingTools = [''Bash'', ''Edit'', ''Write'', ''MultiEdit'', ''NotebookEdit'']"

definition ruleIDRe :: "string \<Rightarrow> bool" where
  "ruleIDRe s =
     (1 \<le> length s \<and> length s \<le> maxRuleIDLen \<and> list_all (\<lambda>c. byte_in 97 122 c \<or> isDigit c \<or> c = CHR ''-'') s)"

definition is_brace :: "char \<Rightarrow> bool" where
  "is_brace c = (c = CHR ''{'' \<or> c = CHR ''}'')"

text \<open>The texts between braces that \<open>placeholderRe\<close> finds, from left to right.\<close>

function placeholders :: "string \<Rightarrow> string list" where
  "placeholders s =
     (case s of
        [] \<Rightarrow> []
      | c # cs \<Rightarrow>
          (let inner = takeWhile (\<lambda>c. \<not> is_brace c) cs; after = drop (length inner) cs
           in if c = CHR ''{'' \<and> HasPrefix after ''}'' then inner # placeholders (drop 1 after) else placeholders cs))"
  by pat_completeness auto
termination by (relation "measure length") auto

declare placeholders.simps [simp del]

definition printable :: "string \<Rightarrow> bool" where
  "printable s = list_all (\<lambda>c. \<not> byte_in 0 31 c \<and> \<not> byte_in 127 127 c) s"

definition has_wildcard :: "string \<Rightarrow> bool" where
  "has_wildcard s = ContainsAny s ''*?[''"

definition checkListCap :: "string \<Rightarrow> string list \<Rightarrow> load_error option" where
  "checkListCap p xs = (if maxListLen < length xs then le p (ListTooLong (length xs)) else None)"

fun check_each :: "(nat \<Rightarrow> string \<Rightarrow> load_error option) \<Rightarrow> nat \<Rightarrow> string list \<Rightarrow> load_error option" where
  "check_each f i [] = None"
| "check_each f i (x # xs) = (case f i x of Some e \<Rightarrow> Some e | None \<Rightarrow> check_each f (i + 1) xs)"

definition checkNoWildcard :: "string \<Rightarrow> string list \<Rightarrow> load_error option" where
  "checkNoWildcard p xs =
     first_error [checkListCap p xs,
       check_each (\<lambda>i v. if has_wildcard v then le (indexed p i) (HasWildcard v) else None) 0 xs]"

definition slashes :: "platform \<Rightarrow> string \<Rightarrow> string" where
  "slashes pl w = (if windows pl then replace_byte bslash slash w else w)"

definition check_tool :: "string \<Rightarrow> string \<Rightarrow> load_error option" where
  "check_tool p tool =
     (if has_wildcard tool then le (p @ ''.match.tool'') (HasWildcard tool)
      else if HasPrefix tool ''mcp:'' then
        (let rest = drop (length ''mcp:'') tool in
         case IndexByte rest CHR ''.'' of
           None \<Rightarrow> le (p @ ''.match.tool'') (NotMcpTool tool)
         | Some dot \<Rightarrow> if dot = 0 \<or> dot = length rest - 1 then le (p @ ''.match.tool'') (NotMcpTool tool) else None)
      else None)"

definition check_placeholders :: "string \<Rightarrow> nat \<Rightarrow> string \<Rightarrow> load_error option" where
  "check_placeholders p j a =
     (case find (\<lambda>ph. ph \<noteq> ''taskBranch'' \<and> ph \<noteq> ''worktree'') (placeholders a) of
        Some ph \<Rightarrow> le (indexed (p @ ''.match.command.args.allow_only'') j) (UnknownPlaceholder a ph)
      | None \<Rightarrow> None)"

definition check_command :: "string \<Rightarrow> string \<Rightarrow> command_match \<Rightarrow> load_error option" where
  "check_command p tool c =
     first_error
      [if tool \<noteq> [] \<and> tool \<noteq> ''Bash'' then le (p @ ''.match.command'') CommandNeedsBash else None,
       if has_wildcard (Argv0 c) then le (p @ ''.match.command.argv0'') (HasWildcard (Argv0 c)) else None,
       if has_wildcard (Subcommand c) then le (p @ ''.match.command.subcommand'') (HasWildcard (Subcommand c)) else None,
       check_each (check_placeholders p) 0 (AllowOnly (Args c)),
       check_each (\<lambda>j f. if \<not> HasPrefix f ''-'' then le (indexed (p @ ''.match.command.args.deny_flags'') j) (NotAFlag f) else None)
         0 (DenyFlags (Args c)),
       checkListCap (p @ ''.match.command.args.allow_only'') (AllowOnly (Args c)),
       checkListCap (p @ ''.match.command.args.deny_flags'') (DenyFlags (Args c))]"

definition check_root :: "platform \<Rightarrow> string \<Rightarrow> nat \<Rightarrow> string \<Rightarrow> load_error option" where
  "check_root pl p j w =
     (let at_w = indexed (p @ ''.match.paths.within'') j in
      if w = ''{worktree}'' then None
      else if (case normalize pl w of None \<Rightarrow> True | Some n \<Rightarrow> \<not> isAbs pl n) then le at_w (NotAbsolute w)
      else if has_wildcard w then le at_w (HasWildcard w)
      else if ''..'' \<in> set (SplitByte (slashes pl w) slash) then le at_w (HasDotDot w)
      else None)"

definition check_paths :: "platform \<Rightarrow> string \<Rightarrow> paths_match \<Rightarrow> load_error option" where
  "check_paths pl p ps =
     first_error [checkListCap (p @ ''.match.paths.within'') (Within ps), check_each (check_root pl p) 0 (Within ps)]"

text \<open>What an \<open>allow\<close> needs before it may answer a request without the human.\<close>

definition check_allow :: "string \<Rightarrow> rule_match \<Rightarrow> load_error option" where
  "check_allow p m =
     (if m_Tool m = [] then le (p @ ''.match.tool'') AllowNeedsTool
      else if m_Tool m = ''Bash'' \<and> (case m_Command m of None \<Rightarrow> True | Some c \<Rightarrow> Argv0 c = [])
        then le (p @ ''.match.command.argv0'') AllowNeedsArgv0
      else if m_Tool m \<in> set mutatingTools \<and> (case m_Paths m of None \<Rightarrow> True | Some ps \<Rightarrow> Within ps = [])
        then le (p @ ''.match.paths.within'') (AllowNeedsScope (m_Tool m))
      else None)"

definition check_rule :: "platform \<Rightarrow> string list \<Rightarrow> nat \<Rightarrow> rule \<Rightarrow> load_error option" where
  "check_rule pl ids i r =
     (let p = indexed ''rules'' i; m = rule_Match r in
      first_error
       [if \<not> ruleIDRe (rule_ID r) then le (p @ ''.id'') (InvalidID (rule_ID r)) else None,
        if rule_ID r \<in> set ids then le (p @ ''.id'') (DuplicateID (rule_ID r)) else None,
        if rule_Action r \<notin> {ActionAllow, ActionDeny, ActionAsk} then le (p @ ''.action'') (UnknownAction (rule_Action r)) else None,
        if TrimSpace (rule_Why r) = [] then le (p @ ''.why'') WhyRequired else None,
        if MaxWhy < length (rule_Why r) then le (p @ ''.why'') (WhyTooLong (length (rule_Why r))) else None,
        if \<not> printable (rule_Why r) then le (p @ ''.why'') WhyControl else None,
        checkNoWildcard (p @ ''.match.seats'') (Seats m),
        checkNoWildcard (p @ ''.match.workspaces'') (Workspaces m),
        check_tool p (m_Tool m),
        (case m_Command m of None \<Rightarrow> None | Some c \<Rightarrow> check_command p (m_Tool m) c),
        (case m_Paths m of None \<Rightarrow> None | Some ps \<Rightarrow> check_paths pl p ps),
        if rule_Action r = ActionAllow then check_allow p m else None])"

fun validate_from :: "platform \<Rightarrow> string list \<Rightarrow> nat \<Rightarrow> rule list \<Rightarrow> load_error option" where
  "validate_from pl ids i [] = None"
| "validate_from pl ids i (r # rs) =
     (case check_rule pl ids i r of Some e \<Rightarrow> Some e | None \<Rightarrow> validate_from pl (rule_ID r # ids) (i + 1) rs)"

definition validateRules :: "platform \<Rightarrow> rule list \<Rightarrow> load_error option" where
  "validateRules pl rules = validate_from pl [] 0 rules"

section \<open>The floor probe\<close>

definition probeCommand :: "command_match \<Rightarrow> string \<Rightarrow> string" where
  "probeCommand c worktree =
     Join (Argv0 c # Fields (Subcommand c)
       @ map (Replace [(''{taskBranch}'', ''task-branch''), (''{worktree}'', worktree)]) (AllowOnly (Args c))) '' ''"

definition probe_request :: "platform \<Rightarrow> string \<Rightarrow> request" where
  "probe_request pl tool =
     (let at_root = (\<lambda>p. if windows pl then win_path (''C:'' @ p) else p) in
      \<lparr>Tool = tool, Command = [], Paths = [], Cwd = at_root ''/wt'', Worktree = at_root ''/wt'', TaskBranch = [], Seat = [],
       Workspace = [], Truncated = False, Doubt = [], Home = at_root ''/h'', SmindHome = at_root ''/h/.smind'', RunID = [],
       RequestID = [], TaskID = 0, WorkspaceID = 0, plat = pl\<rparr>)"

definition probe_floor :: "platform \<Rightarrow> rule \<Rightarrow> floor_hit option" where
  "probe_floor pl r =
     (let m = rule_Match r; req = probe_request pl (m_Tool m); wt = Worktree req in
      case (m_Tool m = ''Bash'', m_Command m) of
        (True, Some c) \<Rightarrow>
          (let command = probeCommand c wt
           in CheckFloor (req\<lparr>Command := command\<rparr>) (Segments (splitCommand command (windows pl))))
      | _ \<Rightarrow>
          (if m_Tool m \<in> set mutatingTools then
             (case m_Paths m of
                None \<Rightarrow> None
              | Some ps \<Rightarrow> CheckFloorPaths (req\<lparr>Paths := map (\<lambda>w. if w = ''{worktree}'' then wt else w) (Within ps)\<rparr>))
           else None))"

fun check_floor_from :: "platform \<Rightarrow> nat \<Rightarrow> rule list \<Rightarrow> load_error option" where
  "check_floor_from pl i [] = None"
| "check_floor_from pl i (r # rs) =
     (case (if rule_Action r = ActionAllow then probe_floor pl r else None) of
        Some hit \<Rightarrow> le (indexed ''rules'' i) (DeniedByFloor (hit_ID hit))
      | None \<Rightarrow> check_floor_from pl (i + 1) rs)"

definition checkAllowsAgainstFloor :: "platform \<Rightarrow> rule list \<Rightarrow> load_error option" where
  "checkAllowsAgainstFloor pl rules = check_floor_from pl 0 rules"

definition loadPolicy :: "policy_lib \<Rightarrow> platform \<Rightarrow> string \<Rightarrow> load_error + policy" where
  "loadPolicy lib pl data =
     (let fail = (\<lambda>p msg. Inl \<lparr>le_Path = p, le_Msg = msg\<rparr>) in
      if MaxPolicyBytes < length data then fail ''policy'' (Oversize (length data))
      else (case strictPolicyYAML lib data of
        Some e \<Rightarrow> Inl e
      | None \<Rightarrow>
          (case yaml_Decode lib data of
             Inl msg \<Rightarrow> fail ''policy'' (YamlMessage (TrimPrefix msg ''yaml: ''))
           | Inr doc \<Rightarrow>
               if doc_Version doc \<noteq> 1 then fail ''version'' (BadVersion (doc_Version doc))
               else if MaxRules < length (doc_Rules doc) then fail ''rules'' (TooManyRules (length (doc_Rules doc)))
               else (case validateRules pl (doc_Rules doc) of
                  Some e \<Rightarrow> Inl e
                | None \<Rightarrow>
                    (case checkAllowsAgainstFloor pl (doc_Rules doc) of
                       Some e \<Rightarrow> Inl e
                     | None \<Rightarrow>
                         Inr \<lparr>pol_Version = doc_Version doc, pol_Rules = doc_Rules doc, pol_Sha = sha256_hex lib data\<rparr>)))))"

end
