(* ===== verification/PermDecide.thy ===== *)
theory PermDecide
  imports PermLoad
begin

text \<open>
  The decision of the permission policy (\<open>internal/permpolicy/decide.go\<close>): the floor first, then
  the doubts of the splitter, then the rules of the policy, where a deny beats an ask and an ask
  beats an allow. A policy that is absent or invalid is \<open>None\<close>.
\<close>

definition maxDecisionPaths :: nat where
  "maxDecisionPaths = 8"

definition winWrapperInterpreters :: "string list" where
  "winWrapperInterpreters = [''powershell'', ''pwsh'', ''cmd'', ''wscript'', ''cscript'', ''mshta'', ''wsl'', ''bash'', ''sh'']"

record decision_unit =
  u_seg :: "segment option"
  u_paths :: "string list"
  u_cwd :: string

record segment_decision =
  sd_Index :: nat
  sd_Text :: string
  sd_Action :: policy_action
  sd_RuleID :: string
  sd_FloorID :: string
  sd_Reasons :: "string list"

record decision =
  d_Action :: policy_action
  d_RuleID :: string
  d_FloorID :: string
  d_Why :: string
  d_PolicySha :: string
  d_Reasons :: "string list"
  d_Normalized :: string
  d_Paths :: "string list"
  d_Segments :: "segment_decision list"

definition empty_decision :: decision where
  "empty_decision = \<lparr>d_Action = [], d_RuleID = [], d_FloorID = [], d_Why = [], d_PolicySha = [], d_Reasons = [],
     d_Normalized = [], d_Paths = [], d_Segments = []\<rparr>"

section \<open>Matching a rule\<close>

definition expandPlaceholders :: "string \<Rightarrow> request \<Rightarrow> string option" where
  "expandPlaceholders s req =
     (if Contains s ''{taskBranch}'' \<and> TaskBranch req = [] then None
      else (let s = (if Contains s ''{taskBranch}'' then ReplaceAll s ''{taskBranch}'' (TaskBranch req) else s) in
        if Contains s ''{worktree}'' \<and> Worktree req = [] then None
        else Some (if Contains s ''{worktree}'' then ReplaceAll s ''{worktree}'' (Worktree req) else s)))"

text \<open>The words of the subcommand must follow the command at once; the result is what comes after them.\<close>

fun after_subcommand :: "string list \<Rightarrow> string list \<Rightarrow> string list option" where
  "after_subcommand [] args = Some args"
| "after_subcommand (want # wants) [] = None"
| "after_subcommand (want # wants) (a # as) =
     (if HasPrefix a ''-'' \<or> a \<noteq> want then None else after_subcommand wants as)"

definition denied_flag :: "string list \<Rightarrow> string \<Rightarrow> bool" where
  "denied_flag flags w = list_ex (\<lambda>f. w = f \<or> HasPrefix w (f @ ''='')) flags"

definition matchCommand :: "command_match \<Rightarrow> request \<Rightarrow> segment \<Rightarrow> bool" where
  "matchCommand c req g =
     (case Argv g of
        [] \<Rightarrow> False
      | argv0 # args \<Rightarrow>
          if argv0 \<noteq> Argv0 c then False
          else (case after_subcommand (Fields (Subcommand c)) args of
                  None \<Rightarrow> False
                | Some rest \<Rightarrow>
                    if list_ex (denied_flag (DenyFlags (Args c))) args then False
                    else if AllowOnly (Args c) = [] then True
                    else if rest = [] then False
                    else if list_ex (\<lambda>a. case expandPlaceholders a req of
                        None \<Rightarrow> False
                      | Some w \<Rightarrow> Contains a ''{taskBranch}'' \<and> \<not> containsWord rest w) (AllowOnly (Args c)) then False
                    else list_all (\<lambda>w. w \<in> set (List.map_filter (\<lambda>a. expandPlaceholders a req) (AllowOnly (Args c)))) rest))"

text \<open>\<open>None\<close> when a \<open>{worktree}\<close> root has no worktree; a Windows root that has no canonical form is dropped.\<close>

fun scope_roots :: "request \<Rightarrow> string list \<Rightarrow> string list option" where
  "scope_roots req [] = Some []"
| "scope_roots req (w # ws) =
     (if w = ''{worktree}'' \<and> Worktree req = [] then None
      else (let pl = plat req; w = (if w = ''{worktree}'' then Worktree req else w) in
            case scope_roots req ws of
              None \<Rightarrow> None
            | Some roots \<Rightarrow> (case normalize pl w of None \<Rightarrow> Some roots | Some n \<Rightarrow> Some (clean pl n # roots))))"

definition withinScope :: "string list \<Rightarrow> request \<Rightarrow> segment option \<Rightarrow> string list \<Rightarrow> string \<Rightarrow> bool" where
  "withinScope ws req g segPaths cwd =
     (case scope_roots req ws of
        None \<Rightarrow> False
      | Some roots \<Rightarrow>
          if g = None \<and> segPaths = [] then False
          else if g \<noteq> None \<and> (cwd = [] \<or> \<not> within (plat req) cwd roots) then False
          else list_all (\<lambda>p. within (plat req) p roots) segPaths)"

definition matchRule :: "rule \<Rightarrow> request \<Rightarrow> segment option \<Rightarrow> string list \<Rightarrow> string \<Rightarrow> bool" where
  "matchRule r req g segPaths cwd =
     (let m = rule_Match r in
      if Seats m \<noteq> [] \<and> \<not> containsWord (Seats m) (Seat req) then False
      else if Workspaces m \<noteq> [] \<and> \<not> containsWord (Workspaces m) (Workspace req) then False
      else if m_Tool m \<noteq> [] \<and> m_Tool m \<noteq> Tool req then False
      else if (case m_Command m of
                 None \<Rightarrow> False
               | Some c \<Rightarrow> (case g of None \<Rightarrow> True | Some s \<Rightarrow> \<not> matchCommand c req s)) then False
      else (case m_Paths m of
              None \<Rightarrow> True
            | Some ps \<Rightarrow> if Within ps = [] then True else withinScope (Within ps) req g segPaths cwd))"

definition unit_matches :: "request \<Rightarrow> rule \<Rightarrow> decision_unit \<Rightarrow> bool" where
  "unit_matches req r u = matchRule r req (u_seg u) (u_paths u) (u_cwd u)"

section \<open>Evaluating the rules\<close>

definition newSegmentDecisions :: "segment list \<Rightarrow> segment_decision list" where
  "newSegmentDecisions gs =
     map (\<lambda>(i, g). \<lparr>sd_Index = i, sd_Text = Raw g, sd_Action = ActionAsk, sd_RuleID = [], sd_FloorID = [], sd_Reasons = []\<rparr>)
       (enumerate 0 gs)"

definition mark_hits :: "request \<Rightarrow> rule \<Rightarrow> decision_unit list \<Rightarrow> segment_decision list \<Rightarrow> segment_decision list" where
  "mark_hits req r units sds =
     map (\<lambda>(i, sd). if i < length units \<and> unit_matches req r (units ! i)
            then sd\<lparr>sd_Action := rule_Action r, sd_RuleID := rule_ID r\<rparr> else sd) (enumerate 0 sds)"

definition first_hit :: "policy_action \<Rightarrow> request \<Rightarrow> rule list \<Rightarrow> decision_unit list \<Rightarrow> rule option" where
  "first_hit act req rules units = find (\<lambda>r. rule_Action r = act \<and> list_ex (unit_matches req r) units) rules"

definition hit_decision :: "decision \<Rightarrow> request \<Rightarrow> rule \<Rightarrow> segment list \<Rightarrow> decision_unit list \<Rightarrow> decision" where
  "hit_decision d req r gs units =
     d\<lparr>d_Action := rule_Action r, d_RuleID := rule_ID r, d_Why := rule_Why r,
       d_Reasons := [rule_Action r @ '' rule '' @ rule_ID r],
       d_Segments := mark_hits req r units (newSegmentDecisions gs)\<rparr>"

definition covering :: "request \<Rightarrow> rule list \<Rightarrow> decision_unit \<Rightarrow> rule option" where
  "covering req rules u = find (\<lambda>r. rule_Action r = ActionAllow \<and> unit_matches req r u) rules"

definition segment_text :: "nat \<Rightarrow> segment \<Rightarrow> string" where
  "segment_text i g = ''segment '' @ Itoa i @ '' ('' @ Raw g @ '')''"

definition uncovered_reason :: "nat \<Rightarrow> decision_unit \<Rightarrow> string" where
  "uncovered_reason i u =
     (case u_seg u of None \<Rightarrow> ''the request'' | Some g \<Rightarrow> segment_text i g) @ '' is not covered by an allow rule''"

definition restricted_reason :: "nat \<Rightarrow> decision_unit \<Rightarrow> string option" where
  "restricted_reason i u =
     (case u_seg u of
        None \<Rightarrow> None
      | Some g \<Rightarrow>
          if Dynamic g then Some (segment_text i g @ '' contains a dynamic word'')
          else if Env g \<noteq> [] then Some (segment_text i g @ '' has an environment assignment'')
          else if Redirects g \<noteq> [] then Some (segment_text i g @ '' has a redirect'')
          else None)"

text \<open>The first reason against an allow, in the order of the two loops.\<close>

fun first_some :: "'a option list \<Rightarrow> 'a option" where
  "first_some [] = None"
| "first_some (Some x # xs) = Some x"
| "first_some (None # xs) = first_some xs"

definition allow_refusal :: "request \<Rightarrow> rule list \<Rightarrow> decision_unit list \<Rightarrow> string option" where
  "allow_refusal req rules units =
     (if list_all (\<lambda>u. covering req rules u = None) units then Some ''no rule matched''
      else first_some
       (map (\<lambda>(i, u). if covering req rules u = None then Some (uncovered_reason i u) else None) (enumerate 0 units)
        @ map (\<lambda>(i, u). restricted_reason i u) (enumerate 0 units)
        @ [if Worktree req = [] then Some ''no task worktree known for this request'' else None]))"

definition dedup :: "string list \<Rightarrow> string list" where
  "dedup xs = foldl add_path [] xs"

definition mark_allows :: "rule list \<Rightarrow> segment_decision list \<Rightarrow> segment_decision list" where
  "mark_allows cov sds =
     map (\<lambda>(i, sd). if i < length cov then sd\<lparr>sd_Action := ActionAllow, sd_RuleID := rule_ID (cov ! i)\<rparr> else sd) (enumerate 0 sds)"

definition allow_decision :: "decision \<Rightarrow> rule list \<Rightarrow> segment list \<Rightarrow> decision" where
  "allow_decision d cov gs =
     (let ids = Join (dedup (map rule_ID cov)) '','' in
      d\<lparr>d_Action := ActionAllow, d_RuleID := ids, d_Why := rule_Why (hd cov), d_Reasons := [''allowed by rule '' @ ids],
        d_Segments := mark_allows cov (newSegmentDecisions gs)\<rparr>)"

definition evaluateRules :: "decision \<Rightarrow> request \<Rightarrow> rule list \<Rightarrow> segment list \<Rightarrow> decision_unit list \<Rightarrow> decision" where
  "evaluateRules d req rules gs units =
     (case first_hit ActionDeny req rules units of
        Some r \<Rightarrow> hit_decision d req r gs units
      | None \<Rightarrow>
          (case first_hit ActionAsk req rules units of
             Some r \<Rightarrow> hit_decision d req r gs units
           | None \<Rightarrow>
               (case allow_refusal req rules units of
                  Some reason \<Rightarrow> d\<lparr>d_Segments := newSegmentDecisions gs, d_Reasons := [reason]\<rparr>
                | None \<Rightarrow> allow_decision d (List.map_filter (covering req rules) units) gs)))"

section \<open>Deciding\<close>

definition capPaths :: "string list \<Rightarrow> string list" where
  "capPaths paths =
     foldl (\<lambda>out p. if p \<in> set out \<or> length out = maxDecisionPaths then out else out @ [p]) [] paths"

definition percent_dynamic :: "request \<Rightarrow> segment \<Rightarrow> segment" where
  "percent_dynamic req g =
     (if windows (plat req) \<and> \<not> Dynamic g
         \<and> (list_ex hasPercentVar (Argv g) \<or> list_ex (\<lambda>rd. hasPercentVar (r_Target rd)) (Redirects g))
      then g\<lparr>Dynamic := True\<rparr> else g)"

fun bashUnits :: "request \<Rightarrow> segment list \<Rightarrow> string \<Rightarrow> string + decision_unit list" where
  "bashUnits req [] cwd = Inr []"
| "bashUnits req (g0 # gs) cwd =
     (let g = percent_dynamic req g0; fs = newFloorSeg req g cwd in
      case segmentPaths (plat req) g cwd of
        Inl err \<Rightarrow> Inl (''cannot resolve path: '' @ error_text (plat req) err)
      | Inr paths \<Rightarrow>
          (let rc = (if cwd = [] then [] else (case resolve (plat req) cwd [] of Inr r \<Rightarrow> r | Inl e \<Rightarrow> []))
           in case bashUnits req gs (cwdAfter fs) of
                Inl reason \<Rightarrow> Inl reason
              | Inr us \<Rightarrow> Inr (\<lparr>u_seg = Some g, u_paths = paths, u_cwd = rc\<rparr> # us)))"

definition is_bash :: "request \<Rightarrow> bool" where
  "is_bash req = (Tool req = ''Bash'' \<or> Tool req = [] \<and> Command req \<noteq> [])"

definition floorDecision :: "decision \<Rightarrow> request \<Rightarrow> segment list \<Rightarrow> floor_hit \<Rightarrow> decision" where
  "floorDecision d req gs h =
     (let marked = map (\<lambda>g. case CheckFloor req [g] of Some hit \<Rightarrow> hit_ID hit = hit_ID h | None \<Rightarrow> False) gs;
          found = list_ex id marked
      in d\<lparr>d_Action := ActionDeny, d_FloorID := hit_ID h, d_Why := hit_Reason h,
           d_Reasons := [''floor '' @ hit_ID h @ '': '' @ hit_Reason h],
           d_Segments := map (\<lambda>(sd, hit). if hit \<or> \<not> found then sd\<lparr>sd_Action := ActionDeny, sd_FloorID := hit_ID h\<rparr> else sd)
             (zip (newSegmentDecisions gs) marked)\<rparr>)"

text \<open>The command whose text the engine cannot see, if a segment runs one.\<close>

definition hidden_text_of :: "request \<Rightarrow> string \<Rightarrow> segment \<Rightarrow> string option" where
  "hidden_text_of req cwd g =
     (let fs = newFloorSeg req g cwd in
      case fl_argv fs of
        [] \<Rightarrow> None
      | argv0 # args \<Rightarrow>
          if isShellEval argv0 \<or> windows (plat req) \<and> seg_name fs \<in> set winWrapperInterpreters \<and> \<not> Inspected g
          then Some argv0 else None)"

definition runs_unseen :: "string \<Rightarrow> string" where
  "runs_unseen argv0 = argv0 @ '' runs text the engine cannot see''"

fun resolve_all :: "platform \<Rightarrow> string \<Rightarrow> string list \<Rightarrow> string + string list" where
  "resolve_all pl cwd [] = Inr []"
| "resolve_all pl cwd (p # ps) =
     (case resolve pl p cwd of
        Inl e \<Rightarrow> Inl (''cannot resolve path '' @ p)
      | Inr r \<Rightarrow> (case resolve_all pl cwd ps of Inl reason \<Rightarrow> Inl reason | Inr rs \<Rightarrow> Inr (r # rs)))"

text \<open>
  Everything before the rules: a final decision, or the decision so far with the segments and
  units to judge.
\<close>

definition prepare_bash :: "decision \<Rightarrow> request \<Rightarrow> decision + decision \<times> segment list \<times> decision_unit list" where
  "prepare_bash d0 req =
     (let p = splitCommand (Command req) (windows (plat req)); gs = Segments p; cwd = start_cwd req;
          d = d0\<lparr>d_Normalized := Normalized p\<rparr>
      in case CheckFloor req gs of
           Some h \<Rightarrow> Inl (floorDecision d req gs h)
         | None \<Rightarrow>
             if Unparsed p \<noteq> [] then Inl (d\<lparr>d_Reasons := Unparsed p\<rparr>)
             else (case first_some (map (hidden_text_of req cwd) gs) of
                     Some argv0 \<Rightarrow> Inl (d\<lparr>d_Reasons := [runs_unseen argv0]\<rparr>)
                   | None \<Rightarrow>
                       (case bashUnits req gs cwd of
                          Inl reason \<Rightarrow> Inl (d\<lparr>d_Reasons := [reason]\<rparr>)
                        | Inr us \<Rightarrow> Inr (d\<lparr>d_Paths := capPaths (concat (map u_paths us))\<rparr>, gs, us))))"

definition prepare_tool :: "decision \<Rightarrow> request \<Rightarrow> decision + decision \<times> segment list \<times> decision_unit list" where
  "prepare_tool d req =
     (case CheckFloorPaths req of
        Some h \<Rightarrow> Inl (d\<lparr>d_Action := ActionDeny, d_FloorID := hit_ID h, d_Why := hit_Reason h,
                       d_Reasons := [''floor '' @ hit_ID h @ '': '' @ hit_Reason h]\<rparr>)
      | None \<Rightarrow>
          (case resolve_all (plat req) (start_cwd req) (Paths req) of
             Inl reason \<Rightarrow> Inl (d\<lparr>d_Reasons := [reason]\<rparr>)
           | Inr rs \<Rightarrow> Inr (d\<lparr>d_Paths := capPaths rs\<rparr>, [], [\<lparr>u_seg = None, u_paths = rs, u_cwd = []\<rparr>])))"

text \<open>An allow is withdrawn when a segment is an inspected PowerShell or \<open>cmd\<close> host.\<close>

definition withdraw_inspected :: "segment list \<Rightarrow> decision \<Rightarrow> decision" where
  "withdraw_inspected gs out =
     (if d_Action out \<noteq> ActionAllow then out
      else (case find (\<lambda>(i, g). Inspected g) (enumerate 0 gs) of
              None \<Rightarrow> out
            | Some (i, g) \<Rightarrow>
                out\<lparr>d_Action := ActionAsk, d_RuleID := [], d_Why := [], d_Reasons := [runs_unseen (hd (Argv g))],
                    d_Segments := (if i < length (d_Segments out)
                      then (d_Segments out)[i := (d_Segments out ! i)\<lparr>sd_Action := ActionAsk, sd_RuleID := []\<rparr>]
                      else d_Segments out)\<rparr>))"

definition Decide :: "request \<Rightarrow> policy option \<Rightarrow> decision" where
  "Decide req pol =
     (let d = empty_decision\<lparr>d_Action := ActionAsk, d_PolicySha := (case pol of Some p \<Rightarrow> pol_Sha p | None \<Rightarrow> [])\<rparr> in
      if Truncated req then d\<lparr>d_Reasons := [''command truncated by provider'']\<rparr>
      else if Doubt req \<noteq> [] then d\<lparr>d_Reasons := [Doubt req]\<rparr>
      else (case (if is_bash req then prepare_bash d req else prepare_tool d req) of
              Inl out \<Rightarrow> out
            | Inr (d, gs, us) \<Rightarrow>
                (case pol of
                   None \<Rightarrow> d\<lparr>d_Segments := newSegmentDecisions gs, d_Reasons := [''no policy loaded'']\<rparr>
                 | Some p \<Rightarrow> withdraw_inspected gs (evaluateRules d req (pol_Rules p) gs us))))"

end
