(* ===== verification/PermEngine.thy ===== *)
theory PermEngine
  imports PermDecide
begin

text \<open>
  The policy engine (\<open>internal/permpolicy/engine.go\<close>): the cached policy file, the dry run, the
  evaluation that records every decision, and the later outcome of an escalated ask.

  What the operating system answers is an argument of the operations: a \<open>disk\<close> is the result of
  \<open>os.Stat\<close> and of \<open>os.ReadFile\<close> at the time of the call, and the three instants are the three
  calls of \<open>Now\<close>. The redactor of package \<open>redact\<close> is a function of the home directories and the
  text. The audit sink is the interface \<open>AuditSink\<close>; \<open>world\<close> keeps the rows it has accepted.
\<close>

definition auditMaxTarget :: nat where "auditMaxTarget = 512"
definition auditMaxPaths :: nat where "auditMaxPaths = 8"
definition auditMaxReasons :: nat where "auditMaxReasons = 1024"

definition OutcomeHumanAllow :: string where "OutcomeHumanAllow = ''ask_human_allow''"
definition OutcomeHumanDeny :: string where "OutcomeHumanDeny = ''ask_human_deny''"
definition OutcomeTimeoutDeny :: string where "OutcomeTimeoutDeny = ''ask_timeout_deny''"

record audit_row =
  a_ID :: int
  a_CreatedAt :: gotime
  a_RunID :: string
  a_TaskID :: int
  a_RequestID :: string
  a_Seat :: string
  a_WorkspaceID :: int
  a_Tool :: string
  a_Target :: string
  a_Paths :: "string list"
  a_Decision :: string
  a_RuleID :: string
  a_PolicySha :: string
  a_Reasons :: string
  a_LatencyMs :: int

datatype file_error = StatFailed string | ReadFailed string | LoadFailed load_error

record file_state =
  st_exists :: bool
  st_mtime :: gotime
  st_size :: nat
  st_pol :: "policy option"
  st_err :: "file_error option"

definition absent_state :: file_state where
  "absent_state = \<lparr>st_exists = False, st_mtime = zero_time, st_size = 0, st_pol = None, st_err = None\<rparr>"

datatype stat_result = StatNotExist | StatError string | StatOK gotime nat

record disk =
  disk_stat :: stat_result
  disk_read :: "string + string"

record engine_options =
  o_Path :: string
  o_Enabled :: "bool option"
  o_Audit :: "(audit_row \<Rightarrow> string + int) option"
  o_Home :: string
  o_SmindHome :: string
  o_lib :: policy_lib
  o_host :: platform
  o_redact :: "string list \<Rightarrow> string \<Rightarrow> string"

record engine =
  e_o :: engine_options
  e_state :: file_state
  e_have :: bool

record policy_status =
  ps_Enabled :: bool
  ps_Valid :: bool
  ps_Exists :: bool
  ps_Error :: "file_error option"
  ps_Path :: string
  ps_Sha :: string
  ps_Rules :: nat

type_synonym world = "audit_row list"

definition NewEngine :: "engine_options \<Rightarrow> engine" where
  "NewEngine opts = \<lparr>e_o = opts, e_state = absent_state, e_have = False\<rparr>"

definition enabled :: "engine \<Rightarrow> bool" where
  "enabled e = (o_Enabled (e_o e) = Some True)"

section \<open>The cached file\<close>

definition read_state :: "engine_options \<Rightarrow> gotime \<Rightarrow> nat \<Rightarrow> string + string \<Rightarrow> file_state" where
  "read_state opts mtime bytes contents =
     (let st = \<lparr>st_exists = True, st_mtime = mtime, st_size = bytes, st_pol = None, st_err = None\<rparr> in
      if MaxPolicyBytes < bytes then st\<lparr>st_err := Some (LoadFailed \<lparr>le_Path = ''policy'', le_Msg = Oversize bytes\<rparr>)\<rparr>
      else (case contents of
              Inl err \<Rightarrow> st\<lparr>st_err := Some (ReadFailed err)\<rparr>
            | Inr data \<Rightarrow>
                (case loadPolicy (o_lib opts) (o_host opts) data of
                   Inl err \<Rightarrow> st\<lparr>st_err := Some (LoadFailed err)\<rparr>
                 | Inr pol \<Rightarrow> st\<lparr>st_pol := Some pol\<rparr>)))"

definition current :: "disk \<Rightarrow> engine \<Rightarrow> engine \<times> file_state" where
  "current dk e =
     (let keep = (\<lambda>st. (e\<lparr>e_state := st, e_have := True\<rparr>, st)) in
      case disk_stat dk of
        StatNotExist \<Rightarrow> keep absent_state
      | StatError err \<Rightarrow> keep (absent_state\<lparr>st_exists := True, st_err := Some (StatFailed err)\<rparr>)
      | StatOK mtime bytes \<Rightarrow>
          if e_have e \<and> st_exists (e_state e) \<and> st_mtime (e_state e) = mtime \<and> st_size (e_state e) = bytes
          then (e, e_state e)
          else keep (read_state (e_o e) mtime bytes (disk_read dk)))"

definition st_sha :: "file_state \<Rightarrow> string" where
  "st_sha s = (case st_pol s of None \<Rightarrow> [] | Some pol \<Rightarrow> pol_Sha pol)"

definition statusOf :: "engine \<Rightarrow> file_state \<Rightarrow> policy_status" where
  "statusOf e st =
     \<lparr>ps_Enabled = enabled e, ps_Valid = (st_err st = None), ps_Exists = st_exists st, ps_Error = st_err st,
      ps_Path = o_Path (e_o e), ps_Sha = st_sha st,
      ps_Rules = (case st_pol st of None \<Rightarrow> 0 | Some pol \<Rightarrow> length (pol_Rules pol))\<rparr>"

definition Status :: "disk \<Rightarrow> engine \<Rightarrow> engine \<times> policy_status" where
  "Status dk e = (let (e', st) = current dk e in (e', statusOf e' st))"

definition Rules :: "disk \<Rightarrow> engine \<Rightarrow> engine \<times> rule list" where
  "Rules dk e = (let (e', st) = current dk e in (e', case st_pol st of None \<Rightarrow> [] | Some pol \<Rightarrow> pol_Rules pol))"

definition fill :: "engine \<Rightarrow> request \<Rightarrow> request" where
  "fill e req =
     req\<lparr>Home := (if Home req = [] then o_Home (e_o e) else Home req),
         SmindHome := (if SmindHome req = [] then o_SmindHome (e_o e) else SmindHome req)\<rparr>"

definition Explain :: "disk \<Rightarrow> engine \<Rightarrow> request \<Rightarrow> engine \<times> decision \<times> policy_status" where
  "Explain dk e req = (let (e', st) = current dk e in (e', Decide (fill e' req) (st_pol st), statusOf e' st))"

section \<open>Recording decisions\<close>

function trim_to_valid :: "string \<Rightarrow> string" where
  "trim_to_valid s = (if utf8_valid s then s else trim_to_valid (butlast s))"
  by pat_completeness auto
termination
proof (relation "measure length")
  fix s :: string assume "\<not> utf8_valid s"
  then have "s \<noteq> []" by (auto simp: utf8_valid.simps)
  then show "(butlast s, s) \<in> measure length" by simp
qed simp

declare trim_to_valid.simps [simp del]

definition capRunes :: "string \<Rightarrow> nat \<Rightarrow> string" where
  "capRunes s limit = (if length s \<le> limit then s else trim_to_valid (take limit s))"

definition redactor :: "engine \<Rightarrow> request \<Rightarrow> string \<Rightarrow> string" where
  "redactor e req =
     (let home = (if Home req = [] then (case homeDir (o_host (e_o e)) of Some h \<Rightarrow> h | None \<Rightarrow> []) else Home req)
      in o_redact (e_o e) (if home = [] then [] else [home]))"

definition auditRow :: "engine \<Rightarrow> request \<Rightarrow> decision \<Rightarrow> int \<Rightarrow> gotime \<Rightarrow> audit_row" where
  "auditRow e req d latency now =
     (let rd = redactor e req;
          target = (if is_bash req then d_Normalized d else Tool req @ '' '' @ Join (d_Paths d) '' '')
      in \<lparr>a_ID = 0, a_CreatedAt = now, a_RunID = RunID req, a_TaskID = TaskID req, a_RequestID = RequestID req, a_Seat = Seat req,
          a_WorkspaceID = WorkspaceID req, a_Tool = Tool req, a_Target = capRunes (rd target) auditMaxTarget,
          a_Paths = map rd (take auditMaxPaths (d_Paths d)), a_Decision = d_Action d,
          a_RuleID = (if d_RuleID d = [] then d_FloorID d else d_RuleID d), a_PolicySha = d_PolicySha d,
          a_Reasons = capRunes (rd (Join (d_Reasons d) ''; '')) auditMaxReasons, a_LatencyMs = latency\<rparr>)"

definition downgrade :: "decision \<Rightarrow> decision" where
  "downgrade d =
     (if d_Action d = ActionAllow then d\<lparr>d_Action := ActionAsk, d_Reasons := d_Reasons d @ [''audit unavailable'']\<rparr> else d)"

definition append_row :: "engine \<Rightarrow> audit_row \<Rightarrow> world \<Rightarrow> world \<times> bool" where
  "append_row e row w =
     (case o_Audit (e_o e) of
        None \<Rightarrow> (w, False)
      | Some sink \<Rightarrow> (case sink row of Inl err \<Rightarrow> (w, False) | Inr i \<Rightarrow> (w @ [row], True)))"

definition millis :: "duration \<Rightarrow> int" where
  "millis d = max 0 (d div 1000000)"

text \<open>The result is the decision and \<open>ok\<close>; \<open>t0\<close>, \<open>t1\<close> and \<open>t2\<close> are the start, the end and the row's instant.\<close>

definition Evaluate :: "disk \<Rightarrow> gotime \<times> gotime \<times> gotime \<Rightarrow> engine \<Rightarrow> world \<Rightarrow> request \<Rightarrow> engine \<times> world \<times> decision \<times> bool" where
  "Evaluate dk instants e w req0 =
     (if \<not> enabled e then (e, w, empty_decision, False)
      else (let (t0, t1, t2) = instants;
                (e', st) = current dk e;
                req = fill e' req0;
                d = Decide req (st_pol st);
                (w', written) = append_row e' (auditRow e' req d (millis (time_sub t1 t0)) t2) w
            in (e', w', if written then d else downgrade d, True)))"

definition RecordOutcome :: "disk \<Rightarrow> gotime \<Rightarrow> engine \<Rightarrow> world \<Rightarrow> request \<Rightarrow> string \<Rightarrow> engine \<times> world" where
  "RecordOutcome dk now e w req outcome =
     (if outcome \<notin> {OutcomeHumanAllow, OutcomeHumanDeny, OutcomeTimeoutDeny} \<or> o_Audit (e_o e) = None then (e, w)
      else (let (e', st) = current dk e;
                row = \<lparr>a_ID = 0, a_CreatedAt = now, a_RunID = RunID req, a_TaskID = TaskID req, a_RequestID = RequestID req, a_Seat = Seat req,
                   a_WorkspaceID = WorkspaceID req, a_Tool = Tool req, a_Target = [], a_Paths = [], a_Decision = outcome,
                   a_RuleID = [], a_PolicySha = st_sha st, a_Reasons = [], a_LatencyMs = 0\<rparr>
            in (e', fst (append_row e' row w))))"

end
