(* ===== verification/PermLoadProps.thy ===== *)
theory PermLoadProps
  imports PermLoad
begin

text \<open>
  What a policy that loads is guaranteed to be. \<open>wf_policy\<close> collects the caps of the file, the
  form of every rule and what an allow needs before it may answer without the human.
\<close>

definition wf_root :: "platform \<Rightarrow> string \<Rightarrow> bool" where
  "wf_root pl w \<longleftrightarrow> w = ''{worktree}'' \<or>
     (\<exists>n. normalize pl w = Some n \<and> isAbs pl n) \<and> \<not> has_wildcard w \<and> ''..'' \<notin> set (SplitByte (slashes pl w) slash)"

definition wf_list :: "string list \<Rightarrow> bool" where
  "wf_list xs \<longleftrightarrow> length xs \<le> maxListLen \<and> (\<forall>x\<in>set xs. \<not> has_wildcard x)"

definition wf_command :: "command_match \<Rightarrow> bool" where
  "wf_command c \<longleftrightarrow> \<not> has_wildcard (Argv0 c) \<and> \<not> has_wildcard (Subcommand c)
     \<and> length (AllowOnly (Args c)) \<le> maxListLen \<and> length (DenyFlags (Args c)) \<le> maxListLen
     \<and> (\<forall>a\<in>set (AllowOnly (Args c)). set (placeholders a) \<subseteq> {''taskBranch'', ''worktree''})
     \<and> (\<forall>f\<in>set (DenyFlags (Args c)). HasPrefix f ''-'')"

text \<open>An allow names its tool; for Bash it names the command, and whatever can write has a path scope.\<close>

definition wf_allow :: "rule_match \<Rightarrow> bool" where
  "wf_allow m \<longleftrightarrow> m_Tool m \<noteq> []
     \<and> (m_Tool m = ''Bash'' \<longrightarrow> (\<exists>c. m_Command m = Some c \<and> Argv0 c \<noteq> []))
     \<and> (m_Tool m \<in> set mutatingTools \<longrightarrow> (\<exists>ps. m_Paths m = Some ps \<and> Within ps \<noteq> []))"

definition wf_match :: "platform \<Rightarrow> rule_match \<Rightarrow> bool" where
  "wf_match pl m \<longleftrightarrow> wf_list (Seats m) \<and> wf_list (Workspaces m) \<and> \<not> has_wildcard (m_Tool m)
     \<and> (\<forall>c. m_Command m = Some c \<longrightarrow> wf_command c \<and> m_Tool m \<in> {[], ''Bash''})
     \<and> (\<forall>ps. m_Paths m = Some ps \<longrightarrow> length (Within ps) \<le> maxListLen \<and> (\<forall>w\<in>set (Within ps). wf_root pl w))"

definition wf_rule :: "platform \<Rightarrow> rule \<Rightarrow> bool" where
  "wf_rule pl r \<longleftrightarrow> ruleIDRe (rule_ID r) \<and> rule_Action r \<in> {ActionAllow, ActionDeny, ActionAsk}
     \<and> TrimSpace (rule_Why r) \<noteq> [] \<and> length (rule_Why r) \<le> MaxWhy \<and> printable (rule_Why r)
     \<and> wf_match pl (rule_Match r)
     \<and> (rule_Action r = ActionAllow \<longrightarrow> wf_allow (rule_Match r) \<and> probe_floor pl r = None)"

definition wf_policy :: "platform \<Rightarrow> policy \<Rightarrow> bool" where
  "wf_policy pl p \<longleftrightarrow> pol_Version p = 1 \<and> length (pol_Rules p) \<le> MaxRules
     \<and> distinct (map rule_ID (pol_Rules p)) \<and> (\<forall>r\<in>set (pol_Rules p). wf_rule pl r)"

lemma le_ne_None [simp]: "le p m \<noteq> None"
  by (simp add: le_def)

lemma le_if_None [simp]: "(if b then le p m else x) = None \<longleftrightarrow> \<not> b \<and> x = None"
  by simp

lemma first_error_None: "first_error xs = None \<longleftrightarrow> (\<forall>x\<in>set xs. x = None)"
  by (induction xs rule: first_error.induct) auto

lemma check_each_None:
  "(\<And>i x. f i x = None \<longleftrightarrow> P x) \<Longrightarrow> check_each f n xs = None \<longleftrightarrow> (\<forall>x\<in>set xs. P x)"
proof (induction xs arbitrary: n)
  case (Cons x xs)
  from Cons.prems [of n x] show ?case using Cons.IH [OF Cons.prems] by (cases "f n x") auto
qed simp

lemma checkListCap_None [simp]: "checkListCap p xs = None \<longleftrightarrow> length xs \<le> maxListLen"
  by (auto simp: checkListCap_def)

lemma checkNoWildcard_None: "checkNoWildcard p xs = None \<longleftrightarrow> wf_list xs"
  by (simp add: checkNoWildcard_def first_error_None wf_list_def check_each_None [where P = "\<lambda>v. \<not> has_wildcard v"])

lemma check_command_None:
  "check_command p tool c = None \<longleftrightarrow> wf_command c \<and> tool \<in> {[], ''Bash''}"
proof -
  have ph: "check_placeholders p j a = None \<longleftrightarrow> set (placeholders a) \<subseteq> {''taskBranch'', ''worktree''}" for j a
    using find_None_iff [of "\<lambda>ph. ph \<noteq> ''taskBranch'' \<and> ph \<noteq> ''worktree''" "placeholders a"]
    by (cases "find (\<lambda>ph. ph \<noteq> ''taskBranch'' \<and> ph \<noteq> ''worktree'') (placeholders a)")
       (auto simp: check_placeholders_def)
  show ?thesis
    unfolding check_command_def first_error_None wf_command_def
    by (auto simp: check_each_None [OF ph] check_each_None [where P = "\<lambda>f. HasPrefix f ''-''"])
qed

lemma check_paths_None:
  "check_paths pl p ps = None \<longleftrightarrow> length (Within ps) \<le> maxListLen \<and> (\<forall>w\<in>set (Within ps). wf_root pl w)"
proof -
  have "check_root pl p j w = None \<longleftrightarrow> wf_root pl w" for j w
    by (auto simp: check_root_def wf_root_def Let_def split: option.splits)
  then show ?thesis by (simp add: check_paths_def first_error_None check_each_None [where P = "wf_root pl"])
qed

lemma check_tool_None: "check_tool p tool = None \<Longrightarrow> \<not> has_wildcard tool"
  by (auto simp: check_tool_def)

lemma check_allow_None: "check_allow p m = None \<longleftrightarrow> wf_allow m"
  by (auto simp: check_allow_def wf_allow_def split: option.splits)

lemma check_rule_None:
  assumes "check_rule pl ids i r = None" "rule_Action r = ActionAllow \<longrightarrow> probe_floor pl r = None"
  shows "wf_rule pl r \<and> rule_ID r \<notin> set ids"
proof -
  let ?m = "rule_Match r"
  from assms(1) have *: "ruleIDRe (rule_ID r)" "rule_ID r \<notin> set ids" "rule_Action r \<in> {ActionAllow, ActionDeny, ActionAsk}"
    "TrimSpace (rule_Why r) \<noteq> []" "length (rule_Why r) \<le> MaxWhy" "printable (rule_Why r)"
    "wf_list (Seats ?m)" "wf_list (Workspaces ?m)" "\<not> has_wildcard (m_Tool ?m)"
    "(case m_Command ?m of None \<Rightarrow> None | Some c \<Rightarrow> check_command (indexed ''rules'' i) (m_Tool ?m) c) = None"
    "(case m_Paths ?m of None \<Rightarrow> None | Some ps \<Rightarrow> check_paths pl (indexed ''rules'' i) ps) = None"
    "rule_Action r = ActionAllow \<longrightarrow> check_allow (indexed ''rules'' i) ?m = None"
    unfolding check_rule_def Let_def first_error_None
    by (auto simp: checkNoWildcard_None dest: check_tool_None)
  then show ?thesis using assms(2)
    by (auto simp: wf_rule_def wf_match_def check_command_None check_paths_None check_allow_None split: option.splits)
qed


lemma validate_from_None:
  assumes "validate_from pl ids i rs = None" "\<forall>r\<in>set rs. rule_Action r = ActionAllow \<longrightarrow> probe_floor pl r = None"
  shows "(\<forall>r\<in>set rs. wf_rule pl r) \<and> distinct (map rule_ID rs) \<and> set (map rule_ID rs) \<inter> set ids = {}"
  using assms
proof (induction rs arbitrary: ids i)
  case (Cons r rs)
  then have "check_rule pl ids i r = None" "validate_from pl (rule_ID r # ids) (i + 1) rs = None"
    by (auto split: option.splits)
  then show ?case using Cons.IH [of "rule_ID r # ids" "i + 1"] check_rule_None [of pl ids i r] Cons.prems(2) by auto
qed simp

lemma check_floor_from_None:
  "check_floor_from pl i rs = None \<Longrightarrow> \<forall>r\<in>set rs. rule_Action r = ActionAllow \<longrightarrow> probe_floor pl r = None"
  by (induction rs arbitrary: i) (auto split: option.splits if_splits)

lemma loadPolicy_Inr:
  assumes "loadPolicy lib pl data = Inr p"
  shows "wf_policy pl p"
proof -
  from assms obtain doc where d: "yaml_Decode lib data = Inr doc" "doc_Version doc = 1" "length (doc_Rules doc) \<le> MaxRules"
    "validateRules pl (doc_Rules doc) = None" "checkAllowsAgainstFloor pl (doc_Rules doc) = None"
    "p = \<lparr>pol_Version = 1, pol_Rules = doc_Rules doc, pol_Sha = sha256_hex lib data\<rparr>"
    by (auto simp: loadPolicy_def Let_def split: option.splits sum.splits if_splits)
  then show ?thesis
    using check_floor_from_None [of pl 0 "doc_Rules doc"] validate_from_None [of pl "[]" 0 "doc_Rules doc"]
    by (simp add: wf_policy_def validateRules_def checkAllowsAgainstFloor_def)
qed

text \<open>
  C31. A policy that loads is well formed: version 1, at most 200 rules with distinct identifiers of
  the allowed form, every reason present, bounded and printable, no wildcard in a seat, a workspace,
  a tool, a command or a root, every list within its cap, every root \<open>{worktree}\<close> or an absolute path
  without \<open>..\<close>, every placeholder known, every denied flag a flag; and every allow names its tool,
  its command when the tool is Bash, and a path scope when the tool can write, and passes the floor.
\<close>

theorem loaded_policy_well_formed:
  assumes "loadPolicy lib pl data = Inr p"
  shows "wf_policy pl p"
  using assms by (rule loadPolicy_Inr)

definition demo_fs :: path_fs where
  "demo_fs = \<lparr>fs_Resolve = Inr, fs_Lstat = (\<lambda>p. None), fs_Readlink = (\<lambda>p. Inl ErrNotExist)\<rparr>"

definition demo_platform :: platform where
  "demo_platform = posixPlatform demo_fs (\<lambda>k. if k = ''HOME'' then ''/h'' else [])"

definition demo_rule :: rule where
  "demo_rule = \<lparr>rule_ID = ''edit'', rule_Action = ''allow'', rule_Why = ''Edit in the worktree'',
     rule_Match = \<lparr>Seats = [], Workspaces = [], m_Tool = ''Edit'', m_Command = None, m_Paths = Some \<lparr>Within = [''{worktree}'']\<rparr>\<rparr>\<rparr>"

definition demo_lib :: policy_lib where
  "demo_lib = \<lparr>yaml_Unmarshal = (\<lambda>s. Inr (YNode DocumentNode [] False [] [])),
     yaml_Decode = (\<lambda>s. Inr \<lparr>doc_Version = 1, doc_Rules = [demo_rule]\<rparr>), sha256_hex = (\<lambda>s. [])\<rparr>"

lemma demo_rule_valid: "validateRules demo_platform [demo_rule] = None"
  by code_simp

lemma demo_probe: "probe_floor demo_platform demo_rule = None"
  by code_simp


lemma demo_load: "loadPolicy demo_lib demo_platform [] = Inr \<lparr>pol_Version = 1, pol_Rules = [demo_rule], pol_Sha = []\<rparr>"
proof -
  have "strictPolicyYAML demo_lib [] = None" by code_simp
  moreover have "yaml_Decode demo_lib [] = Inr \<lparr>doc_Version = 1, doc_Rules = [demo_rule]\<rparr>" "sha256_hex demo_lib [] = []"
    by (simp_all add: demo_lib_def)
  ultimately show ?thesis using demo_probe demo_rule_valid
    by (simp add: loadPolicy_def checkAllowsAgainstFloor_def MaxRules_def)
qed

theorem loaded_policy_well_formed_witness:
  "wf_policy demo_platform \<lparr>pol_Version = 1, pol_Rules = [demo_rule], pol_Sha = []\<rparr>"
  using loaded_policy_well_formed [OF demo_load] .

end
