(* ===== verification/PermFloorProps.thy ===== *)
theory PermFloorProps
  imports PermLoadProps
begin

text \<open>
  What the floor sees through: commands behind wrappers, and where its view ends.
\<close>

definition plain_wrappers :: "string list" where
  "plain_wrappers = [''command'', ''nohup'', ''time'', ''builtin'', ''exec'', ''nice'', ''xargs'', ''env'']"

text \<open>A word that is neither an option nor an assignment, and is its own command name.\<close>

definition command_word :: "string \<Rightarrow> bool" where
  "command_word x \<longleftrightarrow> \<not> HasPrefix x ''-'' \<and> \<not> isEnvAssign x \<and> path_Base x = x
     \<and> ToLower (after_last_any x [slash, bslash]) = x \<and> find (HasSuffix x) launcher_exts = None"

lemma ToLower_lower:
  assumes "list_all (byte_in 97 122) s"
  shows "ToLower s = s"
  using assms
proof (induction s)
  case (Cons c s)
  then have "97 \<le> (of_char c :: nat)" "(of_char c :: nat) \<le> 122" by (simp_all add: byte_in_def Let_def)
  then have "lower_byte c = c" "\<not> HasPrefix (c # s) (byte_str [0xC4, 0xB0])" "\<not> HasPrefix (c # s) (byte_str [0xE2, 0x84, 0xAA])"
    by (auto simp: lower_byte_def Let_def HasPrefix_def byte_str_def)
  then show ?case using Cons by (simp add: ToLower.simps [of "c # s"])
qed (simp add: ToLower.simps)

lemma wrapper_words: "x \<in> set (''git'' # plain_wrappers) \<Longrightarrow> command_word x"
proof -
  let ?P = "\<lambda>x. \<not> HasPrefix x ''-'' \<and> \<not> isEnvAssign x \<and> path_Base x = x \<and> after_last_any x [slash, bslash] = x
      \<and> list_all (byte_in 97 122) x \<and> find (HasSuffix x) launcher_exts = None"
  have "list_all ?P (''git'' # plain_wrappers)" by code_simp
  then have all: "\<forall>x\<in>set (''git'' # plain_wrappers). ?P x" by (simp only: list_all_iff)
  assume "x \<in> set (''git'' # plain_wrappers)"
  then have "?P x" by (rule bspec [OF all])
  then show "command_word x" by (simp add: command_word_def ToLower_lower)
qed

lemma command_word_name: "command_word x \<Longrightarrow> cmdName pl x = x"
  by (simp add: command_word_def cmdName_def Let_def)

text \<open>A word that does not start with a dash is no option.\<close>

lemma not_option:
  assumes "\<not> HasPrefix w ''-''"
  shows "HasPrefix w (CHR ''-'' # v) = False" "w = CHR ''-'' # v \<longleftrightarrow> False"
  using assms by (cases w; auto simp: HasPrefix_def)+

lemma skipFlags_stops: "\<not> HasPrefix w ''-'' \<Longrightarrow> skipFlags (w # ws) v = w # ws"
  by (subst skipFlags.simps) (simp only: list.case not_option not_False_eq_True simp_thms if_True if_False)

lemma unwrapEnv_stops: "\<not> HasPrefix w ''-'' \<Longrightarrow> \<not> isEnvAssign w \<Longrightarrow> unwrapEnv fs (w # ws) = (fs, w # ws)"
  by (subst unwrapEnv.simps) (simp only: list.case not_option not_False_eq_True simp_thms if_True if_False)

lemma unwrap_step_peels:
  assumes "fl_argv fs = w # x # rest" "w \<in> set plain_wrappers" "x \<in> set (''git'' # plain_wrappers)"
  shows "unwrap_step fs = Some (fs\<lparr>wrappers := wrappers fs @ [w], fl_argv := x # rest\<rparr>)"
proof -
  have n: "seg_name fs = w" using assms(1,2) command_word_name [OF wrapper_words, of w] by (simp add: seg_name_def)
  have x: "\<not> HasPrefix x ''-''" "\<not> isEnvAssign x" using wrapper_words [OF assms(3)] by (simp_all add: command_word_def)
  have "w = ''command'' \<or> w = ''nohup'' \<or> w = ''time'' \<or> w = ''builtin'' \<or> w = ''exec'' \<or> w = ''nice'' \<or> w = ''xargs'' \<or> w = ''env''"
    using assms(2) by (auto simp: plain_wrappers_def)
  then show ?thesis
    unfolding unwrap_step_def Let_def n assms(1) list.sel skipFlags_stops [OF x(1)] unwrapEnv_stops [OF x]
    by (elim disjE) simp_all
qed

lemma git_name: "fl_argv fs = ''git'' # rest \<Longrightarrow> seg_name fs = ''git''"
  using command_word_name [OF wrapper_words, of "''git''"] by (simp add: seg_name_def)

lemma unwrap_git:
  assumes "fl_argv fs = ''git'' # rest"
  shows "unwrap n fs = fs"
proof -
  have "unwrap_step fs = None" unfolding unwrap_step_def Let_def git_name [OF assms] by simp
  then show ?thesis by (cases n) auto
qed

lemma unwrap_peels:
  assumes "set ws \<subseteq> set plain_wrappers" "length ws \<le> n" "fl_argv fs = ws @ ''git'' # rest"
  shows "fl_argv (unwrap n fs) = ''git'' # rest \<and> fl_req (unwrap n fs) = fl_req fs"
  using assms
proof (induction ws arbitrary: n fs)
  case Nil
  then show ?case by (simp add: unwrap_git)
next
  case (Cons w ws)
  then obtain m where m: "n = Suc m" by (cases n) auto
  obtain x r where x: "ws @ ''git'' # rest = x # r" "x \<in> set (''git'' # plain_wrappers)"
    using Cons.prems(1) by (cases ws) auto
  have "unwrap_step fs = Some (fs\<lparr>wrappers := wrappers fs @ [w], fl_argv := ws @ ''git'' # rest\<rparr>)"
    using unwrap_step_peels [of fs w x r] Cons.prems x by simp
  then show ?case using Cons.IH [of m "fs\<lparr>wrappers := wrappers fs @ [w], fl_argv := ws @ ''git'' # rest\<rparr>"] Cons.prems m by simp
qed

lemma git_rules_hit:
  assumes "fl_argv fs = ''git'' # sub # args" "\<not> HasPrefix sub ''-''"
    "git_sub_rules \<lparr>g_sub = sub, g_args = args, g_cwd = fl_cwd fs\<rparr> = Some h"
  shows "seg_rules fs = Some h"
proof -
  have n: "seg_name fs = ''git''" by (rule git_name [OF assms(1)])
  have "parseGit_from fs (fl_cwd fs) (sub # args) = Some \<lparr>g_sub = sub, g_args = args, g_cwd = fl_cwd fs\<rparr>"
    by (subst parseGit_from.simps)
       (simp only: list.case not_option [OF assms(2)] insert_iff empty_iff simp_thms if_False)
  then have "parseGit fs = Some \<lparr>g_sub = sub, g_args = args, g_cwd = fl_cwd fs\<rparr>"
    using assms(1) n by (simp add: parseGit_def)
  then show ?thesis using assms(1,3) n by (simp add: seg_rules_def gitRules_def ghRules_def publishRules_def)
qed

lemma git_sub_rules_cwd: "git_sub_rules (g\<lparr>g_cwd := c\<rparr>) = git_sub_rules g"
  by (simp add: git_sub_rules_def)

lemma floor_loop_hit:
  assumes "g \<in> set gs" "\<And>cwd. seg_rules (newFloorSeg req g cwd) \<noteq> None"
  shows "floor_loop req cwd gs \<noteq> None"
  using assms(1)
proof (induction gs arbitrary: cwd)
  case (Cons a gs)
  then show ?case using assms(2) [of cwd] by (cases "a = g") (auto simp: Let_def split: option.splits)
qed simp

lemma CheckFloor_hit:
  assumes "g \<in> set gs" "\<And>cwd. seg_rules (newFloorSeg req g cwd) \<noteq> None"
  shows "CheckFloor req gs \<noteq> None"
  using floor_loop_hit [OF assms] by (simp add: CheckFloor_def Let_def floorHit_def)

lemma wrapped_git_hits:
  assumes "g \<in> set gs" "Argv g = ws @ ''git'' # sub # args" "set ws \<subseteq> set plain_wrappers" "length ws \<le> 16"
    "\<not> HasPrefix sub ''-''" "git_sub_rules \<lparr>g_sub = sub, g_args = args, g_cwd = []\<rparr> \<noteq> None"
  shows "CheckFloor req gs \<noteq> None"
proof (rule CheckFloor_hit [OF assms(1)])
  fix cwd
  let ?fs = "newFloorSeg req g cwd"
  have "fl_argv ?fs = ''git'' # sub # args"
    using unwrap_peels [OF assms(3,4)] assms(2) by (simp add: newFloorSeg_def)
  moreover obtain h where "git_sub_rules \<lparr>g_sub = sub, g_args = args, g_cwd = fl_cwd ?fs\<rparr> = Some h"
    using assms(6) git_sub_rules_cwd [of "fl_cwd ?fs" "\<lparr>g_sub = sub, g_args = args, g_cwd = []\<rparr>"] by auto
  ultimately show "seg_rules ?fs \<noteq> None" using git_rules_hit [of ?fs sub args] assms(5) by simp
qed

text \<open>
  The view through wrappers ends after sixteen of them: behind seventeen \<open>nohup\<close> the floor no
  longer sees the \<open>git stash\<close> it denies behind sixteen.
\<close>

theorem seventeen_wrappers_hide_a_command:
  "CheckFloor (probe_request demo_platform ''Bash'') [empty_segment\<lparr>Argv := replicate 17 ''nohup'' @ [''git'', ''stash'']\<rparr>] = None
   \<and> CheckFloor (probe_request demo_platform ''Bash'') [empty_segment\<lparr>Argv := replicate 16 ''nohup'' @ [''git'', ''stash'']\<rparr>]
     = floorHit ''no-stash''"
proof (rule conjI)
  show "CheckFloor (probe_request demo_platform ''Bash'') [empty_segment\<lparr>Argv := replicate 17 ''nohup'' @ [''git'', ''stash'']\<rparr>] = None"
    by code_simp
  show "CheckFloor (probe_request demo_platform ''Bash'') [empty_segment\<lparr>Argv := replicate 16 ''nohup'' @ [''git'', ''stash'']\<rparr>]
     = floorHit ''no-stash''"
    by code_simp
qed


end
