(* ===== verification/PermDecideProps.thy ===== *)
theory PermDecideProps
  imports PermDecide PermFloorProps PermSplitQuote
begin

text \<open>
  What the decision guarantees. \<open>decision_spec\<close> states the promise of the engine over the set of
  rules, with no order and no search; \<open>Decide\<close> is shown to implement it.
\<close>

definition rule_hits :: "policy_action \<Rightarrow> request \<Rightarrow> rule set \<Rightarrow> decision_unit list \<Rightarrow> bool" where
  "rule_hits act req R us \<longleftrightarrow> (\<exists>r\<in>R. rule_Action r = act \<and> (\<exists>u\<in>set us. unit_matches req r u))"

definition vouched :: "request \<Rightarrow> rule set \<Rightarrow> decision_unit \<Rightarrow> bool" where
  "vouched req R u \<longleftrightarrow> (\<exists>r\<in>R. rule_Action r = ActionAllow \<and> unit_matches req r u)"

definition plain_unit :: "decision_unit \<Rightarrow> bool" where
  "plain_unit u \<longleftrightarrow> (case u_seg u of None \<Rightarrow> True | Some g \<Rightarrow> \<not> Dynamic g \<and> Env g = [] \<and> Redirects g = [])"

text \<open>The verdict on units that can be judged: deny beats ask, ask beats allow, and an allow has to cover everything.\<close>

definition verdict :: "request \<Rightarrow> rule set \<Rightarrow> segment list \<Rightarrow> decision_unit list \<Rightarrow> policy_action" where
  "verdict req R gs us =
     (if rule_hits ActionDeny req R us then ActionDeny
      else if rule_hits ActionAsk req R us then ActionAsk
      else if us \<noteq> [] \<and> (\<forall>u\<in>set us. vouched req R u \<and> plain_unit u) \<and> Worktree req \<noteq> [] \<and> (\<forall>g\<in>set gs. \<not> Inspected g)
      then ActionAllow else ActionAsk)"

definition spec_bash :: "request \<Rightarrow> rule set \<Rightarrow> policy_action" where
  "spec_bash req R =
     (let p = splitCommand (Command req) (windows (plat req)); gs = Segments p; cwd = start_cwd req in
      if CheckFloor req gs \<noteq> None then ActionDeny
      else if Unparsed p \<noteq> [] \<or> (\<exists>g\<in>set gs. hidden_text_of req cwd g \<noteq> None) then ActionAsk
      else (case bashUnits req gs cwd of Inl e \<Rightarrow> ActionAsk | Inr us \<Rightarrow> verdict req R gs us))"

definition spec_tool :: "request \<Rightarrow> rule set \<Rightarrow> policy_action" where
  "spec_tool req R =
     (if CheckFloorPaths req \<noteq> None then ActionDeny
      else (case resolve_all (plat req) (start_cwd req) (Paths req) of
              Inl e \<Rightarrow> ActionAsk
            | Inr rs \<Rightarrow> verdict req R [] [\<lparr>u_seg = None, u_paths = rs, u_cwd = []\<rparr>]))"

definition decision_spec :: "request \<Rightarrow> rule set \<Rightarrow> policy_action" where
  "decision_spec req R =
     (if Truncated req \<or> Doubt req \<noteq> [] then ActionAsk
      else if is_bash req then spec_bash req R else spec_tool req R)"

section \<open>The search over the rules finds what the specification asks for\<close>

lemma find_None_iff_set: "find P xs = None \<longleftrightarrow> (\<forall>x\<in>set xs. \<not> P x)"
  by (auto simp: find_None_iff)

lemma first_hit_None: "first_hit act req rules us = None \<longleftrightarrow> \<not> rule_hits act req (set rules) us"
  by (auto simp: first_hit_def rule_hits_def find_None_iff_set list_ex_iff)

lemma first_hit_action: "first_hit act req rules us = Some r \<Longrightarrow> rule_Action r = act"
  by (auto simp: first_hit_def find_Some_iff)

lemma first_some_None: "first_some xs = None \<longleftrightarrow> (\<forall>x\<in>set xs. x = None)"
  by (induction xs rule: first_some.induct) auto

lemma covering_None: "covering req rules u = None \<longleftrightarrow> \<not> vouched req (set rules) u"
  by (auto simp: covering_def vouched_def find_None_iff_set)

lemma restricted_None: "restricted_reason i u = None \<longleftrightarrow> plain_unit u"
  by (simp add: restricted_reason_def plain_unit_def split: option.splits)

lemma enumerate_all_None:
  assumes "\<And>i u. f i u = None \<longleftrightarrow> P u"
  shows "(\<forall>x\<in>set (map (\<lambda>(i, u). f i u) (enumerate n us)). x = None) \<longleftrightarrow> (\<forall>u\<in>set us. P u)"
  using assms by (induction us arbitrary: n) auto

lemma allow_refusal_None:
  "allow_refusal req rules us = None \<longleftrightarrow>
     us \<noteq> [] \<and> (\<forall>u\<in>set us. vouched req (set rules) u \<and> plain_unit u) \<and> Worktree req \<noteq> []"
proof -
  have c: "(\<forall>x\<in>set (map (\<lambda>(i, u). if covering req rules u = None then Some (uncovered_reason i u) else None) (enumerate 0 us)). x = None)
      \<longleftrightarrow> (\<forall>u\<in>set us. vouched req (set rules) u)"
    by (rule enumerate_all_None) (simp add: covering_None)
  have r: "(\<forall>x\<in>set (map (\<lambda>(i, u). restricted_reason i u) (enumerate 0 us)). x = None) \<longleftrightarrow> (\<forall>u\<in>set us. plain_unit u)"
    by (rule enumerate_all_None) (simp add: restricted_None)
  have "first_some
       (map (\<lambda>(i, u). if covering req rules u = None then Some (uncovered_reason i u) else None) (enumerate 0 us)
        @ map (\<lambda>(i, u). restricted_reason i u) (enumerate 0 us)
        @ [if Worktree req = [] then Some ''no task worktree known for this request'' else None]) = None
      \<longleftrightarrow> (\<forall>u\<in>set us. vouched req (set rules) u) \<and> (\<forall>u\<in>set us. plain_unit u) \<and> Worktree req \<noteq> []"
    by (simp only: first_some_None set_append ball_Un c r) auto
  moreover have "list_all (\<lambda>u. covering req rules u = None) us \<longleftrightarrow> (\<forall>u\<in>set us. \<not> vouched req (set rules) u)"
    by (simp add: list_all_iff covering_None)
  ultimately show ?thesis unfolding allow_refusal_def by (cases us) auto
qed

lemma enumerate_inspected: "find (\<lambda>(i, g). Inspected g) (enumerate n gs) = None \<longleftrightarrow> (\<forall>g\<in>set gs. \<not> Inspected g)"
  by (induction gs arbitrary: n) auto

lemma actions_distinct [simp]:
  "ActionAllow \<noteq> ActionDeny" "ActionAllow \<noteq> ActionAsk" "ActionDeny \<noteq> ActionAllow" "ActionDeny \<noteq> ActionAsk"
  "ActionAsk \<noteq> ActionAllow" "ActionAsk \<noteq> ActionDeny"
  by (simp_all add: action_defs)

lemma withdraw_action:
  "d_Action (withdraw_inspected gs out) =
     (if d_Action out = ActionAllow \<and> (\<exists>g\<in>set gs. Inspected g) then ActionAsk else d_Action out)"
  using enumerate_inspected [of 0 gs] by (auto simp: withdraw_inspected_def split: option.splits)

lemma evaluate_action:
  assumes "d_Action d = ActionAsk"
  shows "d_Action (withdraw_inspected gs (evaluateRules d req rules gs us)) = verdict req (set rules) gs us"
proof (cases "first_hit ActionDeny req rules us")
  case (Some r)
  then have "rule_hits ActionDeny req (set rules) us" using first_hit_None [of ActionDeny req rules us] by simp
  then show ?thesis using Some first_hit_action [OF Some]
    by (simp add: withdraw_action evaluateRules_def hit_decision_def verdict_def)
next
  case deny: None
  show ?thesis
  proof (cases "first_hit ActionAsk req rules us")
    case (Some r)
    then have "rule_hits ActionAsk req (set rules) us" using first_hit_None [of ActionAsk req rules us] by simp
    then show ?thesis using Some deny first_hit_action [OF Some] first_hit_None [of ActionDeny req rules us]
      by (simp add: withdraw_action evaluateRules_def hit_decision_def verdict_def)
  next
    case None
    let ?A = "us \<noteq> [] \<and> (\<forall>u\<in>set us. vouched req (set rules) u \<and> plain_unit u) \<and> Worktree req \<noteq> []"
    have v: "verdict req (set rules) gs us = (if ?A \<and> (\<forall>g\<in>set gs. \<not> Inspected g) then ActionAllow else ActionAsk)"
      unfolding verdict_def using deny None first_hit_None by auto
    have "d_Action (evaluateRules d req rules gs us) = (if ?A then ActionAllow else ActionAsk)"
      unfolding evaluateRules_def deny None option.case allow_refusal_None [symmetric]
      by (cases "allow_refusal req rules us") (simp_all add: assms allow_decision_def Let_def)
    then show ?thesis unfolding withdraw_action v by auto
  qed
qed

lemma first_some_Some: "first_some xs = Some x \<Longrightarrow> Some x \<in> set xs"
  by (induction xs rule: first_some.induct) auto

lemma prepare_bash_cases:
  assumes "d_Action d = ActionAsk" "p = splitCommand (Command req) (windows (plat req))" "gs = Segments p"
  obtains (floor) h out where "CheckFloor req gs = Some h" "prepare_bash d req = Inl out" "d_Action out = ActionDeny"
    | (doubt) out where "CheckFloor req gs = None" "prepare_bash d req = Inl out" "d_Action out = ActionAsk"
        "Unparsed p \<noteq> [] \<or> (\<exists>g\<in>set gs. hidden_text_of req (start_cwd req) g \<noteq> None)
          \<or> (\<exists>e. bashUnits req gs (start_cwd req) = Inl e)"
    | (units) us d' where "CheckFloor req gs = None" "Unparsed p = []" "\<forall>g\<in>set gs. hidden_text_of req (start_cwd req) g = None"
        "bashUnits req gs (start_cwd req) = Inr us" "prepare_bash d req = Inr (d', gs, us)" "d_Action d' = ActionAsk"
proof (cases "CheckFloor req gs")
  case (Some h)
  then show thesis using assms by (intro floor) (auto simp: prepare_bash_def floorDecision_def Let_def)
next
  case None
  note c = this assms
  show thesis
  proof (cases "first_some (map (hidden_text_of req (start_cwd req)) gs)")
    case (Some a)
    then have "\<exists>g\<in>set gs. hidden_text_of req (start_cwd req) g \<noteq> None" using first_some_None [of "map (hidden_text_of req (start_cwd req)) gs"] by auto
    moreover obtain out where "prepare_bash d req = Inl out" "d_Action out = ActionAsk"
      using c Some by (cases "Unparsed p = []") (simp_all add: prepare_bash_def Let_def)
    ultimately show thesis using c by (intro doubt) blast+
  next
    case n: None
    then have "\<forall>g\<in>set gs. hidden_text_of req (start_cwd req) g = None" by (simp add: first_some_None)
    then show thesis using c n units doubt
      by (cases "Unparsed p = []"; cases "bashUnits req gs (start_cwd req)") (auto simp: prepare_bash_def Let_def)
  qed
qed

text \<open>
  The reason of a withdrawn allow reads the first word of an inspected segment; there is one, since
  rules are only evaluated when the splitter has reported no doubt.
\<close>

lemma withdrawn_allow_has_word:
  assumes "prepare_bash d req = Inr (d', gs, us)" "g \<in> set gs" "Inspected g"
  shows "Argv g \<noteq> []"
proof -
  have "Unparsed (splitCommand (Command req) (windows (plat req))) = []" "gs = Segments (splitCommand (Command req) (windows (plat req)))"
    using assms(1) by (auto simp: prepare_bash_def Let_def split: option.splits if_splits sum.splits)
  then show ?thesis using inspected_has_command assms(2,3) by blast
qed

lemma verdict_no_rules: "verdict req {} gs us = ActionAsk"
  by (simp add: verdict_def rule_hits_def vouched_def)

lemma Decide_bash:
  assumes "is_bash req" "\<not> Truncated req" "Doubt req = []"
  shows "d_Action (Decide req pol) = spec_bash req (case pol of None \<Rightarrow> {} | Some p \<Rightarrow> set (pol_Rules p))"
proof -
  let ?d = "empty_decision\<lparr>d_Action := ActionAsk, d_PolicySha := (case pol of Some p \<Rightarrow> pol_Sha p | None \<Rightarrow> [])\<rparr>"
  have "d_Action ?d = ActionAsk" by simp
  then show ?thesis
  proof (rule prepare_bash_cases [OF _ refl refl, of ?d req], goal_cases)
    case (3 us d')
    then show ?case using assms
      by (cases pol) (simp_all add: Decide_def spec_bash_def Let_def evaluate_action verdict_no_rules)
  qed (use assms in \<open>auto simp: Decide_def spec_bash_def Let_def\<close>)
qed

lemma Decide_tool:
  assumes "\<not> is_bash req" "\<not> Truncated req" "Doubt req = []"
  shows "d_Action (Decide req pol) = spec_tool req (case pol of None \<Rightarrow> {} | Some p \<Rightarrow> set (pol_Rules p))"
  using assms
  by (cases pol) (auto simp: Decide_def spec_tool_def prepare_tool_def Let_def evaluate_action verdict_no_rules split: option.splits sum.splits)

text \<open>
  C1. The engine implements its specification, which knows only the set of rules and not their
  order in the file: a truncated or doubtful request is asked; a floor hit is denied whatever the
  policy says; a command the splitter cannot analyse, that hides the text it runs or whose paths
  do not resolve is asked; otherwise a matching deny rule wins over a matching ask rule, that over
  an allow, and an allow is given only when every segment has an allow rule of its own, no
  segment is dynamic, assigns variables or redirects, the worktree is known, and no segment is a
  script host. A missing policy is the empty set of rules.
\<close>

theorem Decide_implements_spec:
  "d_Action (Decide req pol) = decision_spec req (case pol of None \<Rightarrow> {} | Some p \<Rightarrow> set (pol_Rules p))"
proof (cases "Truncated req \<or> Doubt req \<noteq> []")
  case True
  then show ?thesis by (auto simp: Decide_def decision_spec_def Let_def)
next
  case False
  then show ?thesis using Decide_bash [of req pol] Decide_tool [of req pol] by (simp add: decision_spec_def)
qed


section \<open>A git command the floor denies stays denied behind wrappers\<close>

text \<open>
  C28. No policy and no wrapper lets a git command through that the floor forbids (a stash, a
  merge, a forced push, a push to a protected branch, a tag, a blanket add): wherever it stands in
  the line, and behind up to sixteen of \<open>env\<close>, \<open>nohup\<close>, \<open>command\<close>, \<open>exec\<close>, \<open>nice\<close>, \<open>time\<close>, \<open>xargs\<close> and
  \<open>builtin\<close>, the request is denied.
\<close>

theorem wrapped_git_command_is_denied:
  assumes "is_bash req" "\<not> Truncated req" "Doubt req = []"
    and "g \<in> set (Segments (splitCommand (Command req) (windows (plat req))))"
    and "Argv g = ws @ ''git'' # sub # args" "set ws \<subseteq> set plain_wrappers" "length ws \<le> 16"
    and "\<not> HasPrefix sub ''-''" "git_sub_rules \<lparr>g_sub = sub, g_args = args, g_cwd = []\<rparr> \<noteq> None"
  shows "d_Action (Decide req pol) = ActionDeny"
  using wrapped_git_hits [OF assms(4-9)] Decide_bash [OF assms(1-3)] by (simp add: spec_bash_def Let_def)

definition demo_bash :: "string list \<Rightarrow> request" where
  "demo_bash argv = (probe_request demo_platform ''Bash'')\<lparr>Command := render_commands [] argv\<rparr>"

lemma demo_bash_fields:
  "is_bash (demo_bash argv)" "\<not> Truncated (demo_bash argv)" "Doubt (demo_bash argv) = []"
  "Command (demo_bash argv) = render_words argv" "plat (demo_bash argv) = demo_platform"
  by (simp_all add: demo_bash_def probe_request_def Let_def is_bash_def)

lemma demo_split:
  assumes "plain_argv argv" "length (render_words argv) \<le> maxCommandBytes"
  shows "splitCommand (render_words argv) win =
    \<lparr>Segments = [plain_segment argv False], Normalized = render_words argv, HeredocBytes = 0, Unparsed = [], p_bodies = []\<rparr>"
  using split_quoted [of "[]" argv win] assms by (simp add: segment_list_def)

lemma plain_git: "plain_argv [''git'', ''stash'']"
proof -
  have "winShellDialect ''git'' = DialectNone" by code_simp
  then show ?thesis
    by (simp add: plain_argv_def name_ok_def opaque_name_def isShellEval_def HasPrefix_def is_wrapper_def less_Suc_eq
        isShell_def base_name_def)
qed

theorem wrapped_git_command_is_denied_witness:
  "d_Action (Decide (demo_bash [''git'', ''stash'']) None) = ActionDeny"
proof (rule wrapped_git_command_is_denied)
  show "plain_segment [''git'', ''stash''] False \<in>
      set (Segments (splitCommand (Command (demo_bash [''git'', ''stash''])) (windows (plat (demo_bash [''git'', ''stash''])))))"
    using demo_split [OF plain_git] by (simp add: demo_bash_fields maxCommandBytes_def quote_word_def)
  show "Argv (plain_segment [''git'', ''stash''] False) = [] @ ''git'' # ''stash'' # []" by (simp add: plain_segment_def)
  show "git_sub_rules \<lparr>g_sub = ''stash'', g_args = [], g_cwd = []\<rparr> \<noteq> None" by code_simp
qed (simp_all add: demo_bash_fields HasPrefix_def)

end
