(* ===== verification/PermScope.thy ===== *)
theory PermScope
  imports PermDecideProps
begin

text \<open>
  Loading and deciding together: what an allow under a loaded policy says about the paths of the
  request, and where that ends.
\<close>

definition request_units :: "request \<Rightarrow> decision_unit list option" where
  "request_units req =
     (if is_bash req then
        (case bashUnits req (Segments (splitCommand (Command req) (windows (plat req)))) (start_cwd req) of
           Inl e \<Rightarrow> None | Inr us \<Rightarrow> Some us)
      else (case resolve_all (plat req) (start_cwd req) (Paths req) of
              Inl e \<Rightarrow> None | Inr rs \<Rightarrow> Some [\<lparr>u_seg = None, u_paths = rs, u_cwd = []\<rparr>]))"

text \<open>\<open>confined req roots q\<close>: the path lies under what one of the roots resolves to.\<close>

definition confined :: "request \<Rightarrow> string list \<Rightarrow> string \<Rightarrow> bool" where
  "confined req roots q \<longleftrightarrow> (\<exists>root\<in>set roots. \<exists>r. resolve (plat req) root [] = Inr r \<and> pl_under (plat req) q r)"

text \<open>The unit is inside the scope of the rule, and for a command the rule names the command.\<close>

definition scoped :: "request \<Rightarrow> rule \<Rightarrow> decision_unit \<Rightarrow> bool" where
  "scoped req r u \<longleftrightarrow>
     (\<exists>ps roots. m_Paths (rule_Match r) = Some ps \<and> scope_roots req (Within ps) = Some roots
        \<and> (\<forall>q\<in>set (u_paths u). confined req roots q) \<and> (u_seg u \<noteq> None \<longrightarrow> confined req roots (u_cwd u)))
     \<and> (\<forall>g. u_seg u = Some g \<longrightarrow>
         (\<exists>c. m_Command (rule_Match r) = Some c \<and> Argv0 c \<noteq> [] \<and> Argv g \<noteq> [] \<and> hd (Argv g) = Argv0 c))"

lemma within_confined: "within (plat req) q roots \<longleftrightarrow> confined req roots q"
proof -
  have "(case x of Inl e \<Rightarrow> False | Inr r \<Rightarrow> P r) \<longleftrightarrow> (\<exists>r. x = Inr r \<and> P r)" for x :: "path_error + string" and P
    by (cases x) auto
  then show ?thesis by (simp add: within_def confined_def list_ex_iff)
qed

lemma matchCommand_argv0: "matchCommand c req g \<Longrightarrow> Argv g \<noteq> [] \<and> hd (Argv g) = Argv0 c"
  by (auto simp: matchCommand_def split: list.splits if_splits)

lemma matchRule_parts:
  assumes "matchRule r req g ps cwd"
  shows "m_Tool (rule_Match r) \<noteq> [] \<Longrightarrow> m_Tool (rule_Match r) = Tool req"
    and "m_Command (rule_Match r) = Some c \<Longrightarrow> \<exists>s. g = Some s \<and> matchCommand c req s"
    and "m_Paths (rule_Match r) = Some pm \<Longrightarrow> Within pm \<noteq> [] \<Longrightarrow> withinScope (Within pm) req g ps cwd"
  using assms unfolding matchRule_def Let_def by (auto split: option.splits if_splits)

lemma withinScope_confined:
  assumes "withinScope ws req g ps cwd"
  obtains roots where "scope_roots req ws = Some roots" "\<forall>q\<in>set ps. confined req roots q" "g \<noteq> None \<longrightarrow> confined req roots cwd"
proof -
  from assms obtain roots where "scope_roots req ws = Some roots" by (auto simp: withinScope_def split: option.splits)
  with assms show thesis
    by (intro that [of roots]) (auto simp: withinScope_def within_confined list_all_iff split: if_splits)
qed

lemma vouched_scoped:
  assumes "wf_rule pl r" "rule_Action r = ActionAllow" "unit_matches req r u" "Tool req \<in> set mutatingTools"
    and "u_seg u \<noteq> None \<Longrightarrow> Tool req = ''Bash''"
  shows "scoped req r u"
proof -
  have m: "matchRule r req (u_seg u) (u_paths u) (u_cwd u)" using assms(3) by (simp add: unit_matches_def)
  have a: "wf_allow (rule_Match r)" using assms(1,2) by (simp add: wf_rule_def)
  have t: "m_Tool (rule_Match r) = Tool req" using matchRule_parts(1) [OF m] a by (simp add: wf_allow_def)
  obtain ps where ps: "m_Paths (rule_Match r) = Some ps" "Within ps \<noteq> []"
    using a t assms(4) by (auto simp: wf_allow_def)
  obtain roots where roots: "scope_roots req (Within ps) = Some roots" "\<forall>q\<in>set (u_paths u). confined req roots q"
      "u_seg u \<noteq> None \<longrightarrow> confined req roots (u_cwd u)"
    using withinScope_confined [OF matchRule_parts(3) [OF m ps]] .
  have "\<exists>c. m_Command (rule_Match r) = Some c \<and> Argv0 c \<noteq> [] \<and> Argv g \<noteq> [] \<and> hd (Argv g) = Argv0 c" if g: "u_seg u = Some g" for g
  proof -
    obtain c where c: "m_Command (rule_Match r) = Some c" "Argv0 c \<noteq> []" using a t assms(5) g by (auto simp: wf_allow_def)
    then show ?thesis using matchRule_parts(2) [OF m c(1)] matchCommand_argv0 g by auto
  qed
  then show ?thesis using ps roots unfolding scoped_def by blast
qed

lemma verdict_allow: "verdict req R gs us = ActionAllow \<Longrightarrow> us \<noteq> [] \<and> (\<forall>u\<in>set us. vouched req R u)"
  by (auto simp: verdict_def split: if_splits)

lemma allowed_units:
  assumes "d_Action (Decide req (Some p)) = ActionAllow"
  obtains us where "request_units req = Some us" "us \<noteq> []" "\<forall>u\<in>set us. vouched req (set (pol_Rules p)) u"
proof -
  have ok: "\<not> Truncated req" "Doubt req = []"
    using assms by (auto simp: Decide_def Let_def empty_decision_def split: if_splits)
  show thesis
  proof (cases "is_bash req")
    case True
    then have "spec_bash req (set (pol_Rules p)) = ActionAllow" using Decide_bash [OF True ok, of "Some p"] assms by simp
    then show thesis using True that verdict_allow
      by (auto simp: spec_bash_def Let_def request_units_def split: if_splits sum.splits)
  next
    case False
    then have "spec_tool req (set (pol_Rules p)) = ActionAllow" using Decide_tool [OF False ok, of "Some p"] assms by simp
    then show thesis using False that verdict_allow
      by (fastforce simp: spec_tool_def request_units_def split: if_splits sum.splits)
  qed
qed

lemma bash_units_seg: "request_units req = Some us \<Longrightarrow> u \<in> set us \<Longrightarrow> u_seg u \<noteq> None \<Longrightarrow> is_bash req"
  by (auto simp: request_units_def split: if_splits sum.splits)

text \<open>
  C2. An allow given by a loaded policy to a tool that can write is confined: the request has at
  least one unit, and every unit is covered by an allow rule whose path scope contains every
  resolved path of the unit and, for a shell command, the directory it runs in; the rule names the
  command that the segment runs.
\<close>

theorem allowed_request_stays_in_scope:
  assumes "loadPolicy lib pl data = Inr p" "d_Action (Decide req (Some p)) = ActionAllow" "Tool req \<in> set mutatingTools"
  shows "\<exists>us. request_units req = Some us \<and> us \<noteq> []
    \<and> (\<forall>u\<in>set us. \<exists>r\<in>set (pol_Rules p). rule_Action r = ActionAllow \<and> scoped req r u)"
proof -
  obtain us where us: "request_units req = Some us" "us \<noteq> []" "\<forall>u\<in>set us. vouched req (set (pol_Rules p)) u"
    using allowed_units [OF assms(2)] .
  have wf: "\<forall>r\<in>set (pol_Rules p). wf_rule pl r" using loadPolicy_Inr [OF assms(1)] by (simp add: wf_policy_def)
  have bash: "Tool req = ''Bash''" if "u \<in> set us" "u_seg u \<noteq> None" for u
    using bash_units_seg [OF us(1) that] assms(3) by (auto simp: is_bash_def mutatingTools_def)
  have "\<exists>r\<in>set (pol_Rules p). rule_Action r = ActionAllow \<and> scoped req r u" if u: "u \<in> set us" for u
  proof -
    obtain r where "r \<in> set (pol_Rules p)" "rule_Action r = ActionAllow" "unit_matches req r u"
      using us(3) u by (auto simp: vouched_def)
    then show ?thesis using vouched_scoped [of pl r req u] wf assms(3) bash [OF u] by blast
  qed
  then show ?thesis using us by blast
qed

definition demo_edit :: request where
  "demo_edit = (probe_request demo_platform ''Edit'')\<lparr>Paths := [''a'']\<rparr>"

lemma demo_edit_allowed:
  "d_Action (Decide demo_edit (Some \<lparr>pol_Version = 1, pol_Rules = [demo_rule], pol_Sha = []\<rparr>)) = ActionAllow"
  by code_simp

theorem allowed_request_stays_in_scope_witness:
  "\<exists>us. request_units demo_edit = Some us \<and> us \<noteq> [] \<and> list_all (scoped demo_edit demo_rule) us"
proof -
  have "Tool demo_edit \<in> set mutatingTools" by (simp add: demo_edit_def probe_request_def mutatingTools_def)
  from allowed_request_stays_in_scope [OF demo_load demo_edit_allowed this] show ?thesis by (auto simp: list_all_iff)
qed


section \<open>An option that carries its value in the same word\<close>









end
